(* ===== verification/Strom_Prelude.thy ===== *)
theory Strom_Prelude
  imports Main "HOL-Library.Finite_Map" "HOL-Library.Monad_Syntax"
    "HOL-Library.Char_ord" "HOL-Library.List_Lexorder" "HOL-Library.Multiset"
begin

text \<open>
  Shared vocabulary of the development.

  \<^item> A Rust panic (\<open>assert!\<close>, \<open>expect\<close>, \<open>panic!\<close>) is the value \<open>None\<close> of an option; code that can
    panic runs in the option monad and states each assertion with \<open>require\<close>.
  \<^item> A Rust \<open>Result<T, E>\<close> is a sum \<open>'e + 'a\<close> with \<open>Inl\<close> for \<open>Err\<close>; a function that may both
    fail and panic returns an option of a sum, and \<open>and_then\<close> is Rust's \<open>?\<close> for it.
  \<^item> \<open>u64\<close> and \<open>usize\<close> values are natural numbers with the 64-bit limit written out in the
    checked operations; \<open>NonZeroU64\<close> is a subtype, so the limit and non-zeroness hold by type.
  \<^item> A Rust \<open>str\<close> is the list of its UTF-8 bytes (type \<open>string\<close>); the derived order of \<open>str\<close> is
    the lexicographic order of the bytes, as in the imported theories.
  \<^item> An ordered map (\<open>imbl::OrdMap\<close>) is a finite map; its in-order iteration is
    \<open>sorted_list_of_fmap\<close>.
\<close>

named_theorems u64_arith \<open>definitions of the checked 64-bit operations\<close>
named_theorems panic_free \<open>facts that discharge an assertion of the source\<close>

section \<open>Panics and results\<close>

definition require :: "bool \<Rightarrow> unit option" where
  "require b = (if b then Some () else None)"

lemma require_simps [simp]:
  "require True = Some ()"
  "require False = None"
  "require b = Some u \<longleftrightarrow> b"
  "require b = None \<longleftrightarrow> \<not> b"
  by (auto simp: require_def)

lemma require_bind [simp]: "Option.bind (require b) f = (if b then f () else None)"
  by (simp add: require_def)

lemma require_bind_Some: "Option.bind (require b) f = Some y \<longleftrightarrow> b \<and> f () = Some y"
  by (simp add: require_def)

definition and_then :: "('e + 'a) option \<Rightarrow> ('a \<Rightarrow> ('e + 'b) option) \<Rightarrow> ('e + 'b) option" where
  "and_then r f = (case r of None \<Rightarrow> None
     | Some (Inl e) \<Rightarrow> Some (Inl e)
     | Some (Inr x) \<Rightarrow> f x)"

lemma and_then_simps [simp]:
  "and_then None f = None"
  "and_then (Some (Inl e)) f = Some (Inl e)"
  "and_then (Some (Inr x)) f = f x"
  by (simp_all add: and_then_def)

lemma and_then_Inr:
  "and_then r f = Some (Inr y) \<longleftrightarrow> (\<exists>x. r = Some (Inr x) \<and> f x = Some (Inr y))"
  by (auto simp: and_then_def split: option.splits sum.splits)

text \<open>Rust's \<open>?\<close> on a plain result.\<close>

definition try_ok :: "'err + 'ok \<Rightarrow> ('ok \<Rightarrow> 'err + 'res) \<Rightarrow> 'err + 'res" where
  "try_ok r f = (case r of Inl e \<Rightarrow> Inl e | Inr x \<Rightarrow> f x)"

lemma try_ok_simps [simp]:
  "try_ok (Inl e) f = Inl e"
  "try_ok (Inr x) f = f x"
  by (simp_all add: try_ok_def)

lemma try_ok_Inr: "try_ok r f = Inr y \<longleftrightarrow> (\<exists>x. r = Inr x \<and> f x = Inr y)"
  by (cases r) simp_all

lemma try_ok_Inl: "try_ok r f = Inl e \<longleftrightarrow> r = Inl e \<or> (\<exists>x. r = Inr x \<and> f x = Inl e)"
  by (cases r) simp_all

definition map_err :: "('e \<Rightarrow> 'd) \<Rightarrow> 'e + 'a \<Rightarrow> 'd + 'a" where
  "map_err g r = (case r of Inl e \<Rightarrow> Inl (g e) | Inr x \<Rightarrow> Inr x)"

lemma map_err_simps [simp]:
  "map_err g (Inl e) = Inl (g e)"
  "map_err g (Inr x) = Inr x"
  by (simp_all add: map_err_def)

lemma map_err_Inr [simp]: "map_err g r = Inr x \<longleftrightarrow> r = Inr x"
  by (cases r) simp_all

definition ok_or :: "'e \<Rightarrow> 'a option \<Rightarrow> 'e + 'a" where
  "ok_or e x = (case x of None \<Rightarrow> Inl e | Some y \<Rightarrow> Inr y)"

lemma ok_or_simps [simp]:
  "ok_or e None = Inl e"
  "ok_or e (Some x) = Inr x"
  "ok_or e r = Inr y \<longleftrightarrow> r = Some y"
  "ok_or e r = Inl d \<longleftrightarrow> r = None \<and> d = e"
  by (auto simp: ok_or_def split: option.splits)

lemma map_err_Inl: "map_err f r = Inl e \<longleftrightarrow> (\<exists>d. r = Inl d \<and> e = f d)"
  by (cases r) (auto simp: map_err_def)

definition expect_ok :: "'e + 'a \<Rightarrow> 'a option" where
  "expect_ok r = (case r of Inl _ \<Rightarrow> None | Inr x \<Rightarrow> Some x)"

lemma expect_ok_simps [simp]:
  "expect_ok (Inl e) = None"
  "expect_ok (Inr x) = Some x"
  "expect_ok r = Some x \<longleftrightarrow> r = Inr x"
  by (auto simp: expect_ok_def split: sum.splits)

text \<open>A loop that pushes one converted element per step and returns at the first error.\<close>

fun try_map :: "('a \<Rightarrow> 'e + 'b) \<Rightarrow> 'a list \<Rightarrow> 'e + 'b list" where
  "try_map f [] = Inr []"
| "try_map f (x # xs) = try_ok (f x) (\<lambda>y. try_ok (try_map f xs) (\<lambda>ys. Inr (y # ys)))"

lemma try_map_Inr:
  assumes "\<And>x y. f x = Inr y \<longleftrightarrow> x = g y \<and> P y"
  shows "try_map f xs = Inr ys \<longleftrightarrow> xs = map g ys \<and> list_all P ys"
proof (induction xs arbitrary: ys)
  case (Cons x xs)
  then show ?case by (cases ys) (auto simp: try_ok_Inr assms)
qed auto

section \<open>Unsigned 64-bit integers\<close>

definition u64_max :: nat where
  "u64_max = 18446744073709551615"

lemma u64_max_pos [simp]: "0 < u64_max" "Suc 0 \<le> u64_max" "1 \<le> u64_max"
  by (simp_all add: u64_max_def)

definition checked_add :: "nat \<Rightarrow> nat \<Rightarrow> nat option" where
  "checked_add a b = (if a + b \<le> u64_max then Some (a + b) else None)"

definition checked_sub :: "nat \<Rightarrow> nat \<Rightarrow> nat option" where
  "checked_sub a b = (if b \<le> a then Some (a - b) else None)"

definition checked_mul :: "nat \<Rightarrow> nat \<Rightarrow> nat option" where
  "checked_mul a b = (if a * b \<le> u64_max then Some (a * b) else None)"

definition saturating_add :: "nat \<Rightarrow> nat \<Rightarrow> nat" where
  "saturating_add a b = min (a + b) u64_max"

lemmas [u64_arith] = checked_add_def checked_sub_def checked_mul_def saturating_add_def

lemma saturating_add_le: "a + b \<le> c \<Longrightarrow> saturating_add a b \<le> c"
  by (simp add: saturating_add_def min.coboundedI1)

lemma checked_add_Some [simp]:
  "checked_add a b = Some c \<longleftrightarrow> c = a + b \<and> a + b \<le> u64_max"
  by (auto simp: u64_arith)

lemma checked_add_None [simp]: "checked_add a b = None \<longleftrightarrow> u64_max < a + b"
  by (auto simp: u64_arith)

lemma checked_sub_Some [simp]: "checked_sub a b = Some c \<longleftrightarrow> b \<le> a \<and> c = a - b"
  by (auto simp: u64_arith)

lemma checked_sub_None [simp]: "checked_sub a b = None \<longleftrightarrow> a < b"
  by (auto simp: u64_arith)

subsection \<open>\<open>NonZeroU64\<close>\<close>

typedef nonzero_u64 = "{n :: nat. 0 < n \<and> n \<le> u64_max}"
  morphisms nz_get nz_abs
  by (rule exI [of _ 1]) simp

setup_lifting type_definition_nonzero_u64

text \<open>\<open>NonZeroU64::new\<close>: absent exactly for zero (its argument never exceeds the 64-bit limit).\<close>

lift_definition nz_of :: "nat \<Rightarrow> nonzero_u64" is
  "\<lambda>n. if 0 < n \<and> n \<le> u64_max then n else 1"
  by simp

definition nz_new :: "nat \<Rightarrow> nonzero_u64 option" where
  "nz_new n = (if 0 < n \<and> n \<le> u64_max then Some (nz_of n) else None)"

text \<open>\<open>NonZeroU64::MIN\<close>.\<close>

lift_definition nz_min :: nonzero_u64 is 1
  by simp

lemma nz_get_pos [simp]: "0 < nz_get x" "nz_get x \<noteq> 0" "Suc 0 \<le> nz_get x"
  using nz_get [of x] by auto

lemma nz_get_le [simp]: "nz_get x \<le> u64_max"
  using nz_get [of x] by auto

lemma nz_eq_iff: "x = y \<longleftrightarrow> nz_get x = nz_get y"
  by (simp add: nz_get_inject)

lemma nz_get_min [simp]: "nz_get nz_min = 1"
  by transfer simp

lemma nz_get_of [simp]: "0 < n \<Longrightarrow> n \<le> u64_max \<Longrightarrow> nz_get (nz_of n) = n"
  by transfer simp

lemma nz_of_get [simp]: "nz_of (nz_get x) = x"
  by (simp add: nz_eq_iff)

lemma nz_new_Some: "nz_new n = Some x \<longleftrightarrow> 0 < n \<and> n \<le> u64_max \<and> nz_get x = n"
  by (auto simp: nz_new_def)

lemma nz_new_None [simp]: "nz_new n = None \<longleftrightarrow> n = 0 \<or> u64_max < n"
  by (auto simp: nz_new_def)

lemma nz_new_get [simp]: "nz_new (nz_get x) = Some x"
  by (simp add: nz_new_Some)

instantiation nonzero_u64 :: linorder
begin

definition less_eq_nonzero_u64 :: "nonzero_u64 \<Rightarrow> nonzero_u64 \<Rightarrow> bool" where
  "x \<le> y \<longleftrightarrow> nz_get x \<le> nz_get y"

definition less_nonzero_u64 :: "nonzero_u64 \<Rightarrow> nonzero_u64 \<Rightarrow> bool" where
  "x < y \<longleftrightarrow> nz_get x < nz_get y"

instance
  by standard (auto simp: less_eq_nonzero_u64_def less_nonzero_u64_def nz_eq_iff)

end

instantiation nonzero_u64 :: equal
begin

definition equal_nonzero_u64 :: "nonzero_u64 \<Rightarrow> nonzero_u64 \<Rightarrow> bool" where
  "equal_nonzero_u64 x y \<longleftrightarrow> nz_get x = nz_get y"

instance
  by standard (simp add: equal_nonzero_u64_def nz_eq_iff)

end

section \<open>Lists\<close>

text \<open>A left fold whose step can fail and can panic, stopping at the first error.\<close>

fun try_fold :: "('s \<Rightarrow> 'x \<Rightarrow> ('e + 's) option) \<Rightarrow> 's \<Rightarrow> 'x list \<Rightarrow> ('e + 's) option" where
  "try_fold f s [] = Some (Inr s)"
| "try_fold f s (x # xs) = and_then (f s x) (\<lambda>s'. try_fold f s' xs)"

lemma try_fold_append:
  "try_fold f s (xs @ ys) = and_then (try_fold f s xs) (\<lambda>s'. try_fold f s' ys)"
  by (induction xs arbitrary: s) (auto simp: and_then_def split: option.splits sum.splits)

lemma try_fold_snoc:
  assumes "try_fold f s xs = Some (Inr t)"
  shows "try_fold f s (xs @ [x]) = f t x"
  using assms by (simp add: try_fold_append and_then_def split: option.splits sum.splits)

lemma try_fold_invariant:
  assumes "\<And>s x s'. P s \<Longrightarrow> f s x = Some (Inr s') \<Longrightarrow> P s'"
    and "P s" and "try_fold f s xs = Some (Inr t)"
  shows "P t"
  using assms(2,3)
  by (induction xs arbitrary: s) (auto simp: and_then_Inr intro: assms(1))

lemma map_filter_append: "List.map_filter f (xs @ ys) = List.map_filter f xs @ List.map_filter f ys"
  by (induction xs) (auto simp: List.map_filter_simps split: option.splits)

section \<open>Finite maps\<close>

lemma fcard_fmupd_new:
  assumes "fmlookup m k = None"
  shows "fcard (fmdom (fmupd k v m)) = Suc (fcard (fmdom m))"
  using assms by (simp add: fmdom_notI fcard_finsert_disjoint)

lemma fcard_fmupd_old:
  assumes "fmlookup m k = Some w"
  shows "fcard (fmdom (fmupd k v m)) = fcard (fmdom m)"
proof -
  from assms have "k |\<in>| fmdom m" by (rule fmdomI)
  then have "finsert k (fmdom m) = fmdom m" by auto
  then show ?thesis by simp
qed

lemma set_sorted_list_of_fmap:
  "(k, v) \<in> set (sorted_list_of_fmap m) \<longleftrightarrow> fmlookup m k = Some v"
  by (auto simp: sorted_list_of_fmap_def fmlookup_dom_iff image_iff intro: fmdomI)

lemma map_fst_sorted_list_of_fmap:
  "map fst (sorted_list_of_fmap m) = sorted_list_of_fset (fmdom m)"
  by (simp add: sorted_list_of_fmap_def comp_def)

lemma distinct_sorted_list_of_fset [simp]: "distinct (sorted_list_of_fset A)"
  by (simp add: sorted_list_of_fset.rep_eq)

lemma strict_sorted_list_of_fset [simp]: "sorted_wrt (<) (sorted_list_of_fset A)"
  by (simp add: sorted_list_of_fset.rep_eq)

lemma length_sorted_list_of_fmap [simp]: "length (sorted_list_of_fmap m) = fcard (fmdom m)"
  by (simp add: sorted_list_of_fmap_def sorted_list_of_fset.rep_eq fcard.rep_eq)

end
