(* ===== verification/Rust_Str.thy ===== *)
theory Rust_Str
  imports Strom_Prelude
begin

text \<open>
  The operations of Rust's \<open>str\<close> that the sources use, on the list of UTF-8 bytes of the string:
  \<open>split\<close>, \<open>split_once\<close>, \<open>trim\<close>, the ASCII case functions, decimal formatting with zero padding
  (\<open>{:020}\<close>) and decimal parsing. The lemmas give the round trips (split and join, format and
  parse) and the order of padded decimals that the key spellings and parsers rest on.
\<close>

section \<open>Splitting and joining\<close>

fun split_on :: "char \<Rightarrow> string \<Rightarrow> string list" where
  "split_on c [] = [[]]"
| "split_on c (x # xs) =
     (if x = c then [] # split_on c xs
      else (case split_on c xs of [] \<Rightarrow> [[x]] | y # ys \<Rightarrow> (x # y) # ys))"

fun join_with :: "char \<Rightarrow> string list \<Rightarrow> string" where
  "join_with c [] = []"
| "join_with c [s] = s"
| "join_with c (s # t # ss) = s @ c # join_with c (t # ss)"

lemma split_on_nonempty [simp]: "split_on c s \<noteq> []"
  by (induction s) (auto split: list.splits)

lemma join_split [simp]: "join_with c (split_on c s) = s"
proof (induction s)
  case (Cons x s)
  then show ?case
    by (cases "split_on c s"; cases "tl (split_on c s)") auto
qed simp

lemma split_on_free:
  assumes "c \<notin> set s"
  shows "split_on c s = [s]"
  using assms by (induction s) auto

lemma split_on_append:
  assumes "c \<notin> set s"
  shows "split_on c (s @ c # t) = s # split_on c t"
  using assms by (induction s) auto

lemma split_join:
  assumes "ss \<noteq> []" and "\<And>s. s \<in> set ss \<Longrightarrow> c \<notin> set s"
  shows "split_on c (join_with c ss) = ss"
  using assms
proof (induction c ss rule: join_with.induct)
  case (2 c s)
  then show ?case by (simp add: split_on_free)
next
  case (3 c s t ss)
  then show ?case by (simp add: split_on_append)
qed simp

lemma split_on_segments_free: "s \<in> set (split_on c t) \<Longrightarrow> c \<notin> set s"
proof (induction t arbitrary: s)
  case (Cons x t)
  then show ?case
    by (cases "split_on c t") (auto split: if_splits)
qed simp

fun split_once :: "char \<Rightarrow> string \<Rightarrow> (string \<times> string) option" where
  "split_once c [] = None"
| "split_once c (x # xs) =
     (if x = c then Some ([], xs)
      else map_option (\<lambda>(a, b). (x # a, b)) (split_once c xs))"

lemma split_once_Some:
  "split_once c s = Some (a, b) \<longleftrightarrow> s = a @ c # b \<and> c \<notin> set a"
proof (induction s arbitrary: a)
  case (Cons x s)
  then show ?case by (cases a) auto
qed simp

lemma split_once_None: "split_once c s = None \<longleftrightarrow> c \<notin> set s"
  by (induction s) auto

text \<open>\<open>split_once\<close> with a string pattern: the first place where the pattern occurs.\<close>

fun split_once_str :: "string \<Rightarrow> string \<Rightarrow> (string \<times> string) option" where
  "split_once_str p s =
     (if take (length p) s = p then Some ([], drop (length p) s)
      else (case s of [] \<Rightarrow> None
            | x # xs \<Rightarrow> map_option (\<lambda>(a, b). (x # a, b)) (split_once_str p xs)))"

declare split_once_str.simps [simp del]

lemma split_once_str_Some_append:
  "split_once_str p s = Some (a, b) \<Longrightarrow> s = a @ p @ b"
proof (induction p s arbitrary: a rule: split_once_str.induct)
  case (1 p s)
  show ?case
  proof (cases "take (length p) s = p")
    case True
    with "1.prems" have "a = []" "b = drop (length p) s"
      by (simp_all add: split_once_str.simps [of p s])
    with True show ?thesis by (metis append_Nil append_take_drop_id)
  next
    case False
    with "1.prems" obtain x xs a' where
      "s = x # xs" "split_once_str p xs = Some (a', b)" "a = x # a'"
      by (auto simp: split_once_str.simps [of p s] split: list.splits)
    with "1.IH" [OF False] show ?thesis by simp
  qed
qed

lemma split_once_str_first:
  assumes "hd p \<notin> set a" "p \<noteq> []"
  shows "split_once_str p (a @ p @ b) = Some (a, b)"
  using assms(1)
proof (induction a)
  case Nil
  then show ?case by (simp add: split_once_str.simps)
next
  case (Cons x a)
  from assms(2) Cons.prems have "take (length p) (x # a @ p @ b) \<noteq> p"
    by (cases p) auto
  with Cons show ?case by (subst split_once_str.simps) simp
qed

lemma split_once_str_absent:
  assumes "hd p \<notin> set s" "p \<noteq> []"
  shows "split_once_str p s = None"
  using assms
proof (induction s)
  case (Cons x s)
  then have "take (length p) (x # s) \<noteq> p" by (cases p) auto
  with Cons show ?case by (subst split_once_str.simps) simp
qed (simp add: split_once_str.simps)

section \<open>ASCII classes and case\<close>

definition code :: "char \<Rightarrow> nat" where
  "code c = of_char c"

definition is_ascii_digit :: "char \<Rightarrow> bool" where
  "is_ascii_digit c \<longleftrightarrow> 48 \<le> code c \<and> code c \<le> 57"

definition is_ascii_lowercase :: "char \<Rightarrow> bool" where
  "is_ascii_lowercase c \<longleftrightarrow> 97 \<le> code c \<and> code c \<le> 122"

definition is_ascii_uppercase :: "char \<Rightarrow> bool" where
  "is_ascii_uppercase c \<longleftrightarrow> 65 \<le> code c \<and> code c \<le> 90"

definition to_ascii_lowercase :: "string \<Rightarrow> string" where
  "to_ascii_lowercase s = map (\<lambda>c. if is_ascii_uppercase c then char_of (code c + 32) else c) s"

definition eq_ignore_ascii_case :: "string \<Rightarrow> string \<Rightarrow> bool" where
  "eq_ignore_ascii_case s t \<longleftrightarrow> to_ascii_lowercase s = to_ascii_lowercase t"

lemma code_less [simp]: "code c < 256"
  by (simp add: code_def)

lemma code_char_of [simp]: "n < 256 \<Longrightarrow> code (char_of n) = n"
  by (simp add: code_def)

lemma code_inject: "code c = code d \<longleftrightarrow> c = d"
  by (simp add: code_def)

lemma length_to_ascii_lowercase [simp]: "length (to_ascii_lowercase s) = length s"
  by (simp add: to_ascii_lowercase_def)

lemma to_ascii_lowercase_no_upper:
  "c \<in> set (to_ascii_lowercase s) \<Longrightarrow> \<not> is_ascii_uppercase c"
  by (auto simp: to_ascii_lowercase_def is_ascii_uppercase_def)

lemma to_ascii_lowercase_id:
  assumes "\<And>c. c \<in> set s \<Longrightarrow> \<not> is_ascii_uppercase c"
  shows "to_ascii_lowercase s = s"
  using assms by (induction s) (auto simp: to_ascii_lowercase_def)

lemma to_ascii_lowercase_idem [simp]:
  "to_ascii_lowercase (to_ascii_lowercase s) = to_ascii_lowercase s"
  by (rule to_ascii_lowercase_id) (rule to_ascii_lowercase_no_upper)

section \<open>Trimming\<close>

text \<open>
  \<open>str::trim\<close> removes Unicode \<open>White_Space\<close> at both ends. The one-byte members are tab to
  carriage return and space; the others are recognised by their UTF-8 bytes.
\<close>

definition ascii_space :: "char \<Rightarrow> bool" where
  "ascii_space c \<longleftrightarrow> (9 \<le> code c \<and> code c \<le> 13) \<or> code c = 32"

definition wide_space2 :: "nat \<Rightarrow> nat \<Rightarrow> bool" where
  "wide_space2 a b \<longleftrightarrow> a = 194 \<and> (b = 133 \<or> b = 160)"

definition wide_space3 :: "nat \<Rightarrow> nat \<Rightarrow> nat \<Rightarrow> bool" where
  "wide_space3 a b c \<longleftrightarrow>
     (a = 225 \<and> b = 154 \<and> c = 128)
   \<or> (a = 226 \<and> b = 128 \<and> (128 \<le> c \<and> c \<le> 138 \<or> c = 168 \<or> c = 169 \<or> c = 175))
   \<or> (a = 226 \<and> b = 129 \<and> c = 159)
   \<or> (a = 227 \<and> b = 128 \<and> c = 128)"

fun trim_start :: "string \<Rightarrow> string" where
  "trim_start (x # y # z # s) =
     (if ascii_space x then trim_start (y # z # s)
      else if wide_space2 (code x) (code y) then trim_start (z # s)
      else if wide_space3 (code x) (code y) (code z) then trim_start s
      else x # y # z # s)"
| "trim_start [x, y] =
     (if ascii_space x then trim_start [y]
      else if wide_space2 (code x) (code y) then [] else [x, y])"
| "trim_start [x] = (if ascii_space x then [] else [x])"
| "trim_start [] = []"

text \<open>The same from the end, on the reversed bytes.\<close>

fun trim_rev :: "string \<Rightarrow> string" where
  "trim_rev (x # y # z # s) =
     (if ascii_space x then trim_rev (y # z # s)
      else if wide_space2 (code y) (code x) then trim_rev (z # s)
      else if wide_space3 (code z) (code y) (code x) then trim_rev s
      else x # y # z # s)"
| "trim_rev [x, y] =
     (if ascii_space x then trim_rev [y]
      else if wide_space2 (code y) (code x) then [] else [x, y])"
| "trim_rev [x] = (if ascii_space x then [] else [x])"
| "trim_rev [] = []"

definition trim :: "string \<Rightarrow> string" where
  "trim s = rev (trim_rev (rev (trim_start s)))"

definition visible :: "char \<Rightarrow> bool" where
  "visible c \<longleftrightarrow> 33 \<le> code c \<and> code c \<le> 126"

lemma trim_start_visible: "visible x \<Longrightarrow> trim_start (x # s) = x # s"
  by (cases s; cases "tl s")
    (auto simp: visible_def ascii_space_def wide_space2_def wide_space3_def)

lemma trim_rev_visible: "visible x \<Longrightarrow> trim_rev (x # s) = x # s"
  by (cases s; cases "tl s")
    (auto simp: visible_def ascii_space_def wide_space2_def wide_space3_def)

lemma trim_visible:
  assumes "\<And>c. c \<in> set s \<Longrightarrow> visible c"
  shows "trim s = s"
proof (cases s)
  case Nil
  then show ?thesis by (simp add: trim_def)
next
  case (Cons x t)
  with assms have start: "trim_start s = s"
    by (simp add: trim_start_visible)
  from Cons assms obtain y r where "rev s = y # r" "visible y"
    by (metis list.set_intros(1) neq_Nil_conv rev_is_Nil_conv set_rev)
  then have "trim_rev (rev s) = rev s"
    by (simp add: trim_rev_visible)
  with start show ?thesis by (simp add: trim_def)
qed

lemma trim_space_visible:
  assumes "\<And>c. c \<in> set s \<Longrightarrow> visible c" "s \<noteq> []"
  shows "trim (CHR '' '' # s) = s"
proof -
  from assms obtain x t where s: "s = x # t" "visible x"
    by (cases s) auto
  have "trim_start (CHR '' '' # s) = trim_start s"
    using s(1)
    by (cases t) (auto simp: ascii_space_def code_def)
  then show ?thesis
    using trim_visible [OF assms(1)] by (simp add: trim_def)
qed

section \<open>Decimal numbers\<close>

definition digit_char :: "nat \<Rightarrow> char" where
  "digit_char d = char_of (48 + d)"

definition digit_value :: "char \<Rightarrow> nat" where
  "digit_value c = code c - 48"

lemma digit_char_simps [simp]:
  "d < 10 \<Longrightarrow> is_ascii_digit (digit_char d)"
  "d < 10 \<Longrightarrow> digit_value (digit_char d) = d"
  "d < 10 \<Longrightarrow> code (digit_char d) = 48 + d"
  by (simp_all add: is_ascii_digit_def digit_value_def digit_char_def)

fun dec :: "nat \<Rightarrow> string" where
  "dec n = (if n < 10 then [digit_char n] else dec (n div 10) @ [digit_char (n mod 10)])"

declare dec.simps [simp del]

text \<open>The format \<open>{:0w}\<close>.\<close>

definition pad :: "nat \<Rightarrow> nat \<Rightarrow> string" where
  "pad w n = replicate (w - length (dec n)) (digit_char 0) @ dec n"

text \<open>The value of a digit string, and \<open>str::parse::<u64>\<close>.\<close>

definition digits_value :: "string \<Rightarrow> nat" where
  "digits_value s = foldl (\<lambda>acc c. acc * 10 + digit_value c) 0 s"

fun parse_digits :: "nat \<Rightarrow> string \<Rightarrow> nat option" where
  "parse_digits acc [] = Some acc"
| "parse_digits acc (c # s) =
     (if is_ascii_digit c
      then checked_mul acc 10 \<bind> (\<lambda>x. checked_add x (digit_value c)) \<bind> (\<lambda>x. parse_digits x s)
      else None)"

definition parse_u64 :: "string \<Rightarrow> nat option" where
  "parse_u64 s = (case s of
      [] \<Rightarrow> None
    | c # t \<Rightarrow> if c = CHR ''+'' then (if t = [] then None else parse_digits 0 t)
              else parse_digits 0 s)"

fun fixed :: "nat \<Rightarrow> nat \<Rightarrow> string" where
  "fixed 0 n = []"
| "fixed (Suc w) n = fixed w (n div 10) @ [digit_char (n mod 10)]"

lemma length_fixed [simp]: "length (fixed w n) = w"
  by (induction w arbitrary: n) auto

lemma fixed_zero: "fixed w 0 = replicate w (digit_char 0)"
  by (induction w) (auto simp: replicate_append_same)

lemma fixed_digits: "c \<in> set (fixed w n) \<Longrightarrow> is_ascii_digit c"
  by (induction w arbitrary: n) auto

lemma pad_fixed: "n < 10 ^ w \<Longrightarrow> 0 < w \<Longrightarrow> pad w n = fixed w n"
proof (induction w arbitrary: n)
  case (Suc w)
  show ?case
  proof (cases "n < 10")
    case True
    then show ?thesis
      by (simp add: pad_def dec.simps [of n] fixed_zero)
  next
    case False
    with Suc.prems have n: "n div 10 < 10 ^ w" and w: "0 < w"
      by (auto intro: gr0I)
    from False have d: "dec n = dec (n div 10) @ [digit_char (n mod 10)]"
      by (simp add: dec.simps [of n])
    from Suc.IH [OF n w] d show ?thesis
      by (simp add: pad_def)
  qed
qed simp

lemma digits_value_snoc: "digits_value (s @ [c]) = digits_value s * 10 + digit_value c"
  by (simp add: digits_value_def)

lemma digits_value_fixed: "n < 10 ^ w \<Longrightarrow> digits_value (fixed w n) = n"
proof (induction w arbitrary: n)
  case 0
  then show ?case by (simp add: digits_value_def)
next
  case (Suc w)
  then have "n div 10 < 10 ^ w" by auto
  with Suc.IH show ?case
    by (simp add: digits_value_snoc)
qed

lemma digits_value_replicate0: "digits_value (replicate k (digit_char 0) @ s) = digits_value s"
  by (induction k) (simp_all add: digits_value_def)

lemma digits_value_dec: "digits_value (dec n) = n"
proof (induction n rule: dec.induct)
  case (1 n)
  then show ?case
    by (cases "n < 10")
      (simp_all add: dec.simps [of n] digits_value_snoc, simp add: digits_value_def)
qed

lemma dec_digits: "c \<in> set (dec n) \<Longrightarrow> is_ascii_digit c"
proof (induction n rule: dec.induct)
  case (1 n)
  then show ?case
    by (cases "n < 10") (auto simp: dec.simps [of n])
qed

lemma dec_nonempty [simp]: "dec n \<noteq> []"
  by (subst dec.simps) simp

lemma foldl_digits_mono:
  "a \<le> foldl (\<lambda>acc c. acc * 10 + digit_value c) a s"
proof (induction s arbitrary: a)
  case (Cons c s)
  have "a \<le> a * 10 + digit_value c" by simp
  also have "\<dots> \<le> foldl (\<lambda>acc c. acc * 10 + digit_value c) (a * 10 + digit_value c) s"
    by (rule Cons)
  finally show ?case by simp
qed simp

lemma parse_digits_Some:
  "a \<le> u64_max \<Longrightarrow> parse_digits a s = Some n \<longleftrightarrow>
     (\<forall>c\<in>set s. is_ascii_digit c) \<and> n = foldl (\<lambda>acc c. acc * 10 + digit_value c) a s
     \<and> n \<le> u64_max"
proof (induction s arbitrary: a)
  case (Cons c s)
  show ?case
  proof (cases "is_ascii_digit c \<and> a * 10 + digit_value c \<le> u64_max")
    case True
    then have "a * 10 \<le> u64_max" by simp
    with True Cons.IH show ?thesis
      by (simp add: checked_mul_def checked_add_def)
  next
    case False
    then show ?thesis
      using foldl_digits_mono [of "a * 10 + digit_value c" s]
      by (auto simp: checked_mul_def checked_add_def)
  qed
qed auto

lemma digit_not_plus: "is_ascii_digit c \<Longrightarrow> c \<noteq> CHR ''+''"
  by (auto simp: is_ascii_digit_def code_def)

lemma parse_u64_digits:
  assumes "s \<noteq> []" "\<forall>c\<in>set s. is_ascii_digit c"
  shows "parse_u64 s = (if digits_value s \<le> u64_max then Some (digits_value s) else None)"
proof -
  from assms obtain c t where s: "s = c # t" and c: "c \<noteq> CHR ''+''"
    by (cases s) (auto dest: digit_not_plus)
  then have "parse_u64 s = parse_digits 0 s"
    by (simp add: parse_u64_def)
  moreover have "parse_digits 0 s = (if digits_value s \<le> u64_max then Some (digits_value s) else None)"
    using assms(2) parse_digits_Some [of 0 s "digits_value s"]
    by (cases "parse_digits 0 s") (auto simp: digits_value_def parse_digits_Some)
  ultimately show ?thesis by simp
qed

lemma fixed_inject_value:
  "\<forall>c\<in>set s. is_ascii_digit c \<Longrightarrow> fixed (length s) (digits_value s) = s"
proof (induction s rule: rev_induct)
  case (snoc c s)
  then have "digit_value c < 10" and "digit_char (digit_value c) = c"
    by (auto simp: is_ascii_digit_def digit_value_def digit_char_def code_def)
  with snoc show ?case
    by (simp add: digits_value_snoc)
qed (simp add: digits_value_def)

text \<open>Padded decimals of one width compare lexicographically as their values do.\<close>

lemma digit_char_less: "a < 10 \<Longrightarrow> b < 10 \<Longrightarrow> digit_char a < digit_char b \<longleftrightarrow> a < b"
  by (simp add: less_char_def code_def [symmetric])

lemma snoc_less_same_length:
  fixes xs ys :: "'a::linorder list"
  assumes "length xs = length ys"
  shows "xs @ [x] < ys @ [y] \<longleftrightarrow> xs < ys \<or> (xs = ys \<and> x < y)"
  using assms
  by (induction xs ys rule: list_induct2) auto

lemma less_by_last_digit:
  fixes m n :: nat
  shows "m < n \<longleftrightarrow> m div 10 < n div 10 \<or> (m div 10 = n div 10 \<and> m mod 10 < n mod 10)"
proof -
  define q r q' r' where "q = m div 10" "r = m mod 10" "q' = n div 10" "r' = n mod 10"
  then have "m = 10 * q + r" "n = 10 * q' + r'" "r < 10" "r' < 10"
    by simp_all
  then show ?thesis
    unfolding q_r_q'_r'_def [symmetric] by auto
qed

lemma fixed_less:
  assumes "m < 10 ^ w" "n < 10 ^ w"
  shows "fixed w m < fixed w n \<longleftrightarrow> m < n"
  using assms
proof (induction w arbitrary: m n)
  case (Suc w)
  then have q: "m div 10 < 10 ^ w" "n div 10 < 10 ^ w"
    by auto
  have eq: "fixed w (m div 10) = fixed w (n div 10) \<longleftrightarrow> m div 10 = n div 10"
    using digits_value_fixed [OF q(1)] digits_value_fixed [OF q(2)] by metis
  have "m < n \<longleftrightarrow> m div 10 < n div 10 \<or> (m div 10 = n div 10 \<and> m mod 10 < n mod 10)"
    by (rule less_by_last_digit)
  then show ?case
    using Suc.IH [OF q] eq by (simp add: snoc_less_same_length digit_char_less)
qed simp

text \<open>Plain decimals are exactly the digit strings without a leading zero.\<close>

definition plain_decimal :: "string \<Rightarrow> bool" where
  "plain_decimal s \<longleftrightarrow>
     s \<noteq> [] \<and> list_all is_ascii_digit s \<and> (1 < length s \<longrightarrow> hd s \<noteq> digit_char 0)"

lemma digit_char_value: "is_ascii_digit c \<Longrightarrow> digit_char (digit_value c) = c"
  by (auto simp: is_ascii_digit_def digit_value_def digit_char_def code_def)

lemma digit_value_less: "is_ascii_digit c \<Longrightarrow> digit_value c < 10"
  by (auto simp: is_ascii_digit_def digit_value_def)

lemma digits_value_pos:
  assumes "list_all is_ascii_digit s" "s \<noteq> []" "hd s \<noteq> digit_char 0"
  shows "0 < digits_value s"
proof -
  obtain c t where s: "s = c # t" using assms(2) by (cases s) auto
  with assms have "digit_char (digit_value c) \<noteq> digit_char 0"
    by (simp add: digit_char_value)
  then have "digit_value c \<noteq> 0" by metis
  then have "0 < digit_value c" by simp
  also have "\<dots> \<le> digits_value s"
    using foldl_digits_mono [of "digit_value c" t] by (simp add: s digits_value_def)
  finally show ?thesis .
qed

lemma dec_digits_value: "plain_decimal s \<Longrightarrow> dec (digits_value s) = s"
proof (induction s rule: rev_induct)
  case (snoc c s)
  then have c: "is_ascii_digit c" by (simp add: plain_decimal_def)
  show ?case
  proof (cases "s = []")
    case True
    with c show ?thesis
      by (simp add: digits_value_def dec.simps [of "digit_value c"] digit_value_less digit_char_value)
  next
    case False
    with snoc.prems have hd: "hd s \<noteq> digit_char 0" and s: "plain_decimal s"
      by (auto simp: plain_decimal_def)
    with False have "0 < digits_value s"
      by (intro digits_value_pos) (simp_all add: plain_decimal_def)
    with snoc.IH [OF s] c show ?thesis
      by (simp add: digits_value_snoc dec.simps [of "digits_value s * 10 + digit_value c"]
          digit_value_less digit_char_value)
  qed
qed (simp add: plain_decimal_def)

lemma hd_dec: "0 < n \<Longrightarrow> hd (dec n) \<noteq> digit_char 0"
proof (induction n rule: dec.induct)
  case (1 n)
  show ?case
  proof (cases "n < 10")
    case True
    with "1.prems" have "digit_value (digit_char n) \<noteq> digit_value (digit_char 0)"
      by simp
    then have "digit_char n \<noteq> digit_char 0" by metis
    with True show ?thesis by (simp add: dec.simps [of n])
  next
    case False
    with "1.IH" show ?thesis by (simp add: dec.simps [of n])
  qed
qed

lemma plain_decimal_dec: "plain_decimal (dec n)"
proof (cases "n = 0")
  case True
  then show ?thesis by (simp add: plain_decimal_def dec.simps [of 0])
next
  case False
  then show ?thesis
    by (auto simp: plain_decimal_def list_all_iff hd_dec dest: dec_digits)
qed

end
