(* ===== verification/Coordinates.thy ===== *)
theory Coordinates
  imports Strom_Prelude
begin

text \<open>
  Storage coordinates and named bounds: \<open>strom-storage-domain/src/coordinate.rs\<close> (Seal
  generations, WAL batches, stream uids), \<open>owner.rs\<close> (owner tokens), \<open>bounds.rs\<close>, and the two
  byte bounds of \<open>strom-domain\<close>. The locale \<open>coordinate\<close> is the contract of a nonzero
  coordinate with a checked successor; it is interpreted for generations and batches, and the
  machines use the interpreted facts.
\<close>

section \<open>Coordinates\<close>

datatype CoordinateExhausted = CoordinateExhausted

datatype ZeroCoordinate = ZeroCoordinate

datatype SealGeneration = SealGeneration nonzero_u64

datatype BatchId = BatchId nonzero_u64

datatype StreamUid = StreamUid nonzero_u64

primrec seal_generation_get :: "SealGeneration \<Rightarrow> nat" where
  "seal_generation_get (SealGeneration n) = nz_get n"

definition seal_generation_genesis :: SealGeneration where
  "seal_generation_genesis = SealGeneration nz_min"

definition seal_generation_successor ::
  "SealGeneration \<Rightarrow> CoordinateExhausted + SealGeneration" where
  "seal_generation_successor g =
     ok_or CoordinateExhausted
       (map_option SealGeneration (checked_add (seal_generation_get g) 1 \<bind> nz_new))"

definition seal_generation_try_from :: "nat \<Rightarrow> ZeroCoordinate + SealGeneration" where
  "seal_generation_try_from n = ok_or ZeroCoordinate (map_option SealGeneration (nz_new n))"

primrec batch_get :: "BatchId \<Rightarrow> nat" where
  "batch_get (BatchId n) = nz_get n"

definition batch_successor :: "BatchId \<Rightarrow> CoordinateExhausted + BatchId" where
  "batch_successor b =
     ok_or CoordinateExhausted (map_option BatchId (checked_add (batch_get b) 1 \<bind> nz_new))"

definition batch_try_from :: "nat \<Rightarrow> ZeroCoordinate + BatchId" where
  "batch_try_from n = ok_or ZeroCoordinate (map_option BatchId (nz_new n))"

primrec stream_uid_get :: "StreamUid \<Rightarrow> nat" where
  "stream_uid_get (StreamUid n) = nz_get n"

definition stream_uid_try_from :: "nat \<Rightarrow> ZeroCoordinate + StreamUid" where
  "stream_uid_try_from n = ok_or ZeroCoordinate (map_option StreamUid (nz_new n))"

text \<open>The derived orders compare the wrapped integers.\<close>

instantiation SealGeneration :: linorder
begin

definition less_eq_SealGeneration :: "SealGeneration \<Rightarrow> SealGeneration \<Rightarrow> bool" where
  "x \<le> y \<longleftrightarrow> seal_generation_get x \<le> seal_generation_get y"

definition less_SealGeneration :: "SealGeneration \<Rightarrow> SealGeneration \<Rightarrow> bool" where
  "x < y \<longleftrightarrow> seal_generation_get x < seal_generation_get y"

lemma seal_generation_get_inject: "seal_generation_get x = seal_generation_get y \<longleftrightarrow> x = y"
  by (cases x; cases y) (simp add: nz_eq_iff)

instance
  by standard
    (auto simp: less_eq_SealGeneration_def less_SealGeneration_def seal_generation_get_inject)

end

instantiation BatchId :: linorder
begin

definition less_eq_BatchId :: "BatchId \<Rightarrow> BatchId \<Rightarrow> bool" where
  "x \<le> y \<longleftrightarrow> batch_get x \<le> batch_get y"

definition less_BatchId :: "BatchId \<Rightarrow> BatchId \<Rightarrow> bool" where
  "x < y \<longleftrightarrow> batch_get x < batch_get y"

lemma batch_get_inject: "batch_get x = batch_get y \<longleftrightarrow> x = y"
  by (cases x; cases y) (simp add: nz_eq_iff)

instance
  by standard (auto simp: less_eq_BatchId_def less_BatchId_def batch_get_inject)

end

instantiation StreamUid :: linorder
begin

definition less_eq_StreamUid :: "StreamUid \<Rightarrow> StreamUid \<Rightarrow> bool" where
  "x \<le> y \<longleftrightarrow> stream_uid_get x \<le> stream_uid_get y"

definition less_StreamUid :: "StreamUid \<Rightarrow> StreamUid \<Rightarrow> bool" where
  "x < y \<longleftrightarrow> stream_uid_get x < stream_uid_get y"

lemma stream_uid_get_inject: "stream_uid_get x = stream_uid_get y \<longleftrightarrow> x = y"
  by (cases x; cases y) (simp add: nz_eq_iff)

instance
  by standard (auto simp: less_eq_StreamUid_def less_StreamUid_def stream_uid_get_inject)

end

lemma stream_uid_get_bounds [simp]: "0 < stream_uid_get u" "stream_uid_get u \<le> u64_max"
  by (cases u; simp)+

section \<open>The coordinate contract\<close>

locale coordinate =
  fixes get :: "'c::linorder \<Rightarrow> nat"
    and try_from :: "nat \<Rightarrow> ZeroCoordinate + 'c"
    and successor :: "'c \<Rightarrow> CoordinateExhausted + 'c"
  assumes get_pos: "0 < get c"
    and get_le_max: "get c \<le> u64_max"
    and get_le: "c \<le> d \<longleftrightarrow> get c \<le> get d"
    and try_from_Inr: "try_from n = Inr c \<longleftrightarrow> n = get c"
    and successor_Inr: "successor c = Inr d \<longleftrightarrow> get d = get c + 1"
begin

lemma get_less: "c < d \<longleftrightarrow> get c < get d"
  using get_le [of d c] by (auto simp: not_le [symmetric])

lemma get_eq: "c = d \<longleftrightarrow> get c = get d"
  using get_le [of c d] get_le [of d c] by (metis order_antisym order_refl)

lemma successor_greater: "successor c = Inr d \<Longrightarrow> c < d"
  by (simp add: successor_Inr get_less)

lemma no_coordinate_between: "successor c = Inr d \<Longrightarrow> c < e \<Longrightarrow> d \<le> e"
  by (simp add: successor_Inr get_less get_le)

lemma successor_unique: "successor c = Inr d \<Longrightarrow> successor c = Inr d' \<Longrightarrow> d = d'"
  by simp

lemma successor_inject: "successor c = Inr d \<Longrightarrow> successor c' = Inr d \<Longrightarrow> c = c'"
  by (simp add: successor_Inr get_eq)

lemma try_from_get: "try_from (get c) = Inr c"
  by (simp add: try_from_Inr)

lemma try_from_zero: "try_from 0 = Inl ZeroCoordinate"
proof (cases "try_from 0")
  case (Inl e)
  then show ?thesis by (cases e) simp
next
  case (Inr c)
  with get_pos [of c] show ?thesis by (simp add: try_from_Inr)
qed

end

interpretation seal_gen: coordinate seal_generation_get seal_generation_try_from
  seal_generation_successor
proof unfold_locales
  show "seal_generation_try_from n = Inr c \<longleftrightarrow> n = seal_generation_get c" for n c
    by (cases c) (auto simp: seal_generation_try_from_def nz_new_Some)
  show "seal_generation_successor c = Inr d \<longleftrightarrow> seal_generation_get d = seal_generation_get c + 1"
    for c d
    by (cases c; cases d)
      (auto simp: seal_generation_successor_def nz_new_Some bind_eq_Some_conv,
        metis nz_get_le)
  show "0 < seal_generation_get c" "seal_generation_get c \<le> u64_max" for c
    by (cases c; simp)+
qed (simp add: less_eq_SealGeneration_def)

interpretation batch: coordinate batch_get batch_try_from batch_successor
proof unfold_locales
  show "batch_try_from n = Inr c \<longleftrightarrow> n = batch_get c" for n c
    by (cases c) (auto simp: batch_try_from_def nz_new_Some)
  show "batch_successor c = Inr d \<longleftrightarrow> batch_get d = batch_get c + 1" for c d
    by (cases c; cases d)
      (auto simp: batch_successor_def nz_new_Some bind_eq_Some_conv, metis nz_get_le)
  show "0 < batch_get c" "batch_get c \<le> u64_max" for c
    by (cases c; simp)+
qed (simp add: less_eq_BatchId_def)

lemma batch_successor_exhausted:
  "batch_successor b = Inl CoordinateExhausted \<longleftrightarrow> batch_get b = u64_max"
  using batch.get_le_max [of b] by (auto simp: batch_successor_def checked_add_def)

lemma seal_generation_successor_exhausted:
  "seal_generation_successor g = Inl CoordinateExhausted \<longleftrightarrow> seal_generation_get g = u64_max"
  using seal_gen.get_le_max [of g]
  by (auto simp: seal_generation_successor_def checked_add_def)

lemma batch_successor_cases:
  obtains (exhausted) "batch_successor b = Inl CoordinateExhausted" "batch_get b = u64_max"
  | (next_batch) d where "batch_successor b = Inr d" "batch_get d = batch_get b + 1"
proof (cases "batch_successor b")
  case (Inl e)
  then show ?thesis
    using exhausted batch_successor_exhausted [of b] by (cases e) simp
next
  case (Inr d)
  then show ?thesis
    using next_batch [of d] batch.successor_Inr [of b d] by simp
qed

lemma seal_generation_genesis_get [simp]: "seal_generation_get seal_generation_genesis = 1"
  by (simp add: seal_generation_genesis_def)

lemma seal_generation_genesis_least: "seal_generation_genesis \<le> g"
  using seal_gen.get_pos [of g] by (simp add: seal_gen.get_le)

section \<open>Owner tokens\<close>

datatype OwnerToken = OwnerToken SealGeneration

primrec owner_generation :: "OwnerToken \<Rightarrow> SealGeneration" where
  "owner_generation (OwnerToken g) = g"

definition owner_from :: "SealGeneration \<Rightarrow> OwnerToken" where
  "owner_from g = OwnerToken g"

lemma owner_generation_from [simp]: "owner_generation (owner_from g) = g"
  by (simp add: owner_from_def)

lemma owner_from_inject [simp]: "owner_from g = owner_from h \<longleftrightarrow> g = h"
  by (simp add: owner_from_def)

instantiation OwnerToken :: linorder
begin

definition less_eq_OwnerToken :: "OwnerToken \<Rightarrow> OwnerToken \<Rightarrow> bool" where
  "x \<le> y \<longleftrightarrow> owner_generation x \<le> owner_generation y"

definition less_OwnerToken :: "OwnerToken \<Rightarrow> OwnerToken \<Rightarrow> bool" where
  "x < y \<longleftrightarrow> owner_generation x < owner_generation y"

lemma owner_generation_inject: "owner_generation x = owner_generation y \<longleftrightarrow> x = y"
  by (cases x; cases y) simp

instance
  by standard
    (auto simp: less_eq_OwnerToken_def less_OwnerToken_def order_less_le owner_generation_inject)

end

section \<open>Named bounds\<close>

definition STREAM_PATH_BYTES_MAX :: nat where
  "STREAM_PATH_BYTES_MAX = 512"

definition CONTENT_TYPE_BYTES_MAX :: nat where
  "CONTENT_TYPE_BYTES_MAX = 256"

definition SEAL_ENCODED_BYTES_MAX :: nat where
  "SEAL_ENCODED_BYTES_MAX = 1024 * 1024"

definition WAL_ENCODED_BYTES_MAX :: nat where
  "WAL_ENCODED_BYTES_MAX = 4 * 1024 * 1024"

definition WAL_RUN_FACTS_MAX :: nat where
  "WAL_RUN_FACTS_MAX = 4096"

definition WAL_RUN_FIXED_ENCODED_BYTES_MAX :: nat where
  "WAL_RUN_FIXED_ENCODED_BYTES_MAX = 128"

definition WAL_FACT_ENCODED_FIXED_BYTES_MAX :: nat where
  "WAL_FACT_ENCODED_FIXED_BYTES_MAX = 128"

definition WAL_FACT_ENCODED_BYTES_ESTIMATE_MAX :: nat where
  "WAL_FACT_ENCODED_BYTES_ESTIMATE_MAX =
     WAL_FACT_ENCODED_FIXED_BYTES_MAX + STREAM_PATH_BYTES_MAX + CONTENT_TYPE_BYTES_MAX"

definition WRITER_PENDING_COMMANDS_MAX :: nat where
  "WRITER_PENDING_COMMANDS_MAX = 4096"

definition TREE_RUNS_MAX :: nat where
  "TREE_RUNS_MAX = 16"

definition RUN_TABLES_MAX :: nat where
  "RUN_TABLES_MAX = 4096"

definition SST_OBJECT_BYTES_MAX :: nat where
  "SST_OBJECT_BYTES_MAX = 128 * 1024 * 1024"

definition SST_TABLE_TARGET_BYTES :: nat where
  "SST_TABLE_TARGET_BYTES = 64 * 1024 * 1024"

definition SST_ARCHIVE_FIXED_BYTES_MAX :: nat where
  "SST_ARCHIVE_FIXED_BYTES_MAX = 256"

definition DIRECTORY_ROW_ENCODED_BYTES_MAX :: nat where
  "DIRECTORY_ROW_ENCODED_BYTES_MAX = 1024"

definition LEDGER_VALUE_ROW_ENCODED_BYTES_MAX :: nat where
  "LEDGER_VALUE_ROW_ENCODED_BYTES_MAX = 2048"

definition LEDGER_DELETE_ROW_ENCODED_BYTES_MAX :: nat where
  "LEDGER_DELETE_ROW_ENCODED_BYTES_MAX = 64"

definition PARTITION_PATH_OCCUPANCIES_MAX_V2 :: nat where
  "PARTITION_PATH_OCCUPANCIES_MAX_V2 = 10000000"

definition PARTITION_RESIDENT_LOGICAL_BYTES_MAX_V2 :: nat where
  "PARTITION_RESIDENT_LOGICAL_BYTES_MAX_V2 = 16 * 1024 * 1024 * 1024"

definition PARTITION_BOOTSTRAP_OBJECTS_MAX_V2 :: nat where
  "PARTITION_BOOTSTRAP_OBJECTS_MAX_V2 = 1024"

definition PARTITION_BOOTSTRAP_BYTES_MAX_V2 :: nat where
  "PARTITION_BOOTSTRAP_BYTES_MAX_V2 = 32 * 1024 * 1024 * 1024"

definition WAL_SUFFIX_COORDINATES_MAX_V2 :: nat where
  "WAL_SUFFIX_COORDINATES_MAX_V2 = 1024"

definition WAL_SUFFIX_CHECKPOINT_SPAN_TRIGGER :: nat where
  "WAL_SUFFIX_CHECKPOINT_SPAN_TRIGGER = 512"

definition DIRECTORY_ROW_LOGICAL_BYTES_MAX :: nat where
  "DIRECTORY_ROW_LOGICAL_BYTES_MAX = 525"

definition LEDGER_VALUE_ROW_LOGICAL_BYTES_MAX :: nat where
  "LEDGER_VALUE_ROW_LOGICAL_BYTES_MAX = 1035"

definition LEDGER_DELETE_ROW_LOGICAL_BYTES :: nat where
  "LEDGER_DELETE_ROW_LOGICAL_BYTES = 9"

named_theorems bound_defs \<open>values of the named bounds\<close>

lemmas [bound_defs] =
  STREAM_PATH_BYTES_MAX_def CONTENT_TYPE_BYTES_MAX_def SEAL_ENCODED_BYTES_MAX_def
  WAL_ENCODED_BYTES_MAX_def WAL_RUN_FACTS_MAX_def WAL_RUN_FIXED_ENCODED_BYTES_MAX_def
  WAL_FACT_ENCODED_FIXED_BYTES_MAX_def WAL_FACT_ENCODED_BYTES_ESTIMATE_MAX_def
  WRITER_PENDING_COMMANDS_MAX_def TREE_RUNS_MAX_def RUN_TABLES_MAX_def
  SST_OBJECT_BYTES_MAX_def SST_TABLE_TARGET_BYTES_def SST_ARCHIVE_FIXED_BYTES_MAX_def
  DIRECTORY_ROW_ENCODED_BYTES_MAX_def LEDGER_VALUE_ROW_ENCODED_BYTES_MAX_def
  LEDGER_DELETE_ROW_ENCODED_BYTES_MAX_def PARTITION_PATH_OCCUPANCIES_MAX_V2_def
  PARTITION_RESIDENT_LOGICAL_BYTES_MAX_V2_def PARTITION_BOOTSTRAP_OBJECTS_MAX_V2_def
  PARTITION_BOOTSTRAP_BYTES_MAX_V2_def WAL_SUFFIX_COORDINATES_MAX_V2_def
  WAL_SUFFIX_CHECKPOINT_SPAN_TRIGGER_def DIRECTORY_ROW_LOGICAL_BYTES_MAX_def
  LEDGER_VALUE_ROW_LOGICAL_BYTES_MAX_def LEDGER_DELETE_ROW_LOGICAL_BYTES_def

text \<open>The compile-time assertions of \<open>bounds.rs\<close>.\<close>

lemma pending_barrier_fits_one_run:
  "WRITER_PENDING_COMMANDS_MAX \<le> WAL_RUN_FACTS_MAX"
  by (simp add: bound_defs)

lemma pending_estimates_fit_one_wal:
  "WAL_RUN_FIXED_ENCODED_BYTES_MAX
     + WRITER_PENDING_COMMANDS_MAX * WAL_FACT_ENCODED_BYTES_ESTIMATE_MAX
   \<le> WAL_ENCODED_BYTES_MAX"
  by (simp add: bound_defs)

lemma full_base_fits_bootstrap:
  "SST_ARCHIVE_FIXED_BYTES_MAX
     + PARTITION_PATH_OCCUPANCIES_MAX_V2
         * (DIRECTORY_ROW_ENCODED_BYTES_MAX + LEDGER_VALUE_ROW_ENCODED_BYTES_MAX)
   \<le> PARTITION_BOOTSTRAP_BYTES_MAX_V2"
  by (simp add: bound_defs)

lemma checkpoint_trigger_is_half_the_suffix:
  "WAL_SUFFIX_CHECKPOINT_SPAN_TRIGGER * 2 = WAL_SUFFIX_COORDINATES_MAX_V2"
  by (simp add: bound_defs)

end
