(* ===== verification/Stream_Domain.thy ===== *)
theory Stream_Domain
  imports Rust_Str Coordinates "HOL-Library.Word"
begin

text \<open>
  The protocol vocabulary of the crate \<open>strom-domain\<close>: stream paths (\<open>stream_path.rs\<close>), content
  types (\<open>content_type.rs\<close>), expiry policies (\<open>expiry.rs\<close>), the stream lifecycle
  (\<open>lifecycle.rs\<close>) and the protocol outcomes (\<open>outcome.rs\<close>). Validated strings are the subtypes
  of the strings their constructors accept. The lemmas give the canonical form of content types,
  the agreement of the two content-type parsers, and the TTL round trip.
\<close>

section \<open>Stream paths\<close>

datatype StreamPathError =
  PathOverMaxBytes | ControlCharacter | EmptySegment | RelativeSegment | ReservedRootSegment

definition ROOT_SEGMENT_RESERVED :: string where
  "ROOT_SEGMENT_RESERVED = ''__ds''"

text \<open>
  \<open>char::is_control\<close> on UTF-8 bytes: the C0 controls and DEL are one byte, the C1 controls
  U+0080 to U+009F are the byte C2 followed by a byte from 80 to 9F.
\<close>

fun has_control :: "string \<Rightarrow> bool" where
  "has_control [] \<longleftrightarrow> False"
| "has_control (x # s) \<longleftrightarrow>
     code x < 32 \<or> code x = 127
     \<or> (code x = 194 \<and> (case s of [] \<Rightarrow> False | y # _ \<Rightarrow> 128 \<le> code y \<and> code y \<le> 159))
     \<or> has_control s"

fun check_segments :: "nat \<Rightarrow> string list \<Rightarrow> StreamPathError option" where
  "check_segments i [] = None"
| "check_segments i (segment # rest) =
     (if segment = [] then Some EmptySegment
      else if segment = ''.'' \<or> segment = ''..'' then Some RelativeSegment
      else if i = 0 \<and> segment = ROOT_SEGMENT_RESERVED then Some ReservedRootSegment
      else check_segments (Suc i) rest)"

definition stream_path_validate :: "string \<Rightarrow> StreamPathError + string" where
  "stream_path_validate path =
     (if length path > STREAM_PATH_BYTES_MAX then Inl PathOverMaxBytes
      else if has_control path then Inl ControlCharacter
      else case check_segments 0 (split_on (CHR ''/'') path) of
             Some e \<Rightarrow> Inl e
           | None \<Rightarrow> Inr path)"

lemma stream_path_validate_same: "stream_path_validate s = Inr t \<Longrightarrow> t = s"
  by (auto simp: stream_path_validate_def split: if_splits option.splits)

lemma stream_path_sample: "stream_path_validate ''a'' = Inr ''a''"
  by (simp add: stream_path_validate_def STREAM_PATH_BYTES_MAX_def ROOT_SEGMENT_RESERVED_def
      code_def)

typedef StreamPath = "{s :: string. stream_path_validate s = Inr s}"
  morphisms path_as_str path_abs
  using stream_path_sample by blast

setup_lifting type_definition_StreamPath

lift_definition path_of :: "string \<Rightarrow> StreamPath" is
  "\<lambda>s. if stream_path_validate s = Inr s then s else ''a''"
  by (simp add: stream_path_sample)

definition stream_path_from_str :: "string \<Rightarrow> StreamPathError + StreamPath" where
  "stream_path_from_str s = map_sum id path_of (stream_path_validate s)"

lemma path_as_str_of: "stream_path_validate s = Inr s \<Longrightarrow> path_as_str (path_of s) = s"
  by transfer simp

lemma path_of_as_str [simp]: "path_of (path_as_str p) = p"
  by transfer simp

lemma path_valid [simp]: "stream_path_validate (path_as_str p) = Inr (path_as_str p)"
  by transfer simp

lemma path_eq_iff: "p = q \<longleftrightarrow> path_as_str p = path_as_str q"
  by (simp add: path_as_str_inject)

lemma path_length: "length (path_as_str p) \<le> STREAM_PATH_BYTES_MAX"
  using path_valid [of p] by (simp add: stream_path_validate_def del: path_valid split: if_splits)

instantiation StreamPath :: linorder
begin

definition less_eq_StreamPath :: "StreamPath \<Rightarrow> StreamPath \<Rightarrow> bool" where
  "p \<le> q \<longleftrightarrow> path_as_str p \<le> path_as_str q"

definition less_StreamPath :: "StreamPath \<Rightarrow> StreamPath \<Rightarrow> bool" where
  "p < q \<longleftrightarrow> path_as_str p < path_as_str q"

instance
  by standard (auto simp: less_eq_StreamPath_def less_StreamPath_def path_eq_iff)

end

instantiation StreamPath :: equal
begin

definition equal_StreamPath :: "StreamPath \<Rightarrow> StreamPath \<Rightarrow> bool" where
  "equal_StreamPath p q \<longleftrightarrow> path_as_str p = path_as_str q"

instance
  by standard (simp add: equal_StreamPath_def path_eq_iff)

end

lemma check_segments_None:
  "check_segments i ss = None \<longleftrightarrow>
     (\<forall>s\<in>set ss. s \<noteq> [] \<and> s \<noteq> ''.'' \<and> s \<noteq> ''..'')
     \<and> (i = 0 \<longrightarrow> ss \<noteq> [] \<longrightarrow> hd ss \<noteq> ROOT_SEGMENT_RESERVED)"
  by (induction i ss rule: check_segments.induct) auto

section \<open>Content types\<close>

datatype ContentTypeError = CtOverMaxBytes | CtMalformed | UnsupportedParameter | NonCanonical

datatype MediaType = OctetStream | Json | General string

definition ESSENCE_OCTET_STREAM :: string where
  "ESSENCE_OCTET_STREAM = ''application/octet-stream''"

definition ESSENCE_JSON :: string where
  "ESSENCE_JSON = ''application/json''"

definition ESSENCE_TEXT_PREFIX :: string where
  "ESSENCE_TEXT_PREFIX = ''text/''"

definition is_token_char :: "char \<Rightarrow> bool" where
  "is_token_char c \<longleftrightarrow>
     is_ascii_lowercase c \<or> is_ascii_uppercase c \<or> is_ascii_digit c
     \<or> code c \<in> {33, 35, 36, 37, 38, 39, 42, 43, 45, 46, 94, 95, 96, 124, 126}"

definition is_token :: "string \<Rightarrow> bool" where
  "is_token s \<longleftrightarrow> s \<noteq> [] \<and> list_all is_token_char s"

primrec media_type_as_str :: "MediaType \<Rightarrow> string" where
  "media_type_as_str OctetStream = ESSENCE_OCTET_STREAM"
| "media_type_as_str Json = ESSENCE_JSON"
| "media_type_as_str (General canonical) = canonical"

definition CHARSET_INFIX :: string where
  "CHARSET_INFIX = ''; charset=''"

text \<open>The body of the parameter loop of \<open>from_str\<close>: the charset so far, and one parameter.\<close>

definition parse_parameter ::
  "string \<Rightarrow> string option \<Rightarrow> ContentTypeError + string option" where
  "parse_parameter parameter_raw charset =
     (case split_once (CHR ''='') (trim parameter_raw) of
        None \<Rightarrow> Inl CtMalformed
      | Some (name_raw, value_raw) \<Rightarrow>
          if \<not> eq_ignore_ascii_case (trim name_raw) ''charset'' then Inl UnsupportedParameter
          else let value = trim value_raw in
            if \<not> is_token value \<or> charset \<noteq> None then Inl CtMalformed
            else Inr (Some (to_ascii_lowercase value)))"

fun parse_parameters ::
  "string option \<Rightarrow> string list \<Rightarrow> ContentTypeError + string option" where
  "parse_parameters charset [] = Inr charset"
| "parse_parameters charset (parameter_raw # rest) =
     (case parse_parameter parameter_raw charset of
        Inl e \<Rightarrow> Inl e
      | Inr charset' \<Rightarrow> parse_parameters charset' rest)"

text \<open>The result of \<open>from_str\<close> once the parts are validated: lines 147 to 178.\<close>

definition build_media_type ::
  "string \<Rightarrow> string \<Rightarrow> string \<Rightarrow> string option \<Rightarrow> ContentTypeError + MediaType" where
  "build_media_type essence_raw type_raw subtype_raw charset =
     (let parameter_bytes = (case charset of None \<Rightarrow> 0
                             | Some v \<Rightarrow> length CHARSET_INFIX + length v);
          canonical_bytes = length essence_raw + parameter_bytes in
      if canonical_bytes > CONTENT_TYPE_BYTES_MAX then Inl CtOverMaxBytes
      else if charset = None \<and> eq_ignore_ascii_case essence_raw ESSENCE_OCTET_STREAM
        then Inr OctetStream
      else if charset = None \<and> eq_ignore_ascii_case essence_raw ESSENCE_JSON
        then Inr Json
      else Inr (General (to_ascii_lowercase type_raw @ ''/'' @ to_ascii_lowercase subtype_raw
                         @ (case charset of None \<Rightarrow> [] | Some v \<Rightarrow> CHARSET_INFIX @ v))))"

definition media_type_from_str :: "string \<Rightarrow> ContentTypeError + MediaType" where
  "media_type_from_str input =
     (if length input > CONTENT_TYPE_BYTES_MAX then Inl CtOverMaxBytes
      else let parts = split_on (CHR '';'') input;
               essence_raw = trim (hd parts) in
        case split_once (CHR ''/'') essence_raw of
          None \<Rightarrow> Inl CtMalformed
        | Some (type_raw, subtype_raw) \<Rightarrow>
            if \<not> is_token type_raw \<or> \<not> is_token subtype_raw then Inl CtMalformed
            else (case parse_parameters None (tl parts) of
                    Inl e \<Rightarrow> Inl e
                  | Inr charset \<Rightarrow> build_media_type essence_raw type_raw subtype_raw charset))"

definition validate_canonical :: "string \<Rightarrow> ContentTypeError + string" where
  "validate_canonical input =
     (if length input > CONTENT_TYPE_BYTES_MAX then Inl CtOverMaxBytes
      else let (essence, charset) =
                 (case split_once_str CHARSET_INFIX input of
                    Some (essence, charset) \<Rightarrow> (essence, Some charset)
                  | None \<Rightarrow> (input, None)) in
        if CHR '';'' \<in> set essence
           \<or> (case charset of None \<Rightarrow> False | Some v \<Rightarrow> CHR '';'' \<in> set v) then Inl CtMalformed
        else case split_once (CHR ''/'') essence of
          None \<Rightarrow> Inl CtMalformed
        | Some (media_type, subtype) \<Rightarrow>
            if \<not> is_token media_type \<or> \<not> is_token subtype
               \<or> list_ex is_ascii_uppercase media_type \<or> list_ex is_ascii_uppercase subtype
            then Inl NonCanonical
            else (case charset of
                    None \<Rightarrow> Inr input
                  | Some v \<Rightarrow> if \<not> is_token v \<or> list_ex is_ascii_uppercase v
                              then Inl NonCanonical else Inr input))"

subsection \<open>The canonical spellings\<close>

definition lower_token :: "string \<Rightarrow> bool" where
  "lower_token s \<longleftrightarrow> is_token s \<and> (\<forall>c\<in>set s. \<not> is_ascii_uppercase c)"

definition spell :: "string \<Rightarrow> string \<Rightarrow> string option \<Rightarrow> string" where
  "spell t s charset = t @ ''/'' @ s @ (case charset of None \<Rightarrow> [] | Some v \<Rightarrow> CHARSET_INFIX @ v)"

definition canonical_parts :: "string \<Rightarrow> string \<Rightarrow> string option \<Rightarrow> bool" where
  "canonical_parts t s charset \<longleftrightarrow>
     lower_token t \<and> lower_token s \<and> (\<forall>v. charset = Some v \<longrightarrow> lower_token v)
     \<and> length (spell t s charset) \<le> CONTENT_TYPE_BYTES_MAX"

lemma token_char_visible: "is_token_char c \<Longrightarrow> visible c"
  by (auto simp: is_token_char_def visible_def is_ascii_lowercase_def is_ascii_uppercase_def
      is_ascii_digit_def)

lemma separators_no_token [simp]:
  "\<not> is_token_char (CHR '';'')" "\<not> is_token_char (CHR ''/'')" "\<not> is_token_char (CHR ''='')"
  "\<not> is_token_char (CHR '' '')"
  by (simp_all add: is_token_char_def is_ascii_lowercase_def is_ascii_uppercase_def
      is_ascii_digit_def code_def)

lemma token_no_separator:
  assumes "is_token s"
  shows "CHR '';'' \<notin> set s" "CHR ''/'' \<notin> set s" "CHR ''='' \<notin> set s"
  using assms separators_no_token by (auto simp: is_token_def list_all_iff)

lemma token_visible: "is_token s \<Longrightarrow> c \<in> set s \<Longrightarrow> visible c"
  by (auto simp: is_token_def list_all_iff intro: token_char_visible)

lemma token_nonempty: "is_token s \<Longrightarrow> s \<noteq> []"
  by (simp add: is_token_def)

lemma lower_token_to_lower: "is_token s \<Longrightarrow> lower_token (to_ascii_lowercase s)"
proof -
  assume s: "is_token s"
  have "is_token_char (char_of (code c + 32))" if "is_ascii_uppercase c" for c
    using that by (simp add: is_token_char_def is_ascii_uppercase_def is_ascii_lowercase_def)
  then have "is_token (to_ascii_lowercase s)"
    using s by (auto simp: is_token_def list_all_iff to_ascii_lowercase_def)
  then show ?thesis
    by (auto simp: lower_token_def dest: to_ascii_lowercase_no_upper)
qed

lemma lower_token_lower [simp]: "lower_token s \<Longrightarrow> to_ascii_lowercase s = s"
  by (rule to_ascii_lowercase_id) (simp add: lower_token_def)

lemma lower_token_token: "lower_token s \<Longrightarrow> is_token s"
  by (simp add: lower_token_def)

lemma essence_visible:
  "is_token t \<Longrightarrow> is_token s \<Longrightarrow> c \<in> set (t @ ''/'' @ s) \<Longrightarrow> visible c"
  by (auto dest: token_visible simp: visible_def code_def)

lemma parse_charset_parameter:
  assumes "lower_token v"
  shows "parse_parameter ('' charset='' @ v) None = Inr (Some v)"
proof -
  have v: "is_token v" and nonempty: "v \<noteq> []"
    using assms by (simp_all add: lower_token_token token_nonempty)
  have "visible c" if "c \<in> set (''charset='' @ v)" for c
    using that token_visible [OF v] by (auto simp: visible_def code_def)
  then have "trim ('' '' @ ''charset='' @ v) = ''charset='' @ v"
    using trim_space_visible [of "''charset='' @ v"] by simp
  moreover have "trim ''charset'' = ''charset''"
    by (rule trim_visible) (auto simp: visible_def code_def)
  moreover have "trim v = v"
    by (rule trim_visible) (rule token_visible [OF v])
  ultimately show ?thesis
    using assms v by (simp add: parse_parameter_def eq_ignore_ascii_case_def)
qed

lemma split_spell:
  assumes "is_token t" "is_token s" "\<And>v. charset = Some v \<Longrightarrow> is_token v"
  shows "split_on (CHR '';'') (spell t s charset) =
     (t @ ''/'' @ s) # (case charset of None \<Rightarrow> [] | Some v \<Rightarrow> ['' charset='' @ v])"
proof -
  have "CHR '';'' \<notin> set (t @ ''/'' @ s)"
    using token_no_separator(1) assms by auto
  moreover have "CHR '';'' \<notin> set ('' charset='' @ v)" if "charset = Some v" for v
    using token_no_separator(1) [OF assms(3) [OF that]] by simp
  ultimately show ?thesis
    using split_on_append [of "CHR '';''" "t @ ''/'' @ s"]
    by (cases charset) (auto simp: spell_def CHARSET_INFIX_def split_on_free)
qed

lemma essence_parts:
  assumes "is_token t" "is_token s"
  shows "trim (t @ ''/'' @ s) = t @ ''/'' @ s"
    and "split_once (CHR ''/'') (t @ ''/'' @ s) = Some (t, s)"
  using trim_visible essence_visible [OF assms] token_no_separator(2) [OF assms(1)]
  by (blast, simp add: split_once_Some)

definition named_media_type :: "string \<Rightarrow> MediaType" where
  "named_media_type canonical =
     (if canonical = ESSENCE_OCTET_STREAM then OctetStream
      else if canonical = ESSENCE_JSON then Json else General canonical)"

lemma as_str_named [simp]: "media_type_as_str (named_media_type c) = c"
  by (simp add: named_media_type_def)

lemma named_essences_lower:
  "to_ascii_lowercase ESSENCE_OCTET_STREAM = ESSENCE_OCTET_STREAM"
  "to_ascii_lowercase ESSENCE_JSON = ESSENCE_JSON"
  "CHR '';'' \<notin> set ESSENCE_OCTET_STREAM" "CHR '';'' \<notin> set ESSENCE_JSON"
  by (simp_all add: ESSENCE_OCTET_STREAM_def ESSENCE_JSON_def to_ascii_lowercase_def
      is_ascii_uppercase_def code_def)

lemma to_lower_append: "to_ascii_lowercase (a @ b) = to_ascii_lowercase a @ to_ascii_lowercase b"
  by (simp add: to_ascii_lowercase_def)

lemma to_lower_slash: "to_ascii_lowercase ''/'' = ''/''"
  by (simp add: to_ascii_lowercase_def is_ascii_uppercase_def code_def)

lemma build_spell:
  assumes "is_token t" "is_token s"
    and "length (spell (to_ascii_lowercase t) (to_ascii_lowercase s) charset) \<le> CONTENT_TYPE_BYTES_MAX"
  shows "build_media_type (t @ ''/'' @ s) t s charset =
     Inr (named_media_type (spell (to_ascii_lowercase t) (to_ascii_lowercase s) charset))"
proof -
  have lower: "to_ascii_lowercase (t @ ''/'' @ s) = to_ascii_lowercase t @ ''/'' @ to_ascii_lowercase s"
    by (simp only: to_lower_append to_lower_slash)
  show ?thesis
  proof (cases charset)
    case None
    with assms(3) lower show ?thesis
      by (simp add: build_media_type_def named_media_type_def eq_ignore_ascii_case_def
          named_essences_lower(1,2) spell_def)
  next
    case (Some v)
    have "CHR '';'' \<in> set (spell (to_ascii_lowercase t) (to_ascii_lowercase s) charset)"
      using Some by (simp add: spell_def CHARSET_INFIX_def)
    with named_essences_lower(3,4)
    have "named_media_type (spell (to_ascii_lowercase t) (to_ascii_lowercase s) charset)
        = General (spell (to_ascii_lowercase t) (to_ascii_lowercase s) charset)"
      by (auto simp: named_media_type_def)
    with Some assms(3) show ?thesis
      by (simp add: build_media_type_def spell_def)
  qed
qed

lemma build_media_type_Inr:
  assumes "build_media_type (t @ ''/'' @ s) t s charset = Inr m"
  shows "length (spell (to_ascii_lowercase t) (to_ascii_lowercase s) charset) \<le> CONTENT_TYPE_BYTES_MAX"
  using assms
  by (cases charset) (auto simp: build_media_type_def spell_def Let_def split: if_splits)

lemma parse_parameter_lower:
  assumes "parse_parameter p c = Inr c'"
  shows "\<exists>v. c' = Some v \<and> lower_token v"
  using assms
  by (auto simp: parse_parameter_def Let_def lower_token_to_lower split: option.splits if_splits)

lemma parse_parameters_lower:
  assumes "parse_parameters c ps = Inr c'" "\<And>v. c = Some v \<Longrightarrow> lower_token v" "c' = Some v"
  shows "lower_token v"
  using assms
proof (induction c ps rule: parse_parameters.induct)
  case (2 c p ps)
  then obtain c1 where c1: "parse_parameter p c = Inr c1" "parse_parameters c1 ps = Inr c'"
    by (auto split: sum.splits)
  then show ?case
    using "2.IH" [OF c1(1) c1(2)] parse_parameter_lower [OF c1(1)] "2.prems"(3) by auto
qed simp

lemma media_type_from_spell:
  assumes "canonical_parts t s charset"
  shows "media_type_from_str (spell t s charset) = Inr (named_media_type (spell t s charset))"
proof -
  have t: "lower_token t" "is_token t" and s: "lower_token s" "is_token s"
    and v: "\<And>v. charset = Some v \<Longrightarrow> lower_token v"
    and len: "length (spell t s charset) \<le> CONTENT_TYPE_BYTES_MAX"
    using assms by (auto simp: canonical_parts_def lower_token_token)
  have "parse_parameters None (case charset of None \<Rightarrow> [] | Some v \<Rightarrow> ['' charset='' @ v])
      = Inr charset"
    using parse_charset_parameter v by (cases charset) auto
  moreover have "split_on (CHR '';'') (spell t s charset) =
     (t @ ''/'' @ s) # (case charset of None \<Rightarrow> [] | Some v \<Rightarrow> ['' charset='' @ v])"
    by (rule split_spell) (use t s v lower_token_token in blast)+
  ultimately show ?thesis
    using len essence_parts [OF t(2) s(2)] t s build_spell [OF t(2) s(2), of charset]
    by (simp add: media_type_from_str_def)
qed

lemma media_type_from_str_parts:
  assumes "media_type_from_str input = Inr m"
  obtains t s charset where "canonical_parts t s charset" "m = named_media_type (spell t s charset)"
proof -
  obtain t s c where parts: "split_once (CHR ''/'') (trim (hd (split_on (CHR '';'') input))) = Some (t, s)"
      "is_token t" "is_token s" "parse_parameters None (tl (split_on (CHR '';'') input)) = Inr c"
      "build_media_type (trim (hd (split_on (CHR '';'') input))) t s c = Inr m"
    using assms by (auto simp: media_type_from_str_def Let_def split: if_splits option.splits sum.splits)
  moreover have essence: "trim (hd (split_on (CHR '';'') input)) = t @ ''/'' @ s"
    using parts(1) by (simp add: split_once_Some)
  ultimately have b: "build_media_type (t @ ''/'' @ s) t s c = Inr m" by simp
  have len: "length (spell (to_ascii_lowercase t) (to_ascii_lowercase s) c) \<le> CONTENT_TYPE_BYTES_MAX"
    by (rule build_media_type_Inr [OF b])
  then have "canonical_parts (to_ascii_lowercase t) (to_ascii_lowercase s) c"
    using parts parse_parameters_lower [OF parts(4)]
    by (simp add: canonical_parts_def lower_token_to_lower)
  then show thesis
    using that b build_spell [OF parts(2,3) len] by simp
qed

lemma media_type_canonical:
  "media_type_from_str input = Inr m \<Longrightarrow> media_type_from_str (media_type_as_str m) = Inr m"
  by (elim media_type_from_str_parts) (simp add: media_type_from_spell)

lemma validate_canonical_spell:
  assumes "canonical_parts t s charset"
  shows "validate_canonical (spell t s charset) = Inr (spell t s charset)"
proof -
  have tokens: "is_token t" "is_token s" "\<And>v. charset = Some v \<Longrightarrow> is_token v"
    and upper: "\<not> list_ex is_ascii_uppercase t" "\<not> list_ex is_ascii_uppercase s"
      "\<And>v. charset = Some v \<Longrightarrow> \<not> list_ex is_ascii_uppercase v"
    using assms by (auto simp: canonical_parts_def lower_token_def list_ex_iff)
  have semi: "CHR '';'' \<notin> set (t @ ''/'' @ s)" "\<And>v. charset = Some v \<Longrightarrow> CHR '';'' \<notin> set v"
    using tokens token_no_separator(1) by auto
  have "split_once_str CHARSET_INFIX (spell t s charset)
      = (case charset of None \<Rightarrow> None | Some v \<Rightarrow> Some (t @ ''/'' @ s, v))"
    using semi(1) split_once_str_first [of CHARSET_INFIX "t @ ''/'' @ s"]
      split_once_str_absent [of CHARSET_INFIX "t @ ''/'' @ s"]
    by (cases charset) (simp_all add: spell_def CHARSET_INFIX_def)
  with assms tokens upper semi essence_parts(2) [OF tokens(1,2)] show ?thesis
    by (cases charset) (auto simp: validate_canonical_def canonical_parts_def spell_def)
qed

lemma validate_canonical_parts:
  assumes "validate_canonical input = Inr c"
  obtains t s charset where "canonical_parts t s charset" "input = spell t s charset" "c = input"
proof (cases "split_once_str CHARSET_INFIX input")
  case None
  with assms obtain t s where "input = t @ ''/'' @ s" "lower_token t" "lower_token s"
      "c = input" "length input \<le> CONTENT_TYPE_BYTES_MAX"
    by (auto simp: validate_canonical_def lower_token_def split_once_Some
        list_ex_iff split: if_splits option.splits)
  then show thesis
    by (intro that [of t s None]) (simp_all add: spell_def canonical_parts_def)
next
  case (Some ev)
  then obtain e v where ev: "split_once_str CHARSET_INFIX input = Some (e, v)"
    by (cases ev) auto
  with assms obtain t s where "e = t @ ''/'' @ s" "lower_token t" "lower_token s" "lower_token v"
      "c = input" "length input \<le> CONTENT_TYPE_BYTES_MAX"
    by (auto simp: validate_canonical_def lower_token_def split_once_Some
        list_ex_iff split: if_splits option.splits)
  moreover from this have "input = spell t s (Some v)"
    using split_once_str_Some_append [OF ev] by (simp add: spell_def)
  ultimately show thesis
    by (intro that [of t s "Some v"]) (simp_all add: canonical_parts_def)
qed

lemma octet_stream_canonical: "media_type_from_str (media_type_as_str OctetStream) = Inr OctetStream"
  by code_simp

typedef StreamContentType = "{m. media_type_from_str (media_type_as_str m) = Inr m}"
  morphisms content_type_media content_type_abs
  using octet_stream_canonical by blast

setup_lifting type_definition_StreamContentType

lift_definition octet_stream :: StreamContentType is OctetStream
  by (rule octet_stream_canonical)

lift_definition content_type_of :: "MediaType \<Rightarrow> StreamContentType" is
  "\<lambda>m. if media_type_from_str (media_type_as_str m) = Inr m then m else OctetStream"
  using octet_stream_canonical by simp

definition content_type_as_str :: "StreamContentType \<Rightarrow> string" where
  "content_type_as_str ct = media_type_as_str (content_type_media ct)"

definition content_type_from_str :: "string \<Rightarrow> ContentTypeError + StreamContentType" where
  "content_type_from_str input = map_sum id content_type_of (media_type_from_str input)"

definition content_type_is_json :: "StreamContentType \<Rightarrow> bool" where
  "content_type_is_json ct \<longleftrightarrow>
     (case split_once (CHR '';'') (content_type_as_str ct) of
        None \<Rightarrow> content_type_as_str ct
      | Some (essence, _) \<Rightarrow> essence) = ESSENCE_JSON"

definition content_type_is_text :: "StreamContentType \<Rightarrow> bool" where
  "content_type_is_text ct \<longleftrightarrow>
     take (length ESSENCE_TEXT_PREFIX) (content_type_as_str ct) = ESSENCE_TEXT_PREFIX"

lemma content_type_media_of:
  "media_type_from_str input = Inr m \<Longrightarrow> content_type_media (content_type_of m) = m"
  by transfer (simp add: media_type_canonical)

lemma content_type_of_media [simp]: "content_type_of (content_type_media ct) = ct"
  by transfer simp

lemma content_type_media_canonical:
  "media_type_from_str (content_type_as_str ct) = Inr (content_type_media ct)"
  unfolding content_type_as_str_def by transfer

lemma content_type_round_trip: "content_type_from_str (content_type_as_str ct) = Inr ct"
  by (simp add: content_type_from_str_def content_type_media_canonical)

lemma content_type_eq_iff: "ct = ct' \<longleftrightarrow> content_type_as_str ct = content_type_as_str ct'"
  by (metis Inr_inject content_type_round_trip)

lemma content_type_length: "length (content_type_as_str ct) \<le> CONTENT_TYPE_BYTES_MAX"
  using content_type_media_canonical [of ct]
  by (auto simp: media_type_from_str_def Let_def split: if_splits)

lemma content_type_as_str_parse:
  assumes "content_type_from_str input = Inr ct"
  obtains t s charset where "canonical_parts t s charset" "content_type_as_str ct = spell t s charset"
proof -
  from assms obtain m where m: "media_type_from_str input = Inr m" "ct = content_type_of m"
    by (auto simp: content_type_from_str_def map_sum_def split: sum.splits)
  then have "content_type_as_str ct = media_type_as_str m"
    by (simp add: content_type_as_str_def content_type_media_of)
  with m show thesis
    by (elim media_type_from_str_parts) (auto intro: that)
qed

instantiation StreamContentType :: equal
begin

definition equal_StreamContentType :: "StreamContentType \<Rightarrow> StreamContentType \<Rightarrow> bool" where
  "equal_StreamContentType x y \<longleftrightarrow> content_type_media x = content_type_media y"

instance
  by standard (simp add: equal_StreamContentType_def content_type_media_inject)

end

text \<open>
  C33. The protocol parser of content types and the validator of stored spellings agree: a string
  is accepted by \<open>validate_canonical\<close> exactly if \<open>from_str\<close> parses it to a content type whose
  \<open>as_str\<close> is that string. So every content type prints to a spelling the decoder accepts, and
  the decoder accepts no spelling that the protocol parser would rewrite.
\<close>

theorem canonical_iff_parse_fixpoint:
  "validate_canonical input = Inr input \<longleftrightarrow>
     (\<exists>ct. content_type_from_str input = Inr ct \<and> content_type_as_str ct = input)"
proof
  assume "validate_canonical input = Inr input"
  then obtain t s charset where parts: "canonical_parts t s charset" "input = spell t s charset"
    by (elim validate_canonical_parts)
  from media_type_from_spell [OF parts(1)] parts(2) show
    "\<exists>ct. content_type_from_str input = Inr ct \<and> content_type_as_str ct = input"
    by (simp add: content_type_from_str_def content_type_as_str_def content_type_media_of)
next
  assume "\<exists>ct. content_type_from_str input = Inr ct \<and> content_type_as_str ct = input"
  then show "validate_canonical input = Inr input"
    by (metis content_type_as_str_parse validate_canonical_spell)
qed

section \<open>Expiry\<close>

datatype StreamTtlError = TtlMalformed | TtlZero | TtlOverMax

datatype StreamTtl = StreamTtl nonzero_u64

primrec ttl_seconds :: "StreamTtl \<Rightarrow> nonzero_u64" where
  "ttl_seconds (StreamTtl n) = n"

fun ttl_digits :: "nat \<Rightarrow> string \<Rightarrow> StreamTtlError + nat" where
  "ttl_digits seconds [] = Inr seconds"
| "ttl_digits seconds (character # rest) =
     (if \<not> is_ascii_digit character then Inl TtlMalformed
      else case checked_mul seconds 10 \<bind> (\<lambda>shifted. checked_add shifted (digit_value character)) of
             None \<Rightarrow> Inl TtlOverMax
           | Some seconds' \<Rightarrow> ttl_digits seconds' rest)"

definition stream_ttl_from_str :: "string \<Rightarrow> StreamTtlError + StreamTtl" where
  "stream_ttl_from_str input =
     (if input = [] then Inl TtlMalformed
      else if 1 < length input \<and> hd input = CHR ''0'' then Inl TtlMalformed
      else case ttl_digits 0 input of
             Inl e \<Rightarrow> Inl e
           | Inr seconds \<Rightarrow> ok_or TtlZero (map_option StreamTtl (nz_new seconds)))"

definition stream_ttl_display :: "StreamTtl \<Rightarrow> string" where
  "stream_ttl_display ttl = dec (nz_get (ttl_seconds ttl))"

text \<open>
  An absolute expiry wraps a \<open>jiff::Timestamp\<close>, represented by its Unix nanoseconds. The two
  constructors of \<open>jiff\<close> are parameters: the RFC 3339 parser and the range check.
\<close>

datatype ExpiresAtError = ExpiresAtError

datatype ExpiresAtRangeError = ExpiresAtRangeError

text \<open>The integer type \<open>i128\<close>, in two's complement.\<close>

type_synonym i128 = "128 word"

datatype ExpiresAt = ExpiresAt i128

primrec expires_at_nanoseconds :: "ExpiresAt \<Rightarrow> i128" where
  "expires_at_nanoseconds (ExpiresAt n) = n"

definition expires_at_from_str ::
  "(string \<Rightarrow> i128 option) \<Rightarrow> string \<Rightarrow> ExpiresAtError + ExpiresAt" where
  "expires_at_from_str timestamp_parse input =
     (if CHR ''['' \<in> set input then Inl ExpiresAtError
      else ok_or ExpiresAtError (map_option ExpiresAt (timestamp_parse input)))"

definition expires_at_try_from ::
  "(i128 \<Rightarrow> i128 option) \<Rightarrow> i128 \<Rightarrow> ExpiresAtRangeError + ExpiresAt" where
  "expires_at_try_from from_nanosecond n =
     ok_or ExpiresAtRangeError (map_option ExpiresAt (from_nanosecond n))"

datatype ExpiryPolicyConflict = ExpiryPolicyConflict

datatype ExpiryPolicy = NoExpiry | SlidingTtl StreamTtl | AbsoluteExpiry ExpiresAt

definition expiry_policy_try_from ::
  "StreamTtl option \<Rightarrow> ExpiresAt option \<Rightarrow> ExpiryPolicyConflict + ExpiryPolicy" where
  "expiry_policy_try_from ttl expires_at =
     (case (ttl, expires_at) of
        (None, None) \<Rightarrow> Inr NoExpiry
      | (Some t, None) \<Rightarrow> Inr (SlidingTtl t)
      | (None, Some e) \<Rightarrow> Inr (AbsoluteExpiry e)
      | (Some _, Some _) \<Rightarrow> Inl ExpiryPolicyConflict)"

lemma ttl_digits_Inr:
  "a \<le> u64_max \<Longrightarrow> ttl_digits a s = Inr n \<longleftrightarrow> parse_digits a s = Some n"
proof (induction s arbitrary: a)
  case (Cons c s)
  then show ?case
    by (auto simp: checked_mul_def checked_add_def)
qed simp

lemma stream_ttl_from_str_Inr:
  "stream_ttl_from_str s = Inr ttl \<longleftrightarrow>
     plain_decimal s \<and> digits_value s = nz_get (ttl_seconds ttl)"
proof -
  have zero: "digit_char 0 = CHR ''0''"
    by (simp add: digit_char_def) code_simp
  have "stream_ttl_from_str s = Inr ttl \<longleftrightarrow>
      s \<noteq> [] \<and> (1 < length s \<longrightarrow> hd s \<noteq> digit_char 0)
      \<and> ttl_digits 0 s = Inr (nz_get (ttl_seconds ttl))"
    by (cases ttl) (auto simp: stream_ttl_from_str_def zero nz_new_Some split: sum.splits)
  then show ?thesis
    by (auto simp: ttl_digits_Inr parse_digits_Some digits_value_def list_all_iff plain_decimal_def)
qed

text \<open>
  C34. TTL headers: the parser accepts exactly the decimal spelling that \<open>Display\<close> prints for some
  TTL, and returns that TTL. Leading zeros, signs, zero and values over the u64 range are
  therefore rejected, and parsing after printing is the identity.
\<close>

theorem ttl_parse_iff_display:
  "stream_ttl_from_str s = Inr ttl \<longleftrightarrow> s = stream_ttl_display ttl"
  by (metis dec_digits_value digits_value_dec plain_decimal_dec stream_ttl_display_def
      stream_ttl_from_str_Inr)

section \<open>Lifecycle and outcomes\<close>

datatype StreamLifecycle = LifecycleOpen | LifecycleClosed

definition lifecycle_close :: "StreamLifecycle \<Rightarrow> StreamLifecycle" where
  "lifecycle_close l = (case l of LifecycleOpen \<Rightarrow> LifecycleClosed | LifecycleClosed \<Rightarrow> LifecycleClosed)"

definition lifecycle_is_closed :: "StreamLifecycle \<Rightarrow> bool" where
  "lifecycle_is_closed l \<longleftrightarrow> (case l of LifecycleClosed \<Rightarrow> True | LifecycleOpen \<Rightarrow> False)"

datatype CreateOutcome = OutcomeCreated | OutcomeAlreadyExists

datatype CloseStreamOutcome = OutcomeClosed | OutcomeAlreadyClosed

datatype StreamStatus =
  StatusMissing
| StatusDeleted
| StatusLive (status_content_type: StreamContentType) (status_expiry: ExpiryPolicy)
    (status_lifecycle: StreamLifecycle)

lemma lifecycle_close_simps [simp]:
  "lifecycle_close l = LifecycleClosed"
  "lifecycle_is_closed LifecycleClosed" "\<not> lifecycle_is_closed LifecycleOpen"
  by (cases l) (simp_all add: lifecycle_close_def lifecycle_is_closed_def)

end
