(* ===== verification/Storage_Objects.thy ===== *)
theory Storage_Objects
  imports Stream_Domain
begin

text \<open>
  The durable vocabulary of \<open>strom-storage-domain\<close>: partition identities (\<open>partition.rs\<close>), table
  identities (\<open>table.rs\<close>), Directory and Ledger rows (\<open>directory.rs\<close>, \<open>ledger.rs\<close>), WAL objects
  (\<open>wal.rs\<close>, \<open>wal/fact.rs\<close>), Seals (\<open>seal.rs\<close>) and encoded candidates (\<open>candidate.rs\<close>).
  Values whose constructors check an invariant come with a predicate saying that the constructor
  accepted them. Bytes are characters, as in the strings; encoders are arguments.
\<close>

section \<open>Partition identity\<close>

type_synonym u8 = char

type_synonym bytes = "u8 list"

datatype PartitionIdError = PartitionMalformed | PartitionNil

typedef PartitionId = "{bs :: bytes. length bs = 16 \<and> bs \<noteq> replicate 16 (CHR 0x00)}"
  morphisms partition_bytes partition_abs
  by (rule exI [of _ "replicate 16 (CHR ''a'')"]) simp

setup_lifting type_definition_PartitionId

lift_definition partition_of :: "bytes \<Rightarrow> PartitionId" is
  "\<lambda>bs. if length bs = 16 \<and> bs \<noteq> replicate 16 (CHR 0x00) then bs else replicate 16 (CHR ''a'')"
  by simp

definition partition_try_from :: "bytes \<Rightarrow> PartitionIdError + PartitionId" where
  "partition_try_from octets =
     (if octets = replicate 16 (CHR 0x00) then Inl PartitionNil else Inr (partition_of octets))"

lemma partition_bytes_inv:
  "length (partition_bytes p) = 16" "partition_bytes p \<noteq> replicate 16 (CHR 0x00)"
  by (transfer, simp)+

lemma partition_of_bytes [simp]: "partition_of (partition_bytes p) = p"
  by transfer simp

lemma partition_bytes_of:
  "length bs = 16 \<Longrightarrow> bs \<noteq> replicate 16 (CHR 0x00) \<Longrightarrow> partition_bytes (partition_of bs) = bs"
  by transfer simp

lemma partition_eq_iff: "p = q \<longleftrightarrow> partition_bytes p = partition_bytes q"
  by (simp add: partition_bytes_inject)

instantiation PartitionId :: equal
begin

definition equal_PartitionId :: "PartitionId \<Rightarrow> PartitionId \<Rightarrow> bool" where
  "equal_PartitionId p q \<longleftrightarrow> partition_bytes p = partition_bytes q"

instance
  by standard (simp add: equal_PartitionId_def partition_eq_iff)

end

section \<open>Table identity\<close>

datatype StoreKind = StoreDirectory | StoreLedger | StoreTally | StoreAnnals

datatype TableIdentityError = TableIdentityError

datatype AttemptId = AttemptId (attempt_owner_claim: SealGeneration) (attempt_local_counter: nat)

datatype FreshIdentity =
  FreshIdentity (fresh_birth_generation: SealGeneration) (fresh_attempt: AttemptId)
    (fresh_ordinal: nat)

datatype TableObjectId = TableObjectId (table_fresh: FreshIdentity) (table_store: StoreKind)

definition fresh_identity_new ::
  "SealGeneration \<Rightarrow> AttemptId \<Rightarrow> nat \<Rightarrow> TableIdentityError + FreshIdentity" where
  "fresh_identity_new birth_generation attempt ordinal =
     (if attempt_owner_claim attempt \<ge> birth_generation then Inl TableIdentityError
      else Inr (FreshIdentity birth_generation attempt ordinal))"

definition fresh_identity_ok :: "FreshIdentity \<Rightarrow> bool" where
  "fresh_identity_ok f \<longleftrightarrow> attempt_owner_claim (fresh_attempt f) < fresh_birth_generation f"

lemma fresh_identity_new_Inr:
  "fresh_identity_new g a n = Inr f \<longleftrightarrow> f = FreshIdentity g a n \<and> fresh_identity_ok f"
  by (auto simp: fresh_identity_new_def fresh_identity_ok_def)

section \<open>Rows\<close>

datatype DirectoryEntry = DirLive (entry_uid: StreamUid) | DirTombstone (entry_uid: StreamUid)

record StreamRecord =
  record_content_type :: StreamContentType
  record_expiry :: ExpiryPolicy
  record_lifecycle :: StreamLifecycle
  record_created_at :: BatchId

datatype LedgerCell = CellValue StreamRecord | CellDelete

section \<open>Write-ahead log objects\<close>

datatype OperationFact =
  StreamCreated (fact_path: StreamPath) (fact_uid: StreamUid) (created_content_type: StreamContentType)
    (created_expiry: ExpiryPolicy) (created_lifecycle: StreamLifecycle)
| StreamClosed (fact_path: StreamPath) (fact_uid: StreamUid)
| StreamDeleted (fact_path: StreamPath) (fact_uid: StreamUid)

definition estimated_encoded_bytes :: "OperationFact \<Rightarrow> nat" where
  "estimated_encoded_bytes op =
     saturating_add WAL_FACT_ENCODED_FIXED_BYTES_MAX
       (case op of
          StreamCreated path uid content_type expiry lifecycle \<Rightarrow>
            saturating_add (length (path_as_str path)) (length (content_type_as_str content_type))
        | StreamClosed path uid \<Rightarrow> length (path_as_str path)
        | StreamDeleted path uid \<Rightarrow> length (path_as_str path))"

datatype WalFactsError = FactsEmpty | FactsOverMax nat

definition wal_facts_try_from :: "OperationFact list \<Rightarrow> WalFactsError + OperationFact list" where
  "wal_facts_try_from facts =
     (if facts = [] then Inl FactsEmpty
      else if length facts > WAL_RUN_FACTS_MAX then Inl (FactsOverMax (length facts))
      else Inr facts)"

datatype WalBody = WalRun "OperationFact list" | WalFence

record WalObject =
  wal_partition :: PartitionId
  wal_batch :: BatchId
  wal_owner :: OwnerToken
  wal_body :: WalBody

definition wal_body_ok :: "WalBody \<Rightarrow> bool" where
  "wal_body_ok body \<longleftrightarrow> (case body of WalRun facts \<Rightarrow> wal_facts_try_from facts = Inr facts | WalFence \<Rightarrow> True)"

text \<open>Every fact stays within the estimate that bounds a full pending barrier.\<close>

lemma estimated_encoded_bytes_le:
  "estimated_encoded_bytes op \<le> WAL_FACT_ENCODED_BYTES_ESTIMATE_MAX"
proof -
  define variable_bytes where "variable_bytes =
    (case op of
       StreamCreated p u ct e l \<Rightarrow> saturating_add (length (path_as_str p)) (length (content_type_as_str ct))
     | StreamClosed p u \<Rightarrow> length (path_as_str p)
     | StreamDeleted p u \<Rightarrow> length (path_as_str p))"
  have "variable_bytes \<le> STREAM_PATH_BYTES_MAX + CONTENT_TYPE_BYTES_MAX"
    unfolding variable_bytes_def
    by (cases op) (auto intro: saturating_add_le add_mono path_length content_type_length trans_le_add1)
  then show ?thesis
    by (auto simp: estimated_encoded_bytes_def variable_bytes_def [symmetric] add.assoc
        WAL_FACT_ENCODED_BYTES_ESTIMATE_MAX_def intro: saturating_add_le)
qed

section \<open>Seals\<close>

datatype SealError =
  GenerationExhausted | NonCanonicalGenesis | ReplayOwnerNotBeforeSeal | RunsOverMax | EmptyRun
| TablesOverMax | ObjectBytesOverMax | StoreMismatch | FutureTable | DuplicateTableObject

datatype WalReplayPoint = ReplayGenesis | ReplayThrough BatchId OwnerToken

definition replay_batch :: "WalReplayPoint \<Rightarrow> BatchId option" where
  "replay_batch r = (case r of ReplayGenesis \<Rightarrow> None | ReplayThrough batch owner \<Rightarrow> Some batch)"

datatype TableRef = TableRef (ref_object: TableObjectId) (ref_object_bytes: nonzero_u64)

definition table_ref_new :: "TableObjectId \<Rightarrow> nonzero_u64 \<Rightarrow> SealError + TableRef" where
  "table_ref_new object object_bytes =
     (if nz_get object_bytes > SST_OBJECT_BYTES_MAX then Inl ObjectBytesOverMax
      else Inr (TableRef object object_bytes))"

datatype SortedRun = SortedRun (run_tables: "TableRef list")

definition sorted_run_try_from :: "TableRef list \<Rightarrow> SealError + SortedRun" where
  "sorted_run_try_from tables =
     (if tables = [] then Inl EmptyRun
      else if length tables > RUN_TABLES_MAX then Inl TablesOverMax
      else Inr (SortedRun tables))"

datatype TreeVersion = TreeVersion (tree_runs: "SortedRun list")

definition tree_empty :: TreeVersion where
  "tree_empty = TreeVersion []"

definition tree_is_empty :: "TreeVersion \<Rightarrow> bool" where
  "tree_is_empty tree \<longleftrightarrow> tree_runs tree = []"

definition tree_tables :: "TreeVersion \<Rightarrow> TableRef list" where
  "tree_tables tree = concat (map run_tables (tree_runs tree))"

definition tree_version_try_from :: "SortedRun list \<Rightarrow> SealError + TreeVersion" where
  "tree_version_try_from runs =
     (if length runs > TREE_RUNS_MAX then Inl RunsOverMax else Inr (TreeVersion runs))"

record Seal =
  seal_partition :: PartitionId
  seal_generation :: SealGeneration
  seal_replay :: WalReplayPoint
  seal_directory :: TreeVersion
  seal_ledger :: TreeVersion

definition seal_tables :: "Seal \<Rightarrow> TableRef list" where
  "seal_tables seal = concat (map tree_tables [seal_directory seal, seal_ledger seal])"

fun validate_tables ::
  "TableRef list \<Rightarrow> StoreKind \<Rightarrow> SealGeneration \<Rightarrow> SealError + unit" where
  "validate_tables [] store generation = Inr ()"
| "validate_tables (table # rest) store generation =
     (if table_store (ref_object table) \<noteq> store then Inl StoreMismatch
      else if fresh_birth_generation (table_fresh (ref_object table)) > generation
        then Inl FutureTable
      else validate_tables rest store generation)"

definition validate_tree ::
  "TreeVersion \<Rightarrow> StoreKind \<Rightarrow> SealGeneration \<Rightarrow> SealError + unit" where
  "validate_tree tree store generation = validate_tables (tree_tables tree) store generation"

text \<open>The identity loop of \<open>Seal::new\<close>: each insertion into the set must be new.\<close>

fun insert_identities :: "TableObjectId set \<Rightarrow> TableRef list \<Rightarrow> SealError + unit" where
  "insert_identities identities [] = Inr ()"
| "insert_identities identities (table # rest) =
     (if ref_object table \<in> identities then Inl DuplicateTableObject
      else insert_identities (insert (ref_object table) identities) rest)"

definition seal_new ::
  "PartitionId \<Rightarrow> SealGeneration \<Rightarrow> WalReplayPoint \<Rightarrow> TreeVersion \<Rightarrow> TreeVersion \<Rightarrow> SealError + Seal"
where
  "seal_new part generation replay directory ledger =
     (if generation = seal_generation_genesis
         \<and> (replay \<noteq> ReplayGenesis \<or> \<not> tree_is_empty directory \<or> \<not> tree_is_empty ledger)
      then Inl NonCanonicalGenesis
      else if (case replay of ReplayThrough batch owner \<Rightarrow> owner_generation owner \<ge> generation
               | ReplayGenesis \<Rightarrow> False)
      then Inl ReplayOwnerNotBeforeSeal
      else try_ok (validate_tree directory StoreDirectory generation) (\<lambda>_.
           try_ok (validate_tree ledger StoreLedger generation) (\<lambda>_.
           let seal = \<lparr> seal_partition = part, seal_generation = generation,
                        seal_replay = replay, seal_directory = directory, seal_ledger = ledger \<rparr> in
           try_ok (insert_identities {} (seal_tables seal)) (\<lambda>_. Inr seal))))"

definition claim_successor :: "Seal \<Rightarrow> SealError + Seal" where
  "claim_successor seal =
     (case seal_generation_successor (seal_generation seal) of
        Inl _ \<Rightarrow> Inl GenerationExhausted
      | Inr generation \<Rightarrow> Inr (seal \<lparr> seal_generation := generation \<rparr>))"

subsection \<open>Valid Seals\<close>

definition seal_valid :: "Seal \<Rightarrow> bool" where
  "seal_valid s \<longleftrightarrow>
     seal_new (seal_partition s) (seal_generation s) (seal_replay s) (seal_directory s) (seal_ledger s)
     = Inr s"

definition table_fits :: "StoreKind \<Rightarrow> SealGeneration \<Rightarrow> TableRef \<Rightarrow> bool" where
  "table_fits store generation table \<longleftrightarrow>
     table_store (ref_object table) = store
     \<and> fresh_birth_generation (table_fresh (ref_object table)) \<le> generation"

lemma validate_tables_Inr:
  "validate_tables ts store g = Inr u \<longleftrightarrow> (\<forall>t\<in>set ts. table_fits store g t)"
proof (induction ts)
  case (Cons t ts)
  then show ?case
    by (cases "table_fits store g t") (simp_all add: table_fits_def not_less [symmetric])
qed simp

lemma insert_identities_Inr:
  "insert_identities ids ts = Inr u \<longleftrightarrow>
     distinct (map ref_object ts) \<and> (\<forall>t\<in>set ts. ref_object t \<notin> ids)"
  by (induction ts arbitrary: ids) (auto, metis imageI)

lemma seal_new_cases:
  "seal_new p g r d l = Inr s \<longleftrightarrow>
     s = \<lparr> seal_partition = p, seal_generation = g, seal_replay = r, seal_directory = d, seal_ledger = l \<rparr>
     \<and> (g = seal_generation_genesis \<longrightarrow> r = ReplayGenesis \<and> tree_is_empty d \<and> tree_is_empty l)
     \<and> (\<forall>b w. r = ReplayThrough b w \<longrightarrow> owner_generation w < g)
     \<and> (\<forall>t\<in>set (tree_tables d). table_fits StoreDirectory g t)
     \<and> (\<forall>t\<in>set (tree_tables l). table_fits StoreLedger g t)
     \<and> distinct (map ref_object (seal_tables s))"
  unfolding seal_new_def validate_tree_def
  by (cases r) (auto simp: try_ok_Inr validate_tables_Inr insert_identities_Inr Let_def)

lemma seal_valid_iff:
  "seal_valid s \<longleftrightarrow>
     (seal_generation s = seal_generation_genesis \<longrightarrow>
        seal_replay s = ReplayGenesis \<and> tree_is_empty (seal_directory s) \<and> tree_is_empty (seal_ledger s))
     \<and> (\<forall>b w. seal_replay s = ReplayThrough b w \<longrightarrow> owner_generation w < seal_generation s)
     \<and> (\<forall>t\<in>set (tree_tables (seal_directory s)). table_fits StoreDirectory (seal_generation s) t)
     \<and> (\<forall>t\<in>set (tree_tables (seal_ledger s)). table_fits StoreLedger (seal_generation s) t)
     \<and> distinct (map ref_object (seal_tables s))"
  unfolding seal_valid_def seal_new_cases by (cases s) simp

lemma seal_new_valid: "seal_new p g r d l = Inr s \<Longrightarrow> seal_valid s"
  by (auto simp: seal_new_cases seal_valid_iff)

lemma table_fits_mono: "table_fits store g t \<Longrightarrow> g \<le> g' \<Longrightarrow> table_fits store g' t"
  by (auto simp: table_fits_def)

lemma claim_successor_Inr:
  "claim_successor s = Inr s' \<longleftrightarrow>
     (\<exists>g. seal_generation_successor (seal_generation s) = Inr g \<and> s' = s\<lparr>seal_generation := g\<rparr>)"
  by (auto simp: claim_successor_def split: sum.splits)

lemma claim_successor_valid:
  assumes "seal_valid s" "claim_successor s = Inr s'"
  shows "seal_valid s'"
proof -
  obtain g where g: "seal_generation_successor (seal_generation s) = Inr g"
      "s' = s\<lparr>seal_generation := g\<rparr>"
    using assms(2) by (auto simp: claim_successor_Inr)
  have less: "seal_generation s < g"
    using seal_gen.successor_greater [OF g(1)] .
  then have "g \<noteq> seal_generation_genesis"
    using seal_generation_genesis_least [of "seal_generation s"] by auto
  with less assms(1) show ?thesis
    by (auto simp: seal_valid_iff g(2) seal_tables_def intro: table_fits_mono)
qed

text \<open>
  C35. Claiming a Seal: from a valid Seal, \<open>claim_successor\<close> fails exactly at the last generation;
  otherwise the result is again a valid Seal, its generation is the next one, and its partition,
  replay point and tables are those of the claimed Seal.
\<close>

theorem claim_successor_exact:
  assumes "seal_valid s"
  shows "case claim_successor s of
       Inl e \<Rightarrow> e = GenerationExhausted \<and> seal_generation_get (seal_generation s) = u64_max
     | Inr s' \<Rightarrow> seal_valid s'
         \<and> seal_generation_get (seal_generation s') = seal_generation_get (seal_generation s) + 1
         \<and> seal_partition s' = seal_partition s \<and> seal_replay s' = seal_replay s
         \<and> seal_tables s' = seal_tables s"
proof (cases "claim_successor s")
  case (Inl e)
  then have "seal_generation_successor (seal_generation s) = Inl CoordinateExhausted"
      "e = GenerationExhausted"
    by (auto simp: claim_successor_def split: sum.splits CoordinateExhausted.splits)
      (metis CoordinateExhausted.exhaust)
  with Inl show ?thesis by (simp add: seal_generation_successor_exhausted)
next
  case (Inr s')
  then obtain g where "seal_generation_successor (seal_generation s) = Inr g"
      "s' = s\<lparr>seal_generation := g\<rparr>"
    by (auto simp: claim_successor_Inr)
  with Inr claim_successor_valid [OF assms Inr] show ?thesis
    by (simp add: seal_gen.successor_Inr seal_tables_def)
qed

definition sample_seal :: Seal where
  "sample_seal = \<lparr> seal_partition = partition_of (replicate 16 (CHR ''p'')),
     seal_generation = seal_generation_genesis, seal_replay = ReplayGenesis,
     seal_directory = tree_empty, seal_ledger = tree_empty \<rparr>"

lemma sample_seal_valid: "seal_valid sample_seal"
  by (simp add: seal_valid_iff sample_seal_def tree_is_empty_def tree_empty_def tree_tables_def
      seal_tables_def)

theorem claim_successor_exact_witness:
  "\<exists>s'. claim_successor sample_seal = Inr s' \<and> seal_valid s'
     \<and> seal_generation_get (seal_generation s') = 2"
proof (cases "claim_successor sample_seal")
  case (Inl e)
  with claim_successor_exact [OF sample_seal_valid] show ?thesis
    by (simp add: sample_seal_def u64_max_def)
next
  case (Inr s')
  with claim_successor_exact [OF sample_seal_valid] show ?thesis
    by (simp add: sample_seal_def)
qed

section \<open>Candidates\<close>

datatype EncodeError = Serialization | EncodedBytesOverMax nat

datatype SealCandidateError = NotGenesis | NotAuthority | CandidateEncode EncodeError

definition assert_candidate_bytes :: "bytes \<Rightarrow> nat \<Rightarrow> unit option" where
  "assert_candidate_bytes bs bytes_max =
     do { require (bs \<noteq> []); require (length bs \<le> bytes_max) }"

record EncodedWal =
  ewal_partition :: PartitionId
  ewal_batch :: BatchId
  ewal_bytes :: bytes

definition encoded_wal_new ::
  "(WalObject \<Rightarrow> EncodeError + bytes) \<Rightarrow> WalObject \<Rightarrow> (EncodeError + EncodedWal) option" where
  "encoded_wal_new encode_wal object =
     (case encode_wal object of
        Inl e \<Rightarrow> Some (Inl e)
      | Inr bs \<Rightarrow>
          do { assert_candidate_bytes bs WAL_ENCODED_BYTES_MAX;
               Some (Inr \<lparr> ewal_partition = wal_partition object, ewal_batch = wal_batch object,
                           ewal_bytes = bs \<rparr>) })"

record EncodedSeal =
  eseal_seal :: Seal
  eseal_bytes :: bytes

definition encoded_seal_new ::
  "(Seal \<Rightarrow> EncodeError + bytes) \<Rightarrow> Seal \<Rightarrow> (EncodeError + EncodedSeal) option" where
  "encoded_seal_new encode_seal seal =
     (case encode_seal seal of
        Inl e \<Rightarrow> Some (Inl e)
      | Inr bs \<Rightarrow>
          do { assert_candidate_bytes bs SEAL_ENCODED_BYTES_MAX;
               Some (Inr \<lparr> eseal_seal = seal, eseal_bytes = bs \<rparr>) })"

datatype EncodedGenesisSeal = EncodedGenesisSeal (genesis_encoded: EncodedSeal)

datatype EncodedAuthoritySeal = EncodedAuthoritySeal (authority_encoded: EncodedSeal)

definition genesis_candidate ::
  "(Seal \<Rightarrow> EncodeError + bytes) \<Rightarrow> Seal \<Rightarrow> (SealCandidateError + EncodedGenesisSeal) option" where
  "genesis_candidate encode_seal seal =
     (if seal_generation seal \<noteq> seal_generation_genesis then Some (Inl NotGenesis)
      else map_option (map_sum CandidateEncode EncodedGenesisSeal) (encoded_seal_new encode_seal seal))"

definition authority_candidate ::
  "(Seal \<Rightarrow> EncodeError + bytes) \<Rightarrow> Seal \<Rightarrow> (SealCandidateError + EncodedAuthoritySeal) option" where
  "authority_candidate encode_seal seal =
     (if seal_generation seal = seal_generation_genesis then Some (Inl NotAuthority)
      else map_option (map_sum CandidateEncode EncodedAuthoritySeal) (encoded_seal_new encode_seal seal))"

definition authority_seal :: "EncodedAuthoritySeal \<Rightarrow> Seal" where
  "authority_seal candidate = eseal_seal (authority_encoded candidate)"

definition authority_generation :: "EncodedAuthoritySeal \<Rightarrow> SealGeneration" where
  "authority_generation candidate = seal_generation (eseal_seal (authority_encoded candidate))"

datatype DecodedTable =
  DecodedDirectory "(StreamPath \<times> DirectoryEntry) list"
| DecodedLedger "(StreamUid \<times> LedgerCell) list"

lemma assert_candidate_bytes_Some [simp]:
  "assert_candidate_bytes bs m = Some u \<longleftrightarrow> bs \<noteq> [] \<and> length bs \<le> m"
  by (simp add: assert_candidate_bytes_def)

lemma authority_candidate_seal:
  "authority_candidate enc s = Some (Inr c) \<Longrightarrow> authority_seal c = s"
  by (auto simp: authority_candidate_def encoded_seal_new_def authority_seal_def bind_eq_Some_conv
      split: if_splits sum.splits)

end
