(* ===== verification/Suffix.thy ===== *)
theory Suffix
  imports Storage_Objects
begin

text \<open>
  WAL-suffix coordinates, \<open>strom-storage-protocol/src/suffix.rs\<close>: the span of batches after a
  checkpoint cut, the room a RUN must leave for a takeover FENCE, and the bound on the FENCE.
\<close>

datatype TakeoverFenceError = NoRunCoordinate | NotAfterCut | SpanExceeded nat

datatype TakeoverFence = TakeoverFence (fence_batch: BatchId)

definition span_through :: "BatchId option \<Rightarrow> BatchId \<Rightarrow> nat option" where
  "span_through wcut head =
     checked_sub (batch_get head) (case wcut of None \<Rightarrow> 0 | Some b \<Rightarrow> batch_get b)"

definition run_leaves_takeover_room :: "BatchId option \<Rightarrow> BatchId \<Rightarrow> bool" where
  "run_leaves_takeover_room wcut run \<longleftrightarrow>
     (case batch_successor run of
        Inl _ \<Rightarrow> False
      | Inr fence \<Rightarrow> (case span_through wcut fence of
          None \<Rightarrow> False
        | Some span \<Rightarrow> span > 1 \<and> span \<le> WAL_SUFFIX_COORDINATES_MAX_V2))"

definition bound_takeover_fence ::
  "BatchId option \<Rightarrow> BatchId \<Rightarrow> TakeoverFenceError + TakeoverFence" where
  "bound_takeover_fence wcut fence =
     try_ok (map_err (\<lambda>_. NoRunCoordinate) (batch_successor fence)) (\<lambda>_.
     try_ok (ok_or NotAfterCut
       (case span_through wcut fence of None \<Rightarrow> None | Some span \<Rightarrow> if span > 0 then Some span else None))
     (\<lambda>span. if span > WAL_SUFFIX_COORDINATES_MAX_V2 then Inl (SpanExceeded span)
             else Inr (TakeoverFence fence)))"

text \<open>The coordinate a cut stands for; genesis is zero, before every batch.\<close>

definition cut_get :: "BatchId option \<Rightarrow> nat" where
  "cut_get wcut = (case wcut of None \<Rightarrow> 0 | Some b \<Rightarrow> batch_get b)"

lemma cut_get_simps [simp]: "cut_get None = 0" "cut_get (Some b) = batch_get b"
  by (simp_all add: cut_get_def)

lemma span_through_cut: "span_through wcut head = checked_sub (batch_get head) (cut_get wcut)"
  by (simp add: span_through_def cut_get_def)

lemma batch_successor_ex: "(\<exists>d. batch_successor b = Inr d) \<longleftrightarrow> batch_get b < u64_max"
  using batch.get_le_max by (cases b rule: batch_successor_cases) (auto, metis Suc_le_eq)

lemma run_leaves_takeover_room_iff:
  "run_leaves_takeover_room wcut run \<longleftrightarrow>
     cut_get wcut < batch_get run \<and> batch_get run < u64_max
     \<and> batch_get run + 1 \<le> cut_get wcut + WAL_SUFFIX_COORDINATES_MAX_V2"
proof (cases run rule: batch_successor_cases)
  case exhausted
  then show ?thesis by (simp add: run_leaves_takeover_room_def)
next
  case (next_batch d)
  with batch.get_le_max [of d] show ?thesis
    by (auto simp: run_leaves_takeover_room_def span_through_cut checked_sub_def)
qed

lemma bound_takeover_fence_Inr:
  "bound_takeover_fence wcut fence = Inr tf \<longleftrightarrow>
     tf = TakeoverFence fence \<and> cut_get wcut < batch_get fence \<and> batch_get fence < u64_max
     \<and> batch_get fence \<le> cut_get wcut + WAL_SUFFIX_COORDINATES_MAX_V2"
  by (cases fence rule: batch_successor_cases)
    (auto simp: bound_takeover_fence_def try_ok_Inr span_through_cut checked_sub_def
      simp flip: batch_successor_ex)

text \<open>What the reserved successor of a RUN is worth to a takeover.\<close>

lemma takeover_of_reserved:
  assumes "run_leaves_takeover_room wcut run"
  shows "\<exists>fence. batch_successor run = Inr fence
     \<and> bound_takeover_fence wcut fence
       = (if batch_get fence < u64_max then Inr (TakeoverFence fence) else Inl NoRunCoordinate)"
proof -
  have room: "cut_get wcut < batch_get run" "batch_get run < u64_max"
      "batch_get run + 1 \<le> cut_get wcut + WAL_SUFFIX_COORDINATES_MAX_V2"
    using assms by (simp_all add: run_leaves_takeover_room_iff)
  then obtain fence where fence: "batch_successor run = Inr fence" "batch_get fence = batch_get run + 1"
    using batch_successor_ex [of run] by (auto simp: batch.successor_Inr)
  show ?thesis
  proof (cases fence rule: batch_successor_cases)
    case exhausted
    with fence batch_successor_ex [of fence] show ?thesis
      by (auto simp: bound_takeover_fence_def)
  next
    case (next_batch d)
    with batch_successor_ex [of fence] have "batch_get fence < u64_max" by blast
    with room fence show ?thesis by (simp add: bound_takeover_fence_Inr)
  qed
qed

text \<open>
  A RUN before the last coordinate passes the room test, although the coordinate it reserves cannot
  carry a takeover FENCE.
\<close>

lemma reserved_last_coordinate:
  "\<exists>wcut run fence. run_leaves_takeover_room (Some wcut) run \<and> batch_successor run = Inr fence
     \<and> bound_takeover_fence (Some wcut) fence = Inl NoRunCoordinate"
proof -
  let ?cut = "BatchId (nz_of (u64_max - 2))" and ?run = "BatchId (nz_of (u64_max - 1))"
  have "run_leaves_takeover_room (Some ?cut) ?run" "batch_get ?run = u64_max - 1"
    by (simp_all add: run_leaves_takeover_room_iff u64_max_def bound_defs)
  moreover from this obtain fence where "batch_successor ?run = Inr fence"
      "bound_takeover_fence (Some ?cut) fence = Inl NoRunCoordinate"
    using takeover_of_reserved [of "Some ?cut" ?run] by (auto simp: batch.successor_Inr u64_max_def)
  ultimately show ?thesis by blast
qed

end
