(* ===== verification/Forest.thy ===== *)
theory Forest
  imports Suffix
begin

text \<open>
  The resident forest of \<open>strom-storage-protocol/src/forest.rs\<close>: the Directory map and the Ledger
  map under the strict fold of operation facts, the checked construction from merged rows, and
  the delta and checkpoint rows. \<open>forest_inv\<close> is the cross-store invariant. The lemmas show that
  the strict fold keeps it and never panics under it, that the checked construction accepts
  exactly the forests with it, that the published status of a path (\<open>engine.rs\<close>,
  \<open>PublishedView::stream\<close>) refines a plain map from paths to statuses, and that occupied paths
  stay occupied.
\<close>

section \<open>Operations\<close>

record Forest =
  forest_directory :: "(StreamPath, DirectoryEntry) fmap"
  forest_ledger :: "(StreamUid, StreamRecord) fmap"

record ForestDelta =
  delta_directory :: "(StreamPath \<times> DirectoryEntry) list"
  delta_ledger :: "(StreamUid \<times> LedgerCell) list"

datatype FoldContradiction =
  PathOccupied | PathCapacityExhausted | UidNotDenseSuccessor | PathNotLive | PathUidMismatch
| StreamAlreadyClosed

datatype ForestContradiction =
  UidGap | CountMismatch | LiveWithoutRecord | RecordWithoutLive | TombstoneWithRecord

datatype UidState = LiveMissingRecord | LiveWithRecord | UidTombstone

definition forest_empty :: Forest where
  "forest_empty = \<lparr> forest_directory = fmempty, forest_ledger = fmempty \<rparr>"

definition forest_resolve :: "Forest \<Rightarrow> StreamPath \<Rightarrow> DirectoryEntry option" where
  "forest_resolve f path = fmlookup (forest_directory f) path"

definition forest_record :: "Forest \<Rightarrow> StreamUid \<Rightarrow> StreamRecord option" where
  "forest_record f uid = fmlookup (forest_ledger f) uid"

definition path_count :: "Forest \<Rightarrow> nat option" where
  "path_count f =
     (let n = fcard (fmdom (forest_directory f)) in do { require (n \<le> u64_max); Some n })"

definition successor_uid_after :: "nat \<Rightarrow> (FoldContradiction + StreamUid) option" where
  "successor_uid_after n =
     (if n \<ge> PARTITION_PATH_OCCUPANCIES_MAX_V2 then Some (Inl PathCapacityExhausted)
      else do { successor \<leftarrow> checked_add n 1 \<bind> nz_new; Some (Inr (StreamUid successor)) })"

definition successor_uid :: "Forest \<Rightarrow> (FoldContradiction + StreamUid) option" where
  "successor_uid f = path_count f \<bind> successor_uid_after"

definition require_live_uid ::
  "DirectoryEntry option \<Rightarrow> StreamUid \<Rightarrow> FoldContradiction + StreamUid" where
  "require_live_uid entry uid =
     (case entry of
        Some (DirLive live_uid) \<Rightarrow> if live_uid = uid then Inr live_uid else Inl PathUidMismatch
      | Some (DirTombstone _) \<Rightarrow> Inl PathNotLive
      | None \<Rightarrow> Inl PathNotLive)"

definition strict_fold ::
  "Forest \<Rightarrow> BatchId \<Rightarrow> OperationFact \<Rightarrow> (FoldContradiction + Forest) option" where
  "strict_fold f batch op =
     (case op of
        StreamCreated path uid content_type expiry lifecycle \<Rightarrow>
          if fmlookup (forest_directory f) path \<noteq> None then Some (Inl PathOccupied)
          else and_then (successor_uid f) (\<lambda>expected_uid.
            if uid \<noteq> expected_uid then Some (Inl UidNotDenseSuccessor)
            else do {
              require (fmlookup (forest_directory f) path = None);
              require (fmlookup (forest_ledger f) uid = None);
              Some (Inr \<lparr> forest_directory = fmupd path (DirLive uid) (forest_directory f),
                          forest_ledger = fmupd uid
                            \<lparr> record_content_type = content_type, record_expiry = expiry,
                              record_lifecycle = lifecycle, record_created_at = batch \<rparr>
                            (forest_ledger f) \<rparr>) })
      | StreamClosed path uid \<Rightarrow>
          and_then (Some (require_live_uid (fmlookup (forest_directory f) path) uid)) (\<lambda>live_uid.
            do {
              rec \<leftarrow> fmlookup (forest_ledger f) live_uid;
              if lifecycle_is_closed (record_lifecycle rec) then Some (Inl StreamAlreadyClosed)
              else do {
                require (fmlookup (forest_ledger f) live_uid \<noteq> None);
                Some (Inr (f \<lparr> forest_ledger := fmupd live_uid
                     \<lparr> record_content_type = record_content_type rec,
                       record_expiry = record_expiry rec,
                       record_lifecycle = LifecycleClosed,
                       record_created_at = record_created_at rec \<rparr> (forest_ledger f) \<rparr>)) } })
      | StreamDeleted path uid \<Rightarrow>
          and_then (Some (require_live_uid (fmlookup (forest_directory f) path) uid)) (\<lambda>live_uid.
            do {
              require (fmlookup (forest_ledger f) live_uid \<noteq> None);
              entry \<leftarrow> fmlookup (forest_directory f) path;
              require (entry = DirLive live_uid);
              require (fmlookup (forest_ledger f) live_uid \<noteq> None);
              Some (Inr \<lparr> forest_directory = fmupd path (DirTombstone live_uid) (forest_directory f),
                          forest_ledger = fmdrop live_uid (forest_ledger f) \<rparr>) }))"

definition checkpoint_cells :: "Forest \<Rightarrow> ForestDelta" where
  "checkpoint_cells f =
     \<lparr> delta_directory = sorted_list_of_fmap (forest_directory f),
       delta_ledger = map (\<lambda>(uid, rec). (uid, CellValue rec)) (sorted_list_of_fmap (forest_ledger f)) \<rparr>"

text \<open>
  The difference iterator of \<open>imbl\<close> is an argument, one for each map. Its items are the ones of
  \<open>imbl::ordmap::DiffItem\<close>.
\<close>

datatype ('k, 'v) DiffItem = DiffAdd 'k 'v | DiffUpdate 'k 'v 'v | DiffRemove 'k 'v

fun delta_directory_rows ::
  "Forest \<Rightarrow> (StreamPath, DirectoryEntry) DiffItem list \<Rightarrow> (StreamPath \<times> DirectoryEntry) list option"
where
  "delta_directory_rows self [] = Some []"
| "delta_directory_rows self (DiffAdd key entry # rest) =
     map_option ((#) (key, entry)) (delta_directory_rows self rest)"
| "delta_directory_rows self (DiffUpdate key old entry # rest) =
     map_option ((#) (key, entry)) (delta_directory_rows self rest)"
| "delta_directory_rows self (DiffRemove key entry # rest) =
     do { require (fmlookup (forest_directory self) key \<noteq> None); delta_directory_rows self rest }"

fun delta_ledger_row :: "(StreamUid, StreamRecord) DiffItem \<Rightarrow> StreamUid \<times> LedgerCell" where
  "delta_ledger_row (DiffAdd uid rec) = (uid, CellValue rec)"
| "delta_ledger_row (DiffUpdate uid old rec) = (uid, CellValue rec)"
| "delta_ledger_row (DiffRemove uid rec) = (uid, CellDelete)"

type_synonym directory_diff =
  "(StreamPath, DirectoryEntry) fmap \<Rightarrow> (StreamPath, DirectoryEntry) fmap
     \<Rightarrow> (StreamPath, DirectoryEntry) DiffItem list"

type_synonym ledger_diff =
  "(StreamUid, StreamRecord) fmap \<Rightarrow> (StreamUid, StreamRecord) fmap
     \<Rightarrow> (StreamUid, StreamRecord) DiffItem list"

definition delta_since ::
  "directory_diff \<Rightarrow> ledger_diff \<Rightarrow> Forest \<Rightarrow> Forest \<Rightarrow> ForestDelta option" where
  "delta_since diff_directory diff_ledger self base =
     do { directory \<leftarrow> delta_directory_rows self
            (diff_directory (forest_directory base) (forest_directory self));
          Some \<lparr> delta_directory = directory,
                 delta_ledger = map delta_ledger_row
                   (diff_ledger (forest_ledger base) (forest_ledger self)) \<rparr> }"

subsection \<open>Construction from merged rows\<close>

definition directory_entry_uid :: "DirectoryEntry \<Rightarrow> StreamUid" where
  "directory_entry_uid entry = (case entry of DirLive uid \<Rightarrow> uid | DirTombstone uid \<Rightarrow> uid)"

fun place_entries ::
  "DirectoryEntry list \<Rightarrow> UidState option list \<Rightarrow> ForestContradiction + UidState option list" where
  "place_entries [] uid_states = Inr uid_states"
| "place_entries (entry # rest) uid_states =
     (case checked_sub (stream_uid_get (directory_entry_uid entry)) 1 of
        None \<Rightarrow> Inl UidGap
      | Some index \<Rightarrow>
          if index \<ge> length uid_states then Inl CountMismatch
          else if uid_states ! index \<noteq> None then Inl UidGap
          else place_entries rest (uid_states[index := Some
            (case entry of DirLive _ \<Rightarrow> LiveMissingRecord | DirTombstone _ \<Rightarrow> UidTombstone)]))"

fun match_records ::
  "StreamUid list \<Rightarrow> UidState option list \<Rightarrow> ForestContradiction + UidState option list" where
  "match_records [] uid_states = Inr uid_states"
| "match_records (uid # rest) uid_states =
     (case checked_sub (stream_uid_get uid) 1 of
        None \<Rightarrow> Inl RecordWithoutLive
      | Some index \<Rightarrow>
          if index \<ge> length uid_states then Inl RecordWithoutLive
          else (case uid_states ! index of
              None \<Rightarrow> Inl RecordWithoutLive
            | Some LiveMissingRecord \<Rightarrow>
                match_records rest (uid_states[index := Some LiveWithRecord])
            | Some UidTombstone \<Rightarrow> Inl TombstoneWithRecord
            | Some LiveWithRecord \<Rightarrow> Inl RecordWithoutLive))"

definition forest_try_from ::
  "(StreamPath, DirectoryEntry) fmap \<Rightarrow> (StreamUid, StreamRecord) fmap
     \<Rightarrow> ForestContradiction + Forest" where
  "forest_try_from directory ledger =
     (let n = fcard (fmdom directory) in
      if n > u64_max \<or> n > PARTITION_PATH_OCCUPANCIES_MAX_V2 then Inl CountMismatch
      else try_ok (place_entries (map snd (sorted_list_of_fmap directory)) (replicate n None))
        (\<lambda>placed. if None \<in> set placed then Inl UidGap
          else try_ok (match_records (map fst (sorted_list_of_fmap ledger)) placed)
            (\<lambda>matched. if Some LiveMissingRecord \<in> set matched then Inl LiveWithoutRecord
              else Inr \<lparr> forest_directory = directory, forest_ledger = ledger \<rparr>)))"

subsection \<open>The published status of a path\<close>

definition view_stream :: "Forest \<Rightarrow> StreamPath \<Rightarrow> StreamStatus option" where
  "view_stream f path =
     (case forest_resolve f path of
        None \<Rightarrow> Some StatusMissing
      | Some (DirTombstone _) \<Rightarrow> Some StatusDeleted
      | Some (DirLive uid) \<Rightarrow>
          do { rec \<leftarrow> forest_record f uid;
               Some (StatusLive (record_content_type rec) (record_expiry rec) (record_lifecycle rec)) })"

section \<open>The cross-store invariant\<close>

definition forest_size :: "Forest \<Rightarrow> nat" where
  "forest_size f = fcard (fmdom (forest_directory f))"

definition path_uid :: "Forest \<Rightarrow> StreamPath \<Rightarrow> nat" where
  "path_uid f p = stream_uid_get (entry_uid (the (fmlookup (forest_directory f) p)))"

text \<open>
  The uids of the occupied paths are exactly 1 to the number of paths, each used once; the
  Ledger has a record for the uid of each live path and for no other uid.
\<close>

definition forest_inv :: "Forest \<Rightarrow> bool" where
  "forest_inv f \<longleftrightarrow>
     forest_size f \<le> PARTITION_PATH_OCCUPANCIES_MAX_V2
     \<and> bij_betw (path_uid f) (fmdom' (forest_directory f)) {1..forest_size f}
     \<and> (\<forall>u. fmlookup (forest_ledger f) u \<noteq> None
          \<longleftrightarrow> (\<exists>p. fmlookup (forest_directory f) p = Some (DirLive u)))"

lemma forest_inv_empty: "forest_inv forest_empty"
  by (simp add: forest_inv_def forest_empty_def forest_size_def fcard.rep_eq bij_betw_def)

lemma path_uid_lookup [simp]:
  "fmlookup (forest_directory f) p = Some e \<Longrightarrow> path_uid f p = stream_uid_get (entry_uid e)"
  by (simp add: path_uid_def)

lemma forest_uid_range:
  assumes "forest_inv f" "fmlookup (forest_directory f) p = Some e"
  shows "1 \<le> stream_uid_get (entry_uid e)" "stream_uid_get (entry_uid e) \<le> forest_size f"
proof -
  have "path_uid f p \<in> {1..forest_size f}"
    using assms bij_betwE [of "path_uid f"] fmdom'I [OF assms(2)]
    unfolding forest_inv_def by blast
  with assms(2) show "1 \<le> stream_uid_get (entry_uid e)"
    "stream_uid_get (entry_uid e) \<le> forest_size f"
    by simp_all
qed

lemma forest_uid_inject:
  assumes "forest_inv f" "fmlookup (forest_directory f) p = Some d"
    "fmlookup (forest_directory f) q = Some e" "entry_uid d = entry_uid e"
  shows "p = q"
proof -
  have "inj_on (path_uid f) (fmdom' (forest_directory f))"
    using assms(1) by (simp add: forest_inv_def bij_betw_def)
  moreover have "path_uid f p = path_uid f q"
    using assms by simp
  ultimately show ?thesis
    using fmdom'I [OF assms(2)] fmdom'I [OF assms(3)] by (rule inj_onD)
qed

lemma forest_live_record:
  "forest_inv f \<Longrightarrow> fmlookup (forest_directory f) p = Some (DirLive u) \<Longrightarrow>
     \<exists>r. fmlookup (forest_ledger f) u = Some r"
  unfolding forest_inv_def by blast

lemma forest_size_u64:
  assumes "forest_inv f"
  shows "forest_size f \<le> PARTITION_PATH_OCCUPANCIES_MAX_V2" "forest_size f \<le> u64_max"
proof -
  show "forest_size f \<le> PARTITION_PATH_OCCUPANCIES_MAX_V2"
    using assms by (simp add: forest_inv_def)
  also have "\<dots> \<le> u64_max"
    by (simp add: bound_defs u64_max_def)
  finally show "forest_size f \<le> u64_max" .
qed

definition next_uid :: "Forest \<Rightarrow> StreamUid" where
  "next_uid f = StreamUid (nz_of (forest_size f + 1))"

lemma successor_uid_inv:
  assumes "forest_inv f"
  shows "successor_uid f =
     Some (if forest_size f = PARTITION_PATH_OCCUPANCIES_MAX_V2 then Inl PathCapacityExhausted
           else Inr (next_uid f))"
proof -
  have "PARTITION_PATH_OCCUPANCIES_MAX_V2 + 1 \<le> u64_max"
    by (simp add: bound_defs u64_max_def)
  with forest_size_u64 [OF assms] show ?thesis
    by (auto simp: successor_uid_def path_count_def Let_def forest_size_def [symmetric]
        successor_uid_after_def checked_add_def nz_new_def next_uid_def)
qed

section \<open>The strict fold under the invariant\<close>

lemma next_uid_get: "forest_inv f \<Longrightarrow> stream_uid_get (next_uid f) = forest_size f + 1"
  using forest_size_u64(1) [of f] by (simp add: next_uid_def bound_defs u64_max_def)

lemma next_uid_fresh:
  assumes "forest_inv f"
  shows "fmlookup (forest_ledger f) (next_uid f) = None"
proof (rule ccontr)
  assume "fmlookup (forest_ledger f) (next_uid f) \<noteq> None"
  then obtain p where "fmlookup (forest_directory f) p = Some (DirLive (next_uid f))"
    using assms unfolding forest_inv_def by blast
  with forest_uid_range(2) [OF assms this] next_uid_get [OF assms] show False by simp
qed

definition created_forest ::
  "Forest \<Rightarrow> StreamPath \<Rightarrow> StreamUid \<Rightarrow> StreamRecord \<Rightarrow> Forest" where
  "created_forest f p u r =
     \<lparr> forest_directory = fmupd p (DirLive u) (forest_directory f),
       forest_ledger = fmupd u r (forest_ledger f) \<rparr>"

definition closed_forest :: "Forest \<Rightarrow> StreamUid \<Rightarrow> StreamRecord \<Rightarrow> Forest" where
  "closed_forest f u r =
     f \<lparr> forest_ledger := fmupd u (r \<lparr> record_lifecycle := LifecycleClosed \<rparr>) (forest_ledger f) \<rparr>"

definition deleted_forest :: "Forest \<Rightarrow> StreamPath \<Rightarrow> StreamUid \<Rightarrow> Forest" where
  "deleted_forest f p u =
     \<lparr> forest_directory = fmupd p (DirTombstone u) (forest_directory f),
       forest_ledger = fmdrop u (forest_ledger f) \<rparr>"

lemma strict_fold_created:
  assumes "forest_inv f"
  shows "strict_fold f b (StreamCreated p u ct e l) = Some
     (if fmlookup (forest_directory f) p \<noteq> None then Inl PathOccupied
      else if forest_size f = PARTITION_PATH_OCCUPANCIES_MAX_V2 then Inl PathCapacityExhausted
      else if u \<noteq> next_uid f then Inl UidNotDenseSuccessor
      else Inr (created_forest f p u
        \<lparr> record_content_type = ct, record_expiry = e, record_lifecycle = l, record_created_at = b \<rparr>))"
  using next_uid_fresh [OF assms]
  by (auto simp: strict_fold_def successor_uid_inv [OF assms] created_forest_def)

lemma strict_fold_closed:
  assumes "forest_inv f"
  shows "strict_fold f b (StreamClosed p u) = Some
     (case fmlookup (forest_directory f) p of
        Some (DirLive v) \<Rightarrow>
          if v \<noteq> u then Inl PathUidMismatch
          else let r = the (fmlookup (forest_ledger f) u) in
            if record_lifecycle r = LifecycleClosed then Inl StreamAlreadyClosed
            else Inr (closed_forest f u r)
      | _ \<Rightarrow> Inl PathNotLive)"
proof (cases "fmlookup (forest_directory f) p = Some (DirLive u)")
  case True
  then obtain r where "fmlookup (forest_ledger f) u = Some r"
    using forest_live_record [OF assms] by blast
  with True show ?thesis
    by (cases "record_lifecycle r"; cases r)
      (simp_all add: strict_fold_def require_live_uid_def closed_forest_def Let_def)
qed (auto simp: strict_fold_def require_live_uid_def split: option.splits DirectoryEntry.splits)

lemma strict_fold_deleted:
  assumes "forest_inv f"
  shows "strict_fold f b (StreamDeleted p u) = Some
     (case fmlookup (forest_directory f) p of
        Some (DirLive v) \<Rightarrow>
          if v \<noteq> u then Inl PathUidMismatch else Inr (deleted_forest f p u)
      | _ \<Rightarrow> Inl PathNotLive)"
proof (cases "fmlookup (forest_directory f) p = Some (DirLive u)")
  case True
  then obtain r where "fmlookup (forest_ledger f) u = Some r"
    using forest_live_record [OF assms] by blast
  with True show ?thesis
    by (simp add: strict_fold_def require_live_uid_def deleted_forest_def)
qed (auto simp: strict_fold_def require_live_uid_def split: option.splits DirectoryEntry.splits)

lemmas strict_fold_inv = strict_fold_created strict_fold_closed strict_fold_deleted

lemma strict_fold_no_panic:
  assumes "forest_inv f"
  shows "strict_fold f b op \<noteq> None"
  using strict_fold_inv [OF assms] by (cases op) simp_all

subsection \<open>Preservation\<close>

lemma forest_inv_created:
  assumes inv: "forest_inv f" and new: "fmlookup (forest_directory f) p = None"
    and room: "forest_size f \<noteq> PARTITION_PATH_OCCUPANCIES_MAX_V2"
  shows "forest_inv (created_forest f p (next_uid f) r)"
proof -
  let ?g = "created_forest f p (next_uid f) r"
  have size: "forest_size ?g = Suc (forest_size f)"
    using fcard_fmupd_new [OF new] by (simp add: forest_size_def created_forest_def)
  have uid: "path_uid ?g q = (if q = p then Suc (forest_size f) else path_uid f q)" for q
    using next_uid_get [OF inv] by (simp add: path_uid_def created_forest_def)
  have p: "p \<notin> fmdom' (forest_directory f)"
    using new by (simp add: fmdom'_notI)
  have "bij_betw (path_uid ?g) (fmdom' (forest_directory f)) {1..forest_size f}"
    using inv p unfolding forest_inv_def
    by (subst bij_betw_cong [of _ _ "path_uid f"]) (auto simp: uid)
  with p have "bij_betw (path_uid ?g) (fmdom' (forest_directory f) \<union> {p})
      ({1..forest_size f} \<union> {path_uid ?g p})"
    by (intro notIn_Un_bij_betw) (auto simp: uid)
  moreover have "fmdom' (forest_directory ?g) = fmdom' (forest_directory f) \<union> {p}"
    by (simp add: created_forest_def)
  moreover have "{1..forest_size ?g} = {1..forest_size f} \<union> {path_uid ?g p}"
    by (auto simp: size uid)
  ultimately have "bij_betw (path_uid ?g) (fmdom' (forest_directory ?g)) {1..forest_size ?g}"
    by simp
  moreover have "fmlookup (forest_ledger ?g) u \<noteq> None
      \<longleftrightarrow> (\<exists>q. fmlookup (forest_directory ?g) q = Some (DirLive u))" for u
  proof (cases "u = next_uid f")
    case True
    then show ?thesis by (auto simp: created_forest_def)
  next
    case False
    have "fmlookup (forest_directory ?g) q = Some (DirLive u)
        \<longleftrightarrow> fmlookup (forest_directory f) q = Some (DirLive u)" for q
      using False new by (auto simp: created_forest_def)
    with False inv show ?thesis by (simp add: forest_inv_def created_forest_def)
  qed
  moreover have "forest_size ?g \<le> PARTITION_PATH_OCCUPANCIES_MAX_V2"
    using room forest_size_u64(1) [OF inv] by (simp add: size)
  ultimately show ?thesis
    unfolding forest_inv_def by blast
qed

lemma forest_inv_closed:
  assumes "forest_inv f" "fmlookup (forest_ledger f) u = Some r"
  shows "forest_inv (closed_forest f u r)"
proof -
  have "path_uid (closed_forest f u r) = path_uid f"
    by (auto simp: path_uid_def closed_forest_def fun_eq_iff)
  with assms show ?thesis
    by (auto simp: forest_inv_def closed_forest_def forest_size_def)
qed

lemma forest_inv_deleted:
  assumes inv: "forest_inv f" and live: "fmlookup (forest_directory f) p = Some (DirLive u)"
  shows "forest_inv (deleted_forest f p u)"
proof -
  let ?g = "deleted_forest f p u"
  have uid: "path_uid ?g = path_uid f"
    using live by (auto simp: path_uid_def deleted_forest_def fun_eq_iff)
  have size: "forest_size ?g = forest_size f"
    using fcard_fmupd_old [OF live] by (simp add: forest_size_def deleted_forest_def)
  have dom: "fmdom' (forest_directory ?g) = fmdom' (forest_directory f)"
    using fmdom'I [OF live] by (auto simp: deleted_forest_def)
  have "fmlookup (forest_ledger ?g) v \<noteq> None
      \<longleftrightarrow> (\<exists>q. fmlookup (forest_directory ?g) q = Some (DirLive v))" for v
  proof (cases "v = u")
    case True
    then have "fmlookup (forest_directory ?g) q \<noteq> Some (DirLive v)" for q
      using forest_uid_inject [OF inv live, of q "DirLive v"] by (auto simp: deleted_forest_def)
    with True show ?thesis by (simp add: deleted_forest_def)
  next
    case False
    then have "fmlookup (forest_directory ?g) q = Some (DirLive v)
        \<longleftrightarrow> fmlookup (forest_directory f) q = Some (DirLive v)" for q
      using live by (auto simp: deleted_forest_def)
    with False inv show ?thesis by (simp add: forest_inv_def deleted_forest_def)
  qed
  with inv show ?thesis
    unfolding forest_inv_def uid size dom by blast
qed

lemma strict_fold_preserves:
  assumes "forest_inv f" "strict_fold f b op = Some (Inr g)"
  shows "forest_inv g"
proof (cases op)
  case (StreamCreated p u ct e l)
  with assms show ?thesis
    by (auto simp: strict_fold_created forest_inv_created split: if_splits)
next
  case (StreamClosed p u)
  with assms forest_live_record [OF assms(1)] show ?thesis
    by (fastforce simp: strict_fold_closed Let_def intro: forest_inv_closed
        split: option.splits DirectoryEntry.splits if_splits)
next
  case (StreamDeleted p u)
  with assms show ?thesis
    by (auto simp: strict_fold_deleted forest_inv_deleted
        split: option.splits DirectoryEntry.splits if_splits)
qed

subsection \<open>Construction from merged rows\<close>

text \<open>The slot of a uid in the table of uid states.\<close>

definition uid_slot :: "StreamUid \<Rightarrow> nat" where
  "uid_slot u = stream_uid_get u - 1"

lemma uid_slot_checked:
  "checked_sub (stream_uid_get u) 1 = Some (uid_slot u)"
  "checked_sub (stream_uid_get u) (Suc 0) = Some (uid_slot u)"
  using stream_uid_get_bounds(1) [of u] by (simp_all add: uid_slot_def Suc_le_eq)

lemma uid_slot_Suc [simp]: "Suc (uid_slot u) = stream_uid_get u"
  using stream_uid_get_bounds(1) [of u] by (simp add: uid_slot_def)

lemma uid_slot_inject: "uid_slot u = uid_slot v \<longleftrightarrow> u = v"
  by (metis stream_uid_get_inject uid_slot_Suc)

definition entry_state :: "DirectoryEntry \<Rightarrow> UidState" where
  "entry_state e = (case e of DirLive _ \<Rightarrow> LiveMissingRecord | DirTombstone _ \<Rightarrow> UidTombstone)"

lemma directory_entry_uid_entry [simp]: "directory_entry_uid e = entry_uid e"
  by (cases e) (simp_all add: directory_entry_uid_def)

lemma place_entries_Cons:
  "place_entries (e # es) st =
     (if length st \<le> uid_slot (entry_uid e) then Inl CountMismatch
      else if st ! uid_slot (entry_uid e) \<noteq> None then Inl UidGap
      else place_entries es (st[uid_slot (entry_uid e) := Some (entry_state e)]))"
  by (simp add: uid_slot_checked entry_state_def del: checked_sub_Some)

lemma place_entries_Inr:
  assumes "place_entries es st = Inr st'"
  shows "length st' = length st
     \<and> distinct (map (uid_slot \<circ> entry_uid) es)
     \<and> (\<forall>e\<in>set es. uid_slot (entry_uid e) < length st \<and> st ! uid_slot (entry_uid e) = None)
     \<and> (\<forall>e\<in>set es. st' ! uid_slot (entry_uid e) = Some (entry_state e))
     \<and> (\<forall>i<length st. i \<notin> (uid_slot \<circ> entry_uid) ` set es \<longrightarrow> st' ! i = st ! i)"
  using assms
proof (induction es arbitrary: st)
  case (Cons e es)
  let ?i = "uid_slot (entry_uid e)" and ?st = "st[uid_slot (entry_uid e) := Some (entry_state e)]"
  from Cons.prems have step: "?i < length st" "st ! ?i = None" "place_entries es ?st = Inr st'"
    by (auto simp: place_entries_Cons not_le split: if_splits simp del: place_entries.simps)
  note IH = Cons.IH [OF step(3)]
  have free: "uid_slot (entry_uid d) \<noteq> ?i" if "d \<in> set es" for d
  proof
    assume "uid_slot (entry_uid d) = ?i"
    moreover have "?st ! uid_slot (entry_uid d) = None" using IH that by blast
    ultimately show False using step(1) by simp
  qed
  then have "?i \<notin> (uid_slot \<circ> entry_uid) ` set es" by force
  with IH step(1) have "st' ! ?i = Some (entry_state e)" by simp
  moreover have "?st ! uid_slot (entry_uid d) = st ! uid_slot (entry_uid d)" if "d \<in> set es" for d
    using free [OF that] by simp
  moreover have "?st ! i = st ! i" if "i \<noteq> ?i" for i
    using that by simp
  ultimately show ?case
    using IH step(1,2) free by force
qed simp

lemma place_entries_complete:
  assumes "distinct (map (uid_slot \<circ> entry_uid) es)"
    and "\<And>e. e \<in> set es \<Longrightarrow> uid_slot (entry_uid e) < length st \<and> st ! uid_slot (entry_uid e) = None"
  shows "\<exists>st'. place_entries es st = Inr st'"
  using assms
proof (induction es arbitrary: st)
  case (Cons e es)
  have "\<exists>st'. place_entries es (st[uid_slot (entry_uid e) := Some (entry_state e)]) = Inr st'"
    by (rule Cons.IH) (use Cons.prems in \<open>force simp: nth_list_update\<close>)+
  with Cons.prems(2) [of e] show ?case
    by (simp add: place_entries_Cons del: place_entries.simps)
qed simp

lemma match_records_Cons:
  "match_records (u # us) st =
     (if length st \<le> uid_slot u then Inl RecordWithoutLive
      else case st ! uid_slot u of
          None \<Rightarrow> Inl RecordWithoutLive
        | Some LiveMissingRecord \<Rightarrow> match_records us (st[uid_slot u := Some LiveWithRecord])
        | Some UidTombstone \<Rightarrow> Inl TombstoneWithRecord
        | Some LiveWithRecord \<Rightarrow> Inl RecordWithoutLive)"
  by (simp add: uid_slot_checked del: checked_sub_Some)

lemma match_records_Inr:
  assumes "distinct us"
  shows "match_records us st = Inr st' \<longleftrightarrow>
     (\<forall>u\<in>set us. uid_slot u < length st \<and> st ! uid_slot u = Some LiveMissingRecord)
     \<and> st' = foldl (\<lambda>st u. st[uid_slot u := Some LiveWithRecord]) st us"
  using assms
proof (induction us arbitrary: st)
  case (Cons u us)
  have "uid_slot u \<noteq> uid_slot v" if "v \<in> set us" for v
    using that Cons.prems by (auto simp: uid_slot_inject)
  then have other: "st[uid_slot u := x] ! uid_slot v = st ! uid_slot v" if "v \<in> set us" for v x
    using that by simp
  show ?case
  proof (cases "uid_slot u < length st \<and> st ! uid_slot u = Some LiveMissingRecord")
    case True
    with Cons.prems Cons.IH [of "st[uid_slot u := Some LiveWithRecord]"] show ?thesis
      by (simp add: match_records_Cons other del: match_records.simps cong: ball_cong)
  next
    case False
    then show ?thesis
      by (auto simp: match_records_Cons not_le simp del: match_records.simps
          split: option.splits UidState.splits)
  qed
qed auto

lemma foldl_slot_nth:
  "i < length st \<Longrightarrow>
     foldl (\<lambda>st u. st[uid_slot u := x]) st us ! i = (if i \<in> uid_slot ` set us then x else st ! i)"
  by (induction us arbitrary: st) (auto simp: nth_list_update)

lemma foldl_slot_length [simp]: "length (foldl (\<lambda>st u. st[uid_slot u := x]) st us) = length st"
  by (induction us arbitrary: st) auto

lemma place_entries_iff:
  "(\<exists>st. place_entries es (replicate n None) = Inr st) \<longleftrightarrow>
     distinct (map (uid_slot \<circ> entry_uid) es) \<and> (\<forall>e\<in>set es. uid_slot (entry_uid e) < n)"
proof
  assume "\<exists>st. place_entries es (replicate n None) = Inr st"
  then show "distinct (map (uid_slot \<circ> entry_uid) es) \<and> (\<forall>e\<in>set es. uid_slot (entry_uid e) < n)"
    by (auto dest: place_entries_Inr)
next
  assume "distinct (map (uid_slot \<circ> entry_uid) es) \<and> (\<forall>e\<in>set es. uid_slot (entry_uid e) < n)"
  then show "\<exists>st. place_entries es (replicate n None) = Inr st"
    by (intro place_entries_complete) simp_all
qed

lemma placed_live:
  assumes "place_entries es (replicate n None) = Inr st"
  shows "uid_slot u < n \<and> st ! uid_slot u = Some LiveMissingRecord \<longleftrightarrow> DirLive u \<in> set es"
proof
  note placed = place_entries_Inr [OF assms]
  assume slot: "uid_slot u < n \<and> st ! uid_slot u = Some LiveMissingRecord"
  then have "uid_slot u \<in> (uid_slot \<circ> entry_uid) ` set es"
    using placed by fastforce
  then obtain e where e: "e \<in> set es" "uid_slot u = uid_slot (entry_uid e)" by auto
  with placed slot have "entry_state e = LiveMissingRecord" "entry_uid e = u"
    by (auto simp: uid_slot_inject)
  then have "e = DirLive u"
    by (cases e) (simp_all add: entry_state_def)
  with e(1) show "DirLive u \<in> set es" by simp
next
  assume "DirLive u \<in> set es"
  with place_entries_Inr [OF assms] show "uid_slot u < n \<and> st ! uid_slot u = Some LiveMissingRecord"
    by (force simp: entry_state_def)
qed

lemma placed_all_some:
  assumes "place_entries es (replicate n None) = Inr st"
    and "(uid_slot \<circ> entry_uid) ` set es = {..<n}"
  shows "None \<notin> set st"
proof
  note placed = place_entries_Inr [OF assms(1)]
  assume "None \<in> set st"
  then obtain i where i: "i < n" "st ! i = None"
    using placed by (auto simp: in_set_conv_nth)
  then obtain e where "e \<in> set es" "i = uid_slot (entry_uid e)"
    using assms(2) by (metis (no_types, lifting) comp_apply image_iff lessThan_iff)
  with placed i(2) show False by simp
qed

definition directory_entries :: "Forest \<Rightarrow> DirectoryEntry list" where
  "directory_entries f = map snd (sorted_list_of_fmap (forest_directory f))"

lemma set_directory_entries:
  "e \<in> set (directory_entries f) \<longleftrightarrow> (\<exists>p. fmlookup (forest_directory f) p = Some e)"
  unfolding directory_entries_def set_map image_iff
  by (metis prod.collapse set_sorted_list_of_fmap snd_conv)

lemma directory_entries_slots:
  "map (uid_slot \<circ> entry_uid) (directory_entries f)
     = map (\<lambda>p. path_uid f p - 1) (sorted_list_of_fset (fmdom (forest_directory f)))"
  by (simp add: directory_entries_def sorted_list_of_fmap_def path_uid_def uid_slot_def comp_def)

lemma path_uid_pos: "0 < path_uid f p"
  by (simp add: path_uid_def)

lemma dense_uids_iff:
  "distinct (map (uid_slot \<circ> entry_uid) (directory_entries f))
     \<and> (\<forall>e\<in>set (directory_entries f). uid_slot (entry_uid e) < forest_size f)
   \<longleftrightarrow> bij_betw (path_uid f) (fmdom' (forest_directory f)) {1..forest_size f}"
proof -
  let ?D = "fmdom' (forest_directory f)"
  have card: "card ?D = forest_size f" and fin: "finite ?D"
    by (simp_all add: forest_size_def fcard.rep_eq fmdom'_alt_def)
  have "distinct (map (uid_slot \<circ> entry_uid) (directory_entries f)) \<longleftrightarrow> inj_on (\<lambda>p. path_uid f p - 1) ?D"
    by (simp add: directory_entries_slots distinct_map fmdom'_alt_def)
  also have "\<dots> \<longleftrightarrow> inj_on (path_uid f) ?D"
    using path_uid_pos [of f] by (auto simp: inj_on_def) (metis Suc_pred)
  finally have inj: "distinct (map (uid_slot \<circ> entry_uid) (directory_entries f))
      \<longleftrightarrow> inj_on (path_uid f) ?D" .
  have slots: "(uid_slot \<circ> entry_uid) ` set (directory_entries f) = (\<lambda>p. path_uid f p - 1) ` ?D"
    unfolding set_map [symmetric] directory_entries_slots by (simp add: fmdom'_alt_def)
  have "(\<forall>e\<in>set (directory_entries f). uid_slot (entry_uid e) < forest_size f)
      \<longleftrightarrow> (uid_slot \<circ> entry_uid) ` set (directory_entries f) \<subseteq> {..<forest_size f}"
    by auto
  also have "\<dots> \<longleftrightarrow> (\<forall>p\<in>?D. path_uid f p - 1 < forest_size f)"
    unfolding slots by blast
  also have "\<dots> \<longleftrightarrow> path_uid f ` ?D \<subseteq> {1..forest_size f}"
    using path_uid_pos [of f] by (fastforce simp: Suc_le_eq)
  finally have range: "(\<forall>e\<in>set (directory_entries f). uid_slot (entry_uid e) < forest_size f)
      \<longleftrightarrow> path_uid f ` ?D \<subseteq> {1..forest_size f}" .
  have "path_uid f ` ?D = {1..forest_size f}"
    if "inj_on (path_uid f) ?D" "path_uid f ` ?D \<subseteq> {1..forest_size f}"
    using that card by (intro card_subset_eq) (simp_all add: card_image)
  then show ?thesis
    unfolding inj range bij_betw_def by blast
qed

lemma slots_image:
  assumes "bij_betw (path_uid f) (fmdom' (forest_directory f)) {1..forest_size f}"
  shows "(uid_slot \<circ> entry_uid) ` set (directory_entries f) = {..<forest_size f}"
proof -
  let ?S = "(uid_slot \<circ> entry_uid) ` set (directory_entries f)"
  have dense: "distinct (map (uid_slot \<circ> entry_uid) (directory_entries f))"
      "\<forall>e\<in>set (directory_entries f). uid_slot (entry_uid e) < forest_size f"
    using assms dense_uids_iff [of f] by blast+
  have "card ?S = forest_size f"
    using distinct_card [OF dense(1)]
    by (simp add: directory_entries_def forest_size_def image_image)
  with dense(2) show ?thesis
    by (intro card_subset_eq) auto
qed

lemma records_match_iff:
  assumes "place_entries (directory_entries f) (replicate (forest_size f) None) = Inr st"
  shows "(\<exists>matched. match_records (map fst (sorted_list_of_fmap (forest_ledger f))) st = Inr matched
            \<and> Some LiveMissingRecord \<notin> set matched)
     \<longleftrightarrow> (\<forall>u. fmlookup (forest_ledger f) u \<noteq> None
            \<longleftrightarrow> (\<exists>p. fmlookup (forest_directory f) p = Some (DirLive u)))"
proof -
  let ?us = "map fst (sorted_list_of_fmap (forest_ledger f))"
  let ?m = "foldl (\<lambda>st u. st[uid_slot u := Some LiveWithRecord]) st ?us"
  have us: "distinct ?us" "u \<in> set ?us \<longleftrightarrow> fmlookup (forest_ledger f) u \<noteq> None" for u
    by (simp_all add: map_fst_sorted_list_of_fmap fmlookup_dom_iff)
  have len: "length st = forest_size f"
    using place_entries_Inr [OF assms] by simp
  have live: "uid_slot u < length st \<and> st ! uid_slot u = Some LiveMissingRecord
      \<longleftrightarrow> (\<exists>p. fmlookup (forest_directory f) p = Some (DirLive u))" for u
    using placed_live [OF assms] len by (simp add: set_directory_entries)
  have "Some LiveMissingRecord \<notin> set ?m \<longleftrightarrow>
      (\<forall>i<length st. i \<notin> uid_slot ` set ?us \<longrightarrow> st ! i \<noteq> Some LiveMissingRecord)"
    by (auto simp: in_set_conv_nth foldl_slot_nth)
  also have "\<dots> \<longleftrightarrow> (\<forall>u. (\<exists>p. fmlookup (forest_directory f) p = Some (DirLive u)) \<longrightarrow> u \<in> set ?us)"
  proof (intro iffI allI impI)
    fix u assume "\<forall>i<length st. i \<notin> uid_slot ` set ?us \<longrightarrow> st ! i \<noteq> Some LiveMissingRecord"
      and "\<exists>p. fmlookup (forest_directory f) p = Some (DirLive u)"
    with live [of u] have "uid_slot u \<in> uid_slot ` set ?us" by blast
    then show "u \<in> set ?us" by (auto simp: uid_slot_inject simp del: set_map)
  next
    fix i assume all: "\<forall>u. (\<exists>p. fmlookup (forest_directory f) p = Some (DirLive u)) \<longrightarrow> u \<in> set ?us"
      and i: "i < length st" "i \<notin> uid_slot ` set ?us"
    show "st ! i \<noteq> Some LiveMissingRecord"
    proof
      assume "st ! i = Some LiveMissingRecord"
      moreover obtain u where u: "uid_slot u = i"
        using i(1) len place_entries_Inr [OF assms] calculation by fastforce
      ultimately have "u \<in> set ?us" using live [of u] i(1) all by blast
      with u i(2) show False by blast
    qed
  qed
  finally show ?thesis
    using match_records_Inr [OF us(1), of st] live us(2) by (auto simp del: set_map)
qed

lemma forest_try_from_Inr:
  "forest_try_from d l = Inr f \<longleftrightarrow> f = \<lparr> forest_directory = d, forest_ledger = l \<rparr> \<and> forest_inv f"
proof -
  define g where "g = \<lparr> forest_directory = d, forest_ledger = l \<rparr>"
  then have fields: "forest_directory g = d" "forest_ledger g = l" by simp_all
  have size: "fcard (fmdom d) = forest_size g" by (simp add: forest_size_def fields)
  have max: "PARTITION_PATH_OCCUPANCIES_MAX_V2 \<le> u64_max"
    by (simp add: bound_defs u64_max_def)
  have place: "(\<exists>st. place_entries (directory_entries g) (replicate (forest_size g) None) = Inr st)
      \<longleftrightarrow> bij_betw (path_uid g) (fmdom' d) {1..forest_size g}"
    by (simp only: place_entries_iff dense_uids_iff fields)
  have "forest_try_from d l = Inr f \<longleftrightarrow> f = g
      \<and> forest_size g \<le> PARTITION_PATH_OCCUPANCIES_MAX_V2
      \<and> (\<exists>st. place_entries (directory_entries g) (replicate (forest_size g) None) = Inr st
          \<and> None \<notin> set st
          \<and> (\<exists>matched. match_records (map fst (sorted_list_of_fmap l)) st = Inr matched
              \<and> Some LiveMissingRecord \<notin> set matched))"
    using max unfolding forest_try_from_def Let_def size directory_entries_def fields g_def [symmetric]
    by (auto simp: try_ok_Inr split: if_splits)
  also have "\<dots> \<longleftrightarrow> f = g \<and> forest_size g \<le> PARTITION_PATH_OCCUPANCIES_MAX_V2
      \<and> (\<exists>st. place_entries (directory_entries g) (replicate (forest_size g) None) = Inr st)
      \<and> (\<forall>u. fmlookup l u \<noteq> None \<longleftrightarrow> (\<exists>p. fmlookup d p = Some (DirLive u)))"
  proof -
    have "None \<notin> set st"
      if "place_entries (directory_entries g) (replicate (forest_size g) None) = Inr st" for st
      using placed_all_some [OF that] slots_image [of g] place that unfolding fields by blast
    then have "(place_entries (directory_entries g) (replicate (forest_size g) None) = Inr st
          \<and> None \<notin> set st
          \<and> (\<exists>matched. match_records (map fst (sorted_list_of_fmap l)) st = Inr matched
              \<and> Some LiveMissingRecord \<notin> set matched))
        \<longleftrightarrow> (place_entries (directory_entries g) (replicate (forest_size g) None) = Inr st
          \<and> (\<forall>u. fmlookup l u \<noteq> None \<longleftrightarrow> (\<exists>p. fmlookup d p = Some (DirLive u))))" for st
      using records_match_iff [of g st] unfolding fields by (intro conj_cong refl) simp_all
    then show ?thesis by (simp only: ex_simps)
  qed
  also have "\<dots> \<longleftrightarrow> f = g \<and> forest_inv g"
    unfolding forest_inv_def place fields ..
  finally show ?thesis by (auto simp: g_def)
qed

text \<open>
  C26. The checked construction of a recovered forest accepts exactly the pairs of maps with the
  cross-store invariant: dense and unique uids within the path bound, and a Ledger record for
  the uid of each live path and for no other. It returns the maps unchanged.
\<close>

theorem forest_try_from_exact:
  "forest_try_from directory ledger = Inr f \<longleftrightarrow>
     f = \<lparr> forest_directory = directory, forest_ledger = ledger \<rparr> \<and> forest_inv f"
  by (rule forest_try_from_Inr)

section \<open>Replaying a log of facts\<close>

text \<open>
  The contract of a strict log: from a state with the invariant a step does not panic, and an
  accepted step keeps the invariant. Whole logs inherit both.
\<close>

locale strict_log =
  fixes step :: "'s \<Rightarrow> 'x \<Rightarrow> ('e + 's) option"
    and inv :: "'s \<Rightarrow> bool"
  assumes step_total: "inv s \<Longrightarrow> step s x \<noteq> None"
    and step_inv: "inv s \<Longrightarrow> step s x = Some (Inr s') \<Longrightarrow> inv s'"
begin

lemma replay_inv: "inv s \<Longrightarrow> try_fold step s xs = Some (Inr s') \<Longrightarrow> inv s'"
  by (rule try_fold_invariant [where P = inv and f = step]) (rule step_inv)

lemma replay_total: "inv s \<Longrightarrow> try_fold step s xs \<noteq> None"
proof (induction xs arbitrary: s)
  case (Cons x xs)
  from step_total [OF Cons.prems, of x] obtain r where r: "step s x = Some r" by blast
  then show ?case
  proof (cases r)
    case (Inr s')
    with r Cons.IH [OF step_inv [OF Cons.prems]] show ?thesis by simp
  qed simp
qed simp

lemma replay_prefix:
  assumes "inv s" "try_fold step s (xs @ ys) = Some (Inr t)"
  obtains s' where "try_fold step s xs = Some (Inr s')" "inv s'" "try_fold step s' ys = Some (Inr t)"
  using assms replay_inv [OF assms(1)] by (auto simp: try_fold_append and_then_Inr)

lemma replay_relation:
  assumes "\<And>s x s'. inv s \<Longrightarrow> step s x = Some (Inr s') \<Longrightarrow> R s s'"
    and "\<And>s. R s s" and "\<And>s t u. R s t \<Longrightarrow> R t u \<Longrightarrow> R s u"
    and "inv s" "try_fold step s xs = Some (Inr t)"
  shows "R s t"
  using assms(4,5)
proof (induction xs arbitrary: s)
  case Nil
  with assms(2) show ?case by simp
next
  case (Cons x xs)
  then obtain s' where s': "step s x = Some (Inr s')" "try_fold step s' xs = Some (Inr t)"
    by (auto simp: and_then_Inr)
  with Cons assms(1,3) step_inv show ?case by blast
qed

end

definition fold_at :: "Forest \<Rightarrow> BatchId \<times> OperationFact \<Rightarrow> (FoldContradiction + Forest) option" where
  "fold_at f entry = strict_fold f (fst entry) (snd entry)"

definition replay ::
  "Forest \<Rightarrow> (BatchId \<times> OperationFact) list \<Rightarrow> (FoldContradiction + Forest) option" where
  "replay f log = try_fold fold_at f log"

interpretation fact_log: strict_log fold_at forest_inv
  by unfold_locales
    (auto simp: fold_at_def strict_fold_no_panic strict_fold_preserves
      simp del: not_None_eq not_Some_eq)

subsection \<open>Refinement of the path status map\<close>

type_synonym status_map = "StreamPath \<Rightarrow> StreamStatus"

definition status :: "Forest \<Rightarrow> status_map" where
  "status f p = the (view_stream f p)"

text \<open>The abstract effect of a fact; None where the fact contradicts the map.\<close>

fun spec_fold :: "status_map \<Rightarrow> OperationFact \<Rightarrow> status_map option" where
  "spec_fold m (StreamCreated p u ct e l) =
     (case m p of StatusMissing \<Rightarrow> Some (m(p := StatusLive ct e l)) | _ \<Rightarrow> None)"
| "spec_fold m (StreamClosed p u) =
     (case m p of
        StatusLive ct e l \<Rightarrow>
          (case l of LifecycleOpen \<Rightarrow> Some (m(p := StatusLive ct e LifecycleClosed))
           | LifecycleClosed \<Rightarrow> None)
      | _ \<Rightarrow> None)"
| "spec_fold m (StreamDeleted p u) =
     (case m p of StatusLive ct e l \<Rightarrow> Some (m(p := StatusDeleted)) | _ \<Rightarrow> None)"

lemma view_stream_total: "forest_inv f \<Longrightarrow> \<exists>st. view_stream f p = Some st"
  using forest_live_record [of f p]
  by (fastforce simp: view_stream_def forest_resolve_def forest_record_def
      split: option.splits DirectoryEntry.splits)

lemma status_simps:
  "fmlookup (forest_directory f) p = None \<Longrightarrow> status f p = StatusMissing"
  "fmlookup (forest_directory f) p = Some (DirTombstone u) \<Longrightarrow> status f p = StatusDeleted"
  "fmlookup (forest_directory f) p = Some (DirLive u) \<Longrightarrow> fmlookup (forest_ledger f) u = Some r
     \<Longrightarrow> status f p = StatusLive (record_content_type r) (record_expiry r) (record_lifecycle r)"
  by (simp_all add: status_def view_stream_def forest_resolve_def forest_record_def)

lemma path_cases:
  assumes "forest_inv f"
  obtains (missing) "fmlookup (forest_directory f) p = None" "status f p = StatusMissing"
  | (tombstone) u where "fmlookup (forest_directory f) p = Some (DirTombstone u)"
      "status f p = StatusDeleted"
  | (live) u r where "fmlookup (forest_directory f) p = Some (DirLive u)"
      "fmlookup (forest_ledger f) u = Some r"
      "status f p = StatusLive (record_content_type r) (record_expiry r) (record_lifecycle r)"
proof (cases "fmlookup (forest_directory f) p")
  case None
  then show thesis using missing status_simps(1) by blast
next
  case (Some e)
  then show thesis
    using tombstone live status_simps(2,3) forest_live_record [OF assms]
    by (cases e) metis+
qed

lemma status_cong:
  "fmlookup (forest_directory g) p = fmlookup (forest_directory f) p \<Longrightarrow>
   (\<And>u. fmlookup (forest_directory f) p = Some (DirLive u) \<Longrightarrow>
     fmlookup (forest_ledger g) u = fmlookup (forest_ledger f) u) \<Longrightarrow> status g p = status f p"
  by (auto simp: status_def view_stream_def forest_resolve_def forest_record_def
      split: option.splits DirectoryEntry.splits)

lemma status_created:
  assumes inv: "forest_inv f" and new: "fmlookup (forest_directory f) p = None"
  shows "status (created_forest f p (next_uid f) r) =
     (status f)(p := StatusLive (record_content_type r) (record_expiry r) (record_lifecycle r))"
proof
  fix q
  let ?g = "created_forest f p (next_uid f) r"
  show "status ?g q = ((status f)(p := StatusLive (record_content_type r) (record_expiry r)
      (record_lifecycle r))) q"
  proof (cases "q = p")
    case True
    then show ?thesis
      using status_simps(3) [of ?g p "next_uid f" r] by (simp add: created_forest_def)
  next
    case False
    have "u \<noteq> next_uid f" if "fmlookup (forest_directory f) q = Some (DirLive u)" for u
      using forest_live_record [OF inv that] next_uid_fresh [OF inv] by auto
    with False show ?thesis
      by (subst status_cong [of ?g q f]) (auto simp: created_forest_def)
  qed
qed

lemma status_closed:
  assumes inv: "forest_inv f" and live: "fmlookup (forest_directory f) p = Some (DirLive u)"
  shows "status (closed_forest f u r) =
     (status f)(p := StatusLive (record_content_type r) (record_expiry r) LifecycleClosed)"
proof
  fix q
  let ?g = "closed_forest f u r"
  show "status ?g q = ((status f)(p := StatusLive (record_content_type r) (record_expiry r)
      LifecycleClosed)) q"
  proof (cases "q = p")
    case True
    with live show ?thesis
      using status_simps(3) [of ?g p u] by (simp add: closed_forest_def)
  next
    case False
    have "v \<noteq> u" if "fmlookup (forest_directory f) q = Some (DirLive v)" for v
      using forest_uid_inject [OF inv live that] False by auto
    with False show ?thesis
      by (subst status_cong [of ?g q f]) (auto simp: closed_forest_def)
  qed
qed

lemma status_deleted:
  assumes inv: "forest_inv f" and live: "fmlookup (forest_directory f) p = Some (DirLive u)"
  shows "status (deleted_forest f p u) = (status f)(p := StatusDeleted)"
proof
  fix q
  let ?g = "deleted_forest f p u"
  show "status ?g q = ((status f)(p := StatusDeleted)) q"
  proof (cases "q = p")
    case True
    then show ?thesis
      using status_simps(2) [of ?g p u] by (simp add: deleted_forest_def)
  next
    case False
    have "v \<noteq> u" if "fmlookup (forest_directory f) q = Some (DirLive v)" for v
      using forest_uid_inject [OF inv live that] False by auto
    with False show ?thesis
      by (subst status_cong [of ?g q f]) (auto simp: deleted_forest_def)
  qed
qed

lemma strict_fold_refines:
  assumes inv: "forest_inv f" and step: "strict_fold f b op = Some (Inr g)"
  shows "spec_fold (status f) op = Some (status g)"
proof (cases op)
  case (StreamCreated p u ct e l)
  with assms status_created [OF inv, of p] show ?thesis
    by (auto simp: strict_fold_created status_simps split: if_splits)
next
  case (StreamClosed p u)
  with assms have live: "fmlookup (forest_directory f) p = Some (DirLive u)"
    by (auto simp: strict_fold_closed split: option.splits DirectoryEntry.splits if_splits)
  then obtain r where r: "fmlookup (forest_ledger f) u = Some r"
    using forest_live_record [OF inv] by blast
  with StreamClosed live assms status_closed [OF inv live, of r] show ?thesis
    by (cases "record_lifecycle r")
      (auto simp: strict_fold_closed status_simps(3) [OF live r])
next
  case (StreamDeleted p u)
  with assms have live: "fmlookup (forest_directory f) p = Some (DirLive u)"
    by (auto simp: strict_fold_deleted split: option.splits DirectoryEntry.splits if_splits)
  then obtain r where "fmlookup (forest_ledger f) u = Some r"
    using forest_live_record [OF inv] by blast
  with StreamDeleted live assms status_deleted [OF inv live] show ?thesis
    by (auto simp: strict_fold_deleted status_simps(3) [OF live])
qed

subsection \<open>Properties of the fold\<close>

text \<open>The identity side condition of a fact: a dense new uid within capacity, or the live uid.\<close>

definition uid_fits :: "Forest \<Rightarrow> OperationFact \<Rightarrow> bool" where
  "uid_fits f op \<longleftrightarrow>
     (case op of
        StreamCreated p u ct e l \<Rightarrow>
          forest_size f < PARTITION_PATH_OCCUPANCIES_MAX_V2 \<and> stream_uid_get u = forest_size f + 1
      | StreamClosed p u \<Rightarrow> forest_resolve f p = Some (DirLive u)
      | StreamDeleted p u \<Rightarrow> forest_resolve f p = Some (DirLive u))"

text \<open>
  C27. The strict fold refines the map from paths to published statuses. From a forest with the
  cross-store invariant it never panics; it accepts a fact exactly if the status map allows it
  and its uid fits (the dense successor within capacity for a create, the live uid otherwise);
  and then the new forest keeps the invariant and its status map is the abstract result.
\<close>

theorem strict_fold_refines_status:
  assumes "forest_inv f"
  shows "\<exists>r. strict_fold f b op = Some r
     \<and> ((\<exists>g. r = Inr g) \<longleftrightarrow> spec_fold (status f) op \<noteq> None \<and> uid_fits f op)
     \<and> (\<forall>g. r = Inr g \<longrightarrow> forest_inv g \<and> spec_fold (status f) op = Some (status g))"
proof -
  obtain r where r: "strict_fold f b op = Some r"
    using strict_fold_no_panic [OF assms] by blast
  have dense: "stream_uid_get u = Suc (forest_size f) \<longleftrightarrow> u = next_uid f" for u
    using next_uid_get [OF assms] stream_uid_get_inject by (metis Suc_eq_plus1)
  note folds = strict_fold_inv [OF assms] uid_fits_def forest_resolve_def dense Let_def
  have "(\<exists>g. r = Inr g) \<longleftrightarrow> spec_fold (status f) op \<noteq> None \<and> uid_fits f op"
  proof (cases "fact_path op" rule: path_cases [OF assms, case_names missing tombstone live])
    case missing
    with r forest_size_u64(1) [OF assms] show ?thesis
      by (cases op) (auto simp: folds split: if_splits)
  next
    case (tombstone u)
    with r show ?thesis
      by (cases op) (auto simp: folds split: if_splits)
  next
    case (live u r')
    with r show ?thesis
      by (cases op; cases "record_lifecycle r'") (auto simp: folds split: if_splits)
  qed
  with r show ?thesis
    using strict_fold_preserves [OF assms] strict_fold_refines [OF assms] by auto
qed

definition sample_created :: OperationFact where
  "sample_created =
     StreamCreated (path_of ''a'') (StreamUid nz_min) octet_stream NoExpiry LifecycleOpen"

theorem strict_fold_refines_status_witness:
  "\<exists>g. strict_fold forest_empty (BatchId nz_min) sample_created = Some (Inr g) \<and> forest_inv g
     \<and> status g (path_of ''a'') = StatusLive octet_stream NoExpiry LifecycleOpen"
proof -
  have "status forest_empty p = StatusMissing" for p
    by (rule status_simps(1)) (simp add: forest_empty_def)
  moreover have "uid_fits forest_empty sample_created"
    by (simp add: uid_fits_def sample_created_def forest_empty_def forest_size_def bound_defs fcard.rep_eq)
  moreover have "spec_fold (status forest_empty) sample_created =
      Some ((status forest_empty)(path_of ''a'' := StatusLive octet_stream NoExpiry LifecycleOpen))"
    using calculation(1) by (simp add: sample_created_def)
  ultimately obtain g where "strict_fold forest_empty (BatchId nz_min) sample_created = Some (Inr g)"
      "forest_inv g"
      "(status forest_empty)(path_of ''a'' := StatusLive octet_stream NoExpiry LifecycleOpen) = status g"
    using strict_fold_refines_status [OF forest_inv_empty, of "BatchId nz_min" sample_created] by auto
  then show ?thesis by (metis fun_upd_same)
qed

definition occupancy_kept :: "Forest \<Rightarrow> Forest \<Rightarrow> bool" where
  "occupancy_kept f g \<longleftrightarrow>
     (\<forall>p e. forest_resolve f p = Some e \<longrightarrow>
        (\<exists>e'. forest_resolve g p = Some e' \<and> entry_uid e' = entry_uid e
           \<and> (\<forall>u. e = DirTombstone u \<longrightarrow> e' = e)))"

lemma occupancy_kept_refl: "occupancy_kept f f"
  by (simp add: occupancy_kept_def)

lemma occupancy_kept_trans: "occupancy_kept f g \<Longrightarrow> occupancy_kept g h \<Longrightarrow> occupancy_kept f h"
  unfolding occupancy_kept_def by metis

lemma strict_fold_occupancy:
  assumes "forest_inv f" "strict_fold f b op = Some (Inr g)"
  shows "occupancy_kept f g"
proof (cases op)
  case (StreamCreated p u ct e l)
  with assms show ?thesis
    by (auto simp: strict_fold_created occupancy_kept_def created_forest_def forest_resolve_def
        split: if_splits)
next
  case (StreamClosed p u)
  with assms show ?thesis
    by (auto simp: strict_fold_closed occupancy_kept_def closed_forest_def forest_resolve_def Let_def
        split: option.splits DirectoryEntry.splits if_splits)
next
  case (StreamDeleted p u)
  with assms show ?thesis
    by (auto simp: strict_fold_deleted occupancy_kept_def deleted_forest_def forest_resolve_def
        split: option.splits DirectoryEntry.splits if_splits)
qed

lemma replay_occupancy:
  assumes "forest_inv f" "replay f log = Some (Inr g)"
  shows "occupancy_kept f g"
proof (rule fact_log.replay_relation [where R = occupancy_kept])
  show "occupancy_kept s s'" if "forest_inv s" "fold_at s x = Some (Inr s')" for s x s'
    using that strict_fold_occupancy by (auto simp: fold_at_def)
  show "try_fold fold_at f log = Some (Inr g)"
    using assms(2) by (simp add: replay_def)
qed (fact occupancy_kept_refl occupancy_kept_trans assms(1))+

text \<open>
  C28. Path occupancy is permanent. Replaying any accepted log of facts from a forest with the
  invariant keeps every occupied path occupied with the same uid, and keeps every tombstone a
  tombstone: a deleted path is never reused.
\<close>

theorem replay_keeps_occupancy:
  assumes "forest_inv f" "replay f log = Some (Inr g)" "forest_resolve f p = Some e"
  shows "\<exists>e'. forest_resolve g p = Some e' \<and> entry_uid e' = entry_uid e
     \<and> (\<forall>u. e = DirTombstone u \<longrightarrow> e' = e)"
  using replay_occupancy [OF assms(1,2)] assms(3) unfolding occupancy_kept_def by blast

definition sample_forest :: Forest where
  "sample_forest = created_forest forest_empty (path_of ''a'') (next_uid forest_empty)
     \<lparr> record_content_type = octet_stream, record_expiry = NoExpiry,
       record_lifecycle = LifecycleOpen, record_created_at = BatchId nz_min \<rparr>"

lemma sample_forest_inv: "forest_inv sample_forest"
  unfolding sample_forest_def
  by (rule forest_inv_created [OF forest_inv_empty])
    (simp_all add: forest_empty_def forest_size_def bound_defs fcard.rep_eq)

lemma sample_forest_resolve:
  "forest_resolve sample_forest (path_of ''a'') = Some (DirLive (next_uid forest_empty))"
  by (simp add: sample_forest_def created_forest_def forest_resolve_def)

theorem replay_keeps_occupancy_witness:
  "\<exists>g e'. replay sample_forest
       [(BatchId nz_min, StreamDeleted (path_of ''a'') (next_uid forest_empty))] = Some (Inr g)
     \<and> forest_resolve g (path_of ''a'') = Some e' \<and> entry_uid e' = next_uid forest_empty"
proof -
  let ?log = "[(BatchId nz_min, StreamDeleted (path_of ''a'') (next_uid forest_empty))]"
  let ?g = "deleted_forest sample_forest (path_of ''a'') (next_uid forest_empty)"
  have "replay sample_forest ?log = Some (Inr ?g)"
    using sample_forest_resolve
    by (simp add: replay_def fold_at_def strict_fold_deleted [OF sample_forest_inv] forest_resolve_def)
  with replay_keeps_occupancy [OF sample_forest_inv this sample_forest_resolve] show ?thesis
    by auto
qed

end
