(* ===== verification/Writer.thy ===== *)
theory Writer
  imports Forest
begin

text \<open>
  The pure writer machine of \<open>strom-storage-protocol/src/writer.rs\<close>: commands, completions,
  checkpoint tickets and inputs, events, effects and actions, the machine state, and one function
  per method of the machine. A panic is None. Two things of the source are represented: a oneshot
  reply sender is a number that identifies it, and a forest held by the machine carries a root
  number that stands for the pointers compared by \<open>shares_roots_with\<close>: cloning keeps the number,
  an accepted fold takes the next unused one. The WAL encoder is an argument.
\<close>

section \<open>Commands and completions\<close>

definition WRITER_OUTPUTS_PER_STEP_MAX :: nat where
  "WRITER_OUTPUTS_PER_STEP_MAX = 4"

type_synonym reply = nat

record CreateStream =
  create_path :: StreamPath
  create_content_type :: StreamContentType
  create_expiry :: ExpiryPolicy
  create_lifecycle :: StreamLifecycle

datatype AdmissionRefusal =
  RefusedPathOccupied | RefusedPathCapacityExhausted | RefusedPathNotLive | RefusedOverloaded

datatype CommandEnvelope =
  CreateCommand CreateStream (command_reply: reply)
| CloseCommand StreamPath (command_reply: reply)
| DeleteCommand StreamPath (command_reply: reply)

datatype Completion =
  CreateCompletion "AdmissionRefusal + CreateOutcome" (completion_reply: reply)
| CloseCompletion "AdmissionRefusal + CloseStreamOutcome" (completion_reply: reply)
| DeleteCompletion "AdmissionRefusal + unit" (completion_reply: reply)

definition completion_refusal :: "Completion \<Rightarrow> AdmissionRefusal \<Rightarrow> Completion" where
  "completion_refusal completion refusal =
     (case completion of
        CreateCompletion _ reply \<Rightarrow> CreateCompletion (Inl refusal) reply
      | CloseCompletion _ reply \<Rightarrow> CloseCompletion (Inl refusal) reply
      | DeleteCompletion _ reply \<Rightarrow> DeleteCompletion (Inl refusal) reply)"

section \<open>Checkpoints\<close>

datatype CheckpointTicket =
  CheckpointTicket (ticket_source: SealGeneration) (ticket_cut: BatchId) (ticket_attempt: AttemptId)

record CheckpointInput =
  input_ticket :: CheckpointTicket
  input_source :: Seal
  input_base :: Forest
  input_snapshot :: Forest

definition checkpoint_input_new ::
  "CheckpointTicket \<Rightarrow> Seal \<Rightarrow> Forest \<Rightarrow> Forest \<Rightarrow> CheckpointInput option" where
  "checkpoint_input_new ticket source base snapshot =
     do { require (ticket_source ticket = seal_generation source);
          Some \<lparr> input_ticket = ticket, input_source = source, input_base = base,
                 input_snapshot = snapshot \<rparr> }"

record PreparedCheckpoint =
  prepared_source :: Seal
  prepared_successor :: Seal
  prepared_snapshot :: Forest
  prepared_candidate :: EncodedAuthoritySeal

definition prepared_checkpoint_new ::
  "CheckpointTicket \<Rightarrow> Seal \<Rightarrow> Seal \<Rightarrow> Forest \<Rightarrow> EncodedAuthoritySeal \<Rightarrow> PreparedCheckpoint option"
where
  "prepared_checkpoint_new ticket source successor snapshot candidate =
     do { require (ticket_source ticket = seal_generation source);
          require (seal_partition source = seal_partition successor);
          require (seal_generation_successor (seal_generation source) = Inr (seal_generation successor));
          require (ReplayThrough (ticket_cut ticket)
                     (owner_from (attempt_owner_claim (ticket_attempt ticket))) = seal_replay successor);
          require (case replay_batch (seal_replay source) of
                     None \<Rightarrow> True | Some source_cut \<Rightarrow> source_cut < ticket_cut ticket);
          require (authority_seal candidate = successor);
          Some \<lparr> prepared_source = source, prepared_successor = successor,
                 prepared_snapshot = snapshot, prepared_candidate = candidate \<rparr> }"

datatype PreparationOutcome =
  Prepared PreparedCheckpoint | Abandoned | PreparationContradiction string

datatype CheckpointMarker =
  Preparing (marker_ticket: CheckpointTicket)
| Cancelling (marker_ticket: CheckpointTicket)
| Publishing (marker_ticket: CheckpointTicket) PreparedCheckpoint

section \<open>Events, effects and actions\<close>

datatype WalEstablishment = WalDurable | WalOccupied | WalUnresolvedAbsent

datatype SealPublication = Authored | NoAuthority | PublicationUnresolved

datatype GenesisEstablishment = GenesisEstablished | GenesisLostRace | GenesisUnresolved

datatype TypedStoreError = StoreRetryable string | StoreRejected string | StoreContradiction string

datatype WriterEvent =
  Started
| Command CommandEnvelope
| FlushDue
| IngressClosed
| WalEstablished BatchId "TypedStoreError + WalEstablishment"
| CheckpointPrepared CheckpointTicket PreparationOutcome
| SealPublished CheckpointTicket "TypedStoreError + SealPublication"
| CollectFinished BatchId
| CheckpointPreparationCancelled CheckpointTicket

record CollectionInput =
  collection_cut :: BatchId
  collection_source :: Seal
  collection_successor :: Seal

definition collection_from_authored :: "PreparedCheckpoint \<Rightarrow> (Forest \<times> CollectionInput) option" where
  "collection_from_authored prepared =
     do { wcut \<leftarrow> replay_batch (seal_replay (prepared_successor prepared));
          Some (prepared_snapshot prepared,
                \<lparr> collection_cut = wcut, collection_source = prepared_source prepared,
                  collection_successor = prepared_successor prepared \<rparr>) }"

datatype WriterEffect =
  EstablishWal EncodedWal
| PrepareCheckpoint CheckpointInput
| PublishAuthority CheckpointTicket EncodedAuthoritySeal
| Collect CollectionInput

datatype EffectKey =
  KeyWal BatchId
| KeyCheckpointPreparation CheckpointTicket
| KeySealPublication CheckpointTicket
| KeyCollection BatchId

definition effect_key :: "WriterEffect \<Rightarrow> EffectKey" where
  "effect_key e =
     (case e of
        EstablishWal candidate \<Rightarrow> KeyWal (ewal_batch candidate)
      | PrepareCheckpoint input \<Rightarrow> KeyCheckpointPreparation (input_ticket input)
      | PublishAuthority ticket _ \<Rightarrow> KeySealPublication ticket
      | Collect input \<Rightarrow> KeyCollection (collection_cut input))"

type_synonym instant = nat

datatype WriterAction =
  ArmFlush instant
| PublishView Forest
| SendReplies "Completion list"
| CancelCheckpointPreparation CheckpointTicket

datatype WriterOutput = Effect WriterEffect | Action WriterAction

datatype WriterExit =
  Shutdown | Fenced BatchId | Poisoned BatchId string | ExitContradiction BatchId string

record WriterStep =
  step_outputs :: "WriterOutput list"
  step_exit :: "WriterExit option"

section \<open>The machine state\<close>

datatype AuthoredClaim = AuthoredClaim (claim_generation: SealGeneration) (claim_owner: OwnerToken)

definition authored_claim_new :: "SealGeneration \<Rightarrow> AuthoredClaim" where
  "authored_claim_new generation = AuthoredClaim generation (owner_from generation)"

record WriterRecovery =
  recovery_claim :: AuthoredClaim
  recovery_seal :: Seal
  recovery_base :: Forest
  recovery_durable :: Forest
  recovery_durable_batch :: BatchId

record PendingCommand =
  pending_fact :: "OperationFact option"
  pending_completion :: Completion

record PendingBarrier =
  barrier_commands :: "PendingCommand list"
  barrier_facts_bytes :: nat

definition barrier_new :: PendingBarrier where
  "barrier_new = \<lparr> barrier_commands = [], barrier_facts_bytes = 0 \<rparr>"

definition push_fact ::
  "PendingBarrier \<Rightarrow> OperationFact \<Rightarrow> Completion \<Rightarrow> PendingBarrier option" where
  "push_fact barrier op completion =
     do { total \<leftarrow> checked_add (barrier_facts_bytes barrier) (estimated_encoded_bytes op);
          Some \<lparr> barrier_commands = barrier_commands barrier
                   @ [\<lparr> pending_fact = Some op, pending_completion = completion \<rparr>],
                 barrier_facts_bytes = total \<rparr> }"

definition push_idempotent :: "PendingBarrier \<Rightarrow> Completion \<Rightarrow> PendingBarrier" where
  "push_idempotent barrier completion =
     barrier \<lparr> barrier_commands := barrier_commands barrier
        @ [\<lparr> pending_fact = None, pending_completion = completion \<rparr>] \<rparr>"

definition bytes_estimated :: "PendingBarrier \<Rightarrow> nat option" where
  "bytes_estimated barrier = checked_add WAL_RUN_FIXED_ENCODED_BYTES_MAX (barrier_facts_bytes barrier)"

definition barrier_has_facts :: "PendingBarrier \<Rightarrow> bool" where
  "barrier_has_facts barrier \<longleftrightarrow> barrier_facts_bytes barrier > 0"

definition barrier_is_empty :: "PendingBarrier \<Rightarrow> bool" where
  "barrier_is_empty barrier \<longleftrightarrow> barrier_commands barrier = []"

definition barrier_len :: "PendingBarrier \<Rightarrow> nat" where
  "barrier_len barrier = length (barrier_commands barrier)"

datatype SharedForest = SharedForest (forest_root: nat) (forest_of: Forest)

definition shares_roots_with :: "SharedForest \<Rightarrow> SharedForest \<Rightarrow> bool" where
  "shares_roots_with f g \<longleftrightarrow> forest_root f = forest_root g"

record InFlight =
  flight_batch :: BatchId
  flight_forest :: SharedForest
  flight_replies :: "Completion list"

record WriterMachine =
  wm_started :: bool
  wm_claim :: AuthoredClaim
  wm_seal :: Seal
  wm_base :: Forest
  wm_admitted :: SharedForest
  wm_durable :: SharedForest
  wm_durable_batch :: BatchId
  wm_next_batch :: BatchId
  wm_pending :: PendingBarrier
  wm_flight :: "InFlight option"
  wm_flush_interval_min :: nat
  wm_flush_buffer_bytes :: nat
  wm_last_flush_started_at :: "instant option"
  wm_flush_armed :: bool
  wm_checkpoint_attempt :: nat
  wm_last_checkpoint_attempted_cut :: "BatchId option"
  wm_retry_checkpoint_at :: "BatchId option"
  wm_checkpoint :: "CheckpointMarker option"
  wm_collector :: "BatchId option"
  wm_ingress_open :: bool
  wm_fresh_root :: nat

definition from_recovery :: "WriterRecovery \<Rightarrow> nat \<Rightarrow> nat \<Rightarrow> WriterMachine option" where
  "from_recovery recovery flush_interval_min flush_buffer_bytes =
     do { require (claim_generation (recovery_claim recovery) = seal_generation (recovery_seal recovery));
          require (case replay_batch (seal_replay (recovery_seal recovery)) of
                     None \<Rightarrow> True | Some wcut \<Rightarrow> recovery_durable_batch recovery \<ge> wcut);
          next_batch \<leftarrow> expect_ok (batch_successor (recovery_durable_batch recovery));
          require (1 \<le> flush_buffer_bytes \<and> flush_buffer_bytes \<le> WAL_ENCODED_BYTES_MAX);
          Some \<lparr> wm_started = False,
                 wm_claim = recovery_claim recovery,
                 wm_seal = recovery_seal recovery,
                 wm_base = recovery_base recovery,
                 wm_admitted = SharedForest 0 (recovery_durable recovery),
                 wm_durable = SharedForest 0 (recovery_durable recovery),
                 wm_durable_batch = recovery_durable_batch recovery,
                 wm_next_batch = next_batch,
                 wm_pending = barrier_new,
                 wm_flight = None,
                 wm_flush_interval_min = flush_interval_min,
                 wm_flush_buffer_bytes = flush_buffer_bytes,
                 wm_last_flush_started_at = None,
                 wm_flush_armed = False,
                 wm_checkpoint_attempt = 0,
                 wm_last_checkpoint_attempted_cut = None,
                 wm_retry_checkpoint_at = None,
                 wm_checkpoint = None,
                 wm_collector = None,
                 wm_ingress_open = True,
                 wm_fresh_root = 1 \<rparr> }"

section \<open>Admission\<close>

record AdmittedCommand =
  admitted_forest :: Forest
  admitted_fact :: OperationFact

datatype CreateAdmission = CreateFact AdmittedCommand | CreateAlreadyExists

datatype CloseAdmission = CloseFact AdmittedCommand | CloseAlreadyClosed

datatype Admission =
  AdmitFact AdmittedCommand Completion
| AdmitIdempotent Completion
| AdmitRefused Completion

fun admission_refusal :: "FoldContradiction \<Rightarrow> AdmissionRefusal option" where
  "admission_refusal PathOccupied = Some RefusedPathOccupied"
| "admission_refusal PathCapacityExhausted = Some RefusedPathCapacityExhausted"
| "admission_refusal PathNotLive = Some RefusedPathNotLive"
| "admission_refusal StreamAlreadyClosed = None"
| "admission_refusal UidNotDenseSuccessor = None"
| "admission_refusal PathUidMismatch = None"

definition resolve_live_uid :: "Forest \<Rightarrow> StreamPath \<Rightarrow> AdmissionRefusal + StreamUid" where
  "resolve_live_uid forest path =
     (case forest_resolve forest path of
        Some (DirLive uid) \<Rightarrow> Inr uid
      | Some (DirTombstone _) \<Rightarrow> Inl RefusedPathNotLive
      | None \<Rightarrow> Inl RefusedPathNotLive)"

definition apply_fact ::
  "Forest \<Rightarrow> BatchId \<Rightarrow> OperationFact \<Rightarrow> (AdmissionRefusal + AdmittedCommand) option" where
  "apply_fact admitted batch op =
     do { folded \<leftarrow> strict_fold admitted batch op;
          case folded of
            Inr candidate \<Rightarrow> Some (Inr \<lparr> admitted_forest = candidate, admitted_fact = op \<rparr>)
          | Inl contradiction \<Rightarrow> map_option Inl (admission_refusal contradiction) }"

definition admit_create ::
  "Forest \<Rightarrow> CreateStream \<Rightarrow> BatchId \<Rightarrow> (AdmissionRefusal + CreateAdmission) option" where
  "admit_create admitted command batch =
     (case forest_resolve admitted (create_path command) of
        Some (DirTombstone _) \<Rightarrow> Some (Inl RefusedPathOccupied)
      | Some (DirLive uid) \<Rightarrow>
          do { rec \<leftarrow> forest_record admitted uid;
               if record_content_type rec = create_content_type command
                  \<and> record_expiry rec = create_expiry command
                  \<and> record_lifecycle rec = create_lifecycle command
               then Some (Inr CreateAlreadyExists)
               else Some (Inl RefusedPathOccupied) }
      | None \<Rightarrow>
          do { allocated \<leftarrow> successor_uid admitted;
               case allocated of
                 Inl contradiction \<Rightarrow> map_option Inl (admission_refusal contradiction)
               | Inr uid \<Rightarrow>
                   map_option (map_sum id CreateFact)
                     (apply_fact admitted batch
                        (StreamCreated (create_path command) uid (create_content_type command)
                           (create_expiry command) (create_lifecycle command))) })"

definition admit_close ::
  "Forest \<Rightarrow> StreamPath \<Rightarrow> BatchId \<Rightarrow> (AdmissionRefusal + CloseAdmission) option" where
  "admit_close admitted path batch =
     (case resolve_live_uid admitted path of
        Inl refusal \<Rightarrow> Some (Inl refusal)
      | Inr uid \<Rightarrow>
          do { rec \<leftarrow> forest_record admitted uid;
               if lifecycle_is_closed (record_lifecycle rec) then Some (Inr CloseAlreadyClosed)
               else map_option (map_sum id CloseFact)
                      (apply_fact admitted batch (StreamClosed path uid)) })"

definition admit_delete ::
  "Forest \<Rightarrow> StreamPath \<Rightarrow> BatchId \<Rightarrow> (AdmissionRefusal + AdmittedCommand) option" where
  "admit_delete admitted path batch =
     (case resolve_live_uid admitted path of
        Inl refusal \<Rightarrow> Some (Inl refusal)
      | Inr uid \<Rightarrow> apply_fact admitted batch (StreamDeleted path uid))"

definition pending_has_facts :: "WriterMachine \<Rightarrow> bool" where
  "pending_has_facts m = barrier_has_facts (wm_pending m)"

definition hard_full :: "WriterMachine \<Rightarrow> bool option" where
  "hard_full m =
     do { require (barrier_len (wm_pending m) \<le> WRITER_PENDING_COMMANDS_MAX);
          if barrier_len (wm_pending m) = WRITER_PENDING_COMMANDS_MAX then Some True
          else do { estimated \<leftarrow> bytes_estimated (wm_pending m);
                    worst \<leftarrow> checked_add estimated WAL_FACT_ENCODED_BYTES_ESTIMATE_MAX;
                    Some (worst > WAL_ENCODED_BYTES_MAX) } }"

definition admission_open :: "WriterMachine \<Rightarrow> bool option" where
  "admission_open m = (if wm_ingress_open m then map_option Not (hard_full m) else Some False)"

definition accept_fact ::
  "WriterMachine \<Rightarrow> AdmittedCommand \<Rightarrow> Completion \<Rightarrow> (WriterMachine \<times> Completion option) option" where
  "accept_fact m admitted completion =
     (if \<not> run_leaves_takeover_room (replay_batch (seal_replay (wm_seal m))) (wm_next_batch m)
      then Some (m \<lparr> wm_retry_checkpoint_at := Some (wm_durable_batch m) \<rparr>,
                 Some (completion_refusal completion RefusedOverloaded))
      else do { barrier \<leftarrow> push_fact (wm_pending m) (admitted_fact admitted) completion;
                estimated \<leftarrow> bytes_estimated barrier;
                require (estimated \<le> WAL_ENCODED_BYTES_MAX);
                Some (m \<lparr> wm_admitted := SharedForest (wm_fresh_root m) (admitted_forest admitted),
                          wm_fresh_root := Suc (wm_fresh_root m),
                          wm_pending := barrier \<rparr>, None) })"

definition accept_idempotent ::
  "WriterMachine \<Rightarrow> Completion \<Rightarrow> WriterMachine \<times> Completion option" where
  "accept_idempotent m completion =
     (if wm_flight m = None \<and> \<not> pending_has_facts m then (m, Some completion)
      else (m \<lparr> wm_pending := push_idempotent (wm_pending m) completion \<rparr>, None))"

definition admit_decision :: "WriterMachine \<Rightarrow> CommandEnvelope \<Rightarrow> Admission option" where
  "admit_decision m envelope =
     (let admitted = forest_of (wm_admitted m); batch = wm_next_batch m in
      case envelope of
        CreateCommand command reply \<Rightarrow>
          map_option (\<lambda>r. case r of
              Inr (CreateFact a) \<Rightarrow> AdmitFact a (CreateCompletion (Inr OutcomeCreated) reply)
            | Inr CreateAlreadyExists \<Rightarrow>
                AdmitIdempotent (CreateCompletion (Inr OutcomeAlreadyExists) reply)
            | Inl refusal \<Rightarrow> AdmitRefused (CreateCompletion (Inl refusal) reply))
            (admit_create admitted command batch)
      | CloseCommand path reply \<Rightarrow>
          map_option (\<lambda>r. case r of
              Inr (CloseFact a) \<Rightarrow> AdmitFact a (CloseCompletion (Inr OutcomeClosed) reply)
            | Inr CloseAlreadyClosed \<Rightarrow>
                AdmitIdempotent (CloseCompletion (Inr OutcomeAlreadyClosed) reply)
            | Inl refusal \<Rightarrow> AdmitRefused (CloseCompletion (Inl refusal) reply))
            (admit_close admitted path batch)
      | DeleteCommand path reply \<Rightarrow>
          map_option (\<lambda>r. case r of
              Inr a \<Rightarrow> AdmitFact a (DeleteCompletion (Inr ()) reply)
            | Inl refusal \<Rightarrow> AdmitRefused (DeleteCompletion (Inl refusal) reply))
            (admit_delete admitted path batch))"

definition admit ::
  "WriterMachine \<Rightarrow> CommandEnvelope \<Rightarrow> (WriterMachine \<times> Completion option) option" where
  "admit m envelope =
     do { require (wm_flight m = None \<longrightarrow> barrier_is_empty (wm_pending m) \<or> pending_has_facts m);
          decision \<leftarrow> admit_decision m envelope;
          case decision of
            AdmitFact admitted completion \<Rightarrow> accept_fact m admitted completion
          | AdmitIdempotent completion \<Rightarrow> Some (accept_idempotent m completion)
          | AdmitRefused completion \<Rightarrow> Some (m, Some completion) }"

section \<open>Flights and checkpoints\<close>

definition DURATION_MAX_NANOS :: nat where
  "DURATION_MAX_NANOS = u64_max * 1000000000 + 999999999"

text \<open>\<open>MonotonicInstant::saturating_add\<close>, on nanoseconds.\<close>

definition instant_saturating_add :: "instant \<Rightarrow> nat \<Rightarrow> instant" where
  "instant_saturating_add t d = min (t + d) DURATION_MAX_NANOS"

definition spacing_satisfied :: "WriterMachine \<Rightarrow> instant \<Rightarrow> bool" where
  "spacing_satisfied m now \<longleftrightarrow>
     (case wm_last_flush_started_at m of
        None \<Rightarrow> True
      | Some started \<Rightarrow> now \<ge> instant_saturating_add started (wm_flush_interval_min m))"

definition pending_facts :: "OperationFact list \<Rightarrow> OperationFact list option" where
  "pending_facts facts = expect_ok (wal_facts_try_from facts)"

type_synonym wal_encoder = "WalObject \<Rightarrow> EncodeError + bytes"

definition barrier_facts :: "PendingCommand list \<Rightarrow> OperationFact list" where
  "barrier_facts commands = List.map_filter pending_fact commands"

definition drain_pending ::
  "wal_encoder \<Rightarrow> WriterMachine \<Rightarrow> instant \<Rightarrow> (WriterMachine \<times> WriterOutput) option" where
  "drain_pending encode_wal m now =
     do { require (wm_flight m = None);
          require (\<not> barrier_is_empty (wm_pending m));
          let commands = barrier_commands (wm_pending m);
          let facts = barrier_facts commands;
          let replies = map pending_completion commands;
          let m = m \<lparr> wm_pending := barrier_new \<rparr>;
          if facts = [] then
            do { require (forest_of (wm_admitted m) = forest_of (wm_durable m));
                 Some (m \<lparr> wm_admitted := wm_durable m \<rparr>, Action (SendReplies replies)) }
          else
            do { let batch = wm_next_batch m;
                 run \<leftarrow> pending_facts facts;
                 encoding \<leftarrow> encoded_wal_new encode_wal
                   \<lparr> wal_partition = seal_partition (wm_seal m), wal_batch = batch,
                     wal_owner = claim_owner (wm_claim m), wal_body = WalRun run \<rparr>;
                 encoded \<leftarrow> expect_ok encoding;
                 next_batch \<leftarrow> expect_ok (batch_successor batch);
                 Some (m \<lparr> wm_next_batch := next_batch,
                           wm_flight := Some \<lparr> flight_batch = batch, flight_forest = wm_admitted m,
                                               flight_replies = replies \<rparr>,
                           wm_last_flush_started_at := Some now \<rparr>,
                       Effect (EstablishWal encoded)) } }"

definition record_wal_durable ::
  "WriterMachine \<Rightarrow> BatchId \<Rightarrow> (WriterMachine \<times> WriterOutput list) option" where
  "record_wal_durable m batch =
     do { active \<leftarrow> wm_flight m;
          require (batch = flight_batch active);
          let m = m \<lparr> wm_flight := None, wm_durable := flight_forest active,
                      wm_durable_batch := batch \<rparr>;
          m \<leftarrow> (if barrier_is_empty (wm_pending m)
                then do { require (forest_of (wm_admitted m) = forest_of (wm_durable m));
                          Some (m \<lparr> wm_admitted := wm_durable m \<rparr>) }
                else Some m);
          Some (m, [Action (PublishView (forest_of (wm_durable m))),
                    Action (SendReplies (flight_replies active))]) }"

definition discard_wal_flight :: "WriterMachine \<Rightarrow> BatchId \<Rightarrow> WriterMachine option" where
  "discard_wal_flight m batch =
     do { active \<leftarrow> wm_flight m;
          require (batch = flight_batch active);
          Some (m \<lparr> wm_flight := None \<rparr>) }"

definition head_is_unattempted :: "WriterMachine \<Rightarrow> bool option" where
  "head_is_unattempted m =
     (case wm_last_checkpoint_attempted_cut m of
        None \<Rightarrow> Some True
      | Some attempted \<Rightarrow> do { require (attempted \<le> wm_durable_batch m);
                              Some (attempted < wm_durable_batch m) })"

definition take_checkpoint :: "WriterMachine \<Rightarrow> (WriterMachine \<times> CheckpointInput option) option" where
  "take_checkpoint m =
     (if wm_checkpoint m \<noteq> None then Some (m, None)
      else do {
        span \<leftarrow> span_through (replay_batch (seal_replay (wm_seal m))) (wm_durable_batch m);
        if span < WAL_SUFFIX_CHECKPOINT_SPAN_TRIGGER then Some (m, None)
        else do {
          unattempted \<leftarrow> head_is_unattempted m;
          if \<not> unattempted \<and> wm_retry_checkpoint_at m \<noteq> Some (wm_durable_batch m) then Some (m, None)
          else do {
            require (case replay_batch (seal_replay (wm_seal m)) of
                       None \<Rightarrow> True | Some wcut \<Rightarrow> wm_durable_batch m > wcut);
            let attempt = AttemptId (claim_generation (wm_claim m)) (wm_checkpoint_attempt m);
            counter \<leftarrow> checked_add (wm_checkpoint_attempt m) 1;
            let ticket = CheckpointTicket (seal_generation (wm_seal m)) (wm_durable_batch m) attempt;
            input \<leftarrow> checkpoint_input_new ticket (wm_seal m) (wm_base m) (forest_of (wm_durable m));
            Some (m \<lparr> wm_checkpoint_attempt := counter,
                      wm_last_checkpoint_attempted_cut := Some (wm_durable_batch m),
                      wm_retry_checkpoint_at := None,
                      wm_checkpoint := Some (Preparing ticket) \<rparr>, Some input) } } })"

definition install_prepared ::
  "WriterMachine \<Rightarrow> Seal \<Rightarrow> Seal \<Rightarrow> Forest \<Rightarrow> WriterMachine option" where
  "install_prepared m source successor snapshot =
     do { require (wm_seal m = source);
          Some (m \<lparr> wm_seal := successor, wm_base := snapshot \<rparr>) }"

definition assert_checkpoint_cancelling :: "WriterMachine \<Rightarrow> CheckpointTicket \<Rightarrow> unit option" where
  "assert_checkpoint_cancelling m ticket =
     (case wm_checkpoint m of
        Some (Cancelling active) \<Rightarrow> require (ticket = active)
      | _ \<Rightarrow> None)"

definition assert_quiescent :: "WriterMachine \<Rightarrow> unit option" where
  "assert_quiescent m =
     do { require (wm_flight m = None \<and> barrier_is_empty (wm_pending m));
          require (shares_roots_with (wm_admitted m) (wm_durable m)) }"

definition complete_preparation ::
  "WriterMachine \<Rightarrow> CheckpointTicket \<Rightarrow> PreparationOutcome
     \<Rightarrow> (WriterMachine \<times> WriterOutput list \<times> WriterExit option) option" where
  "complete_preparation m ticket outcome =
     do { marker \<leftarrow> wm_checkpoint m;
          case marker of
            Cancelling active \<Rightarrow>
              do { require (ticket = active);
                   Some (m \<lparr> wm_checkpoint := None \<rparr>, [], None) }
          | Preparing active \<Rightarrow>
              do { require (ticket = active);
                   case outcome of
                     Prepared prepared \<Rightarrow>
                       Some (m \<lparr> wm_checkpoint := Some (Publishing ticket prepared) \<rparr>,
                             [Effect (PublishAuthority ticket (prepared_candidate prepared))], None)
                   | Abandoned \<Rightarrow> Some (m \<lparr> wm_checkpoint := None \<rparr>, [], None)
                   | PreparationContradiction detail \<Rightarrow>
                       Some (m \<lparr> wm_checkpoint := None \<rparr>, [],
                             Some (ExitContradiction (ticket_cut ticket) detail)) }
          | Publishing _ _ \<Rightarrow> None }"

definition complete_publication ::
  "WriterMachine \<Rightarrow> CheckpointTicket \<Rightarrow> TypedStoreError + SealPublication
     \<Rightarrow> (WriterMachine \<times> WriterOutput list \<times> WriterExit option) option" where
  "complete_publication m ticket result =
     do { marker \<leftarrow> wm_checkpoint m;
          case marker of
            Publishing active prepared \<Rightarrow>
              do { require (ticket = active);
                   let m = m \<lparr> wm_checkpoint := None \<rparr>;
                   case result of
                     Inr Authored \<Rightarrow>
                       do { (snapshot, input) \<leftarrow> collection_from_authored prepared;
                            m \<leftarrow> install_prepared m (collection_source input)
                                  (collection_successor input) snapshot;
                            let view = Action (PublishView (forest_of (wm_durable m)));
                            if wm_ingress_open m \<and> wm_collector m = None
                            then Some (m \<lparr> wm_collector := Some (collection_cut input) \<rparr>,
                                       [view, Effect (Collect input)], None)
                            else Some (m, [view], None) }
                   | Inr NoAuthority \<Rightarrow> Some (m, [], Some (Fenced (ticket_cut ticket)))
                   | Inr PublicationUnresolved \<Rightarrow>
                       Some (m, [], Some (Poisoned (ticket_cut ticket)
                         ''advancing Seal create is unresolved''))
                   | Inl (StoreRetryable detail) \<Rightarrow>
                       Some (m, [], Some (Poisoned (ticket_cut ticket) detail))
                   | Inl (StoreRejected detail) \<Rightarrow>
                       Some (m, [], Some (Poisoned (ticket_cut ticket) detail))
                   | Inl (StoreContradiction detail) \<Rightarrow>
                       Some (m, [], Some (ExitContradiction (ticket_cut ticket) detail)) }
          | _ \<Rightarrow> None }"

section \<open>The step\<close>

text \<open>The first half of \<open>schedule\<close>: drain the barrier, or arm the flush timer.\<close>

definition flush_due :: "WriterMachine \<Rightarrow> instant \<Rightarrow> bool option" where
  "flush_due m now =
     (if \<not> pending_has_facts m \<or> \<not> wm_ingress_open m then Some True
      else do { full \<leftarrow> hard_full m;
                if full then Some True
                else do { estimated \<leftarrow> bytes_estimated (wm_pending m);
                          Some (estimated \<ge> wm_flush_buffer_bytes m \<or> spacing_satisfied m now) } })"

definition schedule_flush ::
  "wal_encoder \<Rightarrow> WriterMachine \<Rightarrow> instant \<Rightarrow> (WriterMachine \<times> WriterOutput list) option" where
  "schedule_flush encode_wal m now =
     (if wm_flight m = None \<and> \<not> barrier_is_empty (wm_pending m)
      then do { due \<leftarrow> flush_due m now;
                if due then do { (m, output) \<leftarrow> drain_pending encode_wal m now; Some (m, [output]) }
                else if \<not> wm_flush_armed m
                then do { started \<leftarrow> wm_last_flush_started_at m;
                          Some (m \<lparr> wm_flush_armed := True \<rparr>,
                            [Action (ArmFlush
                               (instant_saturating_add started (wm_flush_interval_min m)))]) }
                else Some (m, []) }
      else Some (m, []))"

definition schedule ::
  "wal_encoder \<Rightarrow> WriterMachine \<Rightarrow> instant
     \<Rightarrow> (WriterMachine \<times> WriterOutput list \<times> WriterExit option) option" where
  "schedule encode_wal m now =
     do { (m, outputs) \<leftarrow> schedule_flush encode_wal m now;
          if wm_ingress_open m
          then do { (m, input) \<leftarrow> take_checkpoint m;
                    Some (m, outputs @ (case input of None \<Rightarrow> []
                                        | Some i \<Rightarrow> [Effect (PrepareCheckpoint i)]), None) }
          else if wm_flight m = None \<and> wm_checkpoint m = None \<and> barrier_is_empty (wm_pending m)
          then do { assert_quiescent m; Some (m, outputs, Some Shutdown) }
          else Some (m, outputs, None) }"

definition close_ingress :: "WriterMachine \<Rightarrow> (WriterMachine \<times> WriterOutput list) option" where
  "close_ingress m =
     do { require (wm_ingress_open m);
          let m = m \<lparr> wm_ingress_open := False \<rparr>;
          case wm_checkpoint m of
            Some (Preparing ticket) \<Rightarrow>
              Some (m \<lparr> wm_checkpoint := Some (Cancelling ticket) \<rparr>,
                    [Action (CancelCheckpointPreparation ticket)])
          | _ \<Rightarrow> Some (m, []) }"

definition wal_established ::
  "WriterMachine \<Rightarrow> BatchId \<Rightarrow> TypedStoreError + WalEstablishment
     \<Rightarrow> (WriterMachine \<times> WriterOutput list \<times> WriterExit option) option" where
  "wal_established m batch result =
     (case result of
        Inr WalDurable \<Rightarrow>
          do { (m, outputs) \<leftarrow> record_wal_durable m batch; Some (m, outputs, None) }
      | Inr WalOccupied \<Rightarrow>
          do { m \<leftarrow> discard_wal_flight m batch; Some (m, [], Some (Fenced batch)) }
      | Inr WalUnresolvedAbsent \<Rightarrow>
          do { m \<leftarrow> discard_wal_flight m batch;
               Some (m, [], Some (Poisoned batch
                 ''unresolved WAL create is absent on its one reconciliation read'')) }
      | Inl (StoreRetryable detail) \<Rightarrow>
          do { m \<leftarrow> discard_wal_flight m batch; Some (m, [], Some (Poisoned batch detail)) }
      | Inl (StoreRejected detail) \<Rightarrow>
          do { m \<leftarrow> discard_wal_flight m batch; Some (m, [], Some (Poisoned batch detail)) }
      | Inl (StoreContradiction detail) \<Rightarrow>
          do { m \<leftarrow> discard_wal_flight m batch; Some (m, [], Some (ExitContradiction batch detail)) })"

definition apply_event ::
  "WriterMachine \<Rightarrow> WriterEvent
     \<Rightarrow> (WriterMachine \<times> WriterOutput list \<times> WriterExit option) option" where
  "apply_event m event =
     (case event of
        Started \<Rightarrow> Some (m, [], None)
      | Command envelope \<Rightarrow>
          do { admitting \<leftarrow> admission_open m;
               require admitting;
               (m, completion) \<leftarrow> admit m envelope;
               Some (m, (case completion of None \<Rightarrow> [] | Some c \<Rightarrow> [Action (SendReplies [c])]), None) }
      | FlushDue \<Rightarrow>
          do { require (wm_flush_armed m); Some (m \<lparr> wm_flush_armed := False \<rparr>, [], None) }
      | IngressClosed \<Rightarrow> do { (m, outputs) \<leftarrow> close_ingress m; Some (m, outputs, None) }
      | WalEstablished batch result \<Rightarrow> wal_established m batch result
      | CheckpointPrepared ticket outcome \<Rightarrow> complete_preparation m ticket outcome
      | SealPublished ticket result \<Rightarrow> complete_publication m ticket result
      | CollectFinished wcut \<Rightarrow>
          do { require (Some wcut = wm_collector m); Some (m \<lparr> wm_collector := None \<rparr>, [], None) }
      | CheckpointPreparationCancelled ticket \<Rightarrow>
          do { assert_checkpoint_cancelling m ticket; Some (m \<lparr> wm_checkpoint := None \<rparr>, [], None) })"

definition is_action :: "WriterOutput \<Rightarrow> bool" where
  "is_action output = (case output of Action _ \<Rightarrow> True | Effect _ \<Rightarrow> False)"

definition handle ::
  "wal_encoder \<Rightarrow> WriterMachine \<Rightarrow> instant \<Rightarrow> WriterEvent \<Rightarrow> (WriterMachine \<times> WriterStep) option"
where
  "handle encode_wal m now event =
     do { require ((\<not> wm_started m) = (event = Started));
          let m = (if event = Started then m \<lparr> wm_started := True \<rparr> else m);
          (m, outputs, exit) \<leftarrow> apply_event m event;
          (m, outputs, exit) \<leftarrow>
            (case exit of
               Some e \<Rightarrow> Some (m, outputs, Some e)
             | None \<Rightarrow> do { (m, scheduled, exit) \<leftarrow> schedule encode_wal m now;
                           Some (m, outputs @ scheduled, exit) });
          require (length outputs \<le> WRITER_OUTPUTS_PER_STEP_MAX);
          require (exit \<noteq> None \<longrightarrow> list_all is_action outputs);
          Some (m, \<lparr> step_outputs = outputs, step_exit = exit \<rparr>) }"

end
