(* ===== verification/Bootstrap.thy ===== *)
theory Bootstrap
  imports Writer
begin

text \<open>
  The bootstrap machine of \<open>strom-storage-protocol/src/bootstrap.rs\<close>: discovery or creation of
  the genesis Seal, the claim, the bounded load of the Seal-selected tables, the takeover FENCE, the
  replay of the WAL suffix and the final refresh. Panics are None; the encoders of Seals and WAL
  objects are arguments. Details of exits are the strings the code formats.
\<close>

section \<open>Formatted details\<close>

definition debug_generation :: "SealGeneration \<Rightarrow> string" where
  "debug_generation g = ''SealGeneration('' @ dec (seal_generation_get g) @ '')''"

definition debug_batch :: "BatchId \<Rightarrow> string" where
  "debug_batch b = ''BatchId('' @ dec (batch_get b) @ '')''"

definition debug_owner :: "OwnerToken \<Rightarrow> string" where
  "debug_owner t = ''OwnerToken('' @ debug_generation (owner_generation t) @ '')''"

fun display_encode_error :: "EncodeError \<Rightarrow> string" where
  "display_encode_error Serialization = ''domain value could not be archived''"
| "display_encode_error (EncodedBytesOverMax n) =
     ''encoded value exceeds the '' @ dec n @ ''-byte bound''"

fun display_candidate_error :: "SealCandidateError \<Rightarrow> string" where
  "display_candidate_error NotGenesis = ''a genesis candidate must name the genesis generation''"
| "display_candidate_error NotAuthority =
     ''an authority candidate must advance beyond the genesis generation''"
| "display_candidate_error (CandidateEncode e) = display_encode_error e"

fun display_seal_error :: "SealError \<Rightarrow> string" where
  "display_seal_error GenerationExhausted = ''Seal generation is exhausted''"
| "display_seal_error NonCanonicalGenesis =
     ''generation-one Seal is not the canonical empty genesis''"
| "display_seal_error ReplayOwnerNotBeforeSeal =
     ''Seal replay owner is not older than its generation''"
| "display_seal_error RunsOverMax = ''tree has more than '' @ dec TREE_RUNS_MAX @ '' runs''"
| "display_seal_error EmptyRun = ''sorted run is empty''"
| "display_seal_error TablesOverMax =
     ''sorted run has more than '' @ dec RUN_TABLES_MAX @ '' tables''"
| "display_seal_error ObjectBytesOverMax =
     ''table object exceeds '' @ dec SST_OBJECT_BYTES_MAX @ '' bytes''"
| "display_seal_error StoreMismatch = ''table store differs from its owning tree''"
| "display_seal_error FutureTable =
     ''table birth generation is newer than its enclosing Seal''"
| "display_seal_error DuplicateTableObject =
     ''table object identity occurs more than once in the Seal''"

fun display_fold_contradiction :: "FoldContradiction \<Rightarrow> string" where
  "display_fold_contradiction PathOccupied = ''path is already occupied''"
| "display_fold_contradiction PathCapacityExhausted = ''partition path capacity is exhausted''"
| "display_fold_contradiction UidNotDenseSuccessor = ''stream uid is not the dense successor''"
| "display_fold_contradiction PathNotLive = ''path is not live''"
| "display_fold_contradiction PathUidMismatch = ''path uid does not match''"
| "display_fold_contradiction StreamAlreadyClosed = ''stream is already closed''"

fun display_forest_contradiction :: "ForestContradiction \<Rightarrow> string" where
  "display_forest_contradiction UidGap = ''Directory stream uids are not dense and unique''"
| "display_forest_contradiction CountMismatch =
     ''Directory row count differs from the maximum allocated stream uid''"
| "display_forest_contradiction LiveWithoutRecord = ''a Live Directory row has no Ledger record''"
| "display_forest_contradiction RecordWithoutLive = ''a Ledger record has no Live Directory row''"
| "display_forest_contradiction TombstoneWithRecord =
     ''a Tombstone Directory row still has a Ledger record''"

section \<open>Events, effects and states\<close>

datatype BootstrapExit =
  BootRetryable string | BootFenced SealGeneration | BootContradiction string

datatype BootstrapEvent =
  BootStarted PartitionId
| HeadObserved "SealGeneration option"
| GenesisEstablishedEvent GenesisEstablishment
| SealRead "Seal option"
| ClaimPublished SealPublication
| TableRead TableRef DecodedTable
| WalTailObserved "BatchId option"
| WalRead "WalObject option"
| FenceEstablished WalEstablishment
| StoreFailed TypedStoreError

datatype BootstrapEffect =
  ObserveHead
| EstablishGenesis EncodedGenesisSeal
| ReadSeal SealGeneration
| PublishClaim EncodedAuthoritySeal
| ReadTable PartitionId TableRef
| ObserveWalTail
| ReadWal PartitionId BatchId
| EstablishFence EncodedWal

datatype BootstrapStep =
  BootEffect BootstrapEffect | BootComplete WriterRecovery | BootExit BootstrapExit

record ClaimedBootstrap =
  claimed_claim :: AuthoredClaim
  claimed_seal :: Seal

record LoadedBootstrap =
  loaded_claimed :: ClaimedBootstrap
  loaded_base :: Forest
  loaded_durable :: Forest

record Replay =
  replay_loaded :: LoadedBootstrap
  replay_next :: BatchId
  replay_fence :: TakeoverFence
  replay_owner_token :: "OwnerToken option"

record PlannedTable =
  planned_table :: TableRef
  planned_starts_run :: bool

record MergedRows =
  merged_directory :: "(StreamPath, DirectoryEntry) fmap"
  merged_ledger :: "(StreamUid, StreamRecord) fmap"
  merged_resident_bytes :: nat

definition merged_rows_default :: MergedRows where
  "merged_rows_default =
     \<lparr> merged_directory = fmempty, merged_ledger = fmempty, merged_resident_bytes = 0 \<rparr>"

record BaseLoad =
  load_claimed :: ClaimedBootstrap
  load_remaining :: "PlannedTable list"
  load_merged :: MergedRows
  load_previous_directory :: "StreamPath option"
  load_previous_ledger :: "StreamUid option"

datatype BootstrapState =
  BootInitial
| DiscoveringHead PartitionId
| EstablishingGenesis PartitionId
| ReadingSeal SealGeneration
| PublishingClaim Seal "PlannedTable list"
| ReadingTable BaseLoad PlannedTable
| ObservingWalTail LoadedBootstrap "BatchId option"
| ReadingWalTail LoadedBootstrap TakeoverFence BatchId
| EstablishingFence LoadedBootstrap TakeoverFence
| Replaying Replay
| RefreshingAnomaly AuthoredClaim string
| RefreshingFinal WriterRecovery
| BootCompleteState

record BootstrapMachine =
  bm_state :: "BootstrapState option"

definition bootstrap_new :: BootstrapMachine where
  "bootstrap_new = \<lparr> bm_state = Some BootInitial \<rparr>"

type_synonym boot_result = "(BootstrapMachine \<times> BootstrapStep) option"

definition boot_effect :: "BootstrapState \<Rightarrow> BootstrapEffect \<Rightarrow> boot_result" where
  "boot_effect state effect = Some (\<lparr> bm_state = Some state \<rparr>, BootEffect effect)"

definition boot_complete :: "WriterRecovery \<Rightarrow> boot_result" where
  "boot_complete recovery = Some (\<lparr> bm_state = Some BootCompleteState \<rparr>, BootComplete recovery)"

definition boot_exit :: "BootstrapExit \<Rightarrow> boot_result" where
  "boot_exit exit = Some (\<lparr> bm_state = Some BootCompleteState \<rparr>, BootExit exit)"

definition refresh_anomaly :: "AuthoredClaim \<Rightarrow> string \<Rightarrow> boot_result" where
  "refresh_anomaly claim detail = boot_effect (RefreshingAnomaly claim detail) ObserveHead"

section \<open>Planning and merging table sources\<close>

definition bootstrap_source_bound :: BootstrapExit where
  "bootstrap_source_bound =
     BootContradiction ''Seal-selected table sources exceed a V2 aggregate bootstrap bound''"

fun count_sources :: "nat \<Rightarrow> nat \<Rightarrow> TableRef list \<Rightarrow> BootstrapExit + nat \<times> nat" where
  "count_sources objects weight [] = Inr (objects, weight)"
| "count_sources objects weight (table # rest) =
     try_ok (ok_or bootstrap_source_bound (checked_add objects 1)) (\<lambda>objects.
     try_ok (ok_or bootstrap_source_bound (checked_add weight (nz_get (ref_object_bytes table)))) (\<lambda>weight.
       count_sources objects weight rest))"

definition run_sources :: "SortedRun \<Rightarrow> PlannedTable list" where
  "run_sources run =
     map (\<lambda>(index, table). \<lparr> planned_table = table, planned_starts_run = (index = 0) \<rparr>)
       (enumerate 0 (run_tables run))"

definition tree_sources :: "TreeVersion \<Rightarrow> PlannedTable list" where
  "tree_sources tree = concat (map run_sources (rev (tree_runs tree)))"

definition plan_bootstrap_sources :: "Seal \<Rightarrow> BootstrapExit + PlannedTable list" where
  "plan_bootstrap_sources seal =
     try_ok (count_sources 0 0 (seal_tables seal)) (\<lambda>(objects, total).
       if objects > PARTITION_BOOTSTRAP_OBJECTS_MAX_V2 \<or> total > PARTITION_BOOTSTRAP_BYTES_MAX_V2
       then Inl bootstrap_source_bound
       else Inr (tree_sources (seal_directory seal) @ tree_sources (seal_ledger seal)))"

definition resident_bound :: BootstrapExit where
  "resident_bound = BootContradiction
     ''merged Directory and Ledger rows exceed the V2 resident logical-byte bound''"

definition add_resident_bytes :: "nat \<Rightarrow> nat \<Rightarrow> BootstrapExit + nat" where
  "add_resident_bytes current additional =
     try_ok (ok_or resident_bound (checked_add current additional)) (\<lambda>total.
       if total > PARTITION_RESIDENT_LOGICAL_BYTES_MAX_V2 then Inl resident_bound else Inr total)"

definition merge_directory_row ::
  "MergedRows \<Rightarrow> StreamPath \<times> DirectoryEntry \<Rightarrow> (BootstrapExit + MergedRows) option" where
  "merge_directory_row merged row =
     (let (key, entry) = row in
      and_then
        (if key |\<notin>| fmdom (merged_directory merged)
         then Some (add_resident_bytes (merged_resident_bytes merged) DIRECTORY_ROW_LOGICAL_BYTES_MAX)
         else Some (Inr (merged_resident_bytes merged)))
        (\<lambda>resident. Some (Inr (merged \<lparr> merged_directory := fmupd key entry (merged_directory merged),
                                       merged_resident_bytes := resident \<rparr>))))"

definition merge_directory_table ::
  "MergedRows \<Rightarrow> StreamPath option \<Rightarrow> (StreamPath \<times> DirectoryEntry) list
     \<Rightarrow> (BootstrapExit + MergedRows \<times> StreamPath option) option" where
  "merge_directory_table merged previous_last rows =
     do { require (rows \<noteq> []);
          if (case previous_last of None \<Rightarrow> False | Some previous \<Rightarrow> fst (hd rows) \<le> previous)
          then Some (Inl (BootContradiction
                 ''Directory tables within one sorted run overlap or are unordered''))
          else and_then (try_fold merge_directory_row merged rows)
                 (\<lambda>merged. Some (Inr (merged, Some (fst (last rows))))) }"

definition merge_ledger_row ::
  "MergedRows \<Rightarrow> StreamUid \<times> LedgerCell \<Rightarrow> (BootstrapExit + MergedRows) option" where
  "merge_ledger_row merged row =
     (let (uid, cell) = row in
      case cell of
        CellValue rec \<Rightarrow>
          and_then
            (if uid |\<notin>| fmdom (merged_ledger merged)
             then Some (add_resident_bytes (merged_resident_bytes merged)
                          LEDGER_VALUE_ROW_LOGICAL_BYTES_MAX)
             else Some (Inr (merged_resident_bytes merged)))
            (\<lambda>resident. Some (Inr (merged \<lparr> merged_ledger := fmupd uid rec (merged_ledger merged),
                                           merged_resident_bytes := resident \<rparr>)))
      | CellDelete \<Rightarrow>
          if uid |\<in>| fmdom (merged_ledger merged)
          then do { resident \<leftarrow> checked_sub (merged_resident_bytes merged)
                                 LEDGER_VALUE_ROW_LOGICAL_BYTES_MAX;
                    Some (Inr (merged \<lparr> merged_ledger := fmdrop uid (merged_ledger merged),
                                        merged_resident_bytes := resident \<rparr>)) }
          else Some (Inr merged))"

definition merge_ledger_table ::
  "MergedRows \<Rightarrow> StreamUid option \<Rightarrow> (StreamUid \<times> LedgerCell) list
     \<Rightarrow> (BootstrapExit + MergedRows \<times> StreamUid option) option" where
  "merge_ledger_table merged previous_last rows =
     do { require (rows \<noteq> []);
          if (case previous_last of None \<Rightarrow> False | Some previous \<Rightarrow> fst (hd rows) \<le> previous)
          then Some (Inl (BootContradiction
                 ''Ledger tables within one sorted run overlap or are unordered''))
          else and_then (try_fold merge_ledger_row merged rows)
                 (\<lambda>merged. Some (Inr (merged, Some (fst (last rows))))) }"

section \<open>Takeover and replay helpers\<close>

fun option_list :: "'a option \<Rightarrow> 'a list" where
  "option_list None = []"
| "option_list (Some x) = [x]"

definition options_max :: "BatchId option \<Rightarrow> BatchId option \<Rightarrow> BatchId option" where
  "options_max batch tail = fold (\<lambda>candidate best. Some (case best of
        None \<Rightarrow> candidate | Some highest \<Rightarrow> max highest candidate))
     (option_list batch @ option_list tail) None"

definition plan_fence_candidate ::
  "BatchId option \<Rightarrow> BatchId option \<Rightarrow> BootstrapExit + BatchId" where
  "plan_fence_candidate wcut listed_tail =
     (case options_max wcut listed_tail of
        Some tail \<Rightarrow>
          map_err (\<lambda>_. BootRetryable ''WAL coordinate space is exhausted before takeover'')
            (batch_successor tail)
      | None \<Rightarrow>
          map_err (\<lambda>_. BootContradiction ''batch one must be a legal WAL coordinate'')
            (batch_try_from 1))"

definition map_takeover_fence_error :: "TakeoverFenceError \<Rightarrow> BootstrapExit" where
  "map_takeover_fence_error e =
     (case e of
        NoRunCoordinate \<Rightarrow>
          BootRetryable ''WAL coordinate space has no RUN coordinate after the takeover FENCE''
      | NotAfterCut \<Rightarrow>
          BootContradiction ''takeover FENCE is not strictly after the Seal replay cut''
      | SpanExceeded span \<Rightarrow>
          BootRetryable (''WAL suffix through takeover FENCE spans '' @ dec span
            @ '' coordinates; the bound is '' @ dec WAL_SUFFIX_COORDINATES_MAX_V2))"

definition replay_owner :: "WalReplayPoint \<Rightarrow> OwnerToken option" where
  "replay_owner point = (case point of ReplayGenesis \<Rightarrow> None | ReplayThrough batch owner \<Rightarrow> Some owner)"

definition replay_start :: "WalReplayPoint \<Rightarrow> BootstrapExit + BatchId" where
  "replay_start point =
     (case point of
        ReplayGenesis \<Rightarrow>
          map_err (\<lambda>_. BootContradiction ''batch one must be a legal WAL coordinate'')
            (batch_try_from 1)
      | ReplayThrough batch owner \<Rightarrow>
          map_err (\<lambda>_. BootRetryable ''Seal replay cut occupies the final WAL coordinate'')
            (batch_successor batch))"

fun fold_replay_facts :: "Forest \<Rightarrow> BatchId \<Rightarrow> OperationFact list \<Rightarrow> (string + Forest) option" where
  "fold_replay_facts forest batch [] = Some (Inr forest)"
| "fold_replay_facts forest batch (op # rest) =
     do { folded \<leftarrow> strict_fold forest batch op;
          case folded of
            Inl contradiction \<Rightarrow>
              Some (Inl (''fact in WAL RUN '' @ debug_batch batch
                @ '' contradicts recovered state: '' @ display_fold_contradiction contradiction))
          | Inr forest \<Rightarrow> fold_replay_facts forest batch rest }"

definition map_forest_error :: "ForestContradiction \<Rightarrow> BootstrapExit" where
  "map_forest_error e = BootContradiction
     (''merged Directory and Ledger rows disagree: '' @ display_forest_contradiction e)"

definition store_exit :: "TypedStoreError \<Rightarrow> BootstrapExit" where
  "store_exit e =
     (case e of
        StoreRetryable detail \<Rightarrow> BootRetryable detail
      | StoreRejected detail \<Rightarrow> BootContradiction detail
      | StoreContradiction detail \<Rightarrow> BootContradiction detail)"

section \<open>The machine\<close>

type_synonym seal_encoder = "Seal \<Rightarrow> EncodeError + bytes"

definition establish_genesis :: "seal_encoder \<Rightarrow> PartitionId \<Rightarrow> boot_result" where
  "establish_genesis encode_seal part =
     do { genesis \<leftarrow> expect_ok
            (seal_new part seal_generation_genesis ReplayGenesis tree_empty tree_empty);
          candidate \<leftarrow> genesis_candidate encode_seal genesis;
          case candidate of
            Inr encoded \<Rightarrow> boot_effect (EstablishingGenesis part) (EstablishGenesis encoded)
          | Inl source \<Rightarrow>
              boot_exit (BootContradiction
                (''canonical genesis could not be encoded: '' @ display_candidate_error source)) }"

definition handle_head ::
  "seal_encoder \<Rightarrow> BootstrapState \<Rightarrow> SealGeneration option \<Rightarrow> boot_result" where
  "handle_head encode_seal state observed =
     (case state of
        DiscoveringHead genesis_partition \<Rightarrow>
          (case observed of
             Some generation \<Rightarrow> boot_effect (ReadingSeal generation) (ReadSeal generation)
           | None \<Rightarrow> establish_genesis encode_seal genesis_partition)
      | RefreshingAnomaly claim detail \<Rightarrow>
          (case observed of
             Some observed \<Rightarrow>
               if observed > claim_generation claim then boot_exit (BootFenced observed)
               else if observed = claim_generation claim then boot_exit (BootContradiction detail)
               else boot_exit (BootContradiction
                 (''Seal head regressed from authored claim '' @ debug_generation (claim_generation claim)
                  @ '' to '' @ debug_generation observed @ '' while classifying: '' @ detail))
           | None \<Rightarrow> boot_exit (BootContradiction
               (''Seal namespace became empty while classifying replay anomaly: '' @ detail)))
      | RefreshingFinal recovery \<Rightarrow>
          (case observed of
             Some observed \<Rightarrow>
               if observed = claim_generation (recovery_claim recovery) then boot_complete recovery
               else if observed > claim_generation (recovery_claim recovery)
               then boot_exit (BootFenced observed)
               else boot_exit (BootContradiction
                 (''final Seal refresh regressed from ''
                  @ debug_generation (claim_generation (recovery_claim recovery))
                  @ '' to '' @ debug_generation observed))
           | None \<Rightarrow> boot_exit (BootContradiction ''Seal namespace is empty during final refresh''))
      | _ \<Rightarrow> None)"

definition handle_genesis :: "BootstrapState \<Rightarrow> GenesisEstablishment \<Rightarrow> boot_result" where
  "handle_genesis state establishment =
     (case state of
        EstablishingGenesis genesis_partition \<Rightarrow>
          (case establishment of
             GenesisEstablished \<Rightarrow>
               boot_effect (ReadingSeal seal_generation_genesis) (ReadSeal seal_generation_genesis)
           | GenesisLostRace \<Rightarrow> boot_effect (DiscoveringHead genesis_partition) ObserveHead
           | GenesisUnresolved \<Rightarrow>
               boot_exit (BootRetryable ''canonical genesis create is unresolved''))
      | _ \<Rightarrow> None)"

definition handle_seal :: "seal_encoder \<Rightarrow> BootstrapState \<Rightarrow> Seal option \<Rightarrow> boot_result" where
  "handle_seal encode_seal state observed =
     (case state of
        ReadingSeal generation \<Rightarrow>
          (case observed of
             None \<Rightarrow> boot_exit (BootContradiction
               (''newest Seal '' @ debug_generation generation @ '' is absent''))
           | Some head \<Rightarrow>
               do { require (generation = seal_generation head);
                    case plan_bootstrap_sources head of
                      Inl exit \<Rightarrow> boot_exit exit
                    | Inr sources \<Rightarrow>
                        (case claim_successor head of
                           Inl source \<Rightarrow> boot_exit (BootContradiction
                             (''newest Seal cannot form an exact claim successor: ''
                              @ display_seal_error source))
                         | Inr candidate \<Rightarrow>
                             do { encoding \<leftarrow> authority_candidate encode_seal candidate;
                                  case encoding of
                                    Inr encoded \<Rightarrow>
                                      boot_effect (PublishingClaim candidate sources)
                                        (PublishClaim encoded)
                                  | Inl source \<Rightarrow> boot_exit (BootContradiction
                                      (''claim Seal could not be encoded: ''
                                       @ display_candidate_error source)) }) })
      | _ \<Rightarrow> None)"

definition read_next_table :: "BaseLoad \<Rightarrow> boot_result" where
  "read_next_table load =
     (case load_remaining load of
        [] \<Rightarrow>
          (case forest_try_from (merged_directory (load_merged load)) (merged_ledger (load_merged load)) of
             Inl error \<Rightarrow> boot_exit (map_forest_error error)
           | Inr forest \<Rightarrow>
               boot_effect
                 (ObservingWalTail \<lparr> loaded_claimed = load_claimed load, loaded_base = forest,
                                     loaded_durable = forest \<rparr> None)
                 ObserveWalTail)
      | source # remaining \<Rightarrow>
          boot_effect (ReadingTable (load \<lparr> load_remaining := remaining \<rparr>) source)
            (ReadTable (seal_partition (claimed_seal (load_claimed load))) (planned_table source)))"

definition handle_claim :: "BootstrapState \<Rightarrow> SealPublication \<Rightarrow> boot_result" where
  "handle_claim state publication =
     (case state of
        PublishingClaim candidate sources \<Rightarrow>
          (case publication of
             Authored \<Rightarrow>
               read_next_table
                 \<lparr> load_claimed = \<lparr> claimed_claim = authored_claim_new (seal_generation candidate),
                                     claimed_seal = candidate \<rparr>,
                   load_remaining = sources, load_merged = merged_rows_default,
                   load_previous_directory = None, load_previous_ledger = None \<rparr>
           | NoAuthority \<Rightarrow> boot_exit (BootFenced (seal_generation candidate))
           | PublicationUnresolved \<Rightarrow> boot_exit (BootRetryable
               (''claim create at '' @ debug_generation (seal_generation candidate) @ '' is unresolved'')))
      | _ \<Rightarrow> None)"

definition merge_decoded :: "BaseLoad \<Rightarrow> PlannedTable \<Rightarrow> DecodedTable \<Rightarrow> (BootstrapExit + BaseLoad) option"
where
  "merge_decoded load source decoded =
     (case decoded of
        DecodedDirectory rows \<Rightarrow>
          do { require (StoreDirectory = table_store (ref_object (planned_table source)));
               let previous = (if planned_starts_run source then None else load_previous_directory load);
               and_then (merge_directory_table (load_merged load) previous rows)
                 (\<lambda>(merged, last). Some (Inr (load \<lparr> load_merged := merged,
                                                  load_previous_directory := last \<rparr>))) }
      | DecodedLedger rows \<Rightarrow>
          do { require (StoreLedger = table_store (ref_object (planned_table source)));
               let previous = (if planned_starts_run source then None else load_previous_ledger load);
               and_then (merge_ledger_table (load_merged load) previous rows)
                 (\<lambda>(merged, last). Some (Inr (load \<lparr> load_merged := merged,
                                                  load_previous_ledger := last \<rparr>))) })"

definition handle_table :: "BootstrapState \<Rightarrow> TableRef \<Rightarrow> DecodedTable \<Rightarrow> boot_result" where
  "handle_table state table decoded =
     (case state of
        ReadingTable load source \<Rightarrow>
          do { require (planned_table source = table);
               merge \<leftarrow> merge_decoded load source decoded;
               case merge of
                 Inr load \<Rightarrow> read_next_table load
               | Inl exit \<Rightarrow> boot_exit exit }
      | _ \<Rightarrow> None)"

definition establish_fence :: "wal_encoder \<Rightarrow> LoadedBootstrap \<Rightarrow> TakeoverFence \<Rightarrow> boot_result" where
  "establish_fence encode_wal loaded fence =
     do { encoding \<leftarrow> encoded_wal_new encode_wal
            \<lparr> wal_partition = seal_partition (claimed_seal (loaded_claimed loaded)),
              wal_batch = fence_batch fence,
              wal_owner = claim_owner (claimed_claim (loaded_claimed loaded)),
              wal_body = WalFence \<rparr>;
          case encoding of
            Inr encoded \<Rightarrow> boot_effect (EstablishingFence loaded fence) (EstablishFence encoded)
          | Inl source \<Rightarrow> boot_exit (BootContradiction
              (''takeover FENCE could not be encoded: '' @ display_encode_error source)) }"

definition handle_wal_tail ::
  "wal_encoder \<Rightarrow> BootstrapState \<Rightarrow> BatchId option \<Rightarrow> boot_result" where
  "handle_wal_tail encode_wal state listed_tail =
     (case state of
        ObservingWalTail loaded occupied \<Rightarrow>
          (let wcut = replay_batch (seal_replay (claimed_seal (loaded_claimed loaded))) in
           case plan_fence_candidate wcut listed_tail of
             Inl exit \<Rightarrow> boot_exit exit
           | Inr candidate \<Rightarrow>
               if (case occupied of None \<Rightarrow> False | Some occupied \<Rightarrow> candidate \<le> occupied)
               then boot_exit (BootContradiction
                 (''WAL list did not advance past occupied FENCE candidate '' @ debug_batch (the occupied)))
               else (case bound_takeover_fence wcut candidate of
                   Inl error \<Rightarrow> boot_exit (map_takeover_fence_error error)
                 | Inr fence \<Rightarrow>
                     (case listed_tail of
                        Some tail \<Rightarrow>
                          if (case wcut of None \<Rightarrow> True | Some wcut \<Rightarrow> tail > wcut)
                          then boot_effect (ReadingWalTail loaded fence tail)
                                 (ReadWal (seal_partition (claimed_seal (loaded_claimed loaded))) tail)
                          else establish_fence encode_wal loaded fence
                      | None \<Rightarrow> establish_fence encode_wal loaded fence)))
      | _ \<Rightarrow> None)"

definition handle_tail_read ::
  "wal_encoder \<Rightarrow> LoadedBootstrap \<Rightarrow> TakeoverFence \<Rightarrow> BatchId \<Rightarrow> WalObject option \<Rightarrow> boot_result" where
  "handle_tail_read encode_wal loaded fence listed_tail observed =
     (case observed of
        None \<Rightarrow> boot_exit (BootRetryable
          (''listed WAL tail '' @ debug_batch listed_tail @ '' disappeared before FENCE placement''))
      | Some observed \<Rightarrow>
          do { require (listed_tail = wal_batch observed);
               require (seal_partition (claimed_seal (loaded_claimed loaded)) = wal_partition observed);
               if wal_owner observed \<ge> claim_owner (claimed_claim (loaded_claimed loaded))
               then refresh_anomaly (claimed_claim (loaded_claimed loaded))
                 (''listed WAL tail '' @ debug_batch listed_tail @ '' has owner ''
                  @ debug_owner (wal_owner observed) @ '', not older than the authored owner'')
               else establish_fence encode_wal loaded fence })"

definition handle_fence :: "BootstrapState \<Rightarrow> WalEstablishment \<Rightarrow> boot_result" where
  "handle_fence state establishment =
     (case state of
        EstablishingFence loaded fence \<Rightarrow>
          (case establishment of
             WalDurable \<Rightarrow>
               (let point = seal_replay (claimed_seal (loaded_claimed loaded)) in
                case replay_start point of
                  Inl exit \<Rightarrow> boot_exit exit
                | Inr first \<Rightarrow>
                    boot_effect
                      (Replaying \<lparr> replay_loaded = loaded, replay_next = first, replay_fence = fence,
                                   replay_owner_token = replay_owner point \<rparr>)
                      (ReadWal (seal_partition (claimed_seal (loaded_claimed loaded))) first))
           | WalOccupied \<Rightarrow>
               boot_effect (ObservingWalTail loaded (Some (fence_batch fence))) ObserveWalTail
           | WalUnresolvedAbsent \<Rightarrow> boot_exit (BootRetryable
               (''takeover FENCE create at '' @ debug_batch (fence_batch fence)
                @ '' is unresolved and absent on reconciliation'')))
      | _ \<Rightarrow> None)"

text \<open>The body of one replayed object: an anomaly, or the owner and the forest after it.\<close>

definition replay_body ::
  "Replay \<Rightarrow> WalObject \<Rightarrow> (string + OwnerToken option \<times> Forest) option" where
  "replay_body r observed =
     (case wal_body observed of
        WalFence \<Rightarrow>
          if (case replay_owner_token r of None \<Rightarrow> False | Some current \<Rightarrow> wal_owner observed \<le> current)
          then Some (Inl (''FENCE at '' @ debug_batch (replay_next r)
                 @ '' does not strictly increase the replay owner''))
          else Some (Inr (Some (wal_owner observed), loaded_durable (replay_loaded r)))
      | WalRun facts \<Rightarrow>
          if replay_owner_token r = Some (wal_owner observed)
          then and_then (fold_replay_facts (loaded_durable (replay_loaded r)) (replay_next r) facts)
                 (\<lambda>durable. Some (Inr (replay_owner_token r, durable)))
          else Some (Inl (''RUN at '' @ debug_batch (replay_next r)
                 @ '' does not match the replay owner'')))"

definition replay_advance :: "Replay \<Rightarrow> OwnerToken option \<Rightarrow> Forest \<Rightarrow> boot_result" where
  "replay_advance r owner durable =
     (let loaded = replay_loaded r; claimed = loaded_claimed loaded;
          loaded' = loaded \<lparr> loaded_durable := durable \<rparr> in
      if replay_next r = fence_batch (replay_fence r)
      then do { require (Some (claim_owner (claimed_claim claimed)) = owner);
                boot_effect
                  (RefreshingFinal
                     \<lparr> recovery_claim = claimed_claim claimed, recovery_seal = claimed_seal claimed,
                       recovery_base = loaded_base loaded, recovery_durable = durable,
                       recovery_durable_batch = fence_batch (replay_fence r) \<rparr>)
                  ObserveHead }
      else (case batch_successor (replay_next r) of
          Inl _ \<Rightarrow> boot_exit (BootContradiction
            ''WAL replay coordinate is exhausted before the FENCE'')
        | Inr following \<Rightarrow>
            boot_effect
              (Replaying (r \<lparr> replay_loaded := loaded', replay_next := following,
                             replay_owner_token := owner \<rparr>))
              (ReadWal (seal_partition (claimed_seal claimed)) following)))"

definition handle_replay_read :: "Replay \<Rightarrow> WalObject option \<Rightarrow> boot_result" where
  "handle_replay_read r observed =
     (let claimed = loaded_claimed (replay_loaded r) in
      case observed of
        None \<Rightarrow> refresh_anomaly (claimed_claim claimed)
          (''WAL coordinate '' @ debug_batch (replay_next r) @ '' is absent below the FENCE'')
      | Some observed \<Rightarrow>
          do { require (replay_next r = wal_batch observed);
               require (seal_partition (claimed_seal claimed) = wal_partition observed);
               require (replay_next r = fence_batch (replay_fence r) \<longrightarrow>
                 wal_body observed = WalFence \<and> claim_owner (claimed_claim claimed) = wal_owner observed);
               folded \<leftarrow> replay_body r observed;
               case folded of
                 Inl detail \<Rightarrow> refresh_anomaly (claimed_claim claimed) detail
               | Inr (owner, durable) \<Rightarrow> replay_advance r owner durable })"

definition handle_wal_read ::
  "wal_encoder \<Rightarrow> BootstrapState \<Rightarrow> WalObject option \<Rightarrow> boot_result" where
  "handle_wal_read encode_wal state observed =
     (case state of
        ReadingWalTail loaded fence listed_tail \<Rightarrow>
          handle_tail_read encode_wal loaded fence listed_tail observed
      | Replaying r \<Rightarrow> handle_replay_read r observed
      | _ \<Rightarrow> None)"

definition handle_store_failure :: "BootstrapState \<Rightarrow> TypedStoreError \<Rightarrow> boot_result" where
  "handle_store_failure state error =
     (case (state, error) of
        (ReadingWalTail loaded fence tail, StoreContradiction detail) \<Rightarrow>
          refresh_anomaly (claimed_claim (loaded_claimed loaded)) detail
      | (Replaying r, StoreContradiction detail) \<Rightarrow>
          refresh_anomaly (claimed_claim (loaded_claimed (replay_loaded r))) detail
      | (BootInitial, _) \<Rightarrow> None
      | (BootCompleteState, _) \<Rightarrow> None
      | _ \<Rightarrow> boot_exit (store_exit error))"

definition bootstrap_handle ::
  "seal_encoder \<Rightarrow> wal_encoder \<Rightarrow> BootstrapMachine \<Rightarrow> BootstrapEvent \<Rightarrow> boot_result" where
  "bootstrap_handle encode_seal encode_wal machine event =
     do { state \<leftarrow> bm_state machine;
          case event of
            BootStarted genesis_partition \<Rightarrow>
              do { require (state = BootInitial);
                   boot_effect (DiscoveringHead genesis_partition) ObserveHead }
          | HeadObserved result \<Rightarrow> handle_head encode_seal state result
          | GenesisEstablishedEvent result \<Rightarrow> handle_genesis state result
          | SealRead result \<Rightarrow> handle_seal encode_seal state result
          | ClaimPublished result \<Rightarrow> handle_claim state result
          | TableRead table decoded \<Rightarrow> handle_table state table decoded
          | WalTailObserved result \<Rightarrow> handle_wal_tail encode_wal state result
          | WalRead result \<Rightarrow> handle_wal_read encode_wal state result
          | FenceEstablished result \<Rightarrow> handle_fence state result
          | StoreFailed error \<Rightarrow> handle_store_failure state error }"

end
