(* ===== verification/Writer_Invariant.thy ===== *)
theory Writer_Invariant
  imports Writer
begin

text \<open>
  The invariant of the writer machine, the conformity of events (what the interpreter in
  \<open>strom-storage-engine/src/writer.rs\<close> guarantees about the events it delivers), and for each
  method of the machine the facts that make up the step properties: no panic, preservation,
  conservation of replies, and the contents of issued RUNs and published views.
\<close>

section \<open>Invariant\<close>

definition pending_ops :: "WriterMachine \<Rightarrow> OperationFact list" where
  "pending_ops m = barrier_facts (barrier_commands (wm_pending m))"

definition at_batch :: "BatchId \<Rightarrow> OperationFact list \<Rightarrow> (BatchId \<times> OperationFact) list" where
  "at_batch b ops = map (Pair b) ops"

text \<open>The forest the pending facts were admitted on: the one in flight, or the durable one.\<close>

definition flight_base :: "WriterMachine \<Rightarrow> SharedForest" where
  "flight_base m = (case wm_flight m of None \<Rightarrow> wm_durable m | Some f \<Rightarrow> flight_forest f)"

lemma flight_base_simps:
  "wm_flight m = None \<Longrightarrow> flight_base m = wm_durable m"
  "wm_flight m = Some f \<Longrightarrow> flight_base m = flight_forest f"
  by (simp_all add: flight_base_def)

lemma flight_base_cong:
  "wm_flight m' = wm_flight m \<Longrightarrow> wm_durable m' = wm_durable m \<Longrightarrow> flight_base m' = flight_base m"
  by (simp add: flight_base_def split: option.split)

definition replay_cut :: "WriterMachine \<Rightarrow> BatchId option" where
  "replay_cut m = replay_batch (seal_replay (wm_seal m))"

definition barrier_ok :: "PendingBarrier \<Rightarrow> bool" where
  "barrier_ok b \<longleftrightarrow>
     barrier_facts_bytes b = sum_list (map estimated_encoded_bytes (barrier_facts (barrier_commands b)))
     \<and> WAL_RUN_FIXED_ENCODED_BYTES_MAX + barrier_facts_bytes b \<le> WAL_ENCODED_BYTES_MAX
     \<and> length (barrier_commands b) \<le> WRITER_PENDING_COMMANDS_MAX"

definition forests_ok :: "WriterMachine \<Rightarrow> bool" where
  "forests_ok m \<longleftrightarrow>
     forest_inv (forest_of (wm_durable m)) \<and> forest_inv (wm_base m)
     \<and> forest_inv (forest_of (flight_base m))"

definition pending_ok :: "WriterMachine \<Rightarrow> bool" where
  "pending_ok m \<longleftrightarrow>
     barrier_ok (wm_pending m)
     \<and> replay (forest_of (flight_base m)) (at_batch (wm_next_batch m) (pending_ops m))
         = Some (Inr (forest_of (wm_admitted m)))
     \<and> (pending_ops m = [] \<longrightarrow> wm_admitted m = flight_base m)
     \<and> (pending_ops m \<noteq> [] \<longrightarrow> batch_get (wm_next_batch m) < u64_max
          \<and> batch_get (wm_next_batch m) + 1 \<le> cut_get (replay_cut m) + WAL_SUFFIX_COORDINATES_MAX_V2)"

definition coordinates_ok :: "WriterMachine \<Rightarrow> bool" where
  "coordinates_ok m \<longleftrightarrow>
     cut_get (replay_cut m) \<le> batch_get (wm_durable_batch m)
     \<and> batch_get (wm_durable_batch m) \<le> cut_get (replay_cut m) + WAL_SUFFIX_COORDINATES_MAX_V2
     \<and> (wm_flight m = None \<longrightarrow> batch_get (wm_next_batch m) = batch_get (wm_durable_batch m) + 1)
     \<and> (\<forall>f. wm_flight m = Some f \<longrightarrow>
          batch_get (flight_batch f) = batch_get (wm_durable_batch m) + 1
          \<and> batch_get (wm_next_batch m) = batch_get (wm_durable_batch m) + 2
          \<and> batch_get (flight_batch f) + 1 \<le> cut_get (replay_cut m) + WAL_SUFFIX_COORDINATES_MAX_V2)"

definition ticket_ok :: "WriterMachine \<Rightarrow> CheckpointTicket \<Rightarrow> bool" where
  "ticket_ok m t \<longleftrightarrow>
     ticket_source t = seal_generation (wm_seal m)
     \<and> cut_get (replay_cut m) < batch_get (ticket_cut t)
     \<and> ticket_cut t \<le> wm_durable_batch m
     \<and> attempt_owner_claim (ticket_attempt t) = claim_generation (wm_claim m)"

text \<open>A checkpoint prepared for a ticket, from the Seal the machine holds.\<close>

definition prepared_ok :: "WriterMachine \<Rightarrow> CheckpointTicket \<Rightarrow> PreparedCheckpoint \<Rightarrow> bool" where
  "prepared_ok m t p \<longleftrightarrow>
     prepared_source p = wm_seal m
     \<and> prepared_checkpoint_new t (wm_seal m) (prepared_successor p) (prepared_snapshot p)
         (prepared_candidate p) = Some p
     \<and> seal_valid (prepared_successor p) \<and> forest_inv (prepared_snapshot p)"

definition checkpoint_ok :: "WriterMachine \<Rightarrow> bool" where
  "checkpoint_ok m \<longleftrightarrow>
     (\<forall>a. wm_last_checkpoint_attempted_cut m = Some a \<longrightarrow> a \<le> wm_durable_batch m)
     \<and> (\<forall>marker. wm_checkpoint m = Some marker \<longrightarrow> ticket_ok m (marker_ticket marker))
     \<and> (\<forall>t p. wm_checkpoint m = Some (Publishing t p) \<longrightarrow> prepared_ok m t p)"

definition claim_ok :: "WriterMachine \<Rightarrow> bool" where
  "claim_ok m \<longleftrightarrow>
     claim_owner (wm_claim m) = owner_from (claim_generation (wm_claim m))
     \<and> claim_generation (wm_claim m) \<le> seal_generation (wm_seal m)
     \<and> seal_valid (wm_seal m)"

definition writer_core :: "WriterMachine \<Rightarrow> bool" where
  "writer_core m \<longleftrightarrow>
     forests_ok m \<and> pending_ok m \<and> coordinates_ok m \<and> checkpoint_ok m \<and> claim_ok m"

text \<open>Between events, a barrier without a flight holds at least one fact.\<close>

definition barrier_settled :: "WriterMachine \<Rightarrow> bool" where
  "barrier_settled m \<longleftrightarrow>
     (wm_flight m = None \<longrightarrow> barrier_commands (wm_pending m) \<noteq> [] \<longrightarrow> pending_ops m \<noteq> [])"

definition writer_inv :: "WriterMachine \<Rightarrow> bool" where
  "writer_inv m \<longleftrightarrow> writer_core m \<and> barrier_settled m"

named_theorems writer_parts \<open>the conjuncts of the writer invariant\<close>

lemmas [writer_parts] =
  writer_core_def forests_ok_def pending_ok_def coordinates_ok_def checkpoint_ok_def claim_ok_def

text \<open>Each conjunct depends on a few fields only.\<close>

lemma forests_ok_cong:
  "wm_flight m' = wm_flight m \<Longrightarrow> wm_durable m' = wm_durable m \<Longrightarrow> wm_base m' = wm_base m
     \<Longrightarrow> forests_ok m' \<longleftrightarrow> forests_ok m"
  by (simp add: forests_ok_def flight_base_cong [of m' m])

lemma pending_ok_cong:
  "wm_flight m' = wm_flight m \<Longrightarrow> wm_durable m' = wm_durable m \<Longrightarrow> wm_pending m' = wm_pending m
     \<Longrightarrow> wm_next_batch m' = wm_next_batch m \<Longrightarrow> wm_admitted m' = wm_admitted m
     \<Longrightarrow> wm_seal m' = wm_seal m \<Longrightarrow> pending_ok m' \<longleftrightarrow> pending_ok m"
  by (simp add: pending_ok_def pending_ops_def replay_cut_def flight_base_cong [of m' m])

lemma coordinates_ok_cong:
  "wm_flight m' = wm_flight m \<Longrightarrow> wm_seal m' = wm_seal m \<Longrightarrow> wm_next_batch m' = wm_next_batch m
     \<Longrightarrow> wm_durable_batch m' = wm_durable_batch m \<Longrightarrow> coordinates_ok m' \<longleftrightarrow> coordinates_ok m"
  by (simp add: coordinates_ok_def replay_cut_def)

lemma checkpoint_ok_cong:
  "wm_checkpoint m' = wm_checkpoint m \<Longrightarrow> wm_seal m' = wm_seal m \<Longrightarrow> wm_claim m' = wm_claim m
     \<Longrightarrow> wm_last_checkpoint_attempted_cut m' = wm_last_checkpoint_attempted_cut m
     \<Longrightarrow> wm_durable_batch m' = wm_durable_batch m \<Longrightarrow> checkpoint_ok m' \<longleftrightarrow> checkpoint_ok m"
  by (simp add: checkpoint_ok_def ticket_ok_def prepared_ok_def replay_cut_def)

lemma claim_ok_cong:
  "wm_seal m' = wm_seal m \<Longrightarrow> wm_claim m' = wm_claim m \<Longrightarrow> claim_ok m' \<longleftrightarrow> claim_ok m"
  by (simp add: claim_ok_def)

lemmas writer_congs =
  forests_ok_cong pending_ok_cong coordinates_ok_cong checkpoint_ok_cong claim_ok_cong

lemma writer_core_cong:
  "wm_flight m' = wm_flight m \<Longrightarrow> wm_durable m' = wm_durable m \<Longrightarrow> wm_base m' = wm_base m
     \<Longrightarrow> wm_pending m' = wm_pending m \<Longrightarrow> wm_next_batch m' = wm_next_batch m
     \<Longrightarrow> wm_admitted m' = wm_admitted m \<Longrightarrow> wm_seal m' = wm_seal m
     \<Longrightarrow> wm_durable_batch m' = wm_durable_batch m \<Longrightarrow> wm_checkpoint m' = wm_checkpoint m
     \<Longrightarrow> wm_claim m' = wm_claim m
     \<Longrightarrow> wm_last_checkpoint_attempted_cut m' = wm_last_checkpoint_attempted_cut m
     \<Longrightarrow> writer_core m' \<longleftrightarrow> writer_core m"
  unfolding writer_core_def using writer_congs [of m' m] by metis

subsection \<open>Events that an interpreter may deliver\<close>

definition event_ok :: "WriterMachine \<Rightarrow> WriterEvent \<Rightarrow> bool" where
  "event_ok m e \<longleftrightarrow>
     (wm_started m \<longleftrightarrow> e \<noteq> Started)
     \<and> (case e of
          Started \<Rightarrow> True
        | Command c \<Rightarrow> admission_open m = Some True
        | FlushDue \<Rightarrow> wm_flush_armed m
        | IngressClosed \<Rightarrow> wm_ingress_open m
        | WalEstablished b r \<Rightarrow> map_option flight_batch (wm_flight m) = Some b
        | CheckpointPrepared t outcome \<Rightarrow>
            wm_checkpoint m = Some (Cancelling t)
            \<or> wm_checkpoint m = Some (Preparing t)
              \<and> (case outcome of Prepared p \<Rightarrow> prepared_ok m t p | _ \<Rightarrow> True)
        | SealPublished t r \<Rightarrow> (case wm_checkpoint m of Some (Publishing t' p) \<Rightarrow> t' = t | _ \<Rightarrow> False)
        | CollectFinished c \<Rightarrow> wm_collector m = Some c
        | CheckpointPreparationCancelled t \<Rightarrow> wm_checkpoint m = Some (Cancelling t))"

text \<open>
  What the machine relies on about the WAL encoder: a RUN of admissible facts whose estimated
  size is within the object bound is encoded, to a nonempty object within the bound.
\<close>

definition wal_encoder_ok :: "wal_encoder \<Rightarrow> bool" where
  "wal_encoder_ok encode_wal \<longleftrightarrow>
     (\<forall>object facts.
        wal_body object = WalRun facts \<longrightarrow> facts \<noteq> [] \<longrightarrow> length facts \<le> WAL_RUN_FACTS_MAX \<longrightarrow>
        WAL_RUN_FIXED_ENCODED_BYTES_MAX + sum_list (map estimated_encoded_bytes facts)
          \<le> WAL_ENCODED_BYTES_MAX \<longrightarrow>
        (\<exists>bs. encode_wal object = Inr bs \<and> bs \<noteq> [] \<and> length bs \<le> WAL_ENCODED_BYTES_MAX))"

section \<open>The pending barrier\<close>

lemma estimated_encoded_bytes_pos: "0 < estimated_encoded_bytes op"
  by (simp add: estimated_encoded_bytes_def saturating_add_def bound_defs)

lemma barrier_facts_append: "barrier_facts (xs @ ys) = barrier_facts xs @ barrier_facts ys"
  by (simp add: barrier_facts_def map_filter_append)

lemma barrier_facts_simps [simp]:
  "barrier_facts [] = []"
  "barrier_facts (c # cs) =
     (case pending_fact c of None \<Rightarrow> barrier_facts cs | Some op \<Rightarrow> op # barrier_facts cs)"
  by (simp_all add: barrier_facts_def List.map_filter_simps split: option.splits)

lemma length_barrier_facts: "length (barrier_facts cs) \<le> length cs"
  by (induction cs) (auto split: option.splits)

lemma barrier_ok_new: "barrier_ok barrier_new"
  by (simp add: barrier_ok_def barrier_new_def bound_defs)

lemma barrier_has_facts_iff:
  "barrier_ok b \<Longrightarrow> barrier_has_facts b \<longleftrightarrow> barrier_facts (barrier_commands b) \<noteq> []"
  using estimated_encoded_bytes_pos
  by (cases "barrier_facts (barrier_commands b)") (auto simp: barrier_ok_def barrier_has_facts_def)

lemma wal_bound_u64:
  "WAL_ENCODED_BYTES_MAX + WAL_FACT_ENCODED_BYTES_ESTIMATE_MAX \<le> u64_max"
  by (simp add: bound_defs u64_max_def)

lemma barrier_bytes:
  assumes "barrier_ok b"
  shows "bytes_estimated b = Some (WAL_RUN_FIXED_ENCODED_BYTES_MAX + barrier_facts_bytes b)"
proof -
  have "WAL_RUN_FIXED_ENCODED_BYTES_MAX + barrier_facts_bytes b \<le> u64_max"
    using assms wal_bound_u64 unfolding barrier_ok_def by linarith
  then show ?thesis by (simp add: bytes_estimated_def)
qed

definition barrier_full :: "PendingBarrier \<Rightarrow> bool" where
  "barrier_full b \<longleftrightarrow>
     length (barrier_commands b) = WRITER_PENDING_COMMANDS_MAX
     \<or> WAL_RUN_FIXED_ENCODED_BYTES_MAX + barrier_facts_bytes b + WAL_FACT_ENCODED_BYTES_ESTIMATE_MAX
         > WAL_ENCODED_BYTES_MAX"

lemma hard_full_ok:
  assumes "barrier_ok (wm_pending m)"
  shows "hard_full m = Some (barrier_full (wm_pending m))"
proof -
  have "WAL_RUN_FIXED_ENCODED_BYTES_MAX + barrier_facts_bytes (wm_pending m)
      + WAL_FACT_ENCODED_BYTES_ESTIMATE_MAX \<le> u64_max"
    using assms wal_bound_u64 unfolding barrier_ok_def by linarith
  with assms show ?thesis
    by (auto simp: hard_full_def barrier_len_def barrier_bytes barrier_full_def checked_add_def
        barrier_ok_def)
qed

lemma push_fact_ok:
  assumes "barrier_ok b" "\<not> barrier_full b"
  obtains b' where "push_fact b op c = Some b'" "barrier_ok b'"
    "barrier_commands b' = barrier_commands b @ [\<lparr> pending_fact = Some op, pending_completion = c \<rparr>]"
    "WAL_RUN_FIXED_ENCODED_BYTES_MAX + barrier_facts_bytes b' \<le> WAL_ENCODED_BYTES_MAX"
proof -
  let ?b = "\<lparr> barrier_commands = barrier_commands b @ [\<lparr> pending_fact = Some op, pending_completion = c \<rparr>],
              barrier_facts_bytes = barrier_facts_bytes b + estimated_encoded_bytes op \<rparr>"
  have room: "WAL_RUN_FIXED_ENCODED_BYTES_MAX + (barrier_facts_bytes b + estimated_encoded_bytes op)
      \<le> WAL_ENCODED_BYTES_MAX"
    using assms(2) estimated_encoded_bytes_le [of op] by (simp add: barrier_full_def)
  then have "barrier_facts_bytes b + estimated_encoded_bytes op \<le> u64_max"
    using wal_bound_u64 by linarith
  then have "push_fact b op c = Some ?b"
    by (simp add: push_fact_def checked_add_def)
  moreover have "barrier_ok ?b"
    using assms room by (simp add: barrier_ok_def barrier_facts_append barrier_full_def)
  ultimately show thesis
    using room by (intro that [of ?b]) simp_all
qed

lemma push_idempotent_ok:
  assumes "barrier_ok b" "\<not> barrier_full b"
  shows "barrier_ok (push_idempotent b c)"
    and "barrier_facts (barrier_commands (push_idempotent b c)) = barrier_facts (barrier_commands b)"
  using assms by (simp_all add: barrier_ok_def push_idempotent_def barrier_facts_append barrier_full_def)

lemma admission_open_ok:
  assumes "writer_core m" "admission_open m = Some True"
  shows "wm_ingress_open m" "\<not> barrier_full (wm_pending m)"
  using assms hard_full_ok [of m]
  by (auto simp: admission_open_def writer_parts split: if_splits)

section \<open>Admission\<close>

text \<open>What an admission decision says, for a command decided on a forest at a batch.\<close>

definition decision_ok :: "Forest \<Rightarrow> BatchId \<Rightarrow> CommandEnvelope \<Rightarrow> Admission \<Rightarrow> bool" where
  "decision_ok f b envelope d \<longleftrightarrow>
     (case d of
        AdmitFact a c \<Rightarrow> strict_fold f b (admitted_fact a) = Some (Inr (admitted_forest a))
          \<and> completion_reply c = command_reply envelope
      | AdmitIdempotent c \<Rightarrow> completion_reply c = command_reply envelope
      | AdmitRefused c \<Rightarrow> completion_reply c = command_reply envelope)"

lemma apply_fact_created:
  assumes "forest_inv f" "forest_resolve f p = None" "successor_uid f = Some (Inr u)"
  shows "\<exists>g. apply_fact f b (StreamCreated p u ct e l)
       = Some (Inr \<lparr> admitted_forest = g, admitted_fact = StreamCreated p u ct e l \<rparr>)
     \<and> strict_fold f b (StreamCreated p u ct e l) = Some (Inr g)"
proof -
  have "u = next_uid f" "forest_size f \<noteq> PARTITION_PATH_OCCUPANCIES_MAX_V2"
    using assms(3) successor_uid_inv [OF assms(1)] by (auto split: if_splits)
  with assms show ?thesis
    by (simp add: apply_fact_def strict_fold_created forest_resolve_def)
qed

lemma apply_fact_live:
  assumes "forest_inv f" "forest_resolve f p = Some (DirLive u)"
  shows "\<exists>g. apply_fact f b (StreamDeleted p u)
       = Some (Inr \<lparr> admitted_forest = g, admitted_fact = StreamDeleted p u \<rparr>)
     \<and> strict_fold f b (StreamDeleted p u) = Some (Inr g)"
    and "forest_record f u = Some r \<Longrightarrow> record_lifecycle r = LifecycleOpen \<Longrightarrow>
     \<exists>g. apply_fact f b (StreamClosed p u)
       = Some (Inr \<lparr> admitted_forest = g, admitted_fact = StreamClosed p u \<rparr>)
     \<and> strict_fold f b (StreamClosed p u) = Some (Inr g)"
  using assms
  by (simp_all add: apply_fact_def strict_fold_deleted strict_fold_closed forest_resolve_def
      forest_record_def)

lemma admit_decision_ok:
  assumes "forest_inv (forest_of (wm_admitted m))"
  shows "\<exists>d. admit_decision m envelope = Some d
     \<and> decision_ok (forest_of (wm_admitted m)) (wm_next_batch m) envelope d"
proof -
  let ?f = "forest_of (wm_admitted m)" and ?b = "wm_next_batch m"
  have resident: "\<exists>r. forest_record ?f u = Some r" if "forest_resolve ?f p = Some (DirLive u)" for p u
    using forest_live_record [OF assms] that by (simp add: forest_resolve_def forest_record_def)
  show ?thesis
  proof (cases envelope)
    case (CreateCommand c reply)
    show ?thesis
    proof (cases "forest_resolve ?f (create_path c)")
      case None
      show ?thesis
      proof (cases "forest_size ?f = PARTITION_PATH_OCCUPANCIES_MAX_V2")
        case True
        with None CreateCommand show ?thesis
          by (simp add: admit_decision_def admit_create_def successor_uid_inv [OF assms] decision_ok_def)
      next
        case False
        then have "successor_uid ?f = Some (Inr (next_uid ?f))"
          by (simp add: successor_uid_inv [OF assms])
        with apply_fact_created [OF assms None this, of ?b "create_content_type c" "create_expiry c"
            "create_lifecycle c"] None CreateCommand
        show ?thesis
          by (auto simp: admit_decision_def admit_create_def decision_ok_def)
      qed
    next
      case (Some e)
      with resident [of "create_path c"] CreateCommand show ?thesis
        by (cases e) (auto simp: admit_decision_def admit_create_def decision_ok_def)
    qed
  next
    case (CloseCommand p reply)
    show ?thesis
    proof (cases "\<exists>u. forest_resolve ?f p = Some (DirLive u)")
      case True
      then obtain u r where u: "forest_resolve ?f p = Some (DirLive u)" "forest_record ?f u = Some r"
        using resident by blast
      with apply_fact_live(2) [OF assms u, of ?b] CloseCommand show ?thesis
        by (cases "record_lifecycle r")
          (auto simp: admit_decision_def admit_close_def resolve_live_uid_def decision_ok_def)
    next
      case False
      then have "resolve_live_uid ?f p = Inl RefusedPathNotLive"
        by (auto simp: resolve_live_uid_def split: option.splits DirectoryEntry.splits)
      with CloseCommand show ?thesis
        by (simp add: admit_decision_def admit_close_def decision_ok_def)
    qed
  next
    case (DeleteCommand p reply)
    show ?thesis
    proof (cases "\<exists>u. forest_resolve ?f p = Some (DirLive u)")
      case True
      then obtain u where u: "forest_resolve ?f p = Some (DirLive u)"
        by blast
      with apply_fact_live(1) [OF assms u, of ?b] DeleteCommand show ?thesis
        by (auto simp: admit_decision_def admit_delete_def resolve_live_uid_def decision_ok_def)
    next
      case False
      then have "resolve_live_uid ?f p = Inl RefusedPathNotLive"
        by (auto simp: resolve_live_uid_def split: option.splits DirectoryEntry.splits)
      with DeleteCommand show ?thesis
        by (simp add: admit_decision_def admit_delete_def decision_ok_def)
    qed
  qed
qed

lemma admitted_inv: "writer_core m \<Longrightarrow> forest_inv (forest_of (wm_admitted m))"
  unfolding writer_parts replay_def by (metis fact_log.replay_inv)

lemma replay_at_snoc:
  assumes "replay f (at_batch b ops) = Some (Inr g)" "strict_fold g b op = Some (Inr h)"
  shows "replay f (at_batch b (ops @ [op])) = Some (Inr h)"
  using assms try_fold_snoc [of fold_at f "at_batch b ops" g "(b, op)"]
  by (simp add: replay_def at_batch_def fold_at_def)

subsection \<open>Outstanding replies\<close>

definition replies_of :: "Completion list \<Rightarrow> reply multiset" where
  "replies_of cs = mset (map completion_reply cs)"

lemma replies_of_simps [simp]:
  "replies_of [] = {#}"
  "replies_of (c # cs) = add_mset (completion_reply c) (replies_of cs)"
  "replies_of (cs @ ds) = replies_of cs + replies_of ds"
  by (simp_all add: replies_of_def)

definition outstanding :: "WriterMachine \<Rightarrow> reply multiset" where
  "outstanding m =
     replies_of (map pending_completion (barrier_commands (wm_pending m)))
     + (case wm_flight m of None \<Rightarrow> {#} | Some f \<Rightarrow> replies_of (flight_replies f))"

text \<open>Admission changes the admitted forest, the barrier and the retry mark, and nothing else.\<close>

definition admission_frame :: "WriterMachine \<Rightarrow> WriterMachine \<Rightarrow> bool" where
  "admission_frame m m' \<longleftrightarrow>
     m' = m \<lparr> wm_admitted := wm_admitted m', wm_pending := wm_pending m',
             wm_fresh_root := wm_fresh_root m', wm_retry_checkpoint_at := wm_retry_checkpoint_at m' \<rparr>"

lemma admission_frame_fields:
  assumes "admission_frame m m'"
  shows "wm_flight m' = wm_flight m" "wm_durable m' = wm_durable m" "wm_seal m' = wm_seal m"
    "wm_durable_batch m' = wm_durable_batch m" "wm_next_batch m' = wm_next_batch m"
    "wm_checkpoint m' = wm_checkpoint m" "wm_checkpoint_attempt m' = wm_checkpoint_attempt m"
    "wm_ingress_open m' = wm_ingress_open m" "wm_claim m' = wm_claim m" "wm_base m' = wm_base m"
    "wm_started m' = wm_started m" "wm_collector m' = wm_collector m"
  by (subst assms [unfolded admission_frame_def], simp)+

lemma completion_refusal_reply [simp]:
  "completion_reply (completion_refusal c r) = completion_reply c"
  by (cases c) (simp_all add: completion_refusal_def)

lemma accept_fact_ok:
  assumes core: "writer_core m" and room: "\<not> barrier_full (wm_pending m)"
    and fold: "strict_fold (forest_of (wm_admitted m)) (wm_next_batch m) (admitted_fact a)
      = Some (Inr (admitted_forest a))"
  shows "\<exists>m' out. accept_fact m a c = Some (m', out) \<and> writer_core m' \<and> admission_frame m m'
     \<and> (out = None \<longrightarrow> pending_ops m' = pending_ops m @ [admitted_fact a])
     \<and> (out \<noteq> None \<longrightarrow> wm_pending m' = wm_pending m)
     \<and> outstanding m' + replies_of (case out of None \<Rightarrow> [] | Some c \<Rightarrow> [c])
         = add_mset (completion_reply c) (outstanding m)"
proof (cases "run_leaves_takeover_room (replay_cut m) (wm_next_batch m)")
  case False
  let ?m = "m \<lparr> wm_retry_checkpoint_at := Some (wm_durable_batch m) \<rparr>"
  have "accept_fact m a c = Some (?m, Some (completion_refusal c RefusedOverloaded))"
    using False by (simp add: accept_fact_def replay_cut_def)
  moreover have "writer_core ?m"
    using core by (subst writer_core_cong [of ?m m]) simp_all
  ultimately show ?thesis
    by (simp add: admission_frame_def outstanding_def)
next
  case True
  obtain b where b: "push_fact (wm_pending m) (admitted_fact a) c = Some b" "barrier_ok b"
    "barrier_commands b = barrier_commands (wm_pending m)
       @ [\<lparr> pending_fact = Some (admitted_fact a), pending_completion = c \<rparr>]"
    "WAL_RUN_FIXED_ENCODED_BYTES_MAX + barrier_facts_bytes b \<le> WAL_ENCODED_BYTES_MAX"
    using push_fact_ok [OF _ room] core unfolding writer_core_def pending_ok_def by metis
  let ?m = "m \<lparr> wm_admitted := SharedForest (wm_fresh_root m) (admitted_forest a),
               wm_fresh_root := Suc (wm_fresh_root m), wm_pending := b \<rparr>"
  have accept: "accept_fact m a c = Some (?m, None)"
    using True b by (simp add: accept_fact_def replay_cut_def barrier_bytes)
  have ops: "pending_ops ?m = pending_ops m @ [admitted_fact a]"
    by (simp add: pending_ops_def b(3) barrier_facts_append)
  have "replay (forest_of (flight_base m)) (at_batch (wm_next_batch m) (pending_ops m @ [admitted_fact a]))
      = Some (Inr (admitted_forest a))"
    using core fold by (intro replay_at_snoc) (simp_all add: writer_parts)
  then have "pending_ok ?m"
    using core True b(2) ops flight_base_cong [of ?m m]
    by (simp add: pending_ok_def run_leaves_takeover_room_iff replay_cut_def)
  then have "writer_core ?m"
    using core writer_congs [of ?m m] by (simp add: writer_core_def)
  with accept ops show ?thesis
    by (simp add: admission_frame_def outstanding_def b(3))
qed

lemma accept_idempotent_ok:
  assumes core: "writer_core m" and room: "\<not> barrier_full (wm_pending m)"
  shows "\<exists>m' out. accept_idempotent m c = (m', out) \<and> writer_core m' \<and> admission_frame m m'
     \<and> pending_ops m' = pending_ops m
     \<and> (wm_flight m = None \<longrightarrow> pending_ops m = [] \<longrightarrow> wm_pending m' = wm_pending m)
     \<and> outstanding m' + replies_of (case out of None \<Rightarrow> [] | Some c \<Rightarrow> [c])
         = add_mset (completion_reply c) (outstanding m)"
proof -
  have barrier: "barrier_ok (wm_pending m)"
    using core by (simp add: writer_parts)
  then have facts: "pending_has_facts m \<longleftrightarrow> pending_ops m \<noteq> []"
    by (simp add: pending_has_facts_def pending_ops_def barrier_has_facts_iff)
  show ?thesis
  proof (cases "wm_flight m = None \<and> pending_ops m = []")
    case True
    with core facts show ?thesis
      by (simp add: accept_idempotent_def admission_frame_def)
  next
    case False
    let ?m = "m \<lparr> wm_pending := push_idempotent (wm_pending m) c \<rparr>"
    have ops: "pending_ops ?m = pending_ops m"
      by (simp add: pending_ops_def push_idempotent_ok(2) [OF barrier room])
    then have "pending_ok ?m"
      using core push_idempotent_ok(1) [OF barrier room] flight_base_cong [of ?m m]
      by (simp add: writer_core_def pending_ok_def replay_cut_def)
    then have "writer_core ?m"
      using core writer_congs [of ?m m] by (simp add: writer_core_def)
    moreover have "accept_idempotent m c = (?m, None)"
      using False facts by (simp add: accept_idempotent_def)
    ultimately show ?thesis
      using ops False
      by (auto simp: admission_frame_def outstanding_def push_idempotent_def)
  qed
qed

lemma admit_ok:
  assumes inv: "writer_inv m" and room: "\<not> barrier_full (wm_pending m)"
  shows "\<exists>m' out. admit m envelope = Some (m', out) \<and> writer_inv m' \<and> admission_frame m m'
     \<and> outstanding m' + replies_of (case out of None \<Rightarrow> [] | Some c \<Rightarrow> [c])
         = add_mset (command_reply envelope) (outstanding m)"
proof -
  have core: "writer_core m" and settled: "barrier_settled m"
    using inv by (simp_all add: writer_inv_def)
  have barrier: "barrier_ok (wm_pending m)"
    using core by (simp add: writer_parts)
  then have guard: "wm_flight m = None \<longrightarrow> barrier_is_empty (wm_pending m) \<or> pending_has_facts m"
    using settled by (auto simp: barrier_settled_def barrier_is_empty_def pending_has_facts_def
        barrier_has_facts_iff pending_ops_def)
  obtain d where d: "admit_decision m envelope = Some d"
      "decision_ok (forest_of (wm_admitted m)) (wm_next_batch m) envelope d"
    using admit_decision_ok [OF admitted_inv [OF core]] by blast
  show ?thesis
  proof (cases d)
    case (AdmitFact a c)
    with d(2) accept_fact_ok [OF core room, of a c] guard d(1) obtain m' out where step:
      "admit m envelope = Some (m', out)" "writer_core m'" "admission_frame m m'"
      "out = None \<longrightarrow> pending_ops m' = pending_ops m @ [admitted_fact a]"
      "out \<noteq> None \<longrightarrow> wm_pending m' = wm_pending m"
      "outstanding m' + replies_of (case out of None \<Rightarrow> [] | Some c \<Rightarrow> [c])
         = add_mset (command_reply envelope) (outstanding m)"
      by (auto simp: admit_def decision_ok_def)
    then have "barrier_settled m'"
      using settled admission_frame_fields(1) [OF step(3)]
      by (cases out) (auto simp: barrier_settled_def pending_ops_def)
    with step show ?thesis by (auto simp: writer_inv_def)
  next
    case (AdmitIdempotent c)
    with d(2) accept_idempotent_ok [OF core room, of c] guard d(1) obtain m' out where step:
      "admit m envelope = Some (m', out)" "writer_core m'" "admission_frame m m'"
      "pending_ops m' = pending_ops m"
      "wm_flight m = None \<longrightarrow> pending_ops m = [] \<longrightarrow> wm_pending m' = wm_pending m"
      "outstanding m' + replies_of (case out of None \<Rightarrow> [] | Some c \<Rightarrow> [c])
         = add_mset (command_reply envelope) (outstanding m)"
      by (auto simp: admit_def decision_ok_def)
    then have "barrier_settled m'"
      using settled admission_frame_fields(1) [OF step(3)] by (auto simp: barrier_settled_def)
    with step show ?thesis by (auto simp: writer_inv_def)
  next
    case (AdmitRefused c)
    with d inv guard show ?thesis
      by (simp add: admit_def decision_ok_def admission_frame_def)
  qed
qed

section \<open>Draining and durability\<close>

fun sent :: "WriterOutput list \<Rightarrow> Completion list" where
  "sent [] = []"
| "sent (Action (SendReplies cs) # outs) = cs @ sent outs"
| "sent (_ # outs) = sent outs"

lemma sent_append [simp]: "sent (xs @ ys) = sent xs @ sent ys"
  by (induction xs rule: sent.induct) simp_all

text \<open>
  An issued RUN: its object names the partition, the batch in flight and the owner of the claim,
  and its facts take the durable forest to the forest in flight.
\<close>

definition run_issued :: "wal_encoder \<Rightarrow> WriterMachine \<Rightarrow> OperationFact list \<Rightarrow> EncodedWal \<Rightarrow> bool" where
  "run_issued encode_wal m facts w \<longleftrightarrow>
     (\<exists>f. wm_flight m = Some f \<and> facts \<noteq> []
        \<and> encoded_wal_new encode_wal
            \<lparr> wal_partition = seal_partition (wm_seal m), wal_batch = flight_batch f,
              wal_owner = claim_owner (wm_claim m), wal_body = WalRun facts \<rparr> = Some (Inr w)
        \<and> replay (forest_of (wm_durable m)) (at_batch (flight_batch f) facts)
            = Some (Inr (forest_of (flight_forest f))))"

text \<open>A drained machine: an empty barrier, and nothing else changed but the flight fields.\<close>

definition drained :: "wal_encoder \<Rightarrow> WriterMachine \<Rightarrow> instant \<Rightarrow> WriterMachine \<Rightarrow> WriterOutput \<Rightarrow> bool"
where
  "drained encode_wal m now m' out \<longleftrightarrow>
     (if pending_ops m = []
      then m' = m \<lparr> wm_pending := barrier_new, wm_admitted := wm_durable m \<rparr>
        \<and> out = Action (SendReplies (map pending_completion (barrier_commands (wm_pending m))))
      else (\<exists>b w. m' = m \<lparr> wm_pending := barrier_new, wm_next_batch := b,
               wm_flight := Some \<lparr> flight_batch = wm_next_batch m, flight_forest = wm_admitted m,
                 flight_replies = map pending_completion (barrier_commands (wm_pending m)) \<rparr>,
               wm_last_flush_started_at := Some now \<rparr>
        \<and> batch_get b = batch_get (wm_next_batch m) + 1
        \<and> out = Effect (EstablishWal w) \<and> run_issued encode_wal m' (pending_ops m) w))"

lemma drain_pending_drained:
  assumes core: "writer_core m" and enc: "wal_encoder_ok encode_wal"
    and flight: "wm_flight m = None" and nonempty: "barrier_commands (wm_pending m) \<noteq> []"
  shows "\<exists>m' out. drain_pending encode_wal m now = Some (m', out) \<and> drained encode_wal m now m' out"
proof (cases "pending_ops m = []")
  case True
  then have "wm_admitted m = wm_durable m"
    using core flight by (simp add: writer_parts flight_base_simps)
  with True flight nonempty show ?thesis
    by (simp add: drain_pending_def drained_def barrier_is_empty_def pending_ops_def Let_def)
next
  case False
  let ?facts = "pending_ops m"
  let ?object = "\<lparr> wal_partition = seal_partition (wm_seal m), wal_batch = wm_next_batch m,
     wal_owner = claim_owner (wm_claim m), wal_body = WalRun ?facts \<rparr>"
  have barrier: "barrier_ok (wm_pending m)" and last: "batch_get (wm_next_batch m) < u64_max"
    using core False by (simp_all add: writer_parts)
  have "length ?facts \<le> length (barrier_commands (wm_pending m))"
    by (simp add: pending_ops_def length_barrier_facts)
  also have "\<dots> \<le> WAL_RUN_FACTS_MAX"
    using barrier pending_barrier_fits_one_run unfolding barrier_ok_def by linarith
  finally have count: "length ?facts \<le> WAL_RUN_FACTS_MAX" .
  have size: "WAL_RUN_FIXED_ENCODED_BYTES_MAX + sum_list (map estimated_encoded_bytes ?facts)
      \<le> WAL_ENCODED_BYTES_MAX"
    using barrier by (simp add: barrier_ok_def pending_ops_def)
  have "wal_body ?object = WalRun ?facts" by simp
  then obtain bs where bs: "encode_wal ?object = Inr bs" "bs \<noteq> []" "length bs \<le> WAL_ENCODED_BYTES_MAX"
    using enc False count size unfolding wal_encoder_ok_def by blast
  then obtain w where w: "encoded_wal_new encode_wal ?object = Some (Inr w)"
    by (simp add: encoded_wal_new_def assert_candidate_bytes_def)
  have run: "pending_facts ?facts = Some ?facts"
    using False count by (simp add: pending_facts_def wal_facts_try_from_def)
  obtain b where b: "batch_successor (wm_next_batch m) = Inr b"
    using last batch_successor_ex by blast
  let ?m = "m \<lparr> wm_pending := barrier_new, wm_next_batch := b,
     wm_flight := Some \<lparr> flight_batch = wm_next_batch m, flight_forest = wm_admitted m,
       flight_replies = map pending_completion (barrier_commands (wm_pending m)) \<rparr>,
     wm_last_flush_started_at := Some now \<rparr>"
  have drain: "drain_pending encode_wal m now = Some (?m, Effect (EstablishWal w))"
    using flight nonempty False w run b
    by (simp add: drain_pending_def barrier_is_empty_def Let_def pending_ops_def)
  have "replay (forest_of (wm_durable m)) (at_batch (wm_next_batch m) ?facts)
      = Some (Inr (forest_of (wm_admitted m)))"
    using core flight by (simp add: writer_parts flight_base_simps)
  with False w have "run_issued encode_wal ?m ?facts w"
    unfolding run_issued_def
    by (intro exI [of _ "\<lparr> flight_batch = wm_next_batch m, flight_forest = wm_admitted m,
        flight_replies = map pending_completion (barrier_commands (wm_pending m)) \<rparr>"]) simp
  moreover have "batch_get b = batch_get (wm_next_batch m) + 1"
    using b by (simp add: batch.successor_Inr)
  ultimately have "drained encode_wal m now ?m (Effect (EstablishWal w))"
    using False unfolding drained_def by auto
  with drain show ?thesis by blast
qed

lemma drained_core:
  assumes core: "writer_core m" and flight: "wm_flight m = None" and dr: "drained enc m now m' out"
  shows "writer_core m'" "barrier_commands (wm_pending m') = []"
    "replies_of (sent [out]) + outstanding m' = outstanding m"
proof -
  have admitted: "forest_inv (forest_of (wm_admitted m))" by (rule admitted_inv [OF core])
  have "writer_core m' \<and> barrier_commands (wm_pending m') = []
      \<and> replies_of (sent [out]) + outstanding m' = outstanding m"
  proof (cases "pending_ops m = []")
    case True
    let ?m = "m \<lparr> wm_pending := barrier_new, wm_admitted := wm_durable m \<rparr>"
    have m': "m' = ?m"
      "out = Action (SendReplies (map pending_completion (barrier_commands (wm_pending m))))"
      using dr True by (simp_all add: drained_def)
    have "pending_ok ?m"
      using core flight
      by (simp add: writer_parts pending_ops_def barrier_new_def flight_base_simps at_batch_def
          replay_def barrier_ok_new [unfolded barrier_new_def])
    then have "writer_core ?m"
      using core writer_congs [of ?m m] by (simp add: writer_core_def)
    with flight show ?thesis by (simp add: m' outstanding_def barrier_new_def)
  next
    case False
    let ?f = "\<lparr> flight_batch = wm_next_batch m, flight_forest = wm_admitted m,
       flight_replies = map pending_completion (barrier_commands (wm_pending m)) \<rparr>"
    obtain b where b: "m' = m \<lparr> wm_pending := barrier_new, wm_next_batch := b, wm_flight := Some ?f,
        wm_last_flush_started_at := Some now \<rparr>" "batch_get b = batch_get (wm_next_batch m) + 1"
      and out: "sent [out] = []"
      using dr False by (auto simp: drained_def)
    let ?m = "m \<lparr> wm_pending := barrier_new, wm_next_batch := b, wm_flight := Some ?f,
        wm_last_flush_started_at := Some now \<rparr>"
    have "pending_ok ?m"
      by (simp add: pending_ok_def pending_ops_def barrier_new_def flight_base_simps at_batch_def
          replay_def barrier_ok_new [unfolded barrier_new_def])
    moreover have "coordinates_ok ?m"
      using core flight False b(2) by (simp add: writer_parts replay_cut_def)
    moreover have "forests_ok ?m"
      using core admitted by (simp add: writer_parts flight_base_simps)
    moreover have "checkpoint_ok ?m" "claim_ok ?m"
      using core checkpoint_ok_cong [of ?m m] claim_ok_cong [of ?m m] by (simp_all add: writer_core_def)
    ultimately have "writer_core ?m" by (simp add: writer_core_def)
    moreover have "outstanding ?m = outstanding m"
      using flight by (simp add: outstanding_def barrier_new_def)
    moreover have "barrier_commands (wm_pending ?m) = []"
      by (simp add: barrier_new_def)
    ultimately show ?thesis
      using out b(1) by simp
  qed
  then show "writer_core m'" "barrier_commands (wm_pending m') = []"
    "replies_of (sent [out]) + outstanding m' = outstanding m"
    by blast+
qed

lemma record_wal_durable_ok:
  assumes core: "writer_core m" and flight: "wm_flight m = Some f"
  shows "record_wal_durable m (flight_batch f) =
       Some (m \<lparr> wm_flight := None, wm_durable := flight_forest f, wm_durable_batch := flight_batch f \<rparr>,
             [Action (PublishView (forest_of (flight_forest f))),
              Action (SendReplies (flight_replies f))])"
    and "writer_core (m \<lparr> wm_flight := None, wm_durable := flight_forest f,
       wm_durable_batch := flight_batch f \<rparr>)"
proof -
  let ?m = "m \<lparr> wm_flight := None, wm_durable := flight_forest f, wm_durable_batch := flight_batch f \<rparr>"
  have base: "flight_base m = flight_forest f" "flight_base ?m = flight_forest f"
    using flight by (simp_all add: flight_base_simps)
  have coords: "batch_get (flight_batch f) = batch_get (wm_durable_batch m) + 1"
    using core flight by (simp add: writer_parts)
  show "writer_core ?m"
  proof -
    have "forests_ok ?m" "pending_ok ?m" "claim_ok ?m"
      using core base by (simp_all add: writer_parts pending_ops_def replay_cut_def)
    moreover have "coordinates_ok ?m"
      using core flight by (auto simp: writer_parts replay_cut_def)
    moreover have "a \<le> flight_batch f" if "a \<le> wm_durable_batch m" for a
      using that coords by (simp add: batch.get_le)
    then have "checkpoint_ok ?m"
      using core by (auto simp: writer_parts ticket_ok_def prepared_ok_def replay_cut_def)
    ultimately show ?thesis by (simp add: writer_core_def)
  qed
  have "wm_admitted m = flight_forest f" if "barrier_commands (wm_pending m) = []"
    using core that base by (simp add: writer_parts pending_ops_def)
  with flight show "record_wal_durable m (flight_batch f) = Some (?m,
      [Action (PublishView (forest_of (flight_forest f))), Action (SendReplies (flight_replies f))])"
    by (auto simp: record_wal_durable_def Let_def barrier_is_empty_def)
qed

section \<open>Checkpoints\<close>

definition checkpoint_frame :: "WriterMachine \<Rightarrow> WriterMachine \<Rightarrow> bool" where
  "checkpoint_frame m m' \<longleftrightarrow>
     m' = m \<lparr> wm_checkpoint_attempt := wm_checkpoint_attempt m',
             wm_last_checkpoint_attempted_cut := wm_last_checkpoint_attempted_cut m',
             wm_retry_checkpoint_at := wm_retry_checkpoint_at m', wm_checkpoint := wm_checkpoint m' \<rparr>"

lemma checkpoint_frame_fields:
  assumes "checkpoint_frame m m'"
  shows "wm_flight m' = wm_flight m" "wm_durable m' = wm_durable m" "wm_seal m' = wm_seal m"
    "wm_durable_batch m' = wm_durable_batch m" "wm_next_batch m' = wm_next_batch m"
    "wm_pending m' = wm_pending m" "wm_admitted m' = wm_admitted m"
    "wm_ingress_open m' = wm_ingress_open m" "wm_claim m' = wm_claim m" "wm_base m' = wm_base m"
    "wm_started m' = wm_started m" "wm_collector m' = wm_collector m"
  by (subst assms [unfolded checkpoint_frame_def], simp)+

lemma take_checkpoint_ok:
  assumes core: "writer_core m" and counter: "wm_checkpoint_attempt m < u64_max"
  shows "\<exists>m' input. take_checkpoint m = Some (m', input) \<and> writer_core m'
     \<and> checkpoint_frame m m'
     \<and> wm_checkpoint_attempt m' \<le> wm_checkpoint_attempt m + 1
     \<and> (\<forall>i. input = Some i \<longrightarrow> wm_checkpoint m = None
          \<and> input_source i = wm_seal m \<and> input_base i = wm_base m
          \<and> input_snapshot i = forest_of (wm_durable m)
          \<and> ticket_cut (input_ticket i) = wm_durable_batch m
          \<and> wm_checkpoint m' = Some (Preparing (input_ticket i))
          \<and> batch_get (wm_durable_batch m)
              \<ge> cut_get (replay_cut m) + WAL_SUFFIX_CHECKPOINT_SPAN_TRIGGER)"
proof -
  let ?span = "batch_get (wm_durable_batch m) - cut_get (replay_cut m)"
  let ?ticket = "CheckpointTicket (seal_generation (wm_seal m)) (wm_durable_batch m)
     (AttemptId (claim_generation (wm_claim m)) (wm_checkpoint_attempt m))"
  let ?m = "m \<lparr> wm_checkpoint_attempt := Suc (wm_checkpoint_attempt m),
     wm_last_checkpoint_attempted_cut := Some (wm_durable_batch m),
     wm_retry_checkpoint_at := None, wm_checkpoint := Some (Preparing ?ticket) \<rparr>"
  have le: "cut_get (replay_cut m) \<le> batch_get (wm_durable_batch m)"
    using core by (simp add: writer_parts)
  then have span: "span_through (replay_cut m) (wm_durable_batch m) = Some ?span"
    by (simp add: span_through_cut)
  obtain unattempted where head: "head_is_unattempted m = Some unattempted"
    using core unfolding writer_core_def checkpoint_ok_def
    by (cases "wm_last_checkpoint_attempted_cut m") (simp_all add: head_is_unattempted_def)
  show ?thesis
  proof (cases "wm_checkpoint m \<noteq> None \<or> ?span < WAL_SUFFIX_CHECKPOINT_SPAN_TRIGGER
      \<or> \<not> unattempted \<and> wm_retry_checkpoint_at m \<noteq> Some (wm_durable_batch m)")
    case True
    with core span head have "take_checkpoint m = Some (m, None)"
      by (auto simp: take_checkpoint_def replay_cut_def)
    with core show ?thesis by (simp add: checkpoint_frame_def)
  next
    case False
    have trigger: "cut_get (replay_cut m) + WAL_SUFFIX_CHECKPOINT_SPAN_TRIGGER
        \<le> batch_get (wm_durable_batch m)"
      using False le by auto
    then have less: "cut_get (replay_cut m) < batch_get (wm_durable_batch m)"
      by (simp add: bound_defs)
    then have advance: "case replay_batch (seal_replay (wm_seal m)) of
        None \<Rightarrow> True | Some wcut \<Rightarrow> wm_durable_batch m > wcut"
      by (cases "replay_batch (seal_replay (wm_seal m))") (simp_all add: replay_cut_def batch.get_less)
    have "ticket_ok ?m ?ticket"
      using less by (simp add: ticket_ok_def replay_cut_def)
    then have "checkpoint_ok ?m"
      by (simp add: checkpoint_ok_def)
    then have "writer_core ?m"
      using core writer_congs [of ?m m] by (simp add: writer_core_def)
    moreover have "take_checkpoint m = Some (?m, Some
        \<lparr> input_ticket = ?ticket, input_source = wm_seal m, input_base = wm_base m,
          input_snapshot = forest_of (wm_durable m) \<rparr>)"
      using False span head advance counter
      by (simp add: take_checkpoint_def checkpoint_input_new_def Let_def replay_cut_def checked_add_def)
    ultimately show ?thesis
      using False trigger by (simp add: checkpoint_frame_def)
  qed
qed

lemma checkpoint_cleared:
  assumes "writer_core m"
  shows "writer_core (m \<lparr> wm_checkpoint := None \<rparr>)"
proof -
  let ?m = "m \<lparr> wm_checkpoint := None \<rparr>"
  have "checkpoint_ok ?m"
    using assms by (simp add: writer_parts)
  then show ?thesis
    using assms writer_congs [of ?m m] by (simp add: writer_core_def)
qed

lemma prepared_checkpoint_new_Some:
  "prepared_checkpoint_new t source succ snap cand = Some p \<longleftrightarrow>
     p = \<lparr> prepared_source = source, prepared_successor = succ, prepared_snapshot = snap,
           prepared_candidate = cand \<rparr>
     \<and> ticket_source t = seal_generation source \<and> seal_partition source = seal_partition succ
     \<and> seal_generation_successor (seal_generation source) = Inr (seal_generation succ)
     \<and> seal_replay succ = ReplayThrough (ticket_cut t) (owner_from (attempt_owner_claim (ticket_attempt t)))
     \<and> cut_get (replay_batch (seal_replay source)) < batch_get (ticket_cut t)
     \<and> authority_seal cand = succ"
proof -
  have "(case r of None \<Rightarrow> True | Some source_cut \<Rightarrow> source_cut < b) \<longleftrightarrow> cut_get r < batch_get b"
    for r :: "BatchId option" and b
    using batch.get_pos [of b] by (cases r) (simp_all add: batch.get_less)
  then show ?thesis
    by (auto simp: prepared_checkpoint_new_def split: if_splits)
qed

lemma prepared_ok_successor:
  assumes "prepared_ok m t p"
  shows "seal_replay (prepared_successor p)
       = ReplayThrough (ticket_cut t) (owner_from (attempt_owner_claim (ticket_attempt t)))"
    "seal_partition (prepared_successor p) = seal_partition (wm_seal m)"
    "seal_generation (wm_seal m) < seal_generation (prepared_successor p)"
    "authority_seal (prepared_candidate p) = prepared_successor p"
    "prepared_source p = wm_seal m" "seal_valid (prepared_successor p)"
    "forest_inv (prepared_snapshot p)"
  by (use assms [unfolded prepared_ok_def prepared_checkpoint_new_Some] in
      \<open>iprover intro: sym seal_gen.successor_greater\<close>)+

lemma installed_core:
  assumes core: "writer_core m" and marker: "wm_checkpoint m = Some (Publishing t p)"
  shows "writer_core (m \<lparr> wm_checkpoint := None, wm_seal := prepared_successor p,
     wm_base := prepared_snapshot p \<rparr>)"
proof -
  let ?m = "m \<lparr> wm_checkpoint := None, wm_seal := prepared_successor p, wm_base := prepared_snapshot p \<rparr>"
  have prepared: "prepared_ok m t p" and ticket: "ticket_ok m t"
    using core marker by (auto simp: writer_parts)
  note succ = prepared_ok_successor [OF prepared]
  have cut: "replay_cut ?m = Some (ticket_cut t)"
    by (simp add: replay_cut_def succ(1) replay_batch_def)
  have grow: "cut_get (replay_cut m) \<le> batch_get (ticket_cut t)"
      "batch_get (ticket_cut t) \<le> batch_get (wm_durable_batch m)"
    using ticket by (simp_all add: ticket_ok_def batch.get_le)
  have base: "flight_base ?m = flight_base m" by (rule flight_base_cong) simp_all
  have "forests_ok ?m"
    using core succ(7) base by (simp add: writer_parts)
  moreover have "pending_ok ?m"
    using core grow base unfolding writer_core_def pending_ok_def cut
    by (simp add: pending_ops_def) linarith
  moreover have "coordinates_ok ?m"
    using core grow unfolding writer_core_def coordinates_ok_def cut
    by (cases "wm_flight m") simp_all
  moreover have "checkpoint_ok ?m"
    using core by (simp add: writer_parts)
  moreover have "claim_ok ?m"
    using core succ(3,6) by (auto simp: writer_parts)
  ultimately show ?thesis by (simp add: writer_core_def)
qed

section \<open>Scheduling\<close>

text \<open>The three outcomes of the flush half of \<open>schedule\<close>.\<close>

definition flushed ::
  "wal_encoder \<Rightarrow> WriterMachine \<Rightarrow> instant \<Rightarrow> WriterMachine \<Rightarrow> WriterOutput list \<Rightarrow> bool" where
  "flushed encode_wal m now m' outs \<longleftrightarrow>
     outs = [] \<and> m' = m
     \<or> (\<exists>deadline. outs = [Action (ArmFlush deadline)] \<and> m' = m \<lparr> wm_flush_armed := True \<rparr>)
     \<or> (\<exists>out. outs = [out] \<and> wm_flight m = None \<and> drained encode_wal m now m' out)"

lemma flush_due_ok:
  assumes "writer_core m"
  shows "\<exists>due. flush_due m now = Some due
     \<and> (\<not> due \<longrightarrow> pending_ops m \<noteq> [] \<and> (\<exists>t. wm_last_flush_started_at m = Some t))"
proof -
  have barrier: "barrier_ok (wm_pending m)"
    using assms by (simp add: writer_parts)
  show ?thesis
    using barrier_has_facts_iff [OF barrier]
    by (auto simp: flush_due_def hard_full_ok [OF barrier] barrier_bytes [OF barrier]
        pending_has_facts_def pending_ops_def spacing_satisfied_def split: option.splits)
qed

lemma schedule_flush_ok:
  assumes core: "writer_core m" and enc: "wal_encoder_ok encode_wal"
  shows "\<exists>m' outs. schedule_flush encode_wal m now = Some (m', outs)
     \<and> flushed encode_wal m now m' outs \<and> writer_core m' \<and> barrier_settled m'"
proof (cases "wm_flight m = None \<and> barrier_commands (wm_pending m) \<noteq> []")
  case False
  with core show ?thesis
    by (auto simp: schedule_flush_def barrier_is_empty_def flushed_def barrier_settled_def)
next
  case True
  obtain due where due: "flush_due m now = Some due"
      "\<not> due \<longrightarrow> pending_ops m \<noteq> [] \<and> (\<exists>t. wm_last_flush_started_at m = Some t)"
    using flush_due_ok [OF core] by blast
  show ?thesis
  proof (cases due)
    case True
    with \<open>wm_flight m = None \<and> _\<close> obtain m' out where dr:
      "drain_pending encode_wal m now = Some (m', out)" "drained encode_wal m now m' out"
      using drain_pending_drained [OF core enc] by blast
    with True \<open>wm_flight m = None \<and> _\<close> due(1) drained_core [OF core _ dr(2)] show ?thesis
      by (auto simp: schedule_flush_def barrier_is_empty_def flushed_def barrier_settled_def)
  next
    case False
    with due(2) obtain t where t: "wm_last_flush_started_at m = Some t" "pending_ops m \<noteq> []"
      by blast
    let ?m = "m \<lparr> wm_flush_armed := True \<rparr>"
    have "writer_core ?m"
      using core by (subst writer_core_cong [of ?m m]) simp_all
    moreover have "barrier_settled m" "barrier_settled ?m"
      using t(2) by (simp_all add: barrier_settled_def pending_ops_def)
    ultimately show ?thesis
      using core False \<open>wm_flight m = None \<and> _\<close> due(1) t(1)
      by (cases "wm_flush_armed m")
        (simp_all add: schedule_flush_def barrier_is_empty_def flushed_def)
  qed
qed

lemma flushed_frame:
  assumes "flushed encode_wal m now m' outs"
  shows "wm_ingress_open m' = wm_ingress_open m" "wm_checkpoint m' = wm_checkpoint m"
    "wm_checkpoint_attempt m' = wm_checkpoint_attempt m" "wm_seal m' = wm_seal m"
    "wm_durable m' = wm_durable m" "wm_durable_batch m' = wm_durable_batch m"
    "wm_claim m' = wm_claim m" "wm_started m' = wm_started m" "wm_base m' = wm_base m"
    "wm_collector m' = wm_collector m"
  using assms unfolding flushed_def drained_def
  by (auto split: if_splits)

text \<open>What one call of \<open>schedule\<close> does: a flush, then perhaps a checkpoint input or the shutdown.\<close>

definition scheduled ::
  "wal_encoder \<Rightarrow> WriterMachine \<Rightarrow> instant \<Rightarrow> WriterMachine \<Rightarrow> WriterMachine
     \<Rightarrow> WriterOutput list \<Rightarrow> WriterOutput list \<Rightarrow> WriterExit option \<Rightarrow> bool" where
  "scheduled encode_wal m now m1 m' flush planned exit \<longleftrightarrow>
     flushed encode_wal m now m1 flush \<and> checkpoint_frame m1 m' \<and> writer_inv m'
     \<and> wm_checkpoint_attempt m' \<le> wm_checkpoint_attempt m + 1
     \<and> (planned = [] \<or> (\<exists>i. planned = [Effect (PrepareCheckpoint i)]
          \<and> input_source i = wm_seal m \<and> input_base i = wm_base m
          \<and> input_snapshot i = forest_of (wm_durable m)
          \<and> ticket_cut (input_ticket i) = wm_durable_batch m
          \<and> wm_checkpoint m' = Some (Preparing (input_ticket i))))
     \<and> (exit = None \<or> exit = Some Shutdown \<and> planned = [] \<and> m' = m1 \<and> \<not> wm_ingress_open m
          \<and> wm_flight m' = None \<and> wm_checkpoint m = None \<and> barrier_commands (wm_pending m') = []
          \<and> wm_admitted m' = wm_durable m')"

lemma schedule_ok:
  assumes core: "writer_core m" and enc: "wal_encoder_ok encode_wal"
    and counter: "wm_checkpoint_attempt m < u64_max"
  shows "\<exists>m1 m' flush planned exit. schedule encode_wal m now = Some (m', flush @ planned, exit)
     \<and> scheduled encode_wal m now m1 m' flush planned exit"
proof -
  obtain m1 flush where m1: "schedule_flush encode_wal m now = Some (m1, flush)"
      "flushed encode_wal m now m1 flush" "writer_core m1" "barrier_settled m1"
    using schedule_flush_ok [OF core enc] by blast
  note frame = flushed_frame [OF m1(2)]
  show ?thesis
  proof (cases "wm_ingress_open m")
    case True
    obtain m' input where m': "take_checkpoint m1 = Some (m', input)" "writer_core m'"
        "checkpoint_frame m1 m'" "wm_checkpoint_attempt m' \<le> wm_checkpoint_attempt m1 + 1"
        "\<And>i. input = Some i \<Longrightarrow> input_source i = wm_seal m1 \<and> input_base i = wm_base m1
          \<and> input_snapshot i = forest_of (wm_durable m1)
          \<and> ticket_cut (input_ticket i) = wm_durable_batch m1
          \<and> wm_checkpoint m' = Some (Preparing (input_ticket i))"
      using take_checkpoint_ok [OF m1(3)] counter frame(3) by metis
    have "barrier_settled m'"
      using m1(4) checkpoint_frame_fields [OF m'(3)] by (simp add: barrier_settled_def pending_ops_def)
    then have "scheduled encode_wal m now m1 m' flush
        (case input of None \<Rightarrow> [] | Some i \<Rightarrow> [Effect (PrepareCheckpoint i)]) None"
      using m1(2) m'(2-5) frame by (cases input) (simp_all add: scheduled_def writer_inv_def)
    moreover have "schedule encode_wal m now = Some (m', flush
        @ (case input of None \<Rightarrow> [] | Some i \<Rightarrow> [Effect (PrepareCheckpoint i)]), None)"
      using m1(1) m'(1) frame(1) True by (simp add: schedule_def)
    ultimately show ?thesis by blast
  next
    case False
    have inv: "writer_inv m1" and frame1: "checkpoint_frame m1 m1"
      using m1(3,4) by (simp_all add: writer_inv_def checkpoint_frame_def)
    show ?thesis
    proof (cases "wm_flight m1 = None \<and> wm_checkpoint m1 = None \<and> barrier_commands (wm_pending m1) = []")
      case True
      then have "wm_admitted m1 = wm_durable m1"
        using m1(3) by (simp add: writer_parts pending_ops_def flight_base_simps)
      moreover from this True False m1(1) frame(1)
      have "schedule encode_wal m now = Some (m1, flush @ [], Some Shutdown)"
        by (simp add: schedule_def assert_quiescent_def shares_roots_with_def barrier_is_empty_def)
      moreover have "scheduled encode_wal m now m1 m1 flush [] (Some Shutdown)"
        using m1(2) inv frame1 True False frame(2,3) calculation(1) by (simp add: scheduled_def)
      ultimately show ?thesis by blast
    next
      case running: False
      with False m1(1) frame(1) have "schedule encode_wal m now = Some (m1, flush @ [], None)"
        by (auto simp: schedule_def barrier_is_empty_def)
      moreover have "scheduled encode_wal m now m1 m1 flush [] None"
        using m1(2) inv frame1 frame(3) by (simp add: scheduled_def)
      ultimately show ?thesis by blast
    qed
  qed
qed

section \<open>One event\<close>

definition arrivals :: "WriterEvent \<Rightarrow> reply multiset" where
  "arrivals e = (case e of Command c \<Rightarrow> {#command_reply c#} | _ \<Rightarrow> {#})"

definition wal_durable_event :: "WriterEvent \<Rightarrow> bool" where
  "wal_durable_event e \<longleftrightarrow> (\<exists>b. e = WalEstablished b (Inr WalDurable))"

text \<open>The durable side after an event: the forest in flight becomes durable, or nothing changes.\<close>

definition durable_step :: "WriterMachine \<Rightarrow> WriterEvent \<Rightarrow> WriterMachine \<Rightarrow> bool" where
  "durable_step m e m' \<longleftrightarrow>
     (if wal_durable_event e
      then \<exists>f. wm_flight m = Some f \<and> wm_flight m' = None \<and> wm_durable m' = flight_forest f
             \<and> wm_durable_batch m' = flight_batch f
      else wm_flight m' = wm_flight m \<and> wm_durable m' = wm_durable m
             \<and> wm_durable_batch m' = wm_durable_batch m)"

definition applied ::
  "WriterMachine \<Rightarrow> WriterEvent \<Rightarrow> WriterMachine \<Rightarrow> WriterOutput list \<Rightarrow> WriterExit option \<Rightarrow> bool"
where
  "applied m e m' outs exit \<longleftrightarrow>
     wm_checkpoint_attempt m' = wm_checkpoint_attempt m
     \<and> wm_claim m' = wm_claim m \<and> wm_started m' = wm_started m
     \<and> seal_partition (wm_seal m') = seal_partition (wm_seal m)
     \<and> length outs \<le> 2
     \<and> (list_all is_action outs \<or> wm_ingress_open m' \<or> wm_checkpoint m' \<noteq> None)
     \<and> (\<forall>v. Action (PublishView v) \<in> set outs \<longrightarrow> v = forest_of (wm_durable m'))
     \<and> (\<forall>w. Effect (EstablishWal w) \<notin> set outs)
     \<and> (case exit of
          Some x \<Rightarrow> outs = [] \<and> x \<noteq> Shutdown
        | None \<Rightarrow> writer_core m' \<and> durable_step m e m'
            \<and> replies_of (sent outs) + outstanding m' = arrivals e + outstanding m)"

text \<open>Events that leave the flight, the barrier and the durable side alone.\<close>

lemma applied_frame:
  assumes "writer_core m'" "\<not> wal_durable_event e" "arrivals e = {#}"
    and "wm_flight m' = wm_flight m" "wm_durable m' = wm_durable m" "wm_pending m' = wm_pending m"
    and "wm_durable_batch m' = wm_durable_batch m"
    and "wm_checkpoint_attempt m' = wm_checkpoint_attempt m" "wm_claim m' = wm_claim m"
    and "wm_started m' = wm_started m" "seal_partition (wm_seal m') = seal_partition (wm_seal m)"
    and "length outs \<le> 2" "sent outs = []"
    and "list_all is_action outs \<or> wm_ingress_open m' \<or> wm_checkpoint m' \<noteq> None"
    and "\<forall>v. Action (PublishView v) \<in> set outs \<longrightarrow> v = forest_of (wm_durable m')"
    and "\<forall>w. Effect (EstablishWal w) \<notin> set outs"
  shows "applied m e m' outs None"
  using assms by (simp add: applied_def durable_step_def outstanding_def)

lemma wal_established_applied:
  assumes core: "writer_core m" and flight: "wm_flight m = Some f"
  shows "\<exists>m' outs exit. wal_established m (flight_batch f) result = Some (m', outs, exit)
     \<and> applied m (WalEstablished (flight_batch f) result) m' outs exit"
proof (cases "result = Inr WalDurable")
  case True
  note durable = record_wal_durable_ok [OF core flight]
  let ?m = "m \<lparr> wm_flight := None, wm_durable := flight_forest f, wm_durable_batch := flight_batch f \<rparr>"
  have "applied m (WalEstablished (flight_batch f) result) ?m
      [Action (PublishView (forest_of (flight_forest f))), Action (SendReplies (flight_replies f))] None"
    using True durable(2) flight
    by (simp add: applied_def durable_step_def wal_durable_event_def outstanding_def arrivals_def
        is_action_def)
  with True durable(1) show ?thesis by (simp add: wal_established_def)
next
  case False
  let ?m = "m \<lparr> wm_flight := None \<rparr>"
  have "applied m (WalEstablished (flight_batch f) result) ?m [] (Some x)" if "x \<noteq> Shutdown" for x
    using that by (simp add: applied_def)
  moreover have "discard_wal_flight m (flight_batch f) = Some ?m"
    using flight by (simp add: discard_wal_flight_def)
  ultimately show ?thesis
    using False
    by (auto simp: wal_established_def split: sum.splits WalEstablishment.splits TypedStoreError.splits)
qed

lemma complete_preparation_applied:
  assumes core: "writer_core m" and event: "event_ok m (CheckpointPrepared t outcome)"
  shows "\<exists>m' outs exit. complete_preparation m t outcome = Some (m', outs, exit)
     \<and> applied m (CheckpointPrepared t outcome) m' outs exit"
proof -
  let ?e = "CheckpointPrepared t outcome" and ?m = "m \<lparr> wm_checkpoint := None \<rparr>"
  have quiet: "\<not> wal_durable_event ?e" "arrivals ?e = {#}"
    by (simp_all add: wal_durable_event_def arrivals_def)
  have cleared: "applied m ?e ?m [] None"
    by (rule applied_frame [OF checkpoint_cleared [OF core] quiet]) simp_all
  show ?thesis
  proof (cases "wm_checkpoint m = Some (Cancelling t)")
    case True
    with cleared show ?thesis by (simp add: complete_preparation_def)
  next
    case False
    with event have marker: "wm_checkpoint m = Some (Preparing t)"
        and prepared: "\<And>p. outcome = Prepared p \<Longrightarrow> prepared_ok m t p"
      by (auto simp: event_ok_def)
    show ?thesis
    proof (cases outcome)
      case (Prepared p)
      let ?p = "m \<lparr> wm_checkpoint := Some (Publishing t p) \<rparr>"
      have "checkpoint_ok ?p"
        using core marker prepared [OF Prepared]
        by (auto simp: writer_parts ticket_ok_def prepared_ok_def replay_cut_def)
      then have "writer_core ?p"
        using core writer_congs [of ?p m] by (simp add: writer_core_def)
      then have "applied m ?e ?p [Effect (PublishAuthority t (prepared_candidate p))] None"
        by (rule applied_frame [OF _ quiet]) simp_all
      with marker Prepared show ?thesis by (simp add: complete_preparation_def)
    next
      case Abandoned
      with marker cleared show ?thesis by (simp add: complete_preparation_def)
    next
      case (PreparationContradiction detail)
      moreover have "applied m ?e ?m [] (Some (ExitContradiction (ticket_cut t) detail))"
        by (simp add: applied_def)
      ultimately show ?thesis
        using marker by (simp add: complete_preparation_def)
    qed
  qed
qed

lemma complete_publication_applied:
  assumes core: "writer_core m" and event: "event_ok m (SealPublished t result)"
  shows "\<exists>m' outs exit. complete_publication m t result = Some (m', outs, exit)
     \<and> applied m (SealPublished t result) m' outs exit"
proof -
  let ?e = "SealPublished t result"
  have quiet: "\<not> wal_durable_event ?e" "arrivals ?e = {#}"
    by (simp_all add: wal_durable_event_def arrivals_def)
  obtain p where marker: "wm_checkpoint m = Some (Publishing t p)"
    using event by (auto simp: event_ok_def split: option.splits CheckpointMarker.splits)
  show ?thesis
  proof (cases "result = Inr Authored")
    case True
    have prepared: "prepared_ok m t p"
      using core marker by (auto simp: writer_parts)
    note succ = prepared_ok_successor [OF prepared]
    let ?m = "m \<lparr> wm_checkpoint := None, wm_seal := prepared_successor p, wm_base := prepared_snapshot p \<rparr>"
    let ?c = "\<lparr> collection_cut = ticket_cut t, collection_source = wm_seal m,
       collection_successor = prepared_successor p \<rparr>"
    let ?k = "?m \<lparr> wm_collector := Some (ticket_cut t) \<rparr>"
    let ?view = "Action (PublishView (forest_of (wm_durable m)))"
    have core': "writer_core ?m" by (rule installed_core [OF core marker])
    then have "writer_core ?k"
      by (subst writer_core_cong [of ?k ?m]) simp_all
    then have "applied m ?e ?k [?view, Effect (Collect ?c)] None" if "wm_ingress_open m"
      using that succ(2) by (intro applied_frame [OF _ quiet]) simp_all
    moreover have "applied m ?e ?m [?view] None"
      using succ(2) by (intro applied_frame [OF core' quiet]) (simp_all add: is_action_def)
    ultimately show ?thesis
      using True marker succ(1,5)
      by (simp add: complete_publication_def collection_from_authored_def install_prepared_def Let_def
          replay_batch_def)
  next
    case False
    have "applied m ?e (m \<lparr> wm_checkpoint := None \<rparr>) [] (Some x)" if "x \<noteq> Shutdown" for x
      using that by (simp add: applied_def)
    with False marker show ?thesis
      by (auto simp: complete_publication_def Let_def
          split: sum.splits SealPublication.splits TypedStoreError.splits)
  qed
qed

lemma command_applied:
  assumes inv: "writer_inv m" and admission: "admission_open m = Some True"
  shows "\<exists>m' outs exit. apply_event m (Command envelope) = Some (m', outs, exit)
     \<and> applied m (Command envelope) m' outs exit"
proof -
  have "\<not> barrier_full (wm_pending m)"
    using inv admission admission_open_ok(2) by (auto simp: writer_inv_def)
  from admit_ok [OF inv this, of envelope] obtain m' out where m':
    "admit m envelope = Some (m', out)" "writer_inv m'" "admission_frame m m'"
    "outstanding m' + replies_of (case out of None \<Rightarrow> [] | Some c \<Rightarrow> [c])
      = add_mset (command_reply envelope) (outstanding m)"
    by blast
  note frame = admission_frame_fields [OF m'(3)]
  have "applied m (Command envelope) m'
      (case out of None \<Rightarrow> [] | Some c \<Rightarrow> [Action (SendReplies [c])]) None"
    using m'(2,4) frame
    by (cases out)
      (simp_all add: applied_def writer_inv_def durable_step_def wal_durable_event_def arrivals_def
        is_action_def)
  with m'(1) admission show ?thesis by (simp add: apply_event_def)
qed

lemma close_ingress_applied:
  assumes core: "writer_core m" and ingress: "wm_ingress_open m"
  shows "\<exists>m' outs exit. apply_event m IngressClosed = Some (m', outs, exit)
     \<and> applied m IngressClosed m' outs exit"
proof -
  have quiet: "\<not> wal_durable_event IngressClosed" "arrivals IngressClosed = {#}"
    by (simp_all add: wal_durable_event_def arrivals_def)
  let ?m = "m \<lparr> wm_ingress_open := False \<rparr>"
  have closed: "writer_core ?m"
    using core by (subst writer_core_cong [of ?m m]) simp_all
  show ?thesis
  proof (cases "\<exists>t. wm_checkpoint m = Some (Preparing t)")
    case True
    then obtain t where t: "wm_checkpoint m = Some (Preparing t)" by blast
    let ?c = "?m \<lparr> wm_checkpoint := Some (Cancelling t) \<rparr>"
    have "checkpoint_ok ?c"
      using core t by (auto simp: writer_parts ticket_ok_def replay_cut_def)
    then have "writer_core ?c"
      using core writer_congs [of ?c m] by (simp add: writer_core_def)
    then have "applied m IngressClosed ?c [Action (CancelCheckpointPreparation t)] None"
      by (rule applied_frame [OF _ quiet]) (simp_all add: is_action_def)
    with t ingress show ?thesis by (simp add: apply_event_def close_ingress_def Let_def)
  next
    case False
    moreover have "applied m IngressClosed ?m [] None"
      by (rule applied_frame [OF closed quiet]) simp_all
    ultimately show ?thesis
      using ingress
      by (auto simp: apply_event_def close_ingress_def Let_def split: option.splits CheckpointMarker.splits)
  qed
qed

lemma apply_event_applied:
  assumes inv: "writer_inv m" and event: "event_ok m e"
  shows "\<exists>m' outs exit. apply_event m e = Some (m', outs, exit) \<and> applied m e m' outs exit"
proof -
  have core: "writer_core m" using inv by (simp add: writer_inv_def)
  note quiet = wal_durable_event_def arrivals_def
  show ?thesis
  proof (cases e)
    case (Command c)
    with inv event command_applied show ?thesis by (auto simp: event_ok_def)
  next
    case IngressClosed
    with core event close_ingress_applied show ?thesis by (auto simp: event_ok_def)
  next
    case (WalEstablished b r)
    with event obtain f where "wm_flight m = Some f" "flight_batch f = b"
      by (auto simp: event_ok_def)
    with WalEstablished core wal_established_applied show ?thesis
      by (auto simp: apply_event_def)
  next
    case (CheckpointPrepared t outcome)
    with core event complete_preparation_applied show ?thesis by (simp add: apply_event_def)
  next
    case (SealPublished t r)
    with core event complete_publication_applied show ?thesis by (simp add: apply_event_def)
  next
    case Started
    then have "applied m e m [] None" using core by (intro applied_frame) (simp_all add: quiet)
    with Started show ?thesis by (simp add: apply_event_def)
  next
    case FlushDue
    let ?m = "m \<lparr> wm_flush_armed := False \<rparr>"
    have "writer_core ?m"
      using core by (subst writer_core_cong [of ?m m]) simp_all
    then have "applied m e ?m [] None" using FlushDue by (intro applied_frame) (simp_all add: quiet)
    with FlushDue event show ?thesis by (simp add: apply_event_def event_ok_def)
  next
    case (CollectFinished c)
    let ?m = "m \<lparr> wm_collector := None \<rparr>"
    have "writer_core ?m"
      using core by (subst writer_core_cong [of ?m m]) simp_all
    then have "applied m e ?m [] None" using CollectFinished by (intro applied_frame) (simp_all add: quiet)
    with CollectFinished event show ?thesis by (simp add: apply_event_def event_ok_def)
  next
    case (CheckpointPreparationCancelled t)
    then have "applied m e (m \<lparr> wm_checkpoint := None \<rparr>) [] None"
      using checkpoint_cleared [OF core] by (intro applied_frame) (simp_all add: quiet)
    with CheckpointPreparationCancelled event show ?thesis
      by (simp add: apply_event_def event_ok_def assert_checkpoint_cancelling_def)
  qed
qed

end
