(* ===== verification/Writer_Properties.thy ===== *)
theory Writer_Properties
  imports Writer_Invariant
begin

text \<open>
  The step properties of the writer machine of \<open>strom-storage-protocol/src/writer.rs\<close> and, by
  rule induction over its runs, the relation between the RUN objects that became durable, the
  acknowledged commands and the published views.
\<close>

section \<open>One step\<close>

text \<open>An exit at which the machine still holds what it was asked to do.\<close>

definition orderly :: "WriterExit option \<Rightarrow> bool" where
  "orderly exit \<longleftrightarrow> exit = None \<or> exit = Some Shutdown"

text \<open>The flight after a step: the one issued in it, or what the event left of the previous one.\<close>

definition flight_step :: "WriterMachine \<Rightarrow> WriterEvent \<Rightarrow> WriterMachine \<Rightarrow> WriterOutput list \<Rightarrow> bool"
where
  "flight_step m e m' outs \<longleftrightarrow>
     (if \<exists>w. Effect (EstablishWal w) \<in> set outs
      then (wm_flight m = None \<or> wal_durable_event e) \<and> wm_flight m' \<noteq> None
      else wm_flight m' = (if wal_durable_event e then None else wm_flight m))"

definition stepped ::
  "wal_encoder \<Rightarrow> WriterMachine \<Rightarrow> WriterEvent \<Rightarrow> WriterMachine \<Rightarrow> WriterOutput list \<Rightarrow> WriterExit option \<Rightarrow> bool"
where
  "stepped encode_wal m e m' outs exit \<longleftrightarrow>
     length outs \<le> WRITER_OUTPUTS_PER_STEP_MAX
     \<and> (exit \<noteq> None \<longrightarrow> list_all is_action outs)
     \<and> wm_started m' \<and> wm_claim m' = wm_claim m
     \<and> seal_partition (wm_seal m') = seal_partition (wm_seal m)
     \<and> wm_checkpoint_attempt m' \<le> wm_checkpoint_attempt m + 1
     \<and> (\<forall>v. Action (PublishView v) \<in> set outs \<longrightarrow> v = forest_of (wm_durable m'))
     \<and> (\<forall>w. Effect (EstablishWal w) \<in> set outs \<longrightarrow> (\<exists>facts. run_issued encode_wal m' facts w))
     \<and> (orderly exit \<longrightarrow>
          writer_inv m' \<and> flight_step m e m' outs
          \<and> replies_of (sent outs) + outstanding m' = arrivals e + outstanding m
          \<and> (if wal_durable_event e
             then \<exists>f. wm_flight m = Some f \<and> wm_durable m' = flight_forest f
                    \<and> wm_durable_batch m' = flight_batch f
             else wm_durable m' = wm_durable m \<and> wm_durable_batch m' = wm_durable_batch m))
     \<and> (exit = Some Shutdown \<longrightarrow> \<not> wm_ingress_open m' \<and> outstanding m' = {#} \<and> wm_checkpoint m' = None
          \<and> wm_admitted m' = wm_durable m')"

lemma drained_facts:
  assumes "drained encode_wal m now m' out" "wm_flight m = None"
  shows "replies_of (sent [out]) + outstanding m' = outstanding m"
    and "out = Effect (EstablishWal w) \<Longrightarrow> (\<exists>facts. run_issued encode_wal m' facts w) \<and> wm_flight m' \<noteq> None"
    and "\<forall>w. Effect (EstablishWal w) \<noteq> out \<Longrightarrow> wm_flight m' = wm_flight m \<and> is_action out"
    and "out \<noteq> Action (PublishView v)"
  using assms
  by (auto simp: drained_def outstanding_def barrier_new_def is_action_def split: if_splits)

lemma flushed_facts:
  assumes "flushed encode_wal m now m' outs"
  shows "length outs \<le> 1"
    and "replies_of (sent outs) + outstanding m' = outstanding m"
    and "\<And>w. Effect (EstablishWal w) \<in> set outs \<Longrightarrow>
       (\<exists>facts. run_issued encode_wal m' facts w) \<and> wm_flight m = None \<and> wm_flight m' \<noteq> None"
    and "\<forall>w. Effect (EstablishWal w) \<notin> set outs \<Longrightarrow>
       wm_flight m' = wm_flight m \<and> list_all is_action outs"
    and "Action (PublishView v) \<notin> set outs"
proof -
  consider "outs = []" "m' = m"
    | deadline where "outs = [Action (ArmFlush deadline)]" "m' = m \<lparr> wm_flush_armed := True \<rparr>"
    | out where "outs = [out]" "wm_flight m = None" "drained encode_wal m now m' out"
    using assms by (auto simp: flushed_def)
  note flush = this
  show "length outs \<le> 1" by (cases rule: flush) simp_all
  show "replies_of (sent outs) + outstanding m' = outstanding m"
    by (cases rule: flush) (use drained_facts(1) in \<open>auto simp: outstanding_def\<close>)
  show "(\<exists>facts. run_issued encode_wal m' facts w) \<and> wm_flight m = None \<and> wm_flight m' \<noteq> None"
    if "Effect (EstablishWal w) \<in> set outs" for w
    using that by (cases rule: flush) (use drained_facts(2) in auto)
  show "wm_flight m' = wm_flight m \<and> list_all is_action outs"
    if "\<forall>w. Effect (EstablishWal w) \<notin> set outs"
    using that
  proof (cases rule: flush)
    case (3 out)
    then show ?thesis using drained_facts(3) [OF 3(3,2)] that by simp
  qed (simp_all add: is_action_def)
  show "Action (PublishView v) \<notin> set outs"
    by (cases rule: flush) (use drained_facts(4) in fastforce)+
qed

lemma scheduled_stepped:
  assumes ap: "applied m e m1 outs None" and started: "wm_started m"
    and sch: "scheduled encode_wal m1 now m2 m' flush planned exit"
  shows "stepped encode_wal m e m' (outs @ flush @ planned) exit"
proof -
  have flush: "flushed encode_wal m1 now m2 flush" and frame: "checkpoint_frame m2 m'"
      and inv: "writer_inv m'" and attempt: "wm_checkpoint_attempt m' \<le> wm_checkpoint_attempt m1 + 1"
    using sch by (simp_all add: scheduled_def)
  note cf = checkpoint_frame_fields [OF frame] and ff = flushed_frame [OF flush]
    and fs = flushed_facts [OF flush]
  have planned: "planned = [] \<or> (\<exists>i. planned = [Effect (PrepareCheckpoint i)])"
    using sch by (auto simp: scheduled_def)
  then have quiet: "length planned \<le> 1" "sent planned = []"
      "\<And>w. Effect (EstablishWal w) \<notin> set planned" "\<And>v. Action (PublishView v) \<notin> set planned"
    by auto
  have outs: "\<And>w. Effect (EstablishWal w) \<notin> set outs" "length outs \<le> 2"
    using ap by (simp_all add: applied_def)
  have issued: "(\<exists>facts. run_issued encode_wal m' facts w)" if "Effect (EstablishWal w) \<in> set flush" for w
    using fs(3) [OF that] cf by (simp add: run_issued_def)
  have conserved: "replies_of (sent (outs @ flush @ planned)) + outstanding m' = arrivals e + outstanding m"
    using ap fs(2) quiet(2) cf by (simp add: applied_def outstanding_def add.assoc)
  have durable: "if wal_durable_event e
       then \<exists>f. wm_flight m = Some f \<and> wm_durable m' = flight_forest f \<and> wm_durable_batch m' = flight_batch f
       else wm_durable m' = wm_durable m \<and> wm_durable_batch m' = wm_durable_batch m"
    using ap cf ff by (auto simp: applied_def durable_step_def split: if_splits)
  have flight: "flight_step m e m' (outs @ flush @ planned)"
    using ap fs(3,4) outs(1) quiet(3) cf(1)
    by (auto simp: flight_step_def applied_def durable_step_def split: if_splits)
  have shut: "list_all is_action (outs @ flush @ planned) \<and> \<not> wm_ingress_open m'
      \<and> outstanding m' = {#} \<and> wm_checkpoint m' = None \<and> wm_admitted m' = wm_durable m'" if "exit \<noteq> None"
  proof -
    have *: "planned = []" "m' = m2" "\<not> wm_ingress_open m1" "wm_flight m' = None" "wm_checkpoint m1 = None"
        "barrier_commands (wm_pending m') = []" "wm_admitted m' = wm_durable m'"
      using sch that by (auto simp: scheduled_def)
    then have "list_all is_action outs" "list_all is_action flush"
      using ap fs(3,4) by (auto simp: applied_def)
    with * ff show ?thesis by (simp add: outstanding_def)
  qed
  show ?thesis
    unfolding stepped_def
    using ap started inv attempt cf ff fs(1,5) quiet outs issued conserved durable flight shut
    by (auto simp: applied_def WRITER_OUTPUTS_PER_STEP_MAX_def)
qed

text \<open>
  A step of the machine is the event followed, unless the event ended the run, by one call of
  \<open>schedule\<close>.
\<close>

definition step_parts ::
  "wal_encoder \<Rightarrow> WriterMachine \<Rightarrow> instant \<Rightarrow> WriterEvent \<Rightarrow> WriterMachine \<Rightarrow> WriterStep
     \<Rightarrow> WriterMachine \<Rightarrow> WriterOutput list \<Rightarrow> WriterExit option \<Rightarrow> bool" where
  "step_parts encode_wal m now e m' s m1 outs exit \<longleftrightarrow>
     apply_event m e = Some (m1, outs, exit) \<and> applied m e m1 outs exit
     \<and> (exit = None \<longrightarrow> (\<exists>m2 flush planned. scheduled encode_wal m1 now m2 m' flush planned (step_exit s)
          \<and> step_outputs s = outs @ flush @ planned))
     \<and> (exit \<noteq> None \<longrightarrow> step_exit s = exit)"

lemma started_id: "wm_started m \<Longrightarrow> m \<lparr> wm_started := True \<rparr> = m"
  by (cases m) simp

lemma stepped_start:
  "stepped encode_wal (m \<lparr> wm_started := True \<rparr>) e m' outs exit = stepped encode_wal m e m' outs exit"
  by (simp add: stepped_def flight_step_def outstanding_def)

lemma handle_parts:
  assumes inv: "writer_inv m" and event: "event_ok m e" and enc: "wal_encoder_ok encode_wal"
    and counter: "wm_checkpoint_attempt m < u64_max"
  obtains m' s m1 outs exit where "handle encode_wal m now e = Some (m', s)"
    "stepped encode_wal m e m' (step_outputs s) (step_exit s)"
    "step_parts encode_wal (m \<lparr> wm_started := True \<rparr>) now e m' s m1 outs exit"
proof -
  let ?m = "m \<lparr> wm_started := True \<rparr>"
  have core: "writer_core ?m"
    using inv by (subst writer_core_cong [of ?m m]) (simp_all add: writer_inv_def)
  obtain m1 outs exit where ap: "apply_event ?m e = Some (m1, outs, exit)" "applied ?m e m1 outs exit"
  proof (cases "e = Started")
    case True
    with core have "applied ?m e ?m [] None"
      by (intro applied_frame) (simp_all add: wal_durable_event_def arrivals_def)
    with True that show thesis by (simp add: apply_event_def)
  next
    case False
    then have "?m = m" using event by (auto simp: event_ok_def intro: started_id)
    with that show thesis using apply_event_applied [OF inv event] by auto
  qed
  have start: "(\<not> wm_started m) = (e = Started)" "(if e = Started then ?m else m) = ?m"
    using event started_id by (auto simp: event_ok_def)
  show thesis
  proof (cases exit)
    case None
    with ap(2) have "writer_core m1" "wm_checkpoint_attempt m1 < u64_max"
      using counter by (simp_all add: applied_def)
    then obtain m2 m' flush planned exit' where sch:
      "schedule encode_wal m1 now = Some (m', flush @ planned, exit')"
      "scheduled encode_wal m1 now m2 m' flush planned exit'"
      using schedule_ok [OF _ enc] by blast
    then have st: "stepped encode_wal m e m' (outs @ flush @ planned) exit'"
      using scheduled_stepped ap(2) None stepped_start by fastforce
    then have "handle encode_wal m now e
        = Some (m', \<lparr> step_outputs = outs @ flush @ planned, step_exit = exit' \<rparr>)"
      using start None ap(1) sch(1) by (auto simp: handle_def stepped_def)
    with st ap sch(2) None that show thesis by (fastforce simp: step_parts_def)
  next
    case (Some x)
    with ap(2) have st: "stepped encode_wal m e m1 [] exit" "outs = []"
      by (auto simp: applied_def stepped_def orderly_def)
    then have "handle encode_wal m now e = Some (m1, \<lparr> step_outputs = [], step_exit = exit \<rparr>)"
      using start Some ap(1) by (auto simp: handle_def)
    with st ap Some that show thesis by (fastforce simp: step_parts_def)
  qed
qed

end
