(* ===== verification/Writer_History.thy ===== *)
theory Writer_History
  imports Writer_Properties
begin

text \<open>
  Runs of the writer machine with the history an observer outside keeps: the commands delivered, the
  RUN objects whose establishment was reported durable, the completions sent. Acknowledged commands
  are matched one to one, in order, with the facts of the durable RUNs.
\<close>

section \<open>Completions and the facts behind them\<close>

text \<open>A completion that reports a change made by the command.\<close>

definition acknowledging :: "Completion \<Rightarrow> bool" where
  "acknowledging c =
     (case c of
        CreateCompletion r _ \<Rightarrow> r = Inr OutcomeCreated
      | CloseCompletion r _ \<Rightarrow> r = Inr OutcomeClosed
      | DeleteCompletion r _ \<Rightarrow> r = Inr ())"

text \<open>The fact that a completion of a command stands for, on the reply channel of the command.\<close>

definition answers :: "CommandEnvelope \<Rightarrow> Completion \<Rightarrow> OperationFact option \<Rightarrow> bool" where
  "answers envelope c op \<longleftrightarrow>
     completion_reply c = command_reply envelope
     \<and> (case envelope of
          CreateCommand s _ \<Rightarrow> (\<exists>r k. c = CreateCompletion r k
            \<and> (if r = Inr OutcomeCreated
               then \<exists>u. op = Some (StreamCreated (create_path s) u (create_content_type s)
                      (create_expiry s) (create_lifecycle s))
               else op = None))
        | CloseCommand p _ \<Rightarrow> (\<exists>r k. c = CloseCompletion r k
            \<and> (if r = Inr OutcomeClosed then \<exists>u. op = Some (StreamClosed p u) else op = None))
        | DeleteCommand p _ \<Rightarrow> (\<exists>r k. c = DeleteCompletion r k
            \<and> (if r = Inr () then \<exists>u. op = Some (StreamDeleted p u) else op = None)))"

lemma answers_acknowledging: "answers envelope c op \<Longrightarrow> acknowledging c \<longleftrightarrow> op \<noteq> None"
  by (auto simp: answers_def acknowledging_def split: CommandEnvelope.splits if_splits)

lemma apply_fact_fact: "apply_fact f b op = Some (Inr a) \<Longrightarrow> admitted_fact a = op"
  unfolding apply_fact_def by (cases "strict_fold f b op") (auto split: sum.split_asm)

lemma map_sum_id_Inr: "map_sum id F x = Inr y \<longleftrightarrow> (\<exists>z. x = Inr z \<and> y = F z)"
  by (cases x) auto

lemma admit_decision_answers:
  assumes "admit_decision m envelope = Some d"
  shows "case d of AdmitFact a c \<Rightarrow> answers envelope c (Some (admitted_fact a))
     | AdmitIdempotent c \<Rightarrow> answers envelope c None | AdmitRefused c \<Rightarrow> answers envelope c None"
proof (cases envelope)
  case (CreateCommand s k)
  have "\<exists>u. admitted_fact a = StreamCreated (create_path s) u (create_content_type s)
      (create_expiry s) (create_lifecycle s)" if "admit_create f s b = Some (Inr (CreateFact a))" for f b a
    using that
    by (cases "successor_uid f")
      (auto simp: admit_create_def map_sum_id_Inr dest!: apply_fact_fact
        split: option.split_asm DirectoryEntry.split_asm sum.split_asm if_split_asm bind_split_asm)
  with assms CreateCommand show ?thesis
    by (cases "admit_create (forest_of (wm_admitted m)) s (wm_next_batch m)")
      (auto simp: admit_decision_def answers_def Let_def split: sum.split_asm CreateAdmission.split_asm)
next
  case (CloseCommand p k)
  have "\<exists>u. admitted_fact a = StreamClosed p u" if "admit_close f p b = Some (Inr (CloseFact a))" for f b a
    using that
    by (auto simp: admit_close_def bind_eq_Some_conv map_sum_id_Inr dest!: apply_fact_fact
        split: sum.split_asm if_split_asm)
  with assms CloseCommand show ?thesis
    by (cases "admit_close (forest_of (wm_admitted m)) p (wm_next_batch m)")
      (auto simp: admit_decision_def answers_def Let_def split: sum.split_asm CloseAdmission.split_asm)
next
  case (DeleteCommand p k)
  have "\<exists>u. admitted_fact a = StreamDeleted p u" if "admit_delete f p b = Some (Inr a)" for f b a
    using that by (auto simp: admit_delete_def dest!: apply_fact_fact split: sum.split_asm)
  with assms DeleteCommand show ?thesis
    by (cases "admit_delete (forest_of (wm_admitted m)) p (wm_next_batch m)")
      (auto simp: admit_decision_def answers_def Let_def split: sum.split_asm)
qed

lemma answers_refusal:
  "answers envelope c op \<Longrightarrow> answers envelope (completion_refusal c r) None"
  by (auto simp: answers_def completion_refusal_def split: CommandEnvelope.splits)

text \<open>Admission either queues the command with its fact, or answers it at once without one.\<close>

lemma admit_answers:
  assumes "admit m envelope = Some (m', out)"
  shows "wm_flight m' = wm_flight m
     \<and> (\<exists>c op. answers envelope c op
        \<and> (out = None \<and> barrier_commands (wm_pending m')
              = barrier_commands (wm_pending m) @ [\<lparr> pending_fact = op, pending_completion = c \<rparr>]
           \<or> out = Some c \<and> op = None \<and> wm_pending m' = wm_pending m))"
proof -
  obtain d where d: "admit_decision m envelope = Some d"
    and step: "(case d of AdmitFact a c \<Rightarrow> accept_fact m a c
       | AdmitIdempotent c \<Rightarrow> Some (accept_idempotent m c) | AdmitRefused c \<Rightarrow> Some (m, Some c)) = Some (m', out)"
    using assms by (auto simp: admit_def bind_eq_Some_conv split: if_split_asm)
  note ans = admit_decision_answers [OF d]
  show ?thesis
  proof (cases d)
    case (AdmitFact a c)
    with step ans answers_refusal [of envelope c] show ?thesis
      by (auto simp: accept_fact_def push_fact_def bind_eq_Some_conv split: if_splits)
  next
    case (AdmitIdempotent c)
    with step ans show ?thesis
      by (auto simp: accept_idempotent_def push_idempotent_def split: if_splits)
  next
    case (AdmitRefused c)
    with step ans show ?thesis by auto
  qed
qed

section \<open>Settled completions\<close>

text \<open>
  The acknowledging completions of a list stand, in order, for the given facts; the others stand for
  none. Every completion answers a command of the given set.
\<close>

definition settles :: "CommandEnvelope set \<Rightarrow> Completion list \<Rightarrow> OperationFact list \<Rightarrow> bool" where
  "settles E cs facts \<longleftrightarrow>
     list_all2 (\<lambda>c op. \<exists>e\<in>E. answers e c (Some op)) (filter acknowledging cs) facts
     \<and> (\<forall>c\<in>set cs. \<not> acknowledging c \<longrightarrow> (\<exists>e\<in>E. answers e c None))"

lemma settles_Nil [simp]: "settles E [] facts \<longleftrightarrow> facts = []"
  by (simp add: settles_def)

lemma settles_append [intro]:
  "settles E cs facts \<Longrightarrow> settles E ds facts' \<Longrightarrow> settles E (cs @ ds) (facts @ facts')"
  by (auto simp: settles_def intro: list_all2_appendI)

lemma settles_mono: "settles E cs facts \<Longrightarrow> E \<subseteq> E' \<Longrightarrow> settles E' cs facts"
  unfolding settles_def by (blast intro: list_all2_mono)

lemma settles_one:
  "answers e c op \<Longrightarrow> e \<in> E \<Longrightarrow> settles E [c] (case op of None \<Rightarrow> [] | Some f \<Rightarrow> [f])"
  using answers_acknowledging by (fastforce simp: settles_def split: option.split)

text \<open>The books of a machine: its barrier and its flight are settled by the facts they hold.\<close>

definition books :: "CommandEnvelope set \<Rightarrow> WriterMachine \<Rightarrow> OperationFact list \<Rightarrow> bool" where
  "books E m facts \<longleftrightarrow>
     settles E (map pending_completion (barrier_commands (wm_pending m))) (pending_ops m)
     \<and> (case wm_flight m of None \<Rightarrow> facts = [] | Some f \<Rightarrow> settles E (flight_replies f) facts)"

lemma books_mono: "books E m facts \<Longrightarrow> E \<subseteq> E' \<Longrightarrow> books E' m facts"
  by (auto simp: books_def intro: settles_mono split: option.splits)

lemma books_cong:
  "wm_pending m' = wm_pending m \<Longrightarrow> wm_flight m' = wm_flight m \<Longrightarrow> books E m' facts \<longleftrightarrow> books E m facts"
  by (simp add: books_def pending_ops_def)

definition commands_of :: "WriterEvent \<Rightarrow> CommandEnvelope set" where
  "commands_of e = (case e of Command c \<Rightarrow> {c} | _ \<Rightarrow> {})"

definition settled_by :: "WriterEvent \<Rightarrow> OperationFact list \<Rightarrow> OperationFact list" where
  "settled_by e facts = (if wal_durable_event e then facts else [])"

definition left_by :: "WriterEvent \<Rightarrow> OperationFact list \<Rightarrow> OperationFact list" where
  "left_by e facts = (if wal_durable_event e then [] else facts)"

lemma command_books:
  assumes admit: "admit m envelope = Some (m', out)" and books: "books E m facts"
  shows "settles (insert envelope E) (case out of None \<Rightarrow> [] | Some c \<Rightarrow> [c]) []
     \<and> books (insert envelope E) m' facts"
proof -
  have books': "books (insert envelope E) m facts" using books by (auto intro: books_mono)
  obtain c op where flight: "wm_flight m' = wm_flight m" and ans: "answers envelope c op"
    and outcome: "out = None \<and> barrier_commands (wm_pending m')
          = barrier_commands (wm_pending m) @ [\<lparr> pending_fact = op, pending_completion = c \<rparr>]
       \<or> out = Some c \<and> op = None \<and> wm_pending m' = wm_pending m"
    using admit_answers [OF admit] by blast
  have one: "settles (insert envelope E) [c] (case op of None \<Rightarrow> [] | Some f \<Rightarrow> [f])"
    using settles_one [OF ans, of "insert envelope E"] by simp
  from outcome show ?thesis
  proof
    assume *: "out = None \<and> barrier_commands (wm_pending m')
          = barrier_commands (wm_pending m) @ [\<lparr> pending_fact = op, pending_completion = c \<rparr>]"
    then have "pending_ops m' = pending_ops m @ (case op of None \<Rightarrow> [] | Some f \<Rightarrow> [f])"
      by (simp add: pending_ops_def barrier_facts_append split: option.split)
    with * flight books' settles_append [OF _ one] show ?thesis
      by (simp add: books_def)
  next
    assume "out = Some c \<and> op = None \<and> wm_pending m' = wm_pending m"
    with flight books' one books_cong [of m' m] show ?thesis by simp
  qed
qed

lemma quiet_event_frame:
  assumes "apply_event m e = Some (m', outs, exit)"
    and "\<forall>c. e \<noteq> Command c" "\<forall>b r. e \<noteq> WalEstablished b r"
  shows "wm_pending m' = wm_pending m \<and> wm_flight m' = wm_flight m \<and> sent outs = []"
proof (cases e)
  case (CheckpointPrepared t p)
  with assms show ?thesis
    by (cases "wm_checkpoint m")
      (auto simp: apply_event_def complete_preparation_def
        split: CheckpointMarker.split_asm PreparationOutcome.split_asm if_split_asm)
next
  case (SealPublished t r)
  with assms show ?thesis
    by (cases "wm_checkpoint m")
      (auto simp: apply_event_def complete_publication_def install_prepared_def bind_eq_Some_conv
        Let_def split: CheckpointMarker.split_asm sum.split_asm SealPublication.split_asm
          TypedStoreError.split_asm if_split_asm)
next
  case (CheckpointPreparationCancelled t)
  with assms show ?thesis
    by (cases "assert_checkpoint_cancelling m t") (auto simp: apply_event_def)
qed (use assms in \<open>auto simp: apply_event_def close_ingress_def Let_def
    split: option.split_asm CheckpointMarker.split_asm if_split_asm\<close>)

lemma apply_event_books:
  assumes step: "apply_event m e = Some (m', outs, None)" and books: "books E m facts"
  shows "settles (E \<union> commands_of e) (sent outs) (settled_by e facts)
     \<and> books (E \<union> commands_of e) m' (left_by e facts)"
proof -
  consider (command) c where "e = Command c" | (wal) b r where "e = WalEstablished b r"
    | (quiet) "\<forall>c. e \<noteq> Command c" "\<forall>b r. e \<noteq> WalEstablished b r"
    by blast
  then show ?thesis
  proof cases
    case (command c)
    then obtain out where "admit m c = Some (m', out)"
        "outs = (case out of None \<Rightarrow> [] | Some c \<Rightarrow> [Action (SendReplies [c])])"
      using step by (auto simp: apply_event_def bind_eq_Some_conv split: if_split_asm)
    with command_books [OF this(1) books] command show ?thesis
      by (cases out) (simp_all add: commands_of_def settled_by_def left_by_def wal_durable_event_def)
  next
    case (wal b r)
    then have r: "r = Inr WalDurable"
      using step by (auto simp: apply_event_def wal_established_def bind_eq_Some_conv
          split: sum.split_asm WalEstablishment.split_asm TypedStoreError.split_asm)
    with wal step have "record_wal_durable m b = Some (m', outs)"
      by (auto simp: apply_event_def wal_established_def bind_eq_Some_conv)
    then have "\<exists>f. wm_flight m = Some f \<and> wm_flight m' = None \<and> wm_pending m' = wm_pending m
        \<and> sent outs = flight_replies f"
      by (auto simp: record_wal_durable_def bind_eq_Some_conv Let_def split: if_split_asm)
    with wal r books show ?thesis
      by (auto simp: commands_of_def settled_by_def left_by_def wal_durable_event_def books_def
          pending_ops_def)
  next
    case quiet
    with books_cong [of m' m] quiet_event_frame [OF step quiet] books show ?thesis
      by (cases e) (simp_all add: commands_of_def settled_by_def left_by_def wal_durable_event_def)
  qed
qed

text \<open>Scheduling sends idempotent completions only, and moves the barrier into the flight it issues.\<close>

lemma flushed_books:
  assumes flush: "flushed encode_wal m now m' outs" and books: "books E m facts"
  shows "settles E (sent outs) []"
    and "\<exists>facts'. books E m' facts'
       \<and> (\<forall>w. Effect (EstablishWal w) \<in> set outs \<longrightarrow> run_issued encode_wal m' facts' w)
       \<and> ((\<forall>w. Effect (EstablishWal w) \<notin> set outs) \<longrightarrow> facts' = facts)"
proof -
  have "settles E (sent outs) [] \<and> (\<exists>facts'. books E m' facts'
       \<and> (\<forall>w. Effect (EstablishWal w) \<in> set outs \<longrightarrow> run_issued encode_wal m' facts' w)
       \<and> ((\<forall>w. Effect (EstablishWal w) \<notin> set outs) \<longrightarrow> facts' = facts))"
    using flush unfolding flushed_def
  proof (elim disjE exE conjE)
    fix out assume out: "outs = [out]" and flight: "wm_flight m = None"
      and dr: "drained encode_wal m now m' out"
    show ?thesis
    proof (cases "pending_ops m = []")
      case True
      with dr books flight out show ?thesis
        by (auto simp: drained_def books_def pending_ops_def barrier_new_def)
    next
      case False
      with dr books flight out show ?thesis
        by (intro conjI exI [of _ "pending_ops m"])
          (auto simp: drained_def books_def pending_ops_def barrier_new_def)
    qed
  qed (use books books_cong [of m' m E facts] in auto)
  then show "settles E (sent outs) []"
    and "\<exists>facts'. books E m' facts'
       \<and> (\<forall>w. Effect (EstablishWal w) \<in> set outs \<longrightarrow> run_issued encode_wal m' facts' w)
       \<and> ((\<forall>w. Effect (EstablishWal w) \<notin> set outs) \<longrightarrow> facts' = facts)"
    by blast+
qed

text \<open>The books across one step of the machine.\<close>

definition booked ::
  "wal_encoder \<Rightarrow> CommandEnvelope set \<Rightarrow> WriterEvent \<Rightarrow> WriterMachine \<Rightarrow> WriterOutput list
     \<Rightarrow> OperationFact list \<Rightarrow> OperationFact list \<Rightarrow> bool" where
  "booked encode_wal E e m' outs facts facts' \<longleftrightarrow>
     settles (E \<union> commands_of e) (sent outs) (settled_by e facts)
     \<and> books (E \<union> commands_of e) m' facts'
     \<and> (\<forall>w. Effect (EstablishWal w) \<in> set outs \<longrightarrow> run_issued encode_wal m' facts' w)
     \<and> ((\<forall>w. Effect (EstablishWal w) \<notin> set outs) \<longrightarrow> facts' = left_by e facts)"

lemma handle_booked:
  assumes inv: "writer_inv m" and event: "event_ok m e" and enc: "wal_encoder_ok encode_wal"
    and counter: "wm_checkpoint_attempt m < u64_max"
    and step: "handle encode_wal m now e = Some (m', s)" "orderly (step_exit s)"
    and books: "books E m facts"
  shows "\<exists>facts'. booked encode_wal E e m' (step_outputs s) facts facts'"
proof -
  let ?E = "E \<union> commands_of e"
  obtain m1 outs exit where parts: "step_parts encode_wal (m \<lparr> wm_started := True \<rparr>) now e m' s m1 outs exit"
    using handle_parts [OF inv event enc counter, of now] step(1) by (metis option.inject prod.inject)
  then have none: "exit = None"
    using step(2) by (auto simp: step_parts_def orderly_def applied_def)
  with parts obtain m2 flush planned where ap: "apply_event (m \<lparr> wm_started := True \<rparr>) e = Some (m1, outs, None)"
      "applied (m \<lparr> wm_started := True \<rparr>) e m1 outs None"
    and sch: "scheduled encode_wal m1 now m2 m' flush planned (step_exit s)"
      "step_outputs s = outs @ flush @ planned"
    by (auto simp: step_parts_def)
  have sent: "settles ?E (sent outs) (settled_by e facts)" and books1: "books ?E m1 (left_by e facts)"
    using apply_event_books [OF ap(1)] books books_cong [of "m \<lparr> wm_started := True \<rparr>" m] by simp_all
  have flush: "flushed encode_wal m1 now m2 flush" and frame: "checkpoint_frame m2 m'"
    and planned: "sent planned = []" "\<And>w. Effect (EstablishWal w) \<notin> set planned"
    using sch(1) by (auto simp: scheduled_def)
  obtain facts' where facts': "books ?E m2 facts'"
      "\<forall>w. Effect (EstablishWal w) \<in> set flush \<longrightarrow> run_issued encode_wal m2 facts' w"
      "(\<forall>w. Effect (EstablishWal w) \<notin> set flush) \<longrightarrow> facts' = left_by e facts"
    using flushed_books(2) [OF flush books1] by blast
  note cf = checkpoint_frame_fields [OF frame]
  have "settles ?E (sent (step_outputs s)) (settled_by e facts)"
    using settles_append [OF sent flushed_books(1) [OF flush books1]] planned(1) sch(2) by simp
  moreover have "books ?E m' facts'"
    using facts'(1) books_cong [of m' m2] cf by simp
  moreover have "run_issued encode_wal m' facts' w" if "Effect (EstablishWal w) \<in> set flush" for w
    using facts'(2) that cf by (simp add: run_issued_def)
  ultimately show ?thesis
    using facts'(3) planned(2) ap(2) sch(2) by (auto simp: booked_def applied_def)
qed

section \<open>Runs\<close>

text \<open>What an observer of the machine has seen.\<close>

record Observed =
  obs_commands :: "CommandEnvelope list"
  obs_log :: "EncodedWal list"
  obs_flight :: "EncodedWal option"
  obs_sent :: "Completion list"

definition nothing_seen :: Observed where
  "nothing_seen = \<lparr> obs_commands = [], obs_log = [], obs_flight = None, obs_sent = [] \<rparr>"

fun issued :: "WriterOutput list \<Rightarrow> EncodedWal option" where
  "issued [] = None"
| "issued (Effect (EstablishWal w) # outs) = Some w"
| "issued (_ # outs) = issued outs"

lemma issued_Some: "issued outs = Some w \<Longrightarrow> Effect (EstablishWal w) \<in> set outs"
  by (induction outs rule: issued.induct) auto

lemma issued_None: "issued outs = None \<Longrightarrow> Effect (EstablishWal w) \<notin> set outs"
  by (induction outs rule: issued.induct) auto

definition observe :: "Observed \<Rightarrow> WriterEvent \<Rightarrow> WriterStep \<Rightarrow> Observed" where
  "observe h e s =
     \<lparr> obs_commands = obs_commands h @ (case e of Command c \<Rightarrow> [c] | _ \<Rightarrow> []),
       obs_log = obs_log h
         @ (if wal_durable_event e then (case obs_flight h of None \<Rightarrow> [] | Some w \<Rightarrow> [w]) else []),
       obs_flight = (case issued (step_outputs s) of
           Some w \<Rightarrow> Some w
         | None \<Rightarrow> if wal_durable_event e then None else obs_flight h),
       obs_sent = obs_sent h @ sent (step_outputs s) \<rparr>"

text \<open>
  A run handles the events an interpreter may deliver, as long as the counter of checkpoint attempts
  is below \<open>u64::MAX\<close>, which the machine expects when it starts one, and every step so far returned no
  exit or an orderly shutdown. A step that leaves by a fence, a poisoning or a contradiction is the
  last of its machine and is not part of a run; the theorems on single steps cover it.
\<close>

inductive writer_run :: "wal_encoder \<Rightarrow> WriterMachine \<Rightarrow> WriterMachine \<Rightarrow> Observed \<Rightarrow> bool"
  for encode_wal m0
where
  start: "writer_run encode_wal m0 m0 nothing_seen"
| step: "writer_run encode_wal m0 m' (observe h e s)"
    if "writer_run encode_wal m0 m h" "event_ok m e" "wm_checkpoint_attempt m < u64_max"
      "handle encode_wal m now e = Some (m', s)" "orderly (step_exit s)"

text \<open>RUN objects of one owner, and the log of facts they carry.\<close>

definition encodes_run ::
  "wal_encoder \<Rightarrow> WriterMachine \<Rightarrow> EncodedWal \<Rightarrow> BatchId \<times> OperationFact list \<Rightarrow> bool" where
  "encodes_run encode_wal m w run \<longleftrightarrow>
     snd run \<noteq> []
     \<and> encoded_wal_new encode_wal
         \<lparr> wal_partition = seal_partition (wm_seal m), wal_batch = fst run,
           wal_owner = claim_owner (wm_claim m), wal_body = WalRun (snd run) \<rparr> = Some (Inr w)"

definition log_of :: "(BatchId \<times> OperationFact list) list \<Rightarrow> (BatchId \<times> OperationFact) list" where
  "log_of runs = concat (map (\<lambda>(b, facts). at_batch b facts) runs)"

definition log_ok ::
  "wal_encoder \<Rightarrow> WriterMachine \<Rightarrow> WriterMachine \<Rightarrow> EncodedWal list \<Rightarrow> (BatchId \<times> OperationFact list) list \<Rightarrow> bool"
where
  "log_ok encode_wal m0 m objects runs \<longleftrightarrow>
     list_all2 (encodes_run encode_wal m0) objects runs
     \<and> map (batch_get \<circ> fst) runs
         = [Suc (batch_get (wm_durable_batch m0))..<Suc (batch_get (wm_durable_batch m))]
     \<and> replay (forest_of (wm_durable m0)) (log_of runs) = Some (Inr (forest_of (wm_durable m)))"

definition flight_ok :: "wal_encoder \<Rightarrow> WriterMachine \<Rightarrow> OperationFact list \<Rightarrow> EncodedWal option \<Rightarrow> bool" where
  "flight_ok encode_wal m facts seen \<longleftrightarrow>
     (case seen of None \<Rightarrow> wm_flight m = None | Some w \<Rightarrow> run_issued encode_wal m facts w)"

lemma log_ok_durable:
  assumes log: "log_ok encode_wal m0 m objects runs" and inv: "writer_inv m"
    and flight: "run_issued encode_wal m facts w" "wm_flight m = Some f"
    and same: "wm_claim m = wm_claim m0" "seal_partition (wm_seal m) = seal_partition (wm_seal m0)"
    and durable: "wm_durable m' = flight_forest f" "wm_durable_batch m' = flight_batch f"
    and grown: "batch_get (wm_durable_batch m0) \<le> batch_get (wm_durable_batch m)"
  shows "log_ok encode_wal m0 m' (objects @ [w]) (runs @ [(flight_batch f, facts)])"
proof -
  have "batch_get (flight_batch f) = batch_get (wm_durable_batch m) + 1"
    using inv flight(2) by (simp add: writer_inv_def writer_parts)
  moreover have "encodes_run encode_wal m0 w (flight_batch f, facts)"
    using flight same by (auto simp: run_issued_def encodes_run_def)
  moreover have "replay (forest_of (wm_durable m0)) (log_of runs @ at_batch (flight_batch f) facts)
      = Some (Inr (forest_of (flight_forest f)))"
    using log flight by (auto simp: replay_def try_fold_append and_then_Inr log_ok_def run_issued_def)
  ultimately show ?thesis
    using log durable grown by (auto simp: log_ok_def log_of_def intro: list_all2_appendI)
qed

text \<open>What holds along every run, for some facts in flight.\<close>

definition accounted :: "wal_encoder \<Rightarrow> WriterMachine \<Rightarrow> WriterMachine \<Rightarrow> Observed \<Rightarrow> bool" where
  "accounted encode_wal m0 m h \<longleftrightarrow>
     writer_inv m \<and> wm_claim m = wm_claim m0
     \<and> seal_partition (wm_seal m) = seal_partition (wm_seal m0)
     \<and> batch_get (wm_durable_batch m0) \<le> batch_get (wm_durable_batch m)
     \<and> (\<exists>runs facts. log_ok encode_wal m0 m (obs_log h) runs
          \<and> settles (set (obs_commands h)) (obs_sent h) (concat (map snd runs))
          \<and> books (set (obs_commands h)) m facts
          \<and> flight_ok encode_wal m facts (obs_flight h))"

lemma log_ok_keep:
  "wm_durable m' = wm_durable m \<Longrightarrow> wm_durable_batch m' = wm_durable_batch m
     \<Longrightarrow> log_ok encode_wal m0 m objects runs \<Longrightarrow> log_ok encode_wal m0 m' objects runs"
  by (simp add: log_ok_def)

lemma flight_ok_step:
  assumes st: "stepped encode_wal m e m' (step_outputs s) (step_exit s)" "orderly (step_exit s)"
    and bk: "booked encode_wal E e m' (step_outputs s) facts facts'"
    and fl: "flight_ok encode_wal m facts (obs_flight h)"
  shows "flight_ok encode_wal m' facts' (obs_flight (observe h e s))"
proof (cases "issued (step_outputs s)")
  case (Some w)
  with bk issued_Some [OF Some] show ?thesis
    by (simp add: flight_ok_def observe_def booked_def)
next
  case None
  then have quiet: "\<forall>w. Effect (EstablishWal w) \<notin> set (step_outputs s)"
    using issued_None by blast
  have same: "wm_claim m' = wm_claim m" "seal_partition (wm_seal m') = seal_partition (wm_seal m)"
    using st by (simp_all add: stepped_def)
  have step: "wm_flight m' = (if wal_durable_event e then None else wm_flight m)"
    and durable: "\<not> wal_durable_event e \<Longrightarrow> wm_durable m' = wm_durable m"
    using st quiet by (simp_all add: stepped_def flight_step_def)
  have facts': "facts' = left_by e facts" using bk quiet by (simp add: booked_def)
  show ?thesis
    using None step facts' fl durable same
    by (auto simp: flight_ok_def observe_def left_by_def run_issued_def split: option.split)
qed

lemma accounted_step:
  assumes acc: "accounted encode_wal m0 m h" and enc: "wal_encoder_ok encode_wal"
    and event: "event_ok m e" and counter: "wm_checkpoint_attempt m < u64_max"
    and step: "handle encode_wal m now e = Some (m', s)" "orderly (step_exit s)"
  shows "accounted encode_wal m0 m' (observe h e s)"
proof -
  have inv: "writer_inv m" using acc by (simp add: accounted_def)
  obtain runs facts where now: "log_ok encode_wal m0 m (obs_log h) runs"
      "settles (set (obs_commands h)) (obs_sent h) (concat (map snd runs))"
      "books (set (obs_commands h)) m facts" "flight_ok encode_wal m facts (obs_flight h)"
    using acc by (auto simp: accounted_def)
  have st: "stepped encode_wal m e m' (step_outputs s) (step_exit s)"
    using handle_parts [OF inv event enc counter, of now] step(1) by (metis option.inject prod.inject)
  obtain facts' where bk: "booked encode_wal (set (obs_commands h)) e m' (step_outputs s) facts facts'"
    using handle_booked [OF inv event enc counter step now(3)] by blast
  have E: "set (obs_commands (observe h e s)) = set (obs_commands h) \<union> commands_of e"
    by (cases e) (simp_all add: observe_def commands_of_def)
  have settled: "settles (set (obs_commands (observe h e s))) (obs_sent (observe h e s))
      (concat (map snd runs) @ settled_by e facts)"
    using bk settles_mono [OF now(2), of "set (obs_commands h) \<union> commands_of e"]
    unfolding E by (auto simp: booked_def observe_def)
  have logged: "\<exists>more. log_ok encode_wal m0 m' (obs_log (observe h e s)) (runs @ more)
      \<and> concat (map snd more) = settled_by e facts
      \<and> batch_get (wm_durable_batch m) \<le> batch_get (wm_durable_batch m')"
  proof (cases "wal_durable_event e")
    case True
    then obtain f where f: "wm_flight m = Some f" "wm_durable m' = flight_forest f"
        "wm_durable_batch m' = flight_batch f"
      using st step(2) by (auto simp: stepped_def)
    then obtain w where w: "obs_flight h = Some w" "run_issued encode_wal m facts w"
      using now(4) by (auto simp: flight_ok_def split: option.splits)
    have "log_ok encode_wal m0 m' (obs_log h @ [w]) (runs @ [(flight_batch f, facts)])"
      using acc log_ok_durable [OF now(1) inv w(2) f(1) _ _ f(2,3)] by (simp add: accounted_def)
    moreover have "batch_get (wm_durable_batch m) \<le> batch_get (wm_durable_batch m')"
      using inv f by (simp add: writer_inv_def writer_parts)
    ultimately show ?thesis
      using True w(1) by (intro exI [of _ "[(flight_batch f, facts)]"])
        (simp add: observe_def settled_by_def)
  next
    case False
    with st step(2) have "wm_durable m' = wm_durable m" "wm_durable_batch m' = wm_durable_batch m"
      by (simp_all add: stepped_def)
    with False now(1) log_ok_keep show ?thesis
      by (intro exI [of _ "[]"]) (auto simp: observe_def settled_by_def)
  qed
  then obtain more where more: "log_ok encode_wal m0 m' (obs_log (observe h e s)) (runs @ more)"
      "concat (map snd more) = settled_by e facts"
      "batch_get (wm_durable_batch m) \<le> batch_get (wm_durable_batch m')"
    by blast
  have "books (set (obs_commands (observe h e s))) m' facts'"
    using bk unfolding E by (simp add: booked_def)
  then show ?thesis
    unfolding accounted_def
    using acc st step(2) more settled flight_ok_step [OF st step(2) bk now(4)]
    by (auto simp: accounted_def stepped_def intro!: exI [of _ "runs @ more"] exI [of _ facts'])
qed

text \<open>A machine with nothing pending and nothing in flight, as recovery builds it.\<close>

definition idle :: "WriterMachine \<Rightarrow> bool" where
  "idle m \<longleftrightarrow> wm_flight m = None \<and> barrier_commands (wm_pending m) = []"

lemma writer_run_accounted:
  assumes "writer_run encode_wal m0 m h" "wal_encoder_ok encode_wal" "writer_inv m0" "idle m0"
  shows "accounted encode_wal m0 m h"
  using assms
proof (induction rule: writer_run.induct)
  case start
  then have "log_ok encode_wal m0 m0 [] [] \<and> books {} m0 [] \<and> flight_ok encode_wal m0 [] None"
    by (simp add: log_ok_def log_of_def replay_def books_def pending_ops_def flight_ok_def idle_def)
  then show ?case
    using start by (auto simp: accounted_def nothing_seen_def intro!: exI [of _ "[]"])
next
  case (step m h e now m' s)
  then show ?case using accounted_step by blast
qed

end
