(* ===== verification/Writer_Theorems.thy ===== *)
theory Writer_Theorems
  imports Writer_History
begin

text \<open>
  The properties of the writer machine: what recovery hands over, no panic, reply conservation,
  the durable log behind views and acknowledgements, the takeover reserve, progress and shutdown.
  A three-step run (start, one create command, its RUN established) is evaluated for the witnesses.
\<close>

section \<open>Recovered machines\<close>

text \<open>What the bootstrap machine hands to \<open>WriterMachine::from_recovery\<close>.\<close>

definition recovery_ok :: "WriterRecovery \<Rightarrow> bool" where
  "recovery_ok r \<longleftrightarrow>
     recovery_claim r = authored_claim_new (seal_generation (recovery_seal r))
     \<and> seal_valid (recovery_seal r)
     \<and> forest_inv (recovery_base r) \<and> forest_inv (recovery_durable r)
     \<and> cut_get (replay_batch (seal_replay (recovery_seal r))) \<le> batch_get (recovery_durable_batch r)
     \<and> batch_get (recovery_durable_batch r)
         \<le> cut_get (replay_batch (seal_replay (recovery_seal r))) + WAL_SUFFIX_COORDINATES_MAX_V2
     \<and> batch_get (recovery_durable_batch r) < u64_max"

lemma from_recovery_ok:
  assumes "recovery_ok r" "1 \<le> fb" "fb \<le> WAL_ENCODED_BYTES_MAX"
  shows "\<exists>m. from_recovery r interval fb = Some m \<and> writer_inv m \<and> idle m \<and> \<not> wm_started m
     \<and> wm_checkpoint_attempt m = 0 \<and> forest_of (wm_durable m) = recovery_durable r
     \<and> wm_seal m = recovery_seal r \<and> wm_claim m = recovery_claim r
     \<and> wm_durable_batch m = recovery_durable_batch r"
proof -
  obtain b where b: "batch_successor (recovery_durable_batch r) = Inr b"
    using assms(1) batch_successor_ex by (auto simp: recovery_ok_def)
  then have nb: "batch_get b = batch_get (recovery_durable_batch r) + 1"
    by (simp add: batch.successor_Inr)
  have cut: "case replay_batch (seal_replay (recovery_seal r)) of
      None \<Rightarrow> True | Some wcut \<Rightarrow> wcut \<le> recovery_durable_batch r"
    using assms(1) by (auto simp: recovery_ok_def less_eq_BatchId_def split: option.split)
  obtain m where m: "from_recovery r interval fb = Some m"
    using assms b cut by (auto simp: from_recovery_def recovery_ok_def authored_claim_new_def)
  then have fields: "m = \<lparr> wm_started = False, wm_claim = recovery_claim r, wm_seal = recovery_seal r,
      wm_base = recovery_base r, wm_admitted = SharedForest 0 (recovery_durable r),
      wm_durable = SharedForest 0 (recovery_durable r), wm_durable_batch = recovery_durable_batch r,
      wm_next_batch = b, wm_pending = barrier_new, wm_flight = None,
      wm_flush_interval_min = interval, wm_flush_buffer_bytes = fb, wm_last_flush_started_at = None,
      wm_flush_armed = False, wm_checkpoint_attempt = 0, wm_last_checkpoint_attempted_cut = None,
      wm_retry_checkpoint_at = None, wm_checkpoint = None, wm_collector = None,
      wm_ingress_open = True, wm_fresh_root = 1 \<rparr>"
    using b by (auto simp: from_recovery_def split: if_split_asm)
  have "writer_inv m"
    using assms(1) nb barrier_ok_new
    by (simp add: fields writer_inv_def writer_parts barrier_settled_def flight_base_simps pending_ops_def
        replay_cut_def barrier_new_def replay_def at_batch_def recovery_ok_def authored_claim_new_def)
  then show ?thesis
    using m by (auto simp: fields idle_def barrier_new_def)
qed

section \<open>A concrete run\<close>

definition sample_recovery :: WriterRecovery where
  "sample_recovery =
     (let seal = sample_seal \<lparr> seal_generation := SealGeneration (nz_of 2) \<rparr> in
      \<lparr> recovery_claim = authored_claim_new (seal_generation seal), recovery_seal = seal,
        recovery_base = forest_empty, recovery_durable = forest_empty,
        recovery_durable_batch = BatchId nz_min \<rparr>)"

lemma sample_recovery_ok: "recovery_ok sample_recovery"
  by (simp add: sample_recovery_def recovery_ok_def Let_def seal_valid_iff sample_seal_def forest_inv_empty
      tree_is_empty_def tree_empty_def tree_tables_def seal_tables_def seal_generation_genesis_def
      replay_batch_def bound_defs u64_max_def)

definition sample_machine :: WriterMachine where
  "sample_machine =
     \<lparr> wm_started = False, wm_claim = recovery_claim sample_recovery,
       wm_seal = recovery_seal sample_recovery, wm_base = forest_empty,
       wm_admitted = SharedForest 0 forest_empty, wm_durable = SharedForest 0 forest_empty,
       wm_durable_batch = BatchId nz_min, wm_next_batch = BatchId (nz_of 2), wm_pending = barrier_new,
       wm_flight = None, wm_flush_interval_min = 0, wm_flush_buffer_bytes = 1,
       wm_last_flush_started_at = None, wm_flush_armed = False, wm_checkpoint_attempt = 0,
       wm_last_checkpoint_attempted_cut = None, wm_retry_checkpoint_at = None, wm_checkpoint = None,
       wm_collector = None, wm_ingress_open = True, wm_fresh_root = 1 \<rparr>"

lemma nz_of_samples [simp]: "nz_get (nz_of 2) = 2" "nz_get (nz_of 3) = 3"
  by (simp_all add: u64_max_def)

lemma sample_machine_recovered: "from_recovery sample_recovery 0 1 = Some sample_machine"
proof -
  have "batch_successor (BatchId nz_min) = Inr (BatchId (nz_of 2))"
    by (simp add: batch.successor_Inr)
  then show ?thesis
    by (simp add: from_recovery_def sample_machine_def sample_recovery_def Let_def sample_seal_def
        replay_batch_def authored_claim_new_def bound_defs)
qed

lemma sample_machine_ok: "writer_inv sample_machine" "idle sample_machine"
  using from_recovery_ok [OF sample_recovery_ok, of 1 0] sample_machine_recovered
  by (simp_all add: bound_defs)

definition sample_command :: CommandEnvelope where
  "sample_command = CreateCommand \<lparr> create_path = path_of ''a'', create_content_type = octet_stream,
     create_expiry = NoExpiry, create_lifecycle = LifecycleOpen \<rparr> 7"

abbreviation sample_uid :: StreamUid where
  "sample_uid \<equiv> next_uid forest_empty"

abbreviation sample_fact :: OperationFact where
  "sample_fact \<equiv> StreamCreated (path_of ''a'') sample_uid octet_stream NoExpiry LifecycleOpen"

abbreviation sample_batch :: BatchId where
  "sample_batch \<equiv> BatchId (nz_of 2)"

definition sample_run :: WalObject where
  "sample_run = \<lparr> wal_partition = seal_partition (wm_seal sample_machine), wal_batch = sample_batch,
     wal_owner = claim_owner (wm_claim sample_machine), wal_body = WalRun [sample_fact] \<rparr>"

text \<open>An encoder that tells this RUN from every other object.\<close>

definition one_byte :: wal_encoder where
  "one_byte object = Inr [if object = sample_run then CHR ''r'' else CHR ''x'']"

lemma one_byte_ok: "wal_encoder_ok one_byte"
  by (simp add: wal_encoder_ok_def one_byte_def bound_defs)

abbreviation sample_reply :: Completion where
  "sample_reply \<equiv> CreateCompletion (Inr OutcomeCreated) 7"

definition sample_after :: Forest where
  "sample_after = created_forest forest_empty (path_of ''a'') sample_uid
     \<lparr> record_content_type = octet_stream, record_expiry = NoExpiry,
       record_lifecycle = LifecycleOpen, record_created_at = sample_batch \<rparr>"

definition sample_started :: WriterMachine where
  "sample_started = sample_machine \<lparr> wm_started := True \<rparr>"

definition sample_pending :: PendingBarrier where
  "sample_pending =
     \<lparr> barrier_commands = [\<lparr> pending_fact = Some sample_fact, pending_completion = sample_reply \<rparr>],
       barrier_facts_bytes = estimated_encoded_bytes sample_fact \<rparr>"

definition sample_admitted :: WriterMachine where
  "sample_admitted = sample_started \<lparr> wm_admitted := SharedForest 1 sample_after,
     wm_fresh_root := Suc 1, wm_pending := sample_pending \<rparr>"

definition sample_wal :: EncodedWal where
  "sample_wal = \<lparr> ewal_partition = seal_partition (wm_seal sample_started), ewal_batch = sample_batch,
     ewal_bytes = [CHR ''r''] \<rparr>"

definition sample_flying :: WriterMachine where
  "sample_flying = sample_admitted \<lparr> wm_pending := barrier_new, wm_next_batch := BatchId (nz_of 3),
     wm_flight := Some \<lparr> flight_batch = sample_batch, flight_forest = SharedForest 1 sample_after,
       flight_replies = [sample_reply] \<rparr>,
     wm_last_flush_started_at := Some 0 \<rparr>"

lemma sample_started_fields:
  "wm_started sample_started" "wm_ingress_open sample_started" "wm_flight sample_started = None"
  "wm_pending sample_started = \<lparr> barrier_commands = [], barrier_facts_bytes = 0 \<rparr>"
  "wm_checkpoint sample_started = None" "wm_last_flush_started_at sample_started = None"
  "wm_durable_batch sample_started = BatchId nz_min" "wm_next_batch sample_started = sample_batch"
  "wm_fresh_root sample_started = 1" "replay_batch (seal_replay (wm_seal sample_started)) = None"
  "wm_durable sample_started = SharedForest 0 forest_empty" "wm_checkpoint_attempt sample_started = 0"
  by (simp_all add: sample_started_def sample_machine_def barrier_new_def sample_recovery_def
      sample_seal_def Let_def replay_batch_def)

lemma sample_empty: "forest_size forest_empty = 0" "forest_resolve forest_empty p = None"
  by (simp_all add: forest_size_def forest_empty_def forest_resolve_def fcard.rep_eq)

lemma sample_fold: "strict_fold forest_empty sample_batch sample_fact = Some (Inr sample_after)"
  using strict_fold_created [OF forest_inv_empty] sample_empty
  by (simp add: sample_after_def bound_defs forest_resolve_def)

lemma sample_decision:
  "admit_decision sample_started sample_command =
     Some (AdmitFact \<lparr> admitted_forest = sample_after, admitted_fact = sample_fact \<rparr> sample_reply)"
  using successor_uid_inv [OF forest_inv_empty] sample_empty sample_fold
  by (simp add: admit_decision_def sample_started_def sample_machine_def sample_command_def
      admit_create_def apply_fact_def bound_defs)

lemma sample_small: "estimated_encoded_bytes sample_fact \<le> 896" "0 < estimated_encoded_bytes sample_fact"
  using estimated_encoded_bytes_le [of sample_fact] estimated_encoded_bytes_pos
  by (simp_all add: bound_defs)

lemmas sample_evaluation =
  handle_def apply_event_def schedule_def schedule_flush_def flush_due_def drain_pending_def
  take_checkpoint_def span_through_def checked_sub_def checked_add_def u64_max_def bound_defs
  barrier_new_def barrier_is_empty_def barrier_len_def barrier_has_facts_def pending_has_facts_def
  bytes_estimated_def hard_full_def spacing_satisfied_def admission_open_def
  WRITER_OUTPUTS_PER_STEP_MAX_def

lemma sample_step_started:
  "handle encode_wal sample_machine 0 Started
     = Some (sample_started, \<lparr> step_outputs = [], step_exit = None \<rparr>)"
  by (simp add: sample_evaluation sample_started_def sample_machine_def sample_recovery_def Let_def
      sample_seal_def replay_batch_def)

lemma sample_step_admitted:
  "apply_event sample_started (Command sample_command) = Some (sample_admitted, [], None)"
  using sample_small
  by (simp add: sample_evaluation sample_started_fields admit_def sample_decision accept_fact_def
      run_leaves_takeover_room_iff push_fact_def sample_admitted_def sample_pending_def)

lemma sample_step_scheduled:
  assumes "encoded_wal_new encode_wal sample_run = Some (Inr w)"
  shows "schedule encode_wal sample_admitted 0 = Some (sample_flying, [Effect (EstablishWal w)], None)"
proof -
  have "batch_successor sample_batch = Inr (BatchId (nz_of 3))" by (simp add: batch.successor_Inr)
  moreover have "encoded_wal_new encode_wal
      \<lparr> wal_partition = seal_partition (wm_seal sample_started), wal_batch = sample_batch,
        wal_owner = claim_owner (wm_claim sample_started), wal_body = WalRun [sample_fact] \<rparr> = Some (Inr w)"
    using assms by (simp add: sample_run_def sample_started_def)
  ultimately show ?thesis
    using sample_small
    by (simp add: sample_evaluation sample_admitted_def sample_started_fields sample_pending_def
        pending_facts_def wal_facts_try_from_def sample_flying_def Let_def)
qed

lemma sample_step_command:
  assumes "encoded_wal_new encode_wal sample_run = Some (Inr w)"
  shows "handle encode_wal sample_started 0 (Command sample_command)
     = Some (sample_flying, \<lparr> step_outputs = [Effect (EstablishWal w)], step_exit = None \<rparr>)"
  by (simp add: handle_def sample_started_fields sample_step_admitted sample_step_scheduled [OF assms]
      WRITER_OUTPUTS_PER_STEP_MAX_def)

lemma sample_step_durable:
  obtains m where "handle encode_wal sample_flying 0 (WalEstablished sample_batch (Inr WalDurable))
     = Some (m, \<lparr> step_outputs = [Action (PublishView sample_after), Action (SendReplies [sample_reply])],
                 step_exit = None \<rparr>)"
    "wm_durable m = SharedForest 1 sample_after"
  by (simp add: sample_evaluation wal_established_def record_wal_durable_def sample_flying_def
      sample_admitted_def sample_started_fields Let_def)

lemma sample_events:
  "event_ok sample_machine Started" "event_ok sample_started (Command sample_command)"
  "event_ok sample_flying (WalEstablished sample_batch (Inr WalDurable))"
  by (simp_all add: event_ok_def sample_machine_def sample_flying_def sample_admitted_def
      sample_started_fields admission_open_def hard_full_def barrier_len_def bytes_estimated_def
      bound_defs checked_add_def u64_max_def)

lemma sample_counters:
  "wm_checkpoint_attempt sample_machine < u64_max" "wm_checkpoint_attempt sample_started < u64_max"
  "wm_checkpoint_attempt sample_flying < u64_max"
  by (simp_all add: sample_flying_def sample_admitted_def sample_started_def sample_machine_def u64_max_def)

definition observed_run :: "EncodedWal \<Rightarrow> Observed" where
  "observed_run w = \<lparr> obs_commands = [sample_command], obs_log = [w], obs_flight = None,
     obs_sent = [sample_reply] \<rparr>"

definition sample_observed :: Observed where
  "sample_observed = observed_run sample_wal"

lemma sample_start_run: "writer_run encode_wal sample_machine sample_started nothing_seen"
  using writer_run.step [OF writer_run.start sample_events(1) sample_counters(1) sample_step_started]
  by (simp add: orderly_def observe_def nothing_seen_def wal_durable_event_def)

lemma sample_write_run:
  assumes w: "encoded_wal_new encode_wal sample_run = Some (Inr w)"
  shows "writer_run encode_wal sample_machine sample_flying
      \<lparr> obs_commands = [sample_command], obs_log = [], obs_flight = Some w, obs_sent = [] \<rparr>"
    and "\<exists>m. writer_run encode_wal sample_machine m (observed_run w) \<and> wm_durable m = SharedForest 1 sample_after"
proof -
  obtain m where m: "handle encode_wal sample_flying 0 (WalEstablished sample_batch (Inr WalDurable))
     = Some (m, \<lparr> step_outputs = [Action (PublishView sample_after), Action (SendReplies [sample_reply])],
                 step_exit = None \<rparr>)" "wm_durable m = SharedForest 1 sample_after"
    by (rule sample_step_durable)
  from writer_run.step [OF sample_start_run sample_events(2) sample_counters(2) sample_step_command [OF w]]
  show flying: "writer_run encode_wal sample_machine sample_flying
      \<lparr> obs_commands = [sample_command], obs_log = [], obs_flight = Some w, obs_sent = [] \<rparr>"
    by (simp add: orderly_def observe_def nothing_seen_def wal_durable_event_def)
  show "\<exists>m. writer_run encode_wal sample_machine m (observed_run w) \<and> wm_durable m = SharedForest 1 sample_after"
    using writer_run.step [OF flying sample_events(3) sample_counters(3) m(1)] m(2)
    by (auto simp: orderly_def observe_def nothing_seen_def wal_durable_event_def observed_run_def)
qed

lemma sample_encoded: "encoded_wal_new one_byte sample_run = Some (Inr sample_wal)"
  by (simp add: encoded_wal_new_def one_byte_def sample_wal_def sample_run_def sample_started_def
      assert_candidate_bytes_def bound_defs)

lemma sample_runs:
  "writer_run one_byte sample_machine sample_started nothing_seen"
  "\<exists>m. writer_run one_byte sample_machine m sample_observed \<and> wm_durable m = SharedForest 1 sample_after"
  using sample_start_run sample_write_run(2) [OF sample_encoded] by (simp_all add: sample_observed_def)

section \<open>Properties\<close>

text \<open>
  C32. Recovery hands over a sound machine: from a recovery with a valid Seal under the claim of its
  own generation, forests with the invariant and a durable head inside the WAL suffix of the cut,
  \<open>from_recovery\<close> does not panic, and the machine satisfies the invariant, has not started, has
  nothing pending or in flight, and serves the recovered forest.
\<close>

theorem recovered_machine_sound:
  assumes "recovery_ok r" "1 \<le> flush_buffer_bytes" "flush_buffer_bytes \<le> WAL_ENCODED_BYTES_MAX"
  shows "\<exists>m. from_recovery r interval flush_buffer_bytes = Some m \<and> writer_inv m \<and> idle m
     \<and> \<not> wm_started m \<and> forest_of (wm_durable m) = recovery_durable r
     \<and> wm_durable_batch m = recovery_durable_batch r"
  using from_recovery_ok [OF assms] by blast

theorem recovered_machine_sound_witness:
  "\<exists>m. from_recovery sample_recovery 5 4096 = Some m \<and> writer_inv m \<and> idle m
     \<and> forest_of (wm_durable m) = forest_empty"
  using recovered_machine_sound [OF sample_recovery_ok, of 4096 5]
  by (auto simp: bound_defs sample_recovery_def Let_def)

lemma run_inv:
  assumes "writer_run encode_wal m0 m h" "wal_encoder_ok encode_wal" "writer_inv m0" "idle m0"
  shows "writer_inv m"
  using writer_run_accounted [OF assms] by (simp add: accounted_def)

lemma run_stepped:
  assumes "writer_run encode_wal m0 m h" "wal_encoder_ok encode_wal" "writer_inv m0" "idle m0"
    and "event_ok m e" "wm_checkpoint_attempt m < u64_max"
  shows "\<exists>m' s. handle encode_wal m now e = Some (m', s)
     \<and> stepped encode_wal m e m' (step_outputs s) (step_exit s)"
  using handle_parts [OF run_inv [OF assms(1-4)] assms(5,2,6), of now] by blast

text \<open>
  C7. The writer machine never panics: after any run from an idle machine with the invariant, and
  for every event the interpreter may deliver, \<open>handle\<close> returns, as long as fewer than \<open>u64::MAX\<close>
  checkpoint attempts were started. It returns at most \<open>WRITER_OUTPUTS_PER_STEP_MAX\<close> outputs, only immediate actions when it exits, and the machine
  keeps the invariant unless it left by a fence, a poisoning or a contradiction.
\<close>

theorem writer_never_panics:
  assumes "writer_run encode_wal m0 m h" "wal_encoder_ok encode_wal" "writer_inv m0" "idle m0"
    and "event_ok m e" "wm_checkpoint_attempt m < u64_max"
  shows "\<exists>m' s. handle encode_wal m now e = Some (m', s)
     \<and> length (step_outputs s) \<le> WRITER_OUTPUTS_PER_STEP_MAX
     \<and> (step_exit s \<noteq> None \<longrightarrow> list_all is_action (step_outputs s))
     \<and> (step_exit s = None \<or> step_exit s = Some Shutdown \<longrightarrow> writer_inv m')"
  using run_stepped [OF assms, of now] by (auto simp: stepped_def orderly_def)

theorem writer_never_panics_witness:
  "\<exists>m' s. handle one_byte sample_started 3 (Command sample_command) = Some (m', s)
     \<and> length (step_outputs s) \<le> WRITER_OUTPUTS_PER_STEP_MAX"
  using writer_never_panics [OF sample_runs(1) one_byte_ok sample_machine_ok sample_events(2)
      sample_counters(2), of 3]
  by blast

lemma run_replies:
  assumes "writer_run encode_wal m0 m h" "wal_encoder_ok encode_wal" "writer_inv m0" "idle m0"
  shows "replies_of (obs_sent h) + outstanding m = mset (map command_reply (obs_commands h))"
  using assms
proof (induction rule: writer_run.induct)
  case start
  then show ?case by (simp add: nothing_seen_def outstanding_def idle_def)
next
  case (step m h e now m' s)
  have "stepped encode_wal m e m' (step_outputs s) (step_exit s)"
    using run_stepped [OF step.hyps(1) step.prems step.hyps(2,3), of now] step.hyps(4) by auto
  then have "replies_of (sent (step_outputs s)) + outstanding m' = arrivals e + outstanding m"
    using step.hyps(5) by (simp add: stepped_def)
  moreover have "mset (map command_reply (obs_commands (observe h e s)))
      = mset (map command_reply (obs_commands h)) + arrivals e"
    by (cases e) (simp_all add: observe_def arrivals_def)
  ultimately show ?case
    using step.IH [OF step.prems] by (simp add: observe_def) (metis add.assoc add.commute)
qed

text \<open>
  C13. No reply is lost, duplicated or invented: along every run, the reply channels of the commands
  delivered so far are, counted with multiplicity, those already answered together with those of the
  commands still pending or in flight.
\<close>

theorem replies_conserved:
  assumes "writer_run encode_wal m0 m h" "wal_encoder_ok encode_wal" "writer_inv m0" "idle m0"
  shows "mset (map completion_reply (obs_sent h)) + outstanding m
     = mset (map command_reply (obs_commands h))"
  using run_replies [OF assms] by (simp add: replies_of_def)

theorem replies_conserved_witness:
  "\<exists>m. writer_run one_byte sample_machine m sample_observed \<and> outstanding m = {#}"
proof -
  obtain m where run: "writer_run one_byte sample_machine m sample_observed"
    using sample_runs(2) by blast
  with replies_conserved [OF run one_byte_ok sample_machine_ok] show ?thesis
    by (auto simp: sample_observed_def observed_run_def sample_command_def)
qed

text \<open>
  C5. The durable state is the replay of the durable log: along every run, the WAL objects whose
  establishment was reported durable encode nonempty RUNs of the claim's owner, at consecutive
  coordinates from the one after recovery up to the durable head, and replaying their facts on the
  recovered forest gives the machine's durable forest.
\<close>

theorem durable_log_replays:
  assumes "writer_run encode_wal m0 m h" "wal_encoder_ok encode_wal" "writer_inv m0" "idle m0"
  shows "\<exists>runs. list_all2 (encodes_run encode_wal m0) (obs_log h) runs
     \<and> map (batch_get \<circ> fst) runs
         = [Suc (batch_get (wm_durable_batch m0))..<Suc (batch_get (wm_durable_batch m))]
     \<and> replay (forest_of (wm_durable m0)) (log_of runs) = Some (Inr (forest_of (wm_durable m)))"
  using writer_run_accounted [OF assms] by (auto simp: accounted_def log_ok_def)

theorem durable_log_replays_witness:
  "\<exists>runs. list_all2 (encodes_run one_byte sample_machine) [sample_wal] runs
     \<and> replay forest_empty (log_of runs) = Some (Inr sample_after)"
proof -
  obtain m where run: "writer_run one_byte sample_machine m sample_observed"
      and m: "wm_durable m = SharedForest 1 sample_after"
    using sample_runs(2) by blast
  with durable_log_replays [OF run one_byte_ok sample_machine_ok] show ?thesis
    by (auto simp: sample_observed_def observed_run_def sample_machine_def)
qed

text \<open>
  C12. Readers see durable state only: every view that a step without an exit, or with an orderly
  shutdown, publishes is the replay, on the recovered
  forest, of the RUN objects that were durable when the step ended.
\<close>

theorem published_view_is_durable:
  assumes "writer_run encode_wal m0 m h" "wal_encoder_ok encode_wal" "writer_inv m0" "idle m0"
    and "event_ok m e" "wm_checkpoint_attempt m < u64_max"
    and "handle encode_wal m now e = Some (m', s)"
    and "step_exit s = None \<or> step_exit s = Some Shutdown"
    and "Action (PublishView v) \<in> set (step_outputs s)"
  shows "\<exists>runs. list_all2 (encodes_run encode_wal m0) (obs_log (observe h e s)) runs
     \<and> replay (forest_of (wm_durable m0)) (log_of runs) = Some (Inr v)"
proof -
  have "writer_run encode_wal m0 m' (observe h e s)"
    using assms(1,5-8) by (intro writer_run.step) (simp_all add: orderly_def)
  then have "accounted encode_wal m0 m' (observe h e s)"
    using assms(2-4) by (rule writer_run_accounted)
  moreover have "v = forest_of (wm_durable m')"
    using run_stepped [OF assms(1-6), of now] assms(7,9) by (auto simp: stepped_def)
  ultimately show ?thesis by (auto simp: accounted_def log_ok_def)
qed

lemma sample_flying_run:
  "writer_run one_byte sample_machine sample_flying
     \<lparr> obs_commands = [sample_command], obs_log = [], obs_flight = Some sample_wal, obs_sent = [] \<rparr>"
  by (rule sample_write_run(1) [OF sample_encoded])

theorem published_view_is_durable_witness:
  "\<exists>runs. list_all2 (encodes_run one_byte sample_machine) [sample_wal] runs
     \<and> replay forest_empty (log_of runs) = Some (Inr sample_after)"
proof -
  obtain m where m: "handle one_byte sample_flying 0 (WalEstablished sample_batch (Inr WalDurable))
     = Some (m, \<lparr> step_outputs = [Action (PublishView sample_after), Action (SendReplies [sample_reply])],
                 step_exit = None \<rparr>)"
    by (rule sample_step_durable)
  show ?thesis
    using published_view_is_durable [OF sample_flying_run one_byte_ok sample_machine_ok sample_events(3)
        sample_counters(3) m, of sample_after]
    by (simp add: observe_def wal_durable_event_def sample_machine_def)
qed

text \<open>
  C4. Acknowledged means durable: along every run, the completions that report a created, closed or
  deleted stream are, in the order they were sent, in one-to-one correspondence with the facts of
  the durable RUN objects in log order; each answers a delivered command on its reply channel, and
  the fact is the one that command asked for. A run ends before a step that exits by a fence, a
  poisoning or a contradiction.
\<close>

theorem acknowledged_is_durable:
  assumes "writer_run encode_wal m0 m h" "wal_encoder_ok encode_wal" "writer_inv m0" "idle m0"
  shows "\<exists>runs. list_all2 (encodes_run encode_wal m0) (obs_log h) runs
     \<and> list_all2 (\<lambda>c op. \<exists>e\<in>set (obs_commands h). answers e c (Some op))
         (filter acknowledging (obs_sent h)) (concat (map snd runs))"
  using writer_run_accounted [OF assms] by (auto simp: accounted_def log_ok_def settles_def)

theorem acknowledged_is_durable_witness:
  "\<exists>op runs. list_all2 (encodes_run one_byte sample_machine) [sample_wal] runs
     \<and> concat (map snd runs) = [op] \<and> answers sample_command sample_reply (Some op)"
proof -
  obtain m where run: "writer_run one_byte sample_machine m sample_observed"
    using sample_runs(2) by blast
  have "filter acknowledging (obs_sent sample_observed) = [sample_reply]"
    by (simp add: sample_observed_def observed_run_def acknowledging_def)
  with acknowledged_is_durable [OF run one_byte_ok sample_machine_ok] show ?thesis
    by (fastforce simp: sample_observed_def observed_run_def list_all2_Cons1)
qed

text \<open>
  C14. An orderly shutdown leaves nothing behind: when \<open>handle\<close> exits with \<open>Shutdown\<close>, ingress is
  closed, no checkpoint is active, the admitted and the durable forest are the same, and every
  command ever delivered has been answered exactly once.
\<close>

theorem shutdown_answers_everything:
  assumes "writer_run encode_wal m0 m h" "wal_encoder_ok encode_wal" "writer_inv m0" "idle m0"
    and "event_ok m e" "wm_checkpoint_attempt m < u64_max"
    and "handle encode_wal m now e = Some (m', s)" "step_exit s = Some Shutdown"
  shows "\<not> wm_ingress_open m' \<and> wm_checkpoint m' = None \<and> wm_admitted m' = wm_durable m'
     \<and> mset (map completion_reply (obs_sent (observe h e s)))
         = mset (map command_reply (obs_commands (observe h e s)))"
proof -
  have "writer_run encode_wal m0 m' (observe h e s)"
    using assms(1,5-8) by (intro writer_run.step) (simp_all add: orderly_def)
  then have "replies_of (obs_sent (observe h e s)) + outstanding m'
      = mset (map command_reply (obs_commands (observe h e s)))"
    using assms(2-4) by (rule run_replies)
  moreover have "stepped encode_wal m e m' (step_outputs s) (step_exit s)"
    using run_stepped [OF assms(1-6), of now] assms(7) by auto
  ultimately show ?thesis
    using assms(8) by (simp add: stepped_def replies_of_def)
qed

lemma sample_close:
  "\<exists>m. handle one_byte sample_started 0 IngressClosed
     = Some (m, \<lparr> step_outputs = [], step_exit = Some Shutdown \<rparr>)"
proof -
  have "wm_admitted sample_started = SharedForest 0 forest_empty"
    by (simp add: sample_started_def sample_machine_def)
  then show ?thesis
    by (simp add: sample_evaluation sample_started_fields close_ingress_def assert_quiescent_def
        shares_roots_with_def)
qed

theorem shutdown_answers_everything_witness:
  "\<exists>m. handle one_byte sample_started 0 IngressClosed
       = Some (m, \<lparr> step_outputs = [], step_exit = Some Shutdown \<rparr>) \<and> \<not> wm_ingress_open m"
proof -
  obtain m where m: "handle one_byte sample_started 0 IngressClosed
     = Some (m, \<lparr> step_outputs = [], step_exit = Some Shutdown \<rparr>)"
    using sample_close by blast
  moreover have "event_ok sample_started IngressClosed"
    by (simp add: event_ok_def sample_started_fields)
  ultimately show ?thesis
    using shutdown_answers_everything [OF sample_runs(1) one_byte_ok sample_machine_ok _
        sample_counters(2) m] by simp
qed

text \<open>
  C29. Every RUN leaves room for a takeover: along every run of the machine, a RUN in flight has a
  successor coordinate within the suffix bound of the Seal's cut, and \<open>bound_takeover_fence\<close> accepts a
  FENCE there, with one exception: when the successor is the very last coordinate, it answers that no
  RUN coordinate is left after it.
\<close>

theorem flight_leaves_takeover_room:
  assumes "writer_run encode_wal m0 m h" "wal_encoder_ok encode_wal" "writer_inv m0" "idle m0"
    and "wm_flight m = Some f"
  shows "\<exists>fence. batch_successor (flight_batch f) = Inr fence
     \<and> bound_takeover_fence (replay_batch (seal_replay (wm_seal m))) fence
       = (if batch_get fence < u64_max then Inr (TakeoverFence fence) else Inl NoRunCoordinate)"
proof -
  have "coordinates_ok m"
    using run_inv [OF assms(1-4)] by (simp add: writer_inv_def writer_core_def)
  then have "run_leaves_takeover_room (replay_batch (seal_replay (wm_seal m))) (flight_batch f)"
    using assms(5) batch.get_le_max [of "wm_next_batch m"]
    by (auto simp: coordinates_ok_def replay_cut_def run_leaves_takeover_room_iff)
  then show ?thesis by (rule takeover_of_reserved)
qed

theorem flight_leaves_takeover_room_witness:
  "\<exists>fence. batch_successor sample_batch = Inr fence
     \<and> bound_takeover_fence None fence = Inr (TakeoverFence fence)"
proof -
  have "wm_flight sample_flying = Some \<lparr> flight_batch = sample_batch,
      flight_forest = SharedForest 1 sample_after, flight_replies = [sample_reply] \<rparr>"
    "replay_batch (seal_replay (wm_seal sample_flying)) = None"
    by (simp_all add: sample_flying_def sample_admitted_def sample_started_fields)
  with flight_leaves_takeover_room [OF sample_flying_run one_byte_ok sample_machine_ok this(1)]
  show ?thesis by (auto simp: u64_max_def batch.successor_Inr)
qed

lemma schedule_drains:
  assumes core: "writer_core m" and enc: "wal_encoder_ok encode_wal"
    and counter: "wm_checkpoint_attempt m < u64_max" and flight: "wm_flight m = None"
    and pending: "pending_ops m \<noteq> []" and due: "flush_due m now = Some True"
  shows "\<exists>m' outs w. schedule encode_wal m now = Some (m', outs, None)
     \<and> Effect (EstablishWal w) \<in> set outs \<and> run_issued encode_wal m' (pending_ops m) w"
proof -
  obtain m2 m' flush planned exit where sch:
      "schedule encode_wal m now = Some (m', flush @ planned, exit)"
      "scheduled encode_wal m now m2 m' flush planned exit"
    using schedule_ok [OF core enc counter] by blast
  have commands: "barrier_commands (wm_pending m) \<noteq> []" using pending by (auto simp: pending_ops_def)
  then obtain m1 out where dr: "drain_pending encode_wal m now = Some (m1, out)"
      "drained encode_wal m now m1 out"
    using drain_pending_drained [OF core enc flight] by blast
  then obtain w where w: "out = Effect (EstablishWal w)" "run_issued encode_wal m1 (pending_ops m) w"
    using pending by (auto simp: drained_def)
  have "schedule_flush encode_wal m now = Some (m1, [out])"
    using flight due commands dr(1) by (simp add: schedule_flush_def barrier_is_empty_def)
  with sch(1) have "\<exists>rest. [out] @ rest = flush @ planned"
    by (auto simp: schedule_def bind_eq_Some_conv split: if_split_asm)
  then have shape: "out \<in> set flush \<union> set planned"
    by (metis append_Cons list.set_intros(1) set_append)
  have flush: "flushed encode_wal m now m2 flush" and frame: "checkpoint_frame m2 m'"
      and planned: "\<And>w. Effect (EstablishWal w) \<notin> set planned"
    using sch(2) by (auto simp: scheduled_def)
  have "flush = [out]" and dr2: "drained encode_wal m now m2 out"
    using flush shape planned w(1) by (auto simp: flushed_def)
  then have issued: "run_issued encode_wal m2 (pending_ops m) w"
    using pending w(1) by (auto simp: drained_def)
  then have issued': "run_issued encode_wal m' (pending_ops m) w"
    using checkpoint_frame_fields [OF frame] by (simp add: run_issued_def)
  then have "exit = None"
    using sch(2) by (auto simp: scheduled_def run_issued_def)
  with sch(1) \<open>flush = [out]\<close> w(1) issued' show ?thesis by auto
qed

lemma flush_due_at_deadline:
  assumes "writer_core m" "spacing_satisfied m now"
  shows "flush_due m now = Some True"
  using assms flush_due_ok [OF assms(1), of now]
  by (auto simp: flush_due_def writer_parts hard_full_ok barrier_bytes)

text \<open>
  C30. Pending facts are flushed: when the flush timer fires at or after its deadline, with commands
  pending and no RUN in flight, the step issues the RUN that carries every pending fact.
\<close>

theorem flush_deadline_issues_run:
  assumes "writer_inv m" "wal_encoder_ok encode_wal" "wm_checkpoint_attempt m < u64_max"
    and "event_ok m FlushDue" "wm_flight m = None" "barrier_commands (wm_pending m) \<noteq> []"
    and "wm_last_flush_started_at m = Some t" "instant_saturating_add t (wm_flush_interval_min m) \<le> now"
  shows "\<exists>m' s w. handle encode_wal m now FlushDue = Some (m', s) \<and> step_exit s = None
     \<and> Effect (EstablishWal w) \<in> set (step_outputs s) \<and> run_issued encode_wal m' (pending_ops m) w"
proof -
  let ?m = "m \<lparr> wm_flush_armed := False \<rparr>"
  have core: "writer_core ?m"
    using assms(1) by (subst writer_core_cong [of ?m m]) (simp_all add: writer_inv_def)
  have pending: "pending_ops ?m = pending_ops m" "pending_ops m \<noteq> []"
    using assms(1,5,6) by (auto simp: writer_inv_def barrier_settled_def pending_ops_def)
  have "flush_due ?m now = Some True"
    using assms(7,8) by (intro flush_due_at_deadline [OF core]) (simp add: spacing_satisfied_def)
  then obtain m' outs w where w: "schedule encode_wal ?m now = Some (m', outs, None)"
      "Effect (EstablishWal w) \<in> set outs" "run_issued encode_wal m' (pending_ops m) w"
    using schedule_drains [OF core assms(2), of now] assms(3,5) pending by auto
  have "apply_event m FlushDue = Some (?m, [], None)" "wm_started m"
    using assms(4) by (simp_all add: apply_event_def event_ok_def)
  then have "handle encode_wal m now FlushDue =
      (if length outs \<le> WRITER_OUTPUTS_PER_STEP_MAX
       then Some (m', \<lparr> step_outputs = outs, step_exit = None \<rparr>) else None)"
    using w(1) by (simp add: handle_def)
  moreover have "handle encode_wal m now FlushDue \<noteq> None"
    using handle_parts [OF assms(1,4,2,3), of now] by blast
  ultimately have "handle encode_wal m now FlushDue
      = Some (m', \<lparr> step_outputs = outs, step_exit = None \<rparr>)"
    by (metis option.simps(3))
  with w(2,3) show ?thesis by auto
qed

definition sample_armed :: WriterMachine where
  "sample_armed = sample_admitted \<lparr> wm_last_flush_started_at := Some 4, wm_flush_armed := True \<rparr>"

lemma sample_armed_inv: "writer_inv sample_armed"
proof -
  have inv: "writer_inv sample_started"
    by (rule run_inv [OF sample_runs(1) one_byte_ok sample_machine_ok])
  have "\<not> barrier_full (wm_pending sample_started)"
    by (simp add: sample_started_fields barrier_full_def bound_defs)
  moreover have "admit sample_started sample_command = Some (sample_admitted, None)"
    using sample_small
    by (simp add: sample_evaluation sample_started_fields admit_def sample_decision accept_fact_def
        run_leaves_takeover_room_iff push_fact_def sample_admitted_def sample_pending_def)
  ultimately have "writer_inv sample_admitted"
    using admit_ok [OF inv, of sample_command] by simp
  then show ?thesis
    using writer_core_cong [of sample_armed sample_admitted]
    by (simp add: writer_inv_def sample_armed_def barrier_settled_def pending_ops_def)
qed

theorem flush_deadline_issues_run_witness:
  "\<exists>m s w. handle one_byte sample_armed 4 FlushDue = Some (m, s)
     \<and> Effect (EstablishWal w) \<in> set (step_outputs s)"
proof -
  have "event_ok sample_armed FlushDue" "wm_flight sample_armed = None"
    "barrier_commands (wm_pending sample_armed) \<noteq> []" "wm_last_flush_started_at sample_armed = Some 4"
    "wm_checkpoint_attempt sample_armed < u64_max"
    "instant_saturating_add 4 (wm_flush_interval_min sample_armed) \<le> 4"
    by (simp_all add: sample_armed_def event_ok_def sample_admitted_def sample_started_def
        sample_machine_def sample_pending_def u64_max_def instant_saturating_add_def)
  then show ?thesis
    using flush_deadline_issues_run [OF sample_armed_inv one_byte_ok, of 4 4] by blast
qed

text \<open>
  C31. Shutdown is reached: once ingress is closed and the commands pending at that time have been
  taken into the RUN in flight, the report that this RUN is durable ends the machine with
  \<open>Shutdown\<close>, unless a checkpoint is still active.
\<close>

theorem last_durable_run_shuts_down:
  assumes "writer_inv m" "wal_encoder_ok encode_wal" "wm_checkpoint_attempt m < u64_max"
    and "event_ok m (WalEstablished b (Inr WalDurable))" "\<not> wm_ingress_open m"
    and "barrier_commands (wm_pending m) = []" "wm_checkpoint m = None"
  shows "\<exists>m' s. handle encode_wal m now (WalEstablished b (Inr WalDurable)) = Some (m', s)
     \<and> step_exit s = Some Shutdown
     \<and> (\<forall>f. wm_flight m = Some f \<longrightarrow> Action (SendReplies (flight_replies f)) \<in> set (step_outputs s))"
proof -
  have core: "writer_core m" using assms(1) by (simp add: writer_inv_def)
  obtain f where f: "wm_flight m = Some f" "flight_batch f = b" and started: "wm_started m"
    using assms(4) by (auto simp: event_ok_def)
  have "pending_ops m = []" using assms(6) by (simp add: pending_ops_def)
  then have admitted: "wm_admitted m = flight_forest f"
    using core f by (simp add: writer_parts flight_base_simps)
  show ?thesis
    using f started admitted assms(5-7)
    by (simp add: handle_def apply_event_def wal_established_def record_wal_durable_def Let_def
        barrier_is_empty_def schedule_def schedule_flush_def assert_quiescent_def
        shares_roots_with_def WRITER_OUTPUTS_PER_STEP_MAX_def is_action_def)
qed

theorem last_durable_run_shuts_down_witness:
  "\<exists>m s. handle one_byte (sample_flying \<lparr> wm_ingress_open := False \<rparr>) 0
        (WalEstablished sample_batch (Inr WalDurable)) = Some (m, s)
     \<and> step_exit s = Some Shutdown"
proof -
  let ?m = "sample_flying \<lparr> wm_ingress_open := False \<rparr>"
  have "writer_inv sample_flying"
    by (rule run_inv [OF sample_flying_run one_byte_ok sample_machine_ok])
  then have "writer_inv ?m"
    using writer_core_cong [of ?m sample_flying]
    by (simp add: writer_inv_def barrier_settled_def pending_ops_def)
  moreover have "event_ok ?m (WalEstablished sample_batch (Inr WalDurable))"
    using sample_events(3) by (simp add: event_ok_def)
  moreover have "barrier_commands (wm_pending ?m) = []" "wm_checkpoint ?m = None"
    "wm_checkpoint_attempt ?m < u64_max"
    using sample_counters(3)
    by (simp_all add: sample_flying_def barrier_new_def sample_admitted_def sample_started_fields)
  ultimately show ?thesis
    using last_durable_run_shuts_down [OF _ one_byte_ok, of ?m sample_batch 0] by auto
qed

end
