(* ===== verification/Bootstrap_Invariant.thy ===== *)
theory Bootstrap_Invariant
  imports Bootstrap Writer_Theorems
begin

text \<open>
  The invariant of the bootstrap machine, the completions an interpreter may deliver in each state,
  and for each handler that it returns, keeps the invariant and makes progress.
\<close>

section \<open>Invariant\<close>

definition boot_cut :: "Seal \<Rightarrow> BatchId option" where
  "boot_cut seal = replay_batch (seal_replay seal)"

definition claimed_ok :: "ClaimedBootstrap \<Rightarrow> bool" where
  "claimed_ok c \<longleftrightarrow>
     claimed_claim c = authored_claim_new (seal_generation (claimed_seal c)) \<and> seal_valid (claimed_seal c)"

definition resident_ok :: "MergedRows \<Rightarrow> bool" where
  "resident_ok m \<longleftrightarrow>
     merged_resident_bytes m =
       fcard (fmdom (merged_directory m)) * DIRECTORY_ROW_LOGICAL_BYTES_MAX
       + fcard (fmdom (merged_ledger m)) * LEDGER_VALUE_ROW_LOGICAL_BYTES_MAX
     \<and> merged_resident_bytes m \<le> PARTITION_RESIDENT_LOGICAL_BYTES_MAX_V2"

definition loaded_ok :: "LoadedBootstrap \<Rightarrow> bool" where
  "loaded_ok l \<longleftrightarrow>
     claimed_ok (loaded_claimed l) \<and> forest_inv (loaded_base l) \<and> forest_inv (loaded_durable l)"

definition fence_within :: "LoadedBootstrap \<Rightarrow> TakeoverFence \<Rightarrow> bool" where
  "fence_within l f \<longleftrightarrow>
     bound_takeover_fence (boot_cut (claimed_seal (loaded_claimed l))) (fence_batch f) = Inr f"

fun boot_inv :: "BootstrapState \<Rightarrow> bool" where
  "boot_inv (PublishingClaim c sources) \<longleftrightarrow>
     seal_valid c \<and> length sources \<le> PARTITION_BOOTSTRAP_OBJECTS_MAX_V2"
| "boot_inv (ReadingTable load source) \<longleftrightarrow>
     claimed_ok (load_claimed load) \<and> resident_ok (load_merged load)
     \<and> length (load_remaining load) < PARTITION_BOOTSTRAP_OBJECTS_MAX_V2"
| "boot_inv (ObservingWalTail l occupied) \<longleftrightarrow>
     loaded_ok l \<and> (\<forall>b. occupied = Some b \<longrightarrow> fence_within l (TakeoverFence b))"
| "boot_inv (ReadingWalTail l f tail) \<longleftrightarrow> loaded_ok l \<and> fence_within l f"
| "boot_inv (EstablishingFence l f) \<longleftrightarrow> loaded_ok l \<and> fence_within l f"
| "boot_inv (Replaying r) \<longleftrightarrow>
     loaded_ok (replay_loaded r) \<and> fence_within (replay_loaded r) (replay_fence r)
     \<and> cut_get (boot_cut (claimed_seal (loaded_claimed (replay_loaded r)))) < batch_get (replay_next r)
     \<and> replay_next r \<le> fence_batch (replay_fence r)"
| "boot_inv (RefreshingFinal r) \<longleftrightarrow> recovery_ok r"
| "boot_inv _ \<longleftrightarrow> True"

subsection \<open>Completions that an interpreter may deliver\<close>

definition decoded_ok :: "StoreKind \<Rightarrow> DecodedTable \<Rightarrow> bool" where
  "decoded_ok store d \<longleftrightarrow>
     (case d of
        DecodedDirectory rows \<Rightarrow> store = StoreDirectory \<and> rows \<noteq> []
      | DecodedLedger rows \<Rightarrow> store = StoreLedger \<and> rows \<noteq> [])"

definition read_ok :: "LoadedBootstrap \<Rightarrow> BatchId \<Rightarrow> WalObject option \<Rightarrow> bool" where
  "read_ok l b observed \<longleftrightarrow>
     (\<forall>w. observed = Some w \<longrightarrow>
        wal_batch w = b \<and> wal_partition w = seal_partition (claimed_seal (loaded_claimed l)))"

definition boot_event_ok :: "BootstrapState \<Rightarrow> BootstrapEvent \<Rightarrow> bool" where
  "boot_event_ok state event \<longleftrightarrow>
     (case event of
        BootStarted p \<Rightarrow> state = BootInitial
      | HeadObserved r \<Rightarrow>
          (case state of DiscoveringHead _ \<Rightarrow> True | RefreshingAnomaly _ _ \<Rightarrow> True
           | RefreshingFinal _ \<Rightarrow> True | _ \<Rightarrow> False)
      | GenesisEstablishedEvent r \<Rightarrow> (case state of EstablishingGenesis _ \<Rightarrow> True | _ \<Rightarrow> False)
      | SealRead r \<Rightarrow>
          (case state of
             ReadingSeal g \<Rightarrow> (\<forall>s. r = Some s \<longrightarrow> seal_generation s = g \<and> seal_valid s)
           | _ \<Rightarrow> False)
      | ClaimPublished r \<Rightarrow> (case state of PublishingClaim _ _ \<Rightarrow> True | _ \<Rightarrow> False)
      | TableRead t d \<Rightarrow>
          (case state of
             ReadingTable load source \<Rightarrow>
               planned_table source = t \<and> decoded_ok (table_store (ref_object t)) d
           | _ \<Rightarrow> False)
      | WalTailObserved r \<Rightarrow> (case state of ObservingWalTail _ _ \<Rightarrow> True | _ \<Rightarrow> False)
      | WalRead observed \<Rightarrow>
          (case state of
             ReadingWalTail l f tail \<Rightarrow> read_ok l tail observed
           | Replaying r \<Rightarrow>
               read_ok (replay_loaded r) (replay_next r) observed
               \<and> (\<forall>w. observed = Some w \<longrightarrow> replay_next r = fence_batch (replay_fence r) \<longrightarrow>
                    wal_body w = WalFence
                    \<and> wal_owner w = claim_owner (claimed_claim (loaded_claimed (replay_loaded r))))
           | _ \<Rightarrow> False)
      | FenceEstablished r \<Rightarrow> (case state of EstablishingFence _ _ \<Rightarrow> True | _ \<Rightarrow> False)
      | StoreFailed e \<Rightarrow> state \<noteq> BootInitial \<and> state \<noteq> BootCompleteState)"

text \<open>
  What bootstrap relies on about the encoders: an encoded object is nonempty and within its bound.
\<close>

definition boot_encoders_ok :: "seal_encoder \<Rightarrow> wal_encoder \<Rightarrow> bool" where
  "boot_encoders_ok encode_seal encode_wal \<longleftrightarrow>
     (\<forall>s bs. encode_seal s = Inr bs \<longrightarrow> bs \<noteq> [] \<and> length bs \<le> SEAL_ENCODED_BYTES_MAX)
     \<and> (\<forall>w bs. encode_wal w = Inr bs \<longrightarrow> bs \<noteq> [] \<and> length bs \<le> WAL_ENCODED_BYTES_MAX)"

section \<open>Progress\<close>

text \<open>
  A bound on the effects still to come from a state: the tables to read, three effects for each
  fence candidate, one for each coordinate to replay, and the refresh. Only a lost genesis race
  leads back to a state with a larger bound.
\<close>

definition fence_slack :: "LoadedBootstrap \<Rightarrow> nat \<Rightarrow> nat" where
  "fence_slack l n =
     cut_get (boot_cut (claimed_seal (loaded_claimed l))) + WAL_SUFFIX_COORDINATES_MAX_V2 - n"

definition REPLAY_STEPS :: nat where
  "REPLAY_STEPS = WAL_SUFFIX_COORDINATES_MAX_V2 + 1"

definition TAIL_STEPS :: nat where
  "TAIL_STEPS = 3 * WAL_SUFFIX_COORDINATES_MAX_V2 + REPLAY_STEPS + 1"

fun boot_steps :: "BootstrapState \<Rightarrow> nat" where
  "boot_steps BootInitial = PARTITION_BOOTSTRAP_OBJECTS_MAX_V2 + TAIL_STEPS + 6"
| "boot_steps (DiscoveringHead _) = PARTITION_BOOTSTRAP_OBJECTS_MAX_V2 + TAIL_STEPS + 5"
| "boot_steps (EstablishingGenesis _) = PARTITION_BOOTSTRAP_OBJECTS_MAX_V2 + TAIL_STEPS + 4"
| "boot_steps (ReadingSeal _) = PARTITION_BOOTSTRAP_OBJECTS_MAX_V2 + TAIL_STEPS + 3"
| "boot_steps (PublishingClaim _ sources) = length sources + TAIL_STEPS + 2"
| "boot_steps (ReadingTable load _) = length (load_remaining load) + TAIL_STEPS + 1"
| "boot_steps (ObservingWalTail l occupied) =
     3 * fence_slack l (case occupied of
         None \<Rightarrow> cut_get (boot_cut (claimed_seal (loaded_claimed l))) | Some b \<Rightarrow> batch_get b)
     + REPLAY_STEPS + 1"
| "boot_steps (ReadingWalTail l f _) = 3 * fence_slack l (batch_get (fence_batch f)) + REPLAY_STEPS + 3"
| "boot_steps (EstablishingFence l f) = 3 * fence_slack l (batch_get (fence_batch f)) + REPLAY_STEPS + 2"
| "boot_steps (Replaying r) =
     batch_get (fence_batch (replay_fence r)) - batch_get (replay_next r) + 2"
| "boot_steps (RefreshingAnomaly _ _) = 1"
| "boot_steps (RefreshingFinal _) = 1"
| "boot_steps BootCompleteState = 0"

section \<open>One step\<close>

text \<open>The one effect outstanding in a state.\<close>

fun awaits :: "BootstrapState \<Rightarrow> BootstrapEffect \<Rightarrow> bool" where
  "awaits (DiscoveringHead _) eff \<longleftrightarrow> eff = ObserveHead"
| "awaits (RefreshingAnomaly _ _) eff \<longleftrightarrow> eff = ObserveHead"
| "awaits (RefreshingFinal _) eff \<longleftrightarrow> eff = ObserveHead"
| "awaits (EstablishingGenesis p) eff \<longleftrightarrow>
     (\<exists>c. eff = EstablishGenesis c \<and> seal_partition (eseal_seal (genesis_encoded c)) = p
        \<and> seal_generation (eseal_seal (genesis_encoded c)) = seal_generation_genesis)"
| "awaits (ReadingSeal g) eff \<longleftrightarrow> eff = ReadSeal g"
| "awaits (PublishingClaim c _) eff \<longleftrightarrow> (\<exists>e. eff = PublishClaim e \<and> authority_seal e = c)"
| "awaits (ReadingTable load source) eff \<longleftrightarrow>
     eff = ReadTable (seal_partition (claimed_seal (load_claimed load))) (planned_table source)"
| "awaits (ObservingWalTail _ _) eff \<longleftrightarrow> eff = ObserveWalTail"
| "awaits (ReadingWalTail l _ tail) eff \<longleftrightarrow>
     eff = ReadWal (seal_partition (claimed_seal (loaded_claimed l))) tail"
| "awaits (EstablishingFence l f) eff \<longleftrightarrow>
     (\<exists>w. eff = EstablishFence w \<and> ewal_batch w = fence_batch f
        \<and> ewal_partition w = seal_partition (claimed_seal (loaded_claimed l)))"
| "awaits (Replaying r) eff \<longleftrightarrow>
     eff = ReadWal (seal_partition (claimed_seal (loaded_claimed (replay_loaded r)))) (replay_next r)"
| "awaits _ eff \<longleftrightarrow> False"

abbreviation lost_race :: BootstrapEvent where
  "lost_race \<equiv> GenesisEstablishedEvent GenesisLostRace"

definition boot_ok :: "BootstrapState \<Rightarrow> BootstrapEvent \<Rightarrow> boot_result \<Rightarrow> bool" where
  "boot_ok state event result \<longleftrightarrow>
     (\<exists>state' step. result = Some (\<lparr> bm_state = Some state' \<rparr>, step) \<and> boot_inv state'
        \<and> (case step of
             BootEffect eff \<Rightarrow> awaits state' eff
               \<and> (event = lost_race \<or> boot_steps state' < boot_steps state)
           | BootComplete r \<Rightarrow> state' = BootCompleteState \<and> state = RefreshingFinal r \<and> recovery_ok r
           | BootExit _ \<Rightarrow> state' = BootCompleteState))"

lemma boot_ok_simps [simp]:
  "boot_ok s e (boot_exit x)"
  "boot_ok s e (boot_effect s' eff) \<longleftrightarrow>
     boot_inv s' \<and> awaits s' eff \<and> (e = lost_race \<or> boot_steps s' < boot_steps s)"
  "boot_ok s e (boot_complete r) \<longleftrightarrow> s = RefreshingFinal r \<and> recovery_ok r"
  by (auto simp: boot_ok_def boot_exit_def boot_effect_def boot_complete_def)

lemma boot_ok_anomaly [simp]:
  "boot_ok s e (refresh_anomaly c d) \<longleftrightarrow> e = lost_race \<or> 1 < boot_steps s"
  by (simp add: refresh_anomaly_def)

lemma encoded_wal_total:
  assumes "boot_encoders_ok encode_seal encode_wal"
  obtains (failed) e where "encoded_wal_new encode_wal w = Some (Inl e)"
  | (encoded) x where "encoded_wal_new encode_wal w = Some (Inr x)" "ewal_batch x = wal_batch w"
      "ewal_partition x = wal_partition w"
  using assms
  by (cases "encode_wal w") (auto simp: encoded_wal_new_def boot_encoders_ok_def assert_candidate_bytes_def)

lemma encoded_seal_total:
  assumes "boot_encoders_ok encode_seal encode_wal"
  obtains (failed) e where "encoded_seal_new encode_seal s = Some (Inl e)"
  | (encoded) x where "encoded_seal_new encode_seal s = Some (Inr x)" "eseal_seal x = s"
  using assms
  by (cases "encode_seal s") (auto simp: encoded_seal_new_def boot_encoders_ok_def assert_candidate_bytes_def)

lemma establish_genesis_ok:
  assumes enc: "boot_encoders_ok encode_seal encode_wal"
  shows "boot_ok (DiscoveringHead p) e (establish_genesis encode_seal p)"
proof -
  let ?s = "\<lparr> seal_partition = p, seal_generation = seal_generation_genesis, seal_replay = ReplayGenesis,
     seal_directory = tree_empty, seal_ledger = tree_empty \<rparr>"
  have "seal_new p seal_generation_genesis ReplayGenesis tree_empty tree_empty = Inr ?s"
    by (simp add: seal_new_cases tree_is_empty_def tree_empty_def tree_tables_def seal_tables_def)
  then show ?thesis
    by (cases rule: encoded_seal_total [OF enc, of ?s])
      (simp_all add: establish_genesis_def genesis_candidate_def)
qed

lemma handle_head_ok:
  assumes enc: "boot_encoders_ok encode_seal encode_wal"
    and inv: "boot_inv s" and event: "boot_event_ok s (HeadObserved r)"
  shows "boot_ok s (HeadObserved r) (handle_head encode_seal s r)"
  using inv event establish_genesis_ok [OF enc]
  by (cases s; cases r) (auto simp: handle_head_def boot_event_ok_def)

lemma handle_genesis_ok:
  assumes "boot_event_ok s (GenesisEstablishedEvent r)"
  shows "boot_ok s (GenesisEstablishedEvent r) (handle_genesis s r)"
  using assms by (cases s; cases r) (auto simp: handle_genesis_def boot_event_ok_def)

lemma count_sources_Inr:
  "count_sources objects weight ts = Inr (n, w) \<Longrightarrow>
     n = objects + length ts \<and> w = weight + sum_list (map (nz_get \<circ> ref_object_bytes) ts)"
proof (induction ts arbitrary: objects weight)
  case (Cons t ts)
  have "count_sources (objects + 1) (weight + nz_get (ref_object_bytes t)) ts = Inr (n, w)"
    using Cons.prems by (auto simp: checked_add_def split: if_split_asm)
  from Cons.IH [OF this] show ?case by simp
qed simp

lemma run_sources_tables: "map planned_table (run_sources run) = run_tables run"
  by (simp add: run_sources_def case_prod_unfold comp_def map_snd_enumerate)

lemma length_tree_sources: "length (tree_sources tree) = length (tree_tables tree)"
proof -
  have "length (run_sources run) = length (run_tables run)" for run
    by (simp add: run_sources_def)
  then show ?thesis
    by (simp add: tree_sources_def tree_tables_def length_concat comp_def rev_map [symmetric])
qed

lemma plan_bootstrap_sources_Inr:
  assumes "plan_bootstrap_sources seal = Inr sources"
  shows "sources = tree_sources (seal_directory seal) @ tree_sources (seal_ledger seal)"
    and "length sources = length (seal_tables seal)"
    and "length sources \<le> PARTITION_BOOTSTRAP_OBJECTS_MAX_V2"
    and "sum_list (map (nz_get \<circ> ref_object_bytes) (seal_tables seal)) \<le> PARTITION_BOOTSTRAP_BYTES_MAX_V2"
proof -
  obtain n w where count: "count_sources 0 0 (seal_tables seal) = Inr (n, w)"
    using assms by (auto simp: plan_bootstrap_sources_def try_ok_Inr)
  note nw = count_sources_Inr [OF count]
  show sources: "sources = tree_sources (seal_directory seal) @ tree_sources (seal_ledger seal)"
    using assms count by (auto simp: plan_bootstrap_sources_def split: if_split_asm)
  show len: "length sources = length (seal_tables seal)"
    by (simp add: sources length_tree_sources seal_tables_def)
  show "length sources \<le> PARTITION_BOOTSTRAP_OBJECTS_MAX_V2"
    "sum_list (map (nz_get \<circ> ref_object_bytes) (seal_tables seal)) \<le> PARTITION_BOOTSTRAP_BYTES_MAX_V2"
    using assms count nw len by (auto simp: plan_bootstrap_sources_def split: if_split_asm)
qed

lemma handle_seal_ok:
  assumes enc: "boot_encoders_ok encode_seal encode_wal" and event: "boot_event_ok s (SealRead r)"
  shows "boot_ok s (SealRead r) (handle_seal encode_seal s r)"
proof (cases r)
  case None
  with event show ?thesis by (cases s) (simp_all add: handle_seal_def boot_event_ok_def)
next
  case (Some head)
  with event obtain g where s: "s = ReadingSeal g" "seal_generation head = g" "seal_valid head"
    by (cases s) (simp_all add: boot_event_ok_def)
  show ?thesis
  proof (cases "plan_bootstrap_sources head")
    case (Inl x)
    with s Some show ?thesis by (simp add: handle_seal_def)
  next
    case sources: (Inr sources)
    show ?thesis
    proof (cases "claim_successor head")
      case (Inl x)
      with s Some sources show ?thesis by (simp add: handle_seal_def)
    next
      case (Inr c)
      then have "seal_valid c" by (rule claim_successor_valid [OF s(3)])
      moreover have "seal_generation c \<noteq> seal_generation_genesis"
        using Inr seal_gen.successor_greater seal_generation_genesis_least [of "seal_generation head"]
        by (fastforce simp: claim_successor_Inr)
      ultimately show ?thesis
        using s Some sources Inr plan_bootstrap_sources_Inr(3) [OF sources]
        by (cases rule: encoded_seal_total [OF enc, of c])
          (simp_all add: handle_seal_def authority_candidate_def authority_seal_def)
    qed
  qed
qed

subsection \<open>Loading tables\<close>

text \<open>Both row merges are strict logs: with exact resident accounting they never panic, and keep it.\<close>

lemma add_resident_bytes_Inr:
  "add_resident_bytes a b = Inr c \<longleftrightarrow> c = a + b \<and> c \<le> PARTITION_RESIDENT_LOGICAL_BYTES_MAX_V2"
  by (auto simp: add_resident_bytes_def try_ok_Inr bound_defs u64_max_def split: if_split_asm)

lemma and_then_Some_None: "and_then (Some r) f = None \<longleftrightarrow> (\<exists>x. r = Inr x \<and> f x = None)"
  by (cases r) simp_all

lemma merge_directory_row_Inr:
  assumes "merge_directory_row m (k, e) = Some (Inr m')"
  shows "merged_directory m' = fmupd k e (merged_directory m)" "merged_ledger m' = merged_ledger m"
  using assms by (auto simp: merge_directory_row_def and_then_Inr split: if_split_asm)

lemma merge_ledger_row_Inr:
  assumes "merge_ledger_row m (u, c) = Some (Inr m')"
  shows "merged_directory m' = merged_directory m"
    and "merged_ledger m' =
      (case c of CellValue r \<Rightarrow> fmupd u r (merged_ledger m) | CellDelete \<Rightarrow> fmdrop u (merged_ledger m))"
proof -
  have "fmdrop u (merged_ledger m) = merged_ledger m" if "u |\<notin>| fmdom (merged_ledger m)"
    using that by (intro fmap_ext) (auto simp: fmdom_notD)
  then show "merged_directory m' = merged_directory m"
    and "merged_ledger m' =
      (case c of CellValue r \<Rightarrow> fmupd u r (merged_ledger m) | CellDelete \<Rightarrow> fmdrop u (merged_ledger m))"
    using assms
    by (auto simp: merge_ledger_row_def and_then_Inr bind_eq_Some_conv split: LedgerCell.split_asm if_split_asm)
qed

interpretation directory_rows: strict_log merge_directory_row resident_ok
proof
  show "merge_directory_row m x \<noteq> None" for m x
    by (cases x) (auto simp: merge_directory_row_def and_then_Some_None
        simp del: not_None_eq not_Some_eq)
  show "resident_ok m'" if "resident_ok m" "merge_directory_row m x = Some (Inr m')" for m x m'
    using that
    by (cases x) (auto simp: merge_directory_row_def and_then_Inr resident_ok_def add_resident_bytes_Inr
        fcard_finsert_disjoint finsert_absorb split: if_split_asm)
qed

interpretation ledger_rows: strict_log merge_ledger_row resident_ok
proof
  have small: "LEDGER_VALUE_ROW_LOGICAL_BYTES_MAX \<le> merged_resident_bytes m"
    if "resident_ok m" "u |\<in>| fmdom (merged_ledger m)" for m u
  proof -
    have "1 \<le> fcard (fmdom (merged_ledger m))"
      using that(2) by (metis One_nat_def Suc_leI fcard_0_eq fempty_iff gr_zeroI)
    then have "1 * LEDGER_VALUE_ROW_LOGICAL_BYTES_MAX
        \<le> fcard (fmdom (merged_ledger m)) * LEDGER_VALUE_ROW_LOGICAL_BYTES_MAX"
      by (rule mult_le_mono1)
    then show ?thesis using that(1) unfolding resident_ok_def by linarith
  qed
  show "merge_ledger_row m x \<noteq> None" if "resident_ok m" for m x
    using small [OF that]
    by (cases x) (auto simp: merge_ledger_row_def and_then_Some_None checked_sub_def
        split: LedgerCell.split simp del: not_None_eq not_Some_eq)
  show "resident_ok m'" if "resident_ok m" "merge_ledger_row m x = Some (Inr m')" for m x m'
  proof (cases x)
    case (Pair u c)
    show ?thesis
    proof (cases "c = CellDelete \<and> u |\<in>| fmdom (merged_ledger m)")
      case True
      let ?n = "fcard (fmdom (merged_ledger m) |-| {|u|})"
      have "merged_ledger m' = fmdrop u (merged_ledger m)" "merged_directory m' = merged_directory m"
        "merged_resident_bytes m' = merged_resident_bytes m - LEDGER_VALUE_ROW_LOGICAL_BYTES_MAX"
        using that(2) Pair True by (auto simp: merge_ledger_row_def bind_eq_Some_conv)
      moreover have "fcard (fmdom (merged_ledger m)) * LEDGER_VALUE_ROW_LOGICAL_BYTES_MAX
          = LEDGER_VALUE_ROW_LOGICAL_BYTES_MAX + ?n * LEDGER_VALUE_ROW_LOGICAL_BYTES_MAX"
        using fcard_Suc_fminus1 [of u "fmdom (merged_ledger m)"] True by (metis mult_Suc)
      ultimately show ?thesis
        using that(1) by (simp add: resident_ok_def)
    next
      case False
      with Pair that show ?thesis
        by (auto simp: merge_ledger_row_def and_then_Inr resident_ok_def add_resident_bytes_Inr
            fcard_finsert_disjoint finsert_absorb split: LedgerCell.split_asm if_split_asm)
    qed
  qed
qed

lemma merge_decoded_ok:
  assumes "resident_ok (load_merged load)" "decoded_ok (table_store (ref_object (planned_table source))) d"
  shows "(\<exists>x. merge_decoded load source d = Some (Inl x))
     \<or> (\<exists>load'. merge_decoded load source d = Some (Inr load') \<and> resident_ok (load_merged load')
          \<and> load_claimed load' = load_claimed load \<and> load_remaining load' = load_remaining load)"
proof (cases d)
  case (DecodedDirectory rows)
  obtain r where r: "try_fold merge_directory_row (load_merged load) rows = Some r"
    using directory_rows.replay_total [OF assms(1)] by blast
  with directory_rows.replay_inv [OF assms(1)] DecodedDirectory assms(2) show ?thesis
    by (cases r) (auto simp: merge_decoded_def decoded_ok_def merge_directory_table_def Let_def)
next
  case (DecodedLedger rows)
  obtain r where r: "try_fold merge_ledger_row (load_merged load) rows = Some r"
    using ledger_rows.replay_total [OF assms(1)] by blast
  with ledger_rows.replay_inv [OF assms(1)] DecodedLedger assms(2) show ?thesis
    by (cases r) (auto simp: merge_decoded_def decoded_ok_def merge_ledger_table_def Let_def)
qed

lemma read_next_table_ok:
  assumes "claimed_ok (load_claimed load)" "resident_ok (load_merged load)"
    and "length (load_remaining load) \<le> PARTITION_BOOTSTRAP_OBJECTS_MAX_V2"
    and "length (load_remaining load) + TAIL_STEPS < boot_steps s"
  shows "boot_ok s e (read_next_table load)"
proof (cases "load_remaining load")
  case Nil
  show ?thesis
  proof (cases "forest_try_from (merged_directory (load_merged load)) (merged_ledger (load_merged load))")
    case (Inl x)
    with Nil show ?thesis by (simp add: read_next_table_def)
  next
    case (Inr f)
    then have "forest_inv f" by (auto simp: forest_try_from_Inr)
    with Nil Inr assms show ?thesis
      by (simp add: read_next_table_def loaded_ok_def fence_slack_def TAIL_STEPS_def)
  qed
next
  case (Cons source rest)
  with assms show ?thesis by (simp add: read_next_table_def)
qed

lemma handle_claim_ok:
  assumes inv: "boot_inv s" and event: "boot_event_ok s (ClaimPublished r)"
  shows "boot_ok s (ClaimPublished r) (handle_claim s r)"
proof -
  obtain c sources where s: "s = PublishingClaim c sources"
    using event by (cases s) (simp_all add: boot_event_ok_def)
  have "resident_ok merged_rows_default"
    by (simp add: resident_ok_def merged_rows_default_def fcard.rep_eq)
  with inv s have "boot_ok s e (read_next_table
      \<lparr> load_claimed = \<lparr> claimed_claim = authored_claim_new (seal_generation c), claimed_seal = c \<rparr>,
        load_remaining = sources, load_merged = merged_rows_default,
        load_previous_directory = None, load_previous_ledger = None \<rparr>)" for e
    by (intro read_next_table_ok) (simp_all add: claimed_ok_def)
  then show ?thesis by (cases r) (simp_all add: handle_claim_def s)
qed

lemma handle_table_ok:
  assumes inv: "boot_inv s" and event: "boot_event_ok s (TableRead t d)"
  shows "boot_ok s (TableRead t d) (handle_table s t d)"
proof -
  obtain load source where s: "s = ReadingTable load source" "planned_table source = t"
      "decoded_ok (table_store (ref_object (planned_table source))) d"
    using event by (cases s) (auto simp: boot_event_ok_def)
  have "resident_ok (load_merged load)" using inv s by simp
  from merge_decoded_ok [OF this s(3)] show ?thesis
  proof
    assume "\<exists>x. merge_decoded load source d = Some (Inl x)"
    with s show ?thesis by (auto simp: handle_table_def)
  next
    assume "\<exists>load'. merge_decoded load source d = Some (Inr load') \<and> resident_ok (load_merged load')
        \<and> load_claimed load' = load_claimed load \<and> load_remaining load' = load_remaining load"
    then obtain load' where load': "merge_decoded load source d = Some (Inr load')"
        "resident_ok (load_merged load')" "load_claimed load' = load_claimed load"
        "load_remaining load' = load_remaining load"
      by auto
    with inv s have "boot_ok s (TableRead t d) (read_next_table load')"
      by (intro read_next_table_ok) simp_all
    with s load' show ?thesis by (simp add: handle_table_def)
  qed
qed

subsection \<open>Fencing and replay\<close>

lemma fence_within_iff:
  "fence_within l f \<longleftrightarrow>
     cut_get (boot_cut (claimed_seal (loaded_claimed l))) < batch_get (fence_batch f)
     \<and> batch_get (fence_batch f) < u64_max
     \<and> batch_get (fence_batch f)
         \<le> cut_get (boot_cut (claimed_seal (loaded_claimed l))) + WAL_SUFFIX_COORDINATES_MAX_V2"
  by (cases f) (simp add: fence_within_def bound_takeover_fence_Inr)

lemma establish_fence_ok:
  assumes enc: "boot_encoders_ok encode_seal encode_wal" and l: "loaded_ok l" "fence_within l f"
    and steps: "3 * fence_slack l (batch_get (fence_batch f)) + REPLAY_STEPS + 2 < boot_steps s"
  shows "boot_ok s e (establish_fence encode_wal l f)"
proof -
  let ?w = "\<lparr> wal_partition = seal_partition (claimed_seal (loaded_claimed l)), wal_batch = fence_batch f,
     wal_owner = claim_owner (claimed_claim (loaded_claimed l)), wal_body = WalFence \<rparr>"
  show ?thesis
    using l steps by (cases rule: encoded_wal_total [OF enc, of ?w]) (simp_all add: establish_fence_def)
qed

lemma fence_slack_less:
  assumes "fence_within l f" "n < batch_get (fence_batch f)"
  shows "3 * fence_slack l (batch_get (fence_batch f)) + 3 \<le> 3 * fence_slack l n"
  using assms by (auto simp: fence_slack_def fence_within_iff)

lemma handle_wal_tail_ok:
  assumes enc: "boot_encoders_ok encode_seal encode_wal"
    and inv: "boot_inv s" and event: "boot_event_ok s (WalTailObserved r)"
  shows "boot_ok s (WalTailObserved r) (handle_wal_tail encode_wal s r)"
proof -
  obtain l occupied where s: "s = ObservingWalTail l occupied"
    using event by (cases s) (simp_all add: boot_event_ok_def)
  let ?cut = "boot_cut (claimed_seal (loaded_claimed l))"
  define occ where "occ = (case occupied of None \<Rightarrow> cut_get ?cut | Some b \<Rightarrow> batch_get b)"
  have l: "loaded_ok l" using inv s by simp
  show ?thesis
  proof (cases "plan_fence_candidate ?cut r")
    case (Inl x)
    with s show ?thesis by (simp add: handle_wal_tail_def boot_cut_def)
  next
    case candidate: (Inr c)
    show ?thesis
    proof (cases "case occupied of None \<Rightarrow> False | Some b \<Rightarrow> c \<le> b")
      case True
      with s candidate show ?thesis by (simp add: handle_wal_tail_def boot_cut_def)
    next
      case fresh: False
      show ?thesis
      proof (cases "bound_takeover_fence ?cut c")
        case (Inl x)
        with s candidate fresh show ?thesis by (simp add: handle_wal_tail_def boot_cut_def)
      next
        case (Inr f)
        then have f: "f = TakeoverFence c" "fence_within l f"
          by (simp_all add: bound_takeover_fence_Inr fence_within_def)
        then have "occ < batch_get (fence_batch f)"
          using fresh by (auto simp: occ_def fence_within_iff less_eq_BatchId_def split: option.splits)
        from fence_slack_less [OF f(2) this]
        have steps: "3 * fence_slack l (batch_get (fence_batch f)) + REPLAY_STEPS + 3 < boot_steps s"
          by (simp add: s occ_def [symmetric])
        then have "boot_ok s (WalTailObserved r) (establish_fence encode_wal l f)"
          by (intro establish_fence_ok [OF enc l f(2)]) simp
        moreover have "boot_ok s (WalTailObserved r) (boot_effect (ReadingWalTail l f tail)
            (ReadWal (seal_partition (claimed_seal (loaded_claimed l))) tail))" for tail
          using l f(2) steps by simp
        ultimately show ?thesis
          using s candidate fresh Inr
          by (auto simp: handle_wal_tail_def boot_cut_def simp del: boot_ok_simps split: option.split)
      qed
    qed
  qed
qed

lemma handle_fence_ok:
  assumes inv: "boot_inv s" and event: "boot_event_ok s (FenceEstablished r)"
  shows "boot_ok s (FenceEstablished r) (handle_fence s r)"
proof -
  obtain l f where s: "s = EstablishingFence l f"
    using event by (cases s) (simp_all add: boot_event_ok_def)
  have l: "loaded_ok l" "fence_within l f" using inv s by simp_all
  show ?thesis
  proof (cases r)
    case WalDurable
    let ?point = "seal_replay (claimed_seal (loaded_claimed l))"
    show ?thesis
    proof (cases "replay_start ?point")
      case (Inl x)
      with s WalDurable show ?thesis by (simp add: handle_fence_def)
    next
      case (Inr b)
      then have "batch_get b = cut_get (boot_cut (claimed_seal (loaded_claimed l))) + 1"
        by (auto simp: replay_start_def boot_cut_def replay_batch_def batch.successor_Inr batch.try_from_Inr
            split: WalReplayPoint.split_asm)
      with l s Inr WalDurable show ?thesis
        by (auto simp: handle_fence_def fence_within_iff less_eq_BatchId_def REPLAY_STEPS_def)
    qed
  next
    case WalOccupied
    with l s show ?thesis
      by (cases f) (auto simp: handle_fence_def fence_within_def)
  next
    case WalUnresolvedAbsent
    with s show ?thesis by (simp add: handle_fence_def)
  qed
qed

text \<open>Folding the facts of one RUN is the replay of its log at its batch.\<close>

lemma fold_replay_facts_Inr:
  "fold_replay_facts f b facts = Some (Inr g) \<longleftrightarrow> replay f (at_batch b facts) = Some (Inr g)"
proof (induction facts arbitrary: f)
  case (Cons op facts)
  show ?case
  proof (cases "strict_fold f b op")
    case (Some r)
    with Cons show ?thesis by (cases r) (simp_all add: replay_def at_batch_def fold_at_def)
  qed (simp add: replay_def at_batch_def fold_at_def)
qed (simp add: replay_def at_batch_def)

lemma fold_replay_facts_total: "forest_inv f \<Longrightarrow> fold_replay_facts f b facts \<noteq> None"
proof (induction facts arbitrary: f)
  case (Cons op facts)
  obtain r where r: "strict_fold f b op = Some r"
    using strict_fold_no_panic [OF Cons.prems] by blast
  show ?case
  proof (cases r)
    case (Inr g)
    with r Cons.IH [OF strict_fold_preserves [OF Cons.prems]] show ?thesis by simp
  qed (simp add: r)
qed simp

lemma fold_replay_facts_inv:
  "forest_inv f \<Longrightarrow> fold_replay_facts f b facts = Some (Inr g) \<Longrightarrow> forest_inv g"
  using fact_log.replay_inv by (simp add: fold_replay_facts_Inr replay_def)

lemma replay_body_ok:
  assumes "forest_inv (loaded_durable (replay_loaded r))"
  shows "(\<exists>d. replay_body r w = Some (Inl d))
     \<or> (\<exists>owner g. replay_body r w = Some (Inr (owner, g)) \<and> forest_inv g)"
proof (cases "wal_body w")
  case (WalRun facts)
  obtain x where x: "fold_replay_facts (loaded_durable (replay_loaded r)) (replay_next r) facts = Some x"
    using fold_replay_facts_total [OF assms] by blast
  with WalRun fold_replay_facts_inv [OF assms] show ?thesis
    by (cases x) (auto simp: replay_body_def)
next
  case WalFence
  with assms show ?thesis by (auto simp: replay_body_def)
qed

lemma replay_body_fence:
  "wal_body w = WalFence \<Longrightarrow> replay_body r w = Some (Inr (owner, g)) \<Longrightarrow> owner = Some (wal_owner w)"
  by (auto simp: replay_body_def split: if_split_asm)

lemma replay_advance_ok:
  assumes inv: "boot_inv (Replaying r)" and g: "forest_inv g"
    and last: "replay_next r = fence_batch (replay_fence r) \<Longrightarrow>
      owner = Some (claim_owner (claimed_claim (loaded_claimed (replay_loaded r))))"
  shows "boot_ok (Replaying r) e (replay_advance r owner g)"
proof (cases "replay_next r = fence_batch (replay_fence r)")
  case True
  with inv g last show ?thesis
    by (auto simp: replay_advance_def Let_def recovery_ok_def loaded_ok_def claimed_ok_def fence_within_iff
        boot_cut_def authored_claim_new_def)
next
  case False
  then have less: "batch_get (replay_next r) < batch_get (fence_batch (replay_fence r))"
    using inv by (auto simp: less_eq_BatchId_def batch_get_inject [symmetric])
  then obtain b where b: "batch_successor (replay_next r) = Inr b"
    using batch_successor_ex [of "replay_next r"] batch.get_le_max [of "fence_batch (replay_fence r)"]
    by auto
  then have "batch_get b = batch_get (replay_next r) + 1" by (simp add: batch.successor_Inr)
  with False inv g less b show ?thesis
    by (auto simp: replay_advance_def Let_def loaded_ok_def less_eq_BatchId_def fence_within_def)
qed

lemma handle_wal_read_ok:
  assumes enc: "boot_encoders_ok encode_seal encode_wal"
    and inv: "boot_inv s" and event: "boot_event_ok s (WalRead observed)"
  shows "boot_ok s (WalRead observed) (handle_wal_read encode_wal s observed)"
proof (cases s)
  case (ReadingWalTail l f tail)
  have "boot_ok s (WalRead observed) (establish_fence encode_wal l f)"
    using inv ReadingWalTail by (intro establish_fence_ok [OF enc]) simp_all
  with ReadingWalTail event show ?thesis
    by (cases observed)
      (auto simp: handle_wal_read_def handle_tail_read_def boot_event_ok_def read_ok_def)
next
  case (Replaying r)
  show ?thesis
  proof (cases observed)
    case None
    with Replaying show ?thesis by (simp add: handle_wal_read_def handle_replay_read_def Let_def)
  next
    case (Some w)
    have ok: "wal_batch w = replay_next r"
        "wal_partition w = seal_partition (claimed_seal (loaded_claimed (replay_loaded r)))"
        "replay_next r = fence_batch (replay_fence r) \<Longrightarrow> wal_body w = WalFence
          \<and> wal_owner w = claim_owner (claimed_claim (loaded_claimed (replay_loaded r)))"
      using event Some Replaying by (auto simp: boot_event_ok_def read_ok_def)
    have "forest_inv (loaded_durable (replay_loaded r))"
      using inv Replaying by (simp add: loaded_ok_def)
    from replay_body_ok [OF this, of w] show ?thesis
    proof
      assume "\<exists>d. replay_body r w = Some (Inl d)"
      with Replaying Some ok show ?thesis
        by (auto simp: handle_wal_read_def handle_replay_read_def Let_def)
    next
      assume "\<exists>owner g. replay_body r w = Some (Inr (owner, g)) \<and> forest_inv g"
      then obtain owner g where g: "replay_body r w = Some (Inr (owner, g))" "forest_inv g" by blast
      have "boot_ok s (WalRead observed) (replay_advance r owner g)"
        using inv Replaying g ok(3) replay_body_fence [OF _ g(1)]
        by (auto intro!: replay_advance_ok simp del: boot_inv.simps)
      with Replaying Some ok g(1) show ?thesis
        by (auto simp: handle_wal_read_def handle_replay_read_def Let_def)
    qed
  qed
qed (use event in \<open>simp_all add: boot_event_ok_def\<close>)

lemma handle_store_failure_ok:
  assumes "boot_event_ok s (StoreFailed e)"
  shows "boot_ok s (StoreFailed e) (handle_store_failure s e)"
  using assms
  by (cases s; cases e) (simp_all add: handle_store_failure_def boot_event_ok_def)

lemma bootstrap_handle_ok:
  assumes "boot_encoders_ok encode_seal encode_wal" "boot_inv s" "boot_event_ok s e"
  shows "boot_ok s e (bootstrap_handle encode_seal encode_wal \<lparr> bm_state = Some s \<rparr> e)"
  using assms handle_head_ok handle_genesis_ok handle_seal_ok handle_claim_ok handle_table_ok
    handle_wal_tail_ok handle_wal_read_ok handle_fence_ok handle_store_failure_ok
  by (cases e) (auto simp: bootstrap_handle_def boot_event_ok_def)

end
