(* ===== verification/Bootstrap_Recovery.thy ===== *)
theory Bootstrap_Recovery
  imports Bootstrap_Invariant
begin

text \<open>
  Runs of the bootstrap machine together with what was read from the store: the recovered base is
  the newest-wins merge of the tables of the claimed Seal, the recovered state is the replay of the
  WAL objects between the cut and the takeover FENCE, and the machine ends within a bound.
\<close>

section \<open>Newest row wins\<close>

text \<open>
  The contract of a row store written in reading order: a row decides its own key and leaves the
  other keys alone. After a sequence of rows the last one written for a key decides it.
\<close>

locale row_store =
  fixes put :: "'m \<Rightarrow> 'k \<times> 'c \<Rightarrow> 'm"
    and get :: "'m \<Rightarrow> 'k \<Rightarrow> 'v option"
    and cell :: "'c \<Rightarrow> 'v option"
  assumes get_put: "get (put m (k, c)) k' = (if k' = k then cell c else get m k')"
begin

lemma get_rows:
  "get (foldl put m rows) k = (case map_of (rev rows) k of None \<Rightarrow> get m k | Some c \<Rightarrow> cell c)"
proof (induction rows rule: rev_induct)
  case (snoc row rows)
  then show ?case by (cases row) (auto simp: get_put)
qed simp

end

definition put_entry ::
  "(StreamPath, DirectoryEntry) fmap \<Rightarrow> StreamPath \<times> DirectoryEntry \<Rightarrow> (StreamPath, DirectoryEntry) fmap"
where
  "put_entry m row = fmupd (fst row) (snd row) m"

definition put_cell ::
  "(StreamUid, StreamRecord) fmap \<Rightarrow> StreamUid \<times> LedgerCell \<Rightarrow> (StreamUid, StreamRecord) fmap" where
  "put_cell m row =
     (case snd row of CellValue r \<Rightarrow> fmupd (fst row) r m | CellDelete \<Rightarrow> fmdrop (fst row) m)"

definition cell_record :: "LedgerCell \<Rightarrow> StreamRecord option" where
  "cell_record c = (case c of CellValue r \<Rightarrow> Some r | CellDelete \<Rightarrow> None)"

interpretation directory_store: row_store put_entry fmlookup Some
  by unfold_locales (simp add: put_entry_def)

interpretation ledger_store: row_store put_cell fmlookup cell_record
  by unfold_locales (auto simp: put_cell_def cell_record_def split: LedgerCell.split)

definition entry_rows :: "DecodedTable \<Rightarrow> (StreamPath \<times> DirectoryEntry) list" where
  "entry_rows d = (case d of DecodedDirectory rows \<Rightarrow> rows | DecodedLedger _ \<Rightarrow> [])"

definition cell_rows :: "DecodedTable \<Rightarrow> (StreamUid \<times> LedgerCell) list" where
  "cell_rows d = (case d of DecodedDirectory _ \<Rightarrow> [] | DecodedLedger rows \<Rightarrow> rows)"

text \<open>The rows of the tables of a tree in manifest order, newest run first, each run reversed.\<close>

definition newest_rows :: "(TableRef \<Rightarrow> 'r list) \<Rightarrow> TreeVersion \<Rightarrow> 'r list" where
  "newest_rows rows tree =
     concat (map (\<lambda>run. rev (concat (map rows (run_tables run)))) (tree_runs tree))"

definition planned :: "Seal \<Rightarrow> PlannedTable list" where
  "planned seal = tree_sources (seal_directory seal) @ tree_sources (seal_ledger seal)"

lemma rev_concat_sources:
  "rev (concat (map (rows \<circ> planned_table) (tree_sources tree))) = newest_rows rows tree"
proof -
  have one: "map (rows \<circ> planned_table) (run_sources run) = map rows (run_tables run)" for run
    by (simp flip: run_sources_tables)
  have "concat (map (rows \<circ> planned_table) (concat (map run_sources runs)))
      = concat (map (\<lambda>run. concat (map rows (run_tables run))) runs)" for runs
    by (induction runs) (simp_all add: one [unfolded comp_def])
  then show ?thesis
    by (simp add: tree_sources_def newest_rows_def rev_concat rev_map comp_def)
qed

section \<open>Runs\<close>

text \<open>What the machine has read: the head Seal, the tables, and the WAL objects being replayed.\<close>

record BootSeen =
  seen_head :: "Seal option"
  seen_tables :: "(TableRef \<times> DecodedTable) list"
  seen_wal :: "WalObject list"

definition nothing_read :: BootSeen where
  "nothing_read = \<lparr> seen_head = None, seen_tables = [], seen_wal = [] \<rparr>"

definition boot_observe :: "BootstrapState \<Rightarrow> BootstrapEvent \<Rightarrow> BootSeen \<Rightarrow> BootSeen" where
  "boot_observe state event seen =
     (case event of
        SealRead (Some s) \<Rightarrow> \<lparr> seen_head = Some s, seen_tables = [], seen_wal = [] \<rparr>
      | TableRead t d \<Rightarrow> seen \<lparr> seen_tables := seen_tables seen @ [(t, d)] \<rparr>
      | FenceEstablished _ \<Rightarrow> seen \<lparr> seen_wal := [] \<rparr>
      | WalRead (Some w) \<Rightarrow>
          (case state of Replaying _ \<Rightarrow> seen \<lparr> seen_wal := seen_wal seen @ [w] \<rparr> | _ \<Rightarrow> seen)
      | _ \<Rightarrow> seen)"

text \<open>
  A run of n events, k of them lost genesis races, to a state and the step that led there.
\<close>

inductive boot_run ::
  "seal_encoder \<Rightarrow> wal_encoder \<Rightarrow> nat \<Rightarrow> nat \<Rightarrow> BootstrapState \<Rightarrow> BootSeen \<Rightarrow> BootstrapStep option \<Rightarrow> bool"
  for encode_seal encode_wal
where
  start: "boot_run encode_seal encode_wal 0 0 BootInitial nothing_read None"
| step: "boot_run encode_seal encode_wal (Suc n) (if e = lost_race then Suc k else k) state'
      (boot_observe state e seen) (Some st)"
    if "boot_run encode_seal encode_wal n k state seen prev" "boot_event_ok state e"
      "bootstrap_handle encode_seal encode_wal \<lparr> bm_state = Some state \<rparr> e
        = Some (\<lparr> bm_state = Some state' \<rparr>, st)"

lemma boot_run_inv:
  assumes "boot_run encode_seal encode_wal n k state seen prev" "boot_encoders_ok encode_seal encode_wal"
  shows "boot_inv state"
  using assms
proof (induction rule: boot_run.induct)
  case (step n k state seen prev e state' st)
  with bootstrap_handle_ok [of encode_seal encode_wal state e] show ?case by (auto simp: boot_ok_def)
qed simp

text \<open>Every completed step lowers the bound, but for lost genesis races, which raise it by one.\<close>

lemma boot_steps_terminal: "boot_steps BootCompleteState < boot_steps s \<or> s = BootCompleteState"
  by (cases s) simp_all

lemma lost_race_steps:
  assumes "bootstrap_handle encode_seal encode_wal \<lparr> bm_state = Some s \<rparr> lost_race
      = Some (\<lparr> bm_state = Some s' \<rparr>, st)"
  shows "boot_steps s' = boot_steps s + 1"
  using assms
  by (cases s) (auto simp: bootstrap_handle_def handle_genesis_def boot_effect_def)

lemma boot_event_not_complete: "boot_event_ok s e \<Longrightarrow> s \<noteq> BootCompleteState"
  by (auto simp: boot_event_ok_def split: BootstrapEvent.split_asm)

lemma boot_run_bounded:
  assumes "boot_run encode_seal encode_wal n k state seen prev" "boot_encoders_ok encode_seal encode_wal"
  shows "n + boot_steps state \<le> boot_steps BootInitial + 2 * k"
  using assms
proof (induction rule: boot_run.induct)
  case (step n k state seen prev e state' st)
  note IH = step.IH [OF step.prems]
  show ?case
  proof (cases "e = lost_race")
    case True
    with IH lost_race_steps step.hyps(3) show ?thesis by fastforce
  next
    case False
    have "boot_inv state" by (rule boot_run_inv [OF step.hyps(1) step.prems])
    from bootstrap_handle_ok [OF step.prems this step.hyps(2)] step.hyps(3) False
    have "boot_steps state' < boot_steps state"
      using boot_steps_terminal boot_event_not_complete [OF step.hyps(2)]
      by (auto simp: boot_ok_def split: BootstrapStep.split_asm)
    with IH False show ?thesis by simp
  qed
qed simp

section \<open>What was recovered\<close>

definition read_directory :: "(TableRef \<times> DecodedTable) list \<Rightarrow> (StreamPath, DirectoryEntry) fmap" where
  "read_directory tables = foldl put_entry fmempty (concat (map (entry_rows \<circ> snd) tables))"

definition read_ledger :: "(TableRef \<times> DecodedTable) list \<Rightarrow> (StreamUid, StreamRecord) fmap" where
  "read_ledger tables = foldl put_cell fmempty (concat (map (cell_rows \<circ> snd) tables))"

definition claims :: "BootSeen \<Rightarrow> Seal \<Rightarrow> bool" where
  "claims seen c \<longleftrightarrow> (\<exists>head. seen_head seen = Some head \<and> claim_successor head = Inr c)"

definition base_read :: "BootSeen \<Rightarrow> Seal \<Rightarrow> Forest \<Rightarrow> bool" where
  "base_read seen seal base \<longleftrightarrow>
     claims seen seal \<and> map fst (seen_tables seen) = map planned_table (planned seal)
     \<and> base = \<lparr> forest_directory = read_directory (seen_tables seen),
                forest_ledger = read_ledger (seen_tables seen) \<rparr>"

text \<open>The log of facts in a list of WAL objects, and the owner discipline of the suffix.\<close>

definition wal_log :: "WalObject list \<Rightarrow> (BatchId \<times> OperationFact) list" where
  "wal_log ws = concat (map (\<lambda>w. case wal_body w of WalRun facts \<Rightarrow> at_batch (wal_batch w) facts
     | WalFence \<Rightarrow> []) ws)"

fun owner_chain :: "OwnerToken option \<Rightarrow> WalObject list \<Rightarrow> OwnerToken option \<Rightarrow> bool" where
  "owner_chain owner [] owner' \<longleftrightarrow> owner' = owner"
| "owner_chain owner (w # ws) owner' \<longleftrightarrow>
     (case wal_body w of
        WalFence \<Rightarrow> (\<forall>t. owner = Some t \<longrightarrow> t < wal_owner w) \<and> owner_chain (Some (wal_owner w)) ws owner'
      | WalRun facts \<Rightarrow> owner = Some (wal_owner w) \<and> owner_chain owner ws owner')"

lemma owner_chain_append:
  "owner_chain o1 (ws @ vs) o3 \<longleftrightarrow> (\<exists>o2. owner_chain o1 ws o2 \<and> owner_chain o2 vs o3)"
  by (induction ws arbitrary: o1) (auto split: WalBody.split)

definition wal_replayed ::
  "BootSeen \<Rightarrow> Seal \<Rightarrow> Forest \<Rightarrow> Forest \<Rightarrow> nat \<Rightarrow> OwnerToken option \<Rightarrow> bool" where
  "wal_replayed seen seal base durable stop owner \<longleftrightarrow>
     map (batch_get \<circ> wal_batch) (seen_wal seen) = [Suc (cut_get (boot_cut seal))..<stop]
     \<and> (\<forall>w\<in>set (seen_wal seen). wal_partition w = seal_partition seal)
     \<and> owner_chain (replay_owner (seal_replay seal)) (seen_wal seen) owner
     \<and> replay base (wal_log (seen_wal seen)) = Some (Inr durable)"

fun traced :: "BootstrapState \<Rightarrow> BootSeen \<Rightarrow> bool" where
  "traced (PublishingClaim c sources) seen \<longleftrightarrow>
     claims seen c \<and> sources = planned c \<and> seen_tables seen = []"
| "traced (ReadingTable load source) seen \<longleftrightarrow>
     claims seen (claimed_seal (load_claimed load))
     \<and> map fst (seen_tables seen) @ map planned_table (source # load_remaining load)
         = map planned_table (planned (claimed_seal (load_claimed load)))
     \<and> merged_directory (load_merged load) = read_directory (seen_tables seen)
     \<and> merged_ledger (load_merged load) = read_ledger (seen_tables seen)"
| "traced (ObservingWalTail l _) seen \<longleftrightarrow>
     base_read seen (claimed_seal (loaded_claimed l)) (loaded_base l) \<and> loaded_durable l = loaded_base l"
| "traced (ReadingWalTail l _ _) seen \<longleftrightarrow>
     base_read seen (claimed_seal (loaded_claimed l)) (loaded_base l) \<and> loaded_durable l = loaded_base l"
| "traced (EstablishingFence l _) seen \<longleftrightarrow>
     base_read seen (claimed_seal (loaded_claimed l)) (loaded_base l) \<and> loaded_durable l = loaded_base l"
| "traced (Replaying r) seen \<longleftrightarrow>
     base_read seen (claimed_seal (loaded_claimed (replay_loaded r))) (loaded_base (replay_loaded r))
     \<and> wal_replayed seen (claimed_seal (loaded_claimed (replay_loaded r))) (loaded_base (replay_loaded r))
         (loaded_durable (replay_loaded r)) (batch_get (replay_next r)) (replay_owner_token r)"
| "traced (RefreshingFinal r) seen \<longleftrightarrow>
     base_read seen (recovery_seal r) (recovery_base r)
     \<and> wal_replayed seen (recovery_seal r) (recovery_base r) (recovery_durable r)
         (Suc (batch_get (recovery_durable_batch r))) (Some (claim_owner (recovery_claim r)))"
| "traced _ seen \<longleftrightarrow> True"

lemma claim_successor_planned: "claim_successor s = Inr c \<Longrightarrow> planned c = planned s"
  by (auto simp: claim_successor_Inr planned_def)

lemma merge_row_put:
  "merge_directory_row m row = Some (Inr m') \<Longrightarrow>
     merged_directory m' = put_entry (merged_directory m) row \<and> merged_ledger m' = merged_ledger m"
  "merge_ledger_row m cell = Some (Inr m') \<Longrightarrow>
     merged_ledger m' = put_cell (merged_ledger m) cell \<and> merged_directory m' = merged_directory m"
  by (cases row, simp add: merge_directory_row_Inr put_entry_def)
    (cases cell, simp add: merge_ledger_row_Inr put_cell_def split: LedgerCell.split)

lemma merge_rows_read:
  "try_fold merge_directory_row m rows = Some (Inr m') \<Longrightarrow>
     merged_directory m' = foldl put_entry (merged_directory m) rows \<and> merged_ledger m' = merged_ledger m"
  "try_fold merge_ledger_row m cells = Some (Inr m') \<Longrightarrow>
     merged_ledger m' = foldl put_cell (merged_ledger m) cells \<and> merged_directory m' = merged_directory m"
proof -
  show "try_fold merge_directory_row m rows = Some (Inr m') \<Longrightarrow>
     merged_directory m' = foldl put_entry (merged_directory m) rows \<and> merged_ledger m' = merged_ledger m"
    by (induction rows arbitrary: m) (auto simp: and_then_Inr dest: merge_row_put(1))
  show "try_fold merge_ledger_row m cells = Some (Inr m') \<Longrightarrow>
     merged_ledger m' = foldl put_cell (merged_ledger m) cells \<and> merged_directory m' = merged_directory m"
    by (induction cells arbitrary: m) (auto simp: and_then_Inr dest: merge_row_put(2))
qed

lemma merge_decoded_read:
  assumes "merge_decoded load source d = Some (Inr load')"
  shows "merged_directory (load_merged load') = foldl put_entry (merged_directory (load_merged load)) (entry_rows d)
     \<and> merged_ledger (load_merged load') = foldl put_cell (merged_ledger (load_merged load)) (cell_rows d)
     \<and> load_claimed load' = load_claimed load \<and> load_remaining load' = load_remaining load"
  using assms merge_rows_read
  by (fastforce simp: merge_decoded_def merge_directory_table_def merge_ledger_table_def Let_def
      and_then_Inr entry_rows_def cell_rows_def split: DecodedTable.split_asm if_split_asm)

subsection \<open>The trace of each handler\<close>

definition leads :: "BootSeen \<Rightarrow> boot_result \<Rightarrow> bool" where
  "leads seen result \<longleftrightarrow> (\<forall>s' st. result = Some (\<lparr> bm_state = Some s' \<rparr>, st) \<longrightarrow> traced s' seen)"

lemma leads_simps [simp]:
  "leads seen None" "leads seen (boot_exit x)" "leads seen (boot_complete r)"
  "leads seen (refresh_anomaly c d)"
  "leads seen (boot_effect s eff) \<longleftrightarrow> traced s seen"
  by (auto simp: leads_def boot_exit_def boot_complete_def refresh_anomaly_def boot_effect_def)

lemma read_snoc:
  "read_directory (tables @ [(t, d)]) = foldl put_entry (read_directory tables) (entry_rows d)"
  "read_ledger (tables @ [(t, d)]) = foldl put_cell (read_ledger tables) (cell_rows d)"
  by (simp_all add: read_directory_def read_ledger_def)

lemma read_next_table_leads:
  assumes "claims seen (claimed_seal (load_claimed load))"
    and "map fst (seen_tables seen) @ map planned_table (load_remaining load)
      = map planned_table (planned (claimed_seal (load_claimed load)))"
    and "merged_directory (load_merged load) = read_directory (seen_tables seen)"
    and "merged_ledger (load_merged load) = read_ledger (seen_tables seen)"
  shows "leads seen (read_next_table load)"
  using assms
  by (auto simp: read_next_table_def base_read_def forest_try_from_Inr split: list.split sum.split)

lemma establish_fence_leads:
  "traced (EstablishingFence l f) seen \<Longrightarrow> leads seen (establish_fence encode_wal l f)"
  by (cases "encoded_wal_new encode_wal \<lparr> wal_partition = seal_partition (claimed_seal (loaded_claimed l)),
       wal_batch = fence_batch f, wal_owner = claim_owner (claimed_claim (loaded_claimed l)),
       wal_body = WalFence \<rparr>")
    (auto simp: establish_fence_def split: sum.split)

lemma handle_seal_leads:
  assumes "handle_seal encode_seal s r = res"
  shows "leads (boot_observe s (SealRead r) seen) res"
proof (cases r)
  case None
  with assms show ?thesis by (cases s) (auto simp: handle_seal_def)
next
  case (Some head)
  have "leads (boot_observe s (SealRead r) seen)
      (do { encoding \<leftarrow> authority_candidate encode_seal c;
            case encoding of
              Inr encoded \<Rightarrow> boot_effect (PublishingClaim c sources) (PublishClaim encoded)
            | Inl source \<Rightarrow> boot_exit (x source) })"
    if "plan_bootstrap_sources head = Inr sources" "claim_successor head = Inr c" for c sources x
    using that Some plan_bootstrap_sources_Inr(1) [OF that(1)] claim_successor_planned [OF that(2)]
    by (cases "authority_candidate encode_seal c")
      (auto simp: boot_observe_def claims_def planned_def split: sum.split)
  with Some assms show ?thesis
    by (cases s) (auto simp: handle_seal_def split: sum.split)
qed

lemma handle_table_leads:
  assumes tr: "traced s seen" and ev: "boot_event_ok s (TableRead t d)"
  shows "leads (boot_observe s (TableRead t d) seen) (handle_table s t d)"
proof -
  obtain load source where s: "s = ReadingTable load source" "planned_table source = t"
    using ev by (cases s) (auto simp: boot_event_ok_def)
  have "leads (boot_observe s (TableRead t d) seen) (read_next_table load')"
    if "merge_decoded load source d = Some (Inr load')" for load'
    using tr s merge_decoded_read [OF that]
    by (intro read_next_table_leads) (auto simp: boot_observe_def read_snoc claims_def)
  then show ?thesis
    using s by (cases "merge_decoded load source d") (auto simp: handle_table_def split: sum.split)
qed

lemma handle_wal_tail_leads:
  assumes "traced s seen"
  shows "leads seen (handle_wal_tail encode_wal s r)"
proof (cases s)
  case (ObservingWalTail l occ)
  have "leads seen (establish_fence encode_wal l f)" for f
    using assms ObservingWalTail by (intro establish_fence_leads) simp
  with assms ObservingWalTail show ?thesis
    by (auto simp: handle_wal_tail_def Let_def split: sum.split option.split)
qed (simp_all add: handle_wal_tail_def)

lemma replay_append:
  "replay f (xs @ ys) = Some (Inr h) \<longleftrightarrow>
     (\<exists>g. replay f xs = Some (Inr g) \<and> replay g ys = Some (Inr h))"
  by (simp add: replay_def try_fold_append and_then_Inr)

lemma replay_body_step:
  assumes "replay_body r w = Some (Inr (owner, g))" "wal_batch w = replay_next r"
  shows "owner_chain (replay_owner_token r) [w] owner"
    and "replay (loaded_durable (replay_loaded r)) (wal_log [w]) = Some (Inr g)"
  using assms
  by (auto simp: replay_body_def wal_log_def and_then_Inr fold_replay_facts_Inr replay_def
      split: WalBody.split_asm option.split_asm if_split_asm)

lemma wal_replayed_step:
  assumes tr: "wal_replayed seen seal base (loaded_durable (replay_loaded r)) (batch_get (replay_next r))
      (replay_owner_token r)"
    and body: "replay_body r w = Some (Inr (owner, g))"
    and w: "wal_batch w = replay_next r" "wal_partition w = seal_partition seal"
    and next_batch: "cut_get (boot_cut seal) < batch_get (replay_next r)"
  shows "wal_replayed (seen \<lparr> seen_wal := seen_wal seen @ [w] \<rparr>) seal base g
     (Suc (batch_get (replay_next r))) owner"
proof -
  have "wal_log (seen_wal seen @ [w]) = wal_log (seen_wal seen) @ wal_log [w]"
    by (simp add: wal_log_def)
  then show ?thesis
    using tr w next_batch replay_body_step [OF body w(1)]
    by (auto simp: wal_replayed_def owner_chain_append replay_append simp del: owner_chain.simps(2))
qed

lemma handle_replay_read_leads:
  assumes tr: "traced (Replaying r) seen" and inv: "boot_inv (Replaying r)"
    and ev: "boot_event_ok (Replaying r) (WalRead observed)"
  shows "leads (boot_observe (Replaying r) (WalRead observed) seen) (handle_replay_read r observed)"
proof (cases observed)
  case None
  then show ?thesis by (simp add: handle_replay_read_def Let_def)
next
  case (Some w)
  let ?seal = "claimed_seal (loaded_claimed (replay_loaded r))"
  let ?seen = "seen \<lparr> seen_wal := seen_wal seen @ [w] \<rparr>"
  have w: "wal_batch w = replay_next r" "wal_partition w = seal_partition ?seal"
    using ev Some by (auto simp: boot_event_ok_def read_ok_def)
  have seen: "boot_observe (Replaying r) (WalRead observed) seen = ?seen"
    using Some by (simp add: boot_observe_def)
  have "leads ?seen (replay_advance r owner g)"
    if body: "replay_body r w = Some (Inr (owner, g))" for owner g
  proof -
    have "wal_replayed ?seen ?seal (loaded_base (replay_loaded r)) g (Suc (batch_get (replay_next r))) owner"
      using tr inv by (intro wal_replayed_step [OF _ body w]) simp_all
    moreover have "base_read ?seen ?seal (loaded_base (replay_loaded r))"
      using tr by (simp add: base_read_def claims_def)
    ultimately show ?thesis
      by (auto simp: replay_advance_def Let_def batch.successor_Inr split: sum.split)
  qed
  with Some seen show ?thesis
    by (cases "replay_body r w") (auto simp: handle_replay_read_def Let_def split: sum.split)
qed

lemma handle_head_leads:
  "traced s seen \<Longrightarrow> leads seen (handle_head encode_seal s r)"
proof -
  have "leads seen (establish_genesis encode_seal p)" for p
    by (auto simp: establish_genesis_def leads_def boot_effect_def boot_exit_def bind_eq_Some_conv
        split: sum.split_asm)
  then show "traced s seen \<Longrightarrow> leads seen (handle_head encode_seal s r)"
    by (cases s; cases r) (auto simp: handle_head_def)
qed

lemma handle_claim_leads:
  assumes "traced s seen"
  shows "leads seen (handle_claim s r)"
proof (cases s)
  case (PublishingClaim c sources)
  with assms show ?thesis
    by (cases r) (auto simp: handle_claim_def merged_rows_default_def read_directory_def read_ledger_def
        intro!: read_next_table_leads)
qed (simp_all add: handle_claim_def)

lemma handle_fence_leads:
  assumes "traced s seen"
  shows "leads (boot_observe s (FenceEstablished r) seen) (handle_fence s r)"
proof (cases s)
  case (EstablishingFence l f)
  have "cut_get (boot_cut (claimed_seal (loaded_claimed l))) + 1 = batch_get b"
    if "replay_start (seal_replay (claimed_seal (loaded_claimed l))) = Inr b" for b
    using that by (auto simp: replay_start_def boot_cut_def replay_batch_def batch.successor_Inr
        batch.try_from_Inr split: WalReplayPoint.split_asm)
  with assms EstablishingFence show ?thesis
    by (cases r) (auto simp: handle_fence_def boot_observe_def Let_def base_read_def claims_def
        wal_replayed_def wal_log_def replay_def split: sum.split)
qed (simp_all add: handle_fence_def)

lemma traced_step:
  assumes tr: "traced s seen" and inv: "boot_inv s" and ev: "boot_event_ok s e"
  shows "leads (boot_observe s e seen) (bootstrap_handle encode_seal encode_wal \<lparr> bm_state = Some s \<rparr> e)"
proof (cases e)
  case (WalRead observed)
  show ?thesis
  proof (cases s)
    case (ReadingWalTail l f tail)
    have "leads seen (establish_fence encode_wal l f)"
      using tr ReadingWalTail by (intro establish_fence_leads) simp
    with WalRead ReadingWalTail show ?thesis
      by (cases observed) (auto simp: bootstrap_handle_def handle_wal_read_def handle_tail_read_def
          boot_observe_def)
  next
    case (Replaying r)
    with WalRead tr inv ev handle_replay_read_leads show ?thesis
      by (auto simp: bootstrap_handle_def handle_wal_read_def simp del: traced.simps boot_inv.simps)
  qed (use WalRead in \<open>simp_all add: bootstrap_handle_def handle_wal_read_def\<close>)
next
  case (GenesisEstablishedEvent r)
  then show ?thesis
    by (cases s; cases r) (auto simp: bootstrap_handle_def handle_genesis_def boot_observe_def)
next
  case (StoreFailed err)
  then show ?thesis
    by (cases s; cases err) (auto simp: bootstrap_handle_def handle_store_failure_def boot_observe_def)
qed (use assms handle_head_leads handle_seal_leads handle_claim_leads handle_table_leads
      handle_wal_tail_leads handle_fence_leads in \<open>auto simp: bootstrap_handle_def boot_observe_def\<close>)

lemma boot_run_traced:
  assumes "boot_run encode_seal encode_wal n k state seen prev" "boot_encoders_ok encode_seal encode_wal"
  shows "traced state seen"
  using assms
proof (induction rule: boot_run.induct)
  case (step n k state seen prev e state' st)
  then show ?case
    using traced_step [OF step.IH [OF step.prems] boot_run_inv [OF step.hyps(1) step.prems] step.hyps(2)]
    by (auto simp: leads_def)
qed simp

end
