(* ===== verification/Bootstrap_Theorems.thy ===== *)
theory Bootstrap_Theorems
  imports Bootstrap_Recovery
begin

text \<open>
  The properties of the bootstrap machine: no panic, a bound on its effects, the recovered base and
  state, and the handover to the writer machine. A complete run on an empty store is evaluated for
  the witnesses.
\<close>

section \<open>A concrete run\<close>

definition one_byte_seal :: seal_encoder where
  "one_byte_seal seal = Inr [CHR ''s'']"

lemma sample_encoders: "boot_encoders_ok one_byte_seal one_byte"
  by (simp add: boot_encoders_ok_def one_byte_seal_def one_byte_def bound_defs)

abbreviation sample_partition :: PartitionId where
  "sample_partition \<equiv> seal_partition sample_seal"

definition sample_claimed :: Seal where
  "sample_claimed = sample_seal \<lparr> seal_generation := SealGeneration (nz_of 2) \<rparr>"

definition sample_loaded :: LoadedBootstrap where
  "sample_loaded = \<lparr> loaded_claimed = \<lparr> claimed_claim = authored_claim_new (SealGeneration (nz_of 2)),
     claimed_seal = sample_claimed \<rparr>, loaded_base = forest_empty, loaded_durable = forest_empty \<rparr>"

definition sample_fence :: WalObject where
  "sample_fence = \<lparr> wal_partition = sample_partition, wal_batch = BatchId nz_min,
     wal_owner = owner_from (SealGeneration (nz_of 2)), wal_body = WalFence \<rparr>"

definition sample_replay :: Replay where
  "sample_replay = \<lparr> replay_loaded = sample_loaded, replay_next = BatchId nz_min,
     replay_fence = TakeoverFence (BatchId nz_min), replay_owner_token = None \<rparr>"

text \<open>One link of the run: the event is conforming and leads from one state to the other.\<close>

definition sample_link ::
  "seal_encoder \<Rightarrow> wal_encoder \<Rightarrow> BootstrapState \<Rightarrow> BootstrapEvent \<Rightarrow> BootstrapState \<Rightarrow> BootstrapStep \<Rightarrow> bool" where
  "sample_link es ew s e s' st \<longleftrightarrow>
     boot_event_ok s e
     \<and> bootstrap_handle es ew \<lparr> bm_state = Some s \<rparr> e = Some (\<lparr> bm_state = Some s' \<rparr>, st)"

lemma sample_seal_fields:
  "seal_replay sample_claimed = ReplayGenesis" "seal_partition sample_claimed = sample_partition"
  "seal_generation sample_seal = seal_generation_genesis"
  by (simp_all add: sample_claimed_def sample_seal_def)

lemma sample_discovery:
  "sample_link es ew BootInitial (BootStarted p) (DiscoveringHead p) (BootEffect ObserveHead)"
  "encoded_seal_new es sample_seal = Some (Inr g) \<Longrightarrow>
     sample_link es ew (DiscoveringHead sample_partition) (HeadObserved None)
       (EstablishingGenesis sample_partition) (BootEffect (EstablishGenesis (EncodedGenesisSeal g)))"
  "sample_link es ew (EstablishingGenesis sample_partition) (GenesisEstablishedEvent GenesisEstablished)
     (ReadingSeal seal_generation_genesis) (BootEffect (ReadSeal seal_generation_genesis))"
proof -
  have "seal_new sample_partition seal_generation_genesis ReplayGenesis tree_empty tree_empty = Inr sample_seal"
    using sample_seal_valid by (simp add: seal_valid_def sample_seal_def)
  then show "sample_link es ew (DiscoveringHead sample_partition) (HeadObserved None)
      (EstablishingGenesis sample_partition) (BootEffect (EstablishGenesis (EncodedGenesisSeal g)))"
    if "encoded_seal_new es sample_seal = Some (Inr g)"
    using that
    by (simp add: sample_link_def boot_event_ok_def bootstrap_handle_def handle_head_def establish_genesis_def
        boot_effect_def genesis_candidate_def sample_seal_fields)
qed (simp_all add: sample_link_def boot_event_ok_def bootstrap_handle_def handle_genesis_def boot_effect_def)

lemma sample_claim:
  "encoded_seal_new es sample_claimed = Some (Inr c) \<Longrightarrow>
     sample_link es ew (ReadingSeal seal_generation_genesis) (SealRead (Some sample_seal))
       (PublishingClaim sample_claimed []) (BootEffect (PublishClaim (EncodedAuthoritySeal c)))"
  "sample_link es ew (PublishingClaim sample_claimed []) (ClaimPublished Authored)
     (ObservingWalTail sample_loaded None) (BootEffect ObserveWalTail)"
proof -
  have "plan_bootstrap_sources sample_seal = Inr []"
    by (simp add: plan_bootstrap_sources_def sample_seal_def seal_tables_def tree_tables_def tree_empty_def
        tree_sources_def)
  moreover have "claim_successor sample_seal = Inr sample_claimed"
    by (auto simp: claim_successor_Inr sample_seal_fields sample_claimed_def seal_gen.successor_Inr
        intro!: exI [of _ "SealGeneration (nz_of 2)"])
  moreover have "seal_generation sample_claimed \<noteq> seal_generation_genesis"
    by (simp add: sample_claimed_def seal_generation_genesis_def nz_eq_iff)
  ultimately show "sample_link es ew (ReadingSeal seal_generation_genesis) (SealRead (Some sample_seal))
      (PublishingClaim sample_claimed []) (BootEffect (PublishClaim (EncodedAuthoritySeal c)))"
    if "encoded_seal_new es sample_claimed = Some (Inr c)"
    using that sample_seal_valid
    by (simp add: sample_link_def boot_event_ok_def bootstrap_handle_def handle_seal_def boot_effect_def
        authority_candidate_def sample_seal_fields)
  have "forest_try_from fmempty fmempty = Inr forest_empty"
    using forest_inv_empty by (simp add: forest_try_from_Inr forest_empty_def)
  then show "sample_link es ew (PublishingClaim sample_claimed []) (ClaimPublished Authored)
     (ObservingWalTail sample_loaded None) (BootEffect ObserveWalTail)"
    by (simp add: sample_link_def boot_event_ok_def bootstrap_handle_def handle_claim_def
        read_next_table_def merged_rows_default_def boot_effect_def sample_loaded_def sample_claimed_def)
qed

lemma sample_takeover:
  "encoded_wal_new ew sample_fence = Some (Inr f) \<Longrightarrow>
     sample_link es ew (ObservingWalTail sample_loaded None) (WalTailObserved None)
       (EstablishingFence sample_loaded (TakeoverFence (BatchId nz_min))) (BootEffect (EstablishFence f))"
  "sample_link es ew (EstablishingFence sample_loaded (TakeoverFence (BatchId nz_min)))
     (FenceEstablished WalDurable) (Replaying sample_replay)
     (BootEffect (ReadWal sample_partition (BatchId nz_min)))"
  "sample_link es ew (Replaying sample_replay) (WalRead (Some sample_fence))
     (RefreshingFinal sample_recovery) (BootEffect ObserveHead)"
  "sample_link es ew (RefreshingFinal sample_recovery) (HeadObserved (Some (SealGeneration (nz_of 2))))
     BootCompleteState (BootComplete sample_recovery)"
proof -
  have one: "batch_try_from 1 = Inr (BatchId nz_min)" by (simp add: batch.try_from_Inr)
  have "bound_takeover_fence None (BatchId nz_min) = Inr (TakeoverFence (BatchId nz_min))"
    by (simp add: bound_takeover_fence_Inr u64_max_def bound_defs)
  with one show "sample_link es ew (ObservingWalTail sample_loaded None) (WalTailObserved None)
      (EstablishingFence sample_loaded (TakeoverFence (BatchId nz_min))) (BootEffect (EstablishFence f))"
    if "encoded_wal_new ew sample_fence = Some (Inr f)"
    using that
    by (simp add: sample_link_def boot_event_ok_def bootstrap_handle_def handle_wal_tail_def
        sample_loaded_def sample_seal_fields replay_batch_def plan_fence_candidate_def options_max_def
        establish_fence_def authored_claim_new_def sample_fence_def boot_effect_def)
  from one show "sample_link es ew (EstablishingFence sample_loaded (TakeoverFence (BatchId nz_min)))
     (FenceEstablished WalDurable) (Replaying sample_replay)
     (BootEffect (ReadWal sample_partition (BatchId nz_min)))"
    by (simp add: sample_link_def boot_event_ok_def bootstrap_handle_def handle_fence_def Let_def
        sample_loaded_def sample_seal_fields replay_start_def replay_owner_def boot_effect_def
        sample_replay_def)
  show "sample_link es ew (Replaying sample_replay) (WalRead (Some sample_fence))
     (RefreshingFinal sample_recovery) (BootEffect ObserveHead)"
    by (simp add: sample_link_def boot_event_ok_def bootstrap_handle_def handle_wal_read_def Let_def
        handle_replay_read_def read_ok_def sample_loaded_def sample_seal_fields sample_fence_def
        sample_replay_def authored_claim_new_def replay_body_def replay_advance_def boot_effect_def
        sample_recovery_def sample_claimed_def)
  show "sample_link es ew (RefreshingFinal sample_recovery) (HeadObserved (Some (SealGeneration (nz_of 2))))
     BootCompleteState (BootComplete sample_recovery)"
    by (simp add: sample_link_def boot_event_ok_def bootstrap_handle_def handle_head_def
        boot_complete_def sample_recovery_def Let_def authored_claim_new_def)
qed

definition sample_read :: BootSeen where
  "sample_read = \<lparr> seen_head = Some sample_seal, seen_tables = [], seen_wal = [sample_fence] \<rparr>"

lemma sample_link_run:
  "boot_run es ew n 0 s seen prev \<Longrightarrow> sample_link es ew s e s' st \<Longrightarrow> e \<noteq> lost_race
     \<Longrightarrow> boot_run es ew (Suc n) 0 s' (boot_observe s e seen) (Some st)"
  using boot_run.step [of es ew n 0 s seen prev e s' st] by (simp add: sample_link_def)

lemma one_byte_encodes:
  "\<exists>x. encoded_seal_new one_byte_seal s = Some (Inr x)" "\<exists>x. encoded_wal_new one_byte object = Some (Inr x)"
  by (simp_all add: encoded_seal_new_def encoded_wal_new_def one_byte_seal_def one_byte_def
      assert_candidate_bytes_def bound_defs)

lemma sample_boot_runs:
  "\<exists>prev. boot_run one_byte_seal one_byte 8 0 (RefreshingFinal sample_recovery) sample_read prev"
  "boot_run one_byte_seal one_byte 9 0 BootCompleteState sample_read (Some (BootComplete sample_recovery))"
proof -
  note link = sample_link_run
  obtain g c f where "encoded_seal_new one_byte_seal sample_seal = Some (Inr g)"
      "encoded_seal_new one_byte_seal sample_claimed = Some (Inr c)"
      "encoded_wal_new one_byte sample_fence = Some (Inr f)"
    using one_byte_encodes by metis
  note links = sample_discovery(2) [OF this(1)] sample_discovery(3) sample_claim(1) [OF this(2)] sample_claim(2)
    sample_takeover(1) [OF this(3)] sample_takeover(2,3)
  note run = link [OF link [OF link [OF link [OF link [OF link [OF link [OF link [OF boot_run.start
    sample_discovery(1)] links(1)] links(2)] links(3)] links(4)] links(5)] links(6)] links(7)]
  from run have "boot_run one_byte_seal one_byte 8 0 (RefreshingFinal sample_recovery) sample_read
      (Some (BootEffect ObserveHead))"
    by (simp add: boot_observe_def sample_read_def eval_nat_numeral)
  then show "\<exists>prev. boot_run one_byte_seal one_byte 8 0 (RefreshingFinal sample_recovery) sample_read prev"
    "boot_run one_byte_seal one_byte 9 0 BootCompleteState sample_read (Some (BootComplete sample_recovery))"
    using link [OF _ sample_takeover(4)] by (auto simp: boot_observe_def eval_nat_numeral)
qed

section \<open>Properties\<close>

text \<open>
  C8. The bootstrap machine never panics: in every reachable state and for every completion of the
  outstanding effect, \<open>handle\<close> returns, either with the one effect the new state waits for, or
  with a completion or an exit in the terminal state.
\<close>

theorem bootstrap_never_panics:
  assumes "boot_run encode_seal encode_wal n k state seen prev"
    and "boot_encoders_ok encode_seal encode_wal" "boot_event_ok state e"
  shows "\<exists>state' st. bootstrap_handle encode_seal encode_wal \<lparr> bm_state = Some state \<rparr> e
       = Some (\<lparr> bm_state = Some state' \<rparr>, st)
     \<and> (case st of BootEffect eff \<Rightarrow> awaits state' eff | _ \<Rightarrow> state' = BootCompleteState)"
proof -
  obtain state' st where "bootstrap_handle encode_seal encode_wal \<lparr> bm_state = Some state \<rparr> e
       = Some (\<lparr> bm_state = Some state' \<rparr>, st)"
    "case st of
       BootEffect eff \<Rightarrow> awaits state' eff \<and> (e = lost_race \<or> boot_steps state' < boot_steps state)
     | BootComplete r \<Rightarrow> state' = BootCompleteState \<and> state = RefreshingFinal r \<and> recovery_ok r
     | BootExit _ \<Rightarrow> state' = BootCompleteState"
    using bootstrap_handle_ok [OF assms(2) boot_run_inv [OF assms(1,2)] assms(3)]
    by (auto simp: boot_ok_def)
  then show ?thesis by (cases st) auto
qed

theorem bootstrap_never_panics_witness:
  "\<exists>state' st. bootstrap_handle one_byte_seal one_byte
      \<lparr> bm_state = Some (RefreshingFinal sample_recovery) \<rparr> (HeadObserved None)
     = Some (\<lparr> bm_state = Some state' \<rparr>, st)"
proof -
  obtain prev where run:
      "boot_run one_byte_seal one_byte 8 0 (RefreshingFinal sample_recovery) sample_read prev"
    using sample_boot_runs(1) by blast
  show ?thesis
    using bootstrap_never_panics [OF run sample_encoders, of "HeadObserved None"]
    by (auto simp: boot_event_ok_def)
qed

text \<open>
  C9. Bootstrap ends: a run handles at most 5128 events, plus two for each lost genesis race; every
  loop over tables, fence candidates and replayed coordinates is bounded by the V2 limits.
\<close>

theorem bootstrap_terminates:
  assumes "boot_run encode_seal encode_wal n k state seen prev" "boot_encoders_ok encode_seal encode_wal"
  shows "n \<le> 5128 + 2 * k"
  using boot_run_bounded [OF assms] by (simp add: TAIL_STEPS_def REPLAY_STEPS_def bound_defs)

theorem bootstrap_terminates_witness:
  "\<exists>s seen prev. boot_run one_byte_seal one_byte 9 0 s seen prev \<and> (9::nat) \<le> 5128"
  using sample_boot_runs(2) bootstrap_terminates [OF sample_boot_runs(2) sample_encoders] by auto

lemma boot_run_complete:
  assumes run: "boot_run encode_seal encode_wal n k state seen (Some (BootComplete r))"
    and enc: "boot_encoders_ok encode_seal encode_wal"
  shows "recovery_ok r \<and> traced (RefreshingFinal r) seen"
proof -
  obtain n' k' s seen' prev e where step:
      "boot_run encode_seal encode_wal n' k' s seen' prev" "boot_event_ok s e"
      "bootstrap_handle encode_seal encode_wal \<lparr> bm_state = Some s \<rparr> e
        = Some (\<lparr> bm_state = Some state \<rparr>, BootComplete r)"
    and seen: "seen = boot_observe s e seen'"
    using run by (cases rule: boot_run.cases) blast+
  have inv: "boot_inv s" and tr: "traced s seen'"
    using boot_run_inv [OF step(1) enc] boot_run_traced [OF step(1) enc] by simp_all
  have s: "s = RefreshingFinal r" "recovery_ok r"
    using bootstrap_handle_ok [OF enc inv step(2)] step(3) by (auto simp: boot_ok_def)
  have "seen = seen'"
    using seen step(2,3) s(1)
    by (cases e) (auto simp: boot_observe_def boot_event_ok_def bootstrap_handle_def
        handle_store_failure_def boot_exit_def split: TypedStoreError.split_asm)
  with s tr show ?thesis by simp
qed

text \<open>
  C11. Bootstrap hands the writer what it needs: when a run completes, the recovery it returns is
  accepted by \<open>WriterMachine::from_recovery\<close> for every legal flush buffer, and the writer machine
  starts in its invariant, serving the recovered forest under the claimed generation.
\<close>

theorem bootstrap_hands_over_to_writer:
  assumes "boot_run encode_seal encode_wal n k state seen (Some (BootComplete r))"
    and "boot_encoders_ok encode_seal encode_wal"
    and "1 \<le> flush_buffer_bytes" "flush_buffer_bytes \<le> WAL_ENCODED_BYTES_MAX"
  shows "\<exists>m. from_recovery r interval flush_buffer_bytes = Some m \<and> writer_inv m \<and> idle m
     \<and> forest_of (wm_durable m) = recovery_durable r
     \<and> claim_generation (wm_claim m) = seal_generation (recovery_seal r)"
proof -
  have "recovery_ok r" using boot_run_complete [OF assms(1,2)] by simp
  then show ?thesis
    using from_recovery_ok [OF _ assms(3,4)]
    by (fastforce simp: recovery_ok_def authored_claim_new_def)
qed

theorem bootstrap_hands_over_to_writer_witness:
  "\<exists>m. from_recovery sample_recovery 0 64 = Some m \<and> writer_inv m \<and> idle m"
  using bootstrap_hands_over_to_writer [OF sample_boot_runs(2) sample_encoders, of 64 0]
  by (auto simp: bound_defs)

text \<open>
  C6. The recovered state is the exact replay of the WAL suffix: when a run completes, the objects
  it read at the coordinates from the one after the Seal's cut up to the takeover FENCE, without a
  gap, belong to the partition, have owners that only a FENCE changes and only upwards, ending with
  the claiming owner, and replaying their facts on the recovered base gives the recovered state.
\<close>

theorem recovered_state_is_replayed_suffix:
  assumes "boot_run encode_seal encode_wal n k state seen (Some (BootComplete r))"
    and "boot_encoders_ok encode_seal encode_wal"
  shows "map (batch_get \<circ> wal_batch) (seen_wal seen)
       = [Suc (cut_get (replay_batch (seal_replay (recovery_seal r))))
          ..<Suc (batch_get (recovery_durable_batch r))]
     \<and> list_all (\<lambda>w. wal_partition w = seal_partition (recovery_seal r)) (seen_wal seen)
     \<and> owner_chain (replay_owner (seal_replay (recovery_seal r))) (seen_wal seen)
         (Some (claim_owner (recovery_claim r)))
     \<and> replay (recovery_base r) (wal_log (seen_wal seen)) = Some (Inr (recovery_durable r))"
  using boot_run_complete [OF assms]
  by (simp add: wal_replayed_def boot_cut_def list_all_iff)

lemma boot_run_decoded:
  assumes "boot_run encode_seal encode_wal n k state seen prev"
  shows "\<forall>(t, d)\<in>set (seen_tables seen). decoded_ok (table_store (ref_object t)) d"
  using assms
proof (induction rule: boot_run.induct)
  case start
  then show ?case by (simp add: nothing_read_def)
next
  case (step n k state seen prev e state' st)
  then show ?case
    by (cases e) (auto simp: boot_observe_def boot_event_ok_def
        split: option.split_asm BootstrapState.split_asm)
qed

lemma planned_stores:
  assumes "seal_valid seal"
  shows "\<forall>s\<in>set (tree_sources (seal_directory seal)). table_store (ref_object (planned_table s)) = StoreDirectory"
    and "\<forall>s\<in>set (tree_sources (seal_ledger seal)). table_store (ref_object (planned_table s)) = StoreLedger"
proof -
  have "planned_table s \<in> set (tree_tables tree)" if source: "s \<in> set (tree_sources tree)" for s tree
  proof -
    obtain run where "run \<in> set (tree_runs tree)" "s \<in> set (run_sources run)"
      using source by (auto simp: tree_sources_def)
    then show ?thesis
      using run_sources_tables [of run] by (auto simp: tree_tables_def simp flip: run_sources_tables)
  qed
  with assms show "\<forall>s\<in>set (tree_sources (seal_directory seal)).
      table_store (ref_object (planned_table s)) = StoreDirectory"
    and "\<forall>s\<in>set (tree_sources (seal_ledger seal)).
      table_store (ref_object (planned_table s)) = StoreLedger"
    by (auto simp: seal_valid_iff table_fits_def)
qed

lemma decoded_ok_rows:
  "decoded_ok StoreLedger d \<Longrightarrow> entry_rows d = []" "decoded_ok StoreDirectory d \<Longrightarrow> cell_rows d = []"
  by (auto simp: decoded_ok_def entry_rows_def cell_rows_def split: DecodedTable.split_asm)

lemma read_rows:
  assumes "map fst tables = map planned_table (planned seal)"
    and "\<forall>(t, d)\<in>set tables. contents t = d"
  shows "concat (map (rows \<circ> snd) tables)
     = concat (map (rows \<circ> contents \<circ> planned_table) (tree_sources (seal_directory seal)))
       @ concat (map (rows \<circ> contents \<circ> planned_table) (tree_sources (seal_ledger seal)))"
proof -
  have "map (rows \<circ> snd) tables = map (rows \<circ> contents) (map fst tables)"
    using assms(2) by auto
  then show ?thesis by (simp add: assms(1) planned_def comp_assoc)
qed

text \<open>
  C10. The recovered base is the newest-wins merge of the Seal's tables: when a run completes and
  the tables it read hold what \<open>contents\<close> says, a path resolves to the row of the newest run that
  has one, and a uid to the record of the newest run with a cell for it, unless that cell deletes it.
\<close>

theorem recovered_base_is_newest_wins:
  assumes "boot_run encode_seal encode_wal n k state seen (Some (BootComplete r))"
    and "boot_encoders_ok encode_seal encode_wal"
    and "\<forall>(t, d)\<in>set (seen_tables seen). contents t = d"
  shows "forest_resolve (recovery_base r) p
       = map_of (newest_rows (entry_rows \<circ> contents) (seal_directory (recovery_seal r))) p
     \<and> forest_record (recovery_base r) u
       = Option.bind (map_of (newest_rows (cell_rows \<circ> contents) (seal_ledger (recovery_seal r))) u) cell_record"
proof -
  let ?s = "recovery_seal r"
  have rec: "recovery_ok r" and base: "base_read seen ?s (recovery_base r)"
    using boot_run_complete [OF assms(1,2)] by simp_all
  have tables: "map fst (seen_tables seen) = map planned_table (planned ?s)"
    using base by (simp add: base_read_def)
  have kind: "decoded_ok (table_store (ref_object (planned_table x))) (contents (planned_table x))"
    if "x \<in> set (planned ?s)" for x
  proof -
    have "planned_table x \<in> fst ` set (seen_tables seen)"
      using that tables by (metis image_eqI list.set_map)
    with assms(3) boot_run_decoded [OF assms(1)] show ?thesis by fastforce
  qed
  have stores: "seal_valid ?s" using rec by (simp add: recovery_ok_def)
  have "entry_rows (contents (planned_table x)) = []" if "x \<in> set (tree_sources (seal_ledger ?s))" for x
    using kind [of x] planned_stores(2) [OF stores] that by (auto simp: planned_def decoded_ok_rows)
  then have dir: "rev (concat (map (entry_rows \<circ> snd) (seen_tables seen)))
      = newest_rows (entry_rows \<circ> contents) (seal_directory ?s)"
    using rev_concat_sources [of "entry_rows \<circ> contents" "seal_directory ?s"]
    by (simp add: read_rows [OF tables assms(3)])
  have "cell_rows (contents (planned_table x)) = []" if "x \<in> set (tree_sources (seal_directory ?s))" for x
    using kind [of x] planned_stores(1) [OF stores] that by (auto simp: planned_def decoded_ok_rows)
  then have led: "rev (concat (map (cell_rows \<circ> snd) (seen_tables seen)))
      = newest_rows (cell_rows \<circ> contents) (seal_ledger ?s)"
    using rev_concat_sources [of "cell_rows \<circ> contents" "seal_ledger ?s"]
    by (simp add: read_rows [OF tables assms(3)])
  show ?thesis
    using base
    by (simp add: base_read_def forest_resolve_def forest_record_def read_directory_def read_ledger_def
        directory_store.get_rows ledger_store.get_rows dir led split: option.split)
qed

end
