(* ===== verification/Bootstrap_Run.thy ===== *)
theory Bootstrap_Run
  imports Bootstrap_Theorems
begin

text \<open>
  A bootstrap evaluated on a store with history: the newest Seal selects two sorted runs of Directory
  and Ledger tables, the newer of which deletes a stream, and the log after its cut holds a RUN of the
  previous owner. The run merges four tables, places a FENCE behind the RUN and replays both.
\<close>

section \<open>The store\<close>

abbreviation gen :: "nat \<Rightarrow> SealGeneration" where
  "gen n \<equiv> SealGeneration (nz_of n)"

abbreviation batch_at :: "nat \<Rightarrow> BatchId" where
  "batch_at n \<equiv> BatchId (nz_of n)"

abbreviation uid_at :: "nat \<Rightarrow> StreamUid" where
  "uid_at n \<equiv> StreamUid (nz_of n)"

definition history_record :: StreamRecord where
  "history_record = \<lparr> record_content_type = octet_stream, record_expiry = NoExpiry,
     record_lifecycle = LifecycleOpen, record_created_at = batch_at 1 \<rparr>"

text \<open>The table of a store that the checkpoint of a generation wrote, and its rows.\<close>

definition history_table :: "nat \<Rightarrow> StoreKind \<Rightarrow> TableRef" where
  "history_table n store = TableRef (TableObjectId (FreshIdentity (gen n) (AttemptId (gen 2) n) 0) store) nz_min"

definition history_contents :: "TableRef \<Rightarrow> DecodedTable" where
  "history_contents t =
     (if t = history_table 3 StoreDirectory
      then DecodedDirectory [(path_of ''a'', DirLive (uid_at 1)), (path_of ''b'', DirLive (uid_at 2))]
      else if t = history_table 4 StoreDirectory then DecodedDirectory [(path_of ''a'', DirTombstone (uid_at 1))]
      else if t = history_table 3 StoreLedger
      then DecodedLedger [(uid_at 1, CellValue history_record), (uid_at 2, CellValue history_record)]
      else DecodedLedger [(uid_at 1, CellDelete)])"

definition history_tree :: "StoreKind \<Rightarrow> TreeVersion" where
  "history_tree store = TreeVersion [SortedRun [history_table 4 store], SortedRun [history_table 3 store]]"

definition history_seal :: "nat \<Rightarrow> Seal" where
  "history_seal n = \<lparr> seal_partition = sample_partition, seal_generation = gen n,
     seal_replay = ReplayThrough (batch_at 2) (owner_from (gen 2)),
     seal_directory = history_tree StoreDirectory, seal_ledger = history_tree StoreLedger \<rparr>"

definition history_run :: WalObject where
  "history_run = \<lparr> wal_partition = sample_partition, wal_batch = batch_at 3, wal_owner = owner_from (gen 2),
     wal_body = WalRun [StreamClosed (path_of ''b'') (uid_at 2)] \<rparr>"

definition history_fence :: WalObject where
  "history_fence = \<lparr> wal_partition = sample_partition, wal_batch = batch_at 4, wal_owner = owner_from (gen 5),
     wal_body = WalFence \<rparr>"

text \<open>What it stands for: the first stream is deleted, the second is open and then closed.\<close>

definition history_base :: Forest where
  "history_base = deleted_forest (created_forest (created_forest forest_empty (path_of ''a'') (uid_at 1) history_record)
     (path_of ''b'') (uid_at 2) history_record) (path_of ''a'') (uid_at 1)"

definition history_durable :: Forest where
  "history_durable = closed_forest history_base (uid_at 2) history_record"

lemma history_paths: "path_of ''a'' < path_of ''b''" "path_of ''a'' \<noteq> path_of ''b''" "path_of ''b'' \<noteq> path_of ''a''"
proof -
  have "path_as_str (path_of ''a'') = ''a''" "path_as_str (path_of ''b'') = ''b''"
    by (rule path_as_str_of, code_simp)+
  then show "path_of ''a'' < path_of ''b''" "path_of ''a'' \<noteq> path_of ''b''" "path_of ''b'' \<noteq> path_of ''a''"
    by (auto simp: less_StreamPath_def path_eq_iff)
qed

lemma history_base_inv: "forest_inv history_base"
proof -
  let ?one = "created_forest forest_empty (path_of ''a'') (uid_at 1) history_record"
  have one: "forest_inv ?one"
    using forest_inv_created [OF forest_inv_empty, of "path_of ''a''" history_record] sample_empty
    by (simp add: next_uid_def forest_resolve_def bound_defs)
  have size: "forest_size ?one = 1"
    by (simp add: forest_size_def created_forest_def forest_empty_def fcard.rep_eq)
  then have "next_uid ?one = uid_at 2" by (simp add: next_uid_def numeral_2_eq_2)
  then have "forest_inv (created_forest ?one (path_of ''b'') (uid_at 2) history_record)"
    using forest_inv_created [OF one, of "path_of ''b''" history_record] size history_paths
    by (simp add: bound_defs) (simp add: created_forest_def forest_empty_def)
  then show ?thesis
    unfolding history_base_def by (rule forest_inv_deleted) (simp add: created_forest_def history_paths)
qed

lemma history_seal_fields:
  "seal_partition (history_seal n) = sample_partition" "seal_generation (history_seal n) = gen n"
  "seal_replay (history_seal n) = ReplayThrough (batch_at 2) (owner_from (gen 2))"
  "seal_directory (history_seal n) = history_tree StoreDirectory" "seal_ledger (history_seal n) = history_tree StoreLedger"
  by (simp_all add: history_seal_def)

lemma history_tables_distinct:
  "history_table 3 s \<noteq> history_table 4 s'" "history_table 4 s \<noteq> history_table 3 s'"
  "history_table n s = history_table n s' \<longleftrightarrow> s = s'"
  by (simp_all add: history_table_def nz_eq_iff u64_max_def)

lemma history_seal_valid: "seal_valid (history_seal 4)"
  by (auto simp: seal_valid_iff history_seal_fields history_tree_def tree_tables_def seal_tables_def table_fits_def
      history_table_def nz_eq_iff u64_max_def less_SealGeneration_def less_eq_SealGeneration_def
      seal_generation_genesis_def)

section \<open>The run\<close>

definition history_sources :: "PlannedTable list" where
  "history_sources = map (\<lambda>(n, store). \<lparr> planned_table = history_table n store, planned_starts_run = True \<rparr>)
     [(3, StoreDirectory), (4, StoreDirectory), (3, StoreLedger), (4, StoreLedger)]"

lemma history_planned: "plan_bootstrap_sources (history_seal 4) = Inr history_sources"
  by (simp add: plan_bootstrap_sources_def history_seal_fields history_tree_def tree_tables_def seal_tables_def
      tree_sources_def run_sources_def history_sources_def history_table_def checked_add_def u64_max_def bound_defs)

lemma history_claim: "claim_successor (history_seal 4) = Inr (history_seal 5)"
  by (auto simp: claim_successor_Inr history_seal_def seal_gen.successor_Inr u64_max_def intro!: exI [of _ "gen 5"])

definition history_load ::
  "PlannedTable list \<Rightarrow> Forest \<Rightarrow> nat \<Rightarrow> StreamPath option \<Rightarrow> StreamUid option \<Rightarrow> BaseLoad" where
  "history_load remaining rows resident directory ledger =
     \<lparr> load_claimed = \<lparr> claimed_claim = authored_claim_new (gen 5), claimed_seal = history_seal 5 \<rparr>,
       load_remaining = remaining,
       load_merged = \<lparr> merged_directory = forest_directory rows, merged_ledger = forest_ledger rows,
         merged_resident_bytes = resident \<rparr>,
       load_previous_directory = directory, load_previous_ledger = ledger \<rparr>"

text \<open>The rows merged after one, two and three tables.\<close>

definition history_rows :: "nat \<Rightarrow> Forest" where
  "history_rows n =
     \<lparr> forest_directory = (if n = 1 then id else fmupd (path_of ''a'') (DirTombstone (uid_at 1)))
         (fmupd (path_of ''b'') (DirLive (uid_at 2)) (fmupd (path_of ''a'') (DirLive (uid_at 1)) fmempty)),
       forest_ledger = (if n = 3 then fmupd (uid_at 2) history_record (fmupd (uid_at 1) history_record fmempty) else fmempty) \<rparr>"

abbreviation history_reading :: "nat \<Rightarrow> Forest \<Rightarrow> nat \<Rightarrow> StreamPath option \<Rightarrow> StreamUid option \<Rightarrow> BootstrapState" where
  "history_reading k rows resident directory ledger \<equiv>
     ReadingTable (history_load (drop (Suc k) history_sources) rows resident directory ledger) (history_sources ! k)"

abbreviation read_table :: "nat \<Rightarrow> StoreKind \<Rightarrow> BootstrapEvent" where
  "read_table n store \<equiv> TableRead (history_table n store) (history_contents (history_table n store))"

abbreviation await_table :: "nat \<Rightarrow> StoreKind \<Rightarrow> BootstrapStep" where
  "await_table n store \<equiv> BootEffect (ReadTable sample_partition (history_table n store))"

definition history_loaded :: LoadedBootstrap where
  "history_loaded = \<lparr> loaded_claimed = \<lparr> claimed_claim = authored_claim_new (gen 5), claimed_seal = history_seal 5 \<rparr>,
     loaded_base = history_base, loaded_durable = history_base \<rparr>"

lemma history_discovery:
  "sample_link es ew (DiscoveringHead p) (HeadObserved (Some (gen 4))) (ReadingSeal (gen 4)) (BootEffect (ReadSeal (gen 4)))"
  "encoded_seal_new es (history_seal 5) = Some (Inr c) \<Longrightarrow>
     sample_link es ew (ReadingSeal (gen 4)) (SealRead (Some (history_seal 4)))
       (PublishingClaim (history_seal 5) history_sources) (BootEffect (PublishClaim (EncodedAuthoritySeal c)))"
  "sample_link es ew (PublishingClaim (history_seal 5) history_sources) (ClaimPublished Authored)
     (history_reading 0 forest_empty 0 None None) (await_table 3 StoreDirectory)"
proof -
  have "gen 5 \<noteq> seal_generation_genesis" by (simp add: seal_generation_genesis_def nz_eq_iff u64_max_def)
  then show "sample_link es ew (ReadingSeal (gen 4)) (SealRead (Some (history_seal 4)))
       (PublishingClaim (history_seal 5) history_sources) (BootEffect (PublishClaim (EncodedAuthoritySeal c)))"
    if "encoded_seal_new es (history_seal 5) = Some (Inr c)"
    using that history_seal_valid
    by (simp add: sample_link_def boot_event_ok_def bootstrap_handle_def handle_seal_def boot_effect_def
        authority_candidate_def history_seal_fields history_planned history_claim)
qed (simp_all add: sample_link_def boot_event_ok_def bootstrap_handle_def handle_head_def handle_claim_def boot_effect_def
      read_next_table_def history_load_def history_sources_def merged_rows_default_def history_seal_fields forest_empty_def)

lemmas history_merging =
  sample_link_def boot_event_ok_def bootstrap_handle_def handle_table_def merge_decoded_def merge_directory_table_def
  merge_ledger_table_def merge_directory_row_def merge_ledger_row_def add_resident_bytes_def checked_add_def
  checked_sub_def read_next_table_def boot_effect_def history_load_def history_sources_def history_contents_def
  history_tables_distinct history_rows_def history_seal_fields u64_max_def bound_defs decoded_ok_def

lemma history_tables:
  "sample_link es ew (history_reading 0 forest_empty 0 None None) (read_table 3 StoreDirectory)
     (history_reading 1 (history_rows 1) 1050 (Some (path_of ''b'')) None) (await_table 4 StoreDirectory)"
  "sample_link es ew (history_reading 1 (history_rows 1) 1050 (Some (path_of ''b'')) None) (read_table 4 StoreDirectory)
     (history_reading 2 (history_rows 2) 1050 (Some (path_of ''a'')) None) (await_table 3 StoreLedger)"
  "sample_link es ew (history_reading 2 (history_rows 2) 1050 (Some (path_of ''a'')) None) (read_table 3 StoreLedger)
     (history_reading 3 (history_rows 3) 3120 (Some (path_of ''a'')) (Some (uid_at 2))) (await_table 4 StoreLedger)"
  "sample_link es ew (history_reading 3 (history_rows 3) 3120 (Some (path_of ''a'')) (Some (uid_at 2)))
     (read_table 4 StoreLedger) (ObservingWalTail history_loaded None) (BootEffect ObserveWalTail)"
proof -
  have stores: "table_store (ref_object (history_table n store)) = store" for n store by (simp add: history_table_def)
  have uids: "nz_of 2 \<noteq> nz_of (Suc 0)" "nz_of (Suc 0) \<noteq> nz_of 2" by (simp_all add: nz_eq_iff u64_max_def)
  show "sample_link es ew (history_reading 0 forest_empty 0 None None) (read_table 3 StoreDirectory)
     (history_reading 1 (history_rows 1) 1050 (Some (path_of ''b'')) None) (await_table 4 StoreDirectory)"
    by (simp add: history_merging stores history_paths forest_empty_def)
  show "sample_link es ew (history_reading 1 (history_rows 1) 1050 (Some (path_of ''b'')) None) (read_table 4 StoreDirectory)
     (history_reading 2 (history_rows 2) 1050 (Some (path_of ''a'')) None) (await_table 3 StoreLedger)"
    by (simp add: history_merging stores history_paths)
  show "sample_link es ew (history_reading 2 (history_rows 2) 1050 (Some (path_of ''a'')) None) (read_table 3 StoreLedger)
     (history_reading 3 (history_rows 3) 3120 (Some (path_of ''a'')) (Some (uid_at 2))) (await_table 4 StoreLedger)"
    by (simp add: history_merging stores uids)
  have "forest_try_from (forest_directory (history_rows 3)) (fmdrop (uid_at 1) (forest_ledger (history_rows 3))) = Inr history_base"
    using history_base_inv
    by (simp add: forest_try_from_Inr history_base_def deleted_forest_def created_forest_def forest_empty_def history_rows_def)
  then show "sample_link es ew (history_reading 3 (history_rows 3) 3120 (Some (path_of ''a'')) (Some (uid_at 2)))
     (read_table 4 StoreLedger) (ObservingWalTail history_loaded None) (BootEffect ObserveWalTail)"
    by (simp add: history_merging stores uids history_loaded_def)
qed

definition history_replay :: "nat \<Rightarrow> Forest \<Rightarrow> Replay" where
  "history_replay n durable = \<lparr> replay_loaded = history_loaded \<lparr> loaded_durable := durable \<rparr>, replay_next = batch_at n,
     replay_fence = TakeoverFence (batch_at 4), replay_owner_token = Some (owner_from (gen 2)) \<rparr>"

definition history_recovery :: WriterRecovery where
  "history_recovery = \<lparr> recovery_claim = authored_claim_new (gen 5), recovery_seal = history_seal 5,
     recovery_base = history_base, recovery_durable = history_durable, recovery_durable_batch = batch_at 4 \<rparr>"

lemma history_fold: "strict_fold history_base (batch_at 3) (StreamClosed (path_of ''b'') (uid_at 2)) = Some (Inr history_durable)"
proof -
  have "nz_of 2 \<noteq> nz_of (Suc 0)" by (simp add: nz_eq_iff u64_max_def)
  then have "fmlookup (forest_directory history_base) (path_of ''b'') = Some (DirLive (uid_at 2))"
    "fmlookup (forest_ledger history_base) (uid_at 2) = Some history_record"
    by (simp_all add: history_base_def deleted_forest_def created_forest_def history_paths)
  then show ?thesis
    using strict_fold_closed [OF history_base_inv]
    by (simp add: history_durable_def history_record_def Let_def)
qed

lemma history_takeover:
  "sample_link es ew (ObservingWalTail history_loaded None) (WalTailObserved (Some (batch_at 3)))
     (ReadingWalTail history_loaded (TakeoverFence (batch_at 4)) (batch_at 3))
     (BootEffect (ReadWal sample_partition (batch_at 3)))"
  "encoded_wal_new ew history_fence = Some (Inr f) \<Longrightarrow>
     sample_link es ew (ReadingWalTail history_loaded (TakeoverFence (batch_at 4)) (batch_at 3)) (WalRead (Some history_run))
       (EstablishingFence history_loaded (TakeoverFence (batch_at 4))) (BootEffect (EstablishFence f))"
  "sample_link es ew (EstablishingFence history_loaded (TakeoverFence (batch_at 4))) (FenceEstablished WalDurable)
     (Replaying (history_replay 3 history_base)) (BootEffect (ReadWal sample_partition (batch_at 3)))"
proof -
  have next_batch: "batch_successor (batch_at 3) = Inr (batch_at 4)" "batch_successor (batch_at 2) = Inr (batch_at 3)"
    by (simp_all add: batch.successor_Inr u64_max_def)
  have order: "batch_at 2 < batch_at 3" "\<not> batch_at 3 < batch_at 2" "\<not> batch_at 3 \<le> batch_at 2" "max (batch_at 2) (batch_at 3) = batch_at 3"
    by (simp_all add: less_BatchId_def less_eq_BatchId_def max_def u64_max_def)
  have "bound_takeover_fence (Some (batch_at 2)) (batch_at 4) = Inr (TakeoverFence (batch_at 4))"
    by (simp add: bound_takeover_fence_Inr u64_max_def bound_defs)
  with next_batch order show "sample_link es ew (ObservingWalTail history_loaded None) (WalTailObserved (Some (batch_at 3)))
     (ReadingWalTail history_loaded (TakeoverFence (batch_at 4)) (batch_at 3))
     (BootEffect (ReadWal sample_partition (batch_at 3)))"
    by (simp add: sample_link_def boot_event_ok_def bootstrap_handle_def handle_wal_tail_def history_loaded_def
        history_seal_fields replay_batch_def plan_fence_candidate_def options_max_def boot_effect_def)
  have "\<not> owner_from (gen 2) \<ge> owner_from (gen 5)"
    by (simp add: owner_from_def less_eq_OwnerToken_def less_eq_SealGeneration_def u64_max_def)
  then show "sample_link es ew (ReadingWalTail history_loaded (TakeoverFence (batch_at 4)) (batch_at 3)) (WalRead (Some history_run))
       (EstablishingFence history_loaded (TakeoverFence (batch_at 4))) (BootEffect (EstablishFence f))"
    if "encoded_wal_new ew history_fence = Some (Inr f)"
    using that
    by (simp add: sample_link_def boot_event_ok_def bootstrap_handle_def handle_wal_read_def handle_tail_read_def
        read_ok_def history_loaded_def history_run_def history_fence_def history_seal_fields authored_claim_new_def
        establish_fence_def boot_effect_def)
  from next_batch show "sample_link es ew (EstablishingFence history_loaded (TakeoverFence (batch_at 4))) (FenceEstablished WalDurable)
     (Replaying (history_replay 3 history_base)) (BootEffect (ReadWal sample_partition (batch_at 3)))"
    by (simp add: sample_link_def boot_event_ok_def bootstrap_handle_def handle_fence_def Let_def history_loaded_def
        history_seal_fields replay_start_def replay_owner_def boot_effect_def history_replay_def)
qed

lemma history_replayed:
  "sample_link es ew (Replaying (history_replay 3 history_base)) (WalRead (Some history_run))
     (Replaying (history_replay 4 history_durable)) (BootEffect (ReadWal sample_partition (batch_at 4)))"
  "sample_link es ew (Replaying (history_replay 4 history_durable)) (WalRead (Some history_fence))
     (RefreshingFinal history_recovery) (BootEffect ObserveHead)"
  "sample_link es ew (RefreshingFinal history_recovery) (HeadObserved (Some (gen 5)))
     BootCompleteState (BootComplete history_recovery)"
proof -
  have next_batch: "batch_successor (batch_at 3) = Inr (batch_at 4)" "nz_of 3 \<noteq> nz_of 4"
    by (simp_all add: batch.successor_Inr nz_eq_iff u64_max_def)
  then show "sample_link es ew (Replaying (history_replay 3 history_base)) (WalRead (Some history_run))
     (Replaying (history_replay 4 history_durable)) (BootEffect (ReadWal sample_partition (batch_at 4)))"
    by (simp add: sample_link_def boot_event_ok_def bootstrap_handle_def handle_wal_read_def Let_def
        handle_replay_read_def read_ok_def history_loaded_def history_seal_fields history_run_def history_replay_def
        replay_body_def replay_advance_def boot_effect_def history_fold)
  have "\<not> owner_from (gen 5) \<le> owner_from (gen 2)"
    by (simp add: owner_from_def less_eq_OwnerToken_def less_eq_SealGeneration_def u64_max_def)
  then show "sample_link es ew (Replaying (history_replay 4 history_durable)) (WalRead (Some history_fence))
     (RefreshingFinal history_recovery) (BootEffect ObserveHead)"
    by (simp add: sample_link_def boot_event_ok_def bootstrap_handle_def handle_wal_read_def Let_def
        handle_replay_read_def read_ok_def history_loaded_def history_seal_fields history_fence_def history_replay_def
        authored_claim_new_def replay_body_def replay_advance_def boot_effect_def history_recovery_def)
  show "sample_link es ew (RefreshingFinal history_recovery) (HeadObserved (Some (gen 5)))
     BootCompleteState (BootComplete history_recovery)"
    by (simp add: sample_link_def boot_event_ok_def bootstrap_handle_def handle_head_def boot_complete_def
        history_recovery_def authored_claim_new_def)
qed

definition history_read :: BootSeen where
  "history_read = \<lparr> seen_head = Some (history_seal 4),
     seen_tables = map (\<lambda>source. (planned_table source, history_contents (planned_table source))) history_sources,
     seen_wal = [history_run, history_fence] \<rparr>"

lemma history_boot_run:
  "boot_run one_byte_seal one_byte 14 0 BootCompleteState history_read (Some (BootComplete history_recovery))"
proof -
  note link = sample_link_run
  obtain c f where "encoded_seal_new one_byte_seal (history_seal 5) = Some (Inr c)"
      "encoded_wal_new one_byte history_fence = Some (Inr f)"
    using one_byte_encodes by metis
  note claimed = link [OF link [OF link [OF link [OF boot_run.start sample_discovery(1)] history_discovery(1)]
    history_discovery(2) [OF this(1)]] history_discovery(3)]
    and merged = link [OF link [OF link [OF link [OF _ history_tables(1)] history_tables(2)] history_tables(3)] history_tables(4)]
    and fenced = link [OF link [OF link [OF _ history_takeover(1)] history_takeover(2) [OF this(2)]] history_takeover(3)]
    and replayed = link [OF link [OF link [OF _ history_replayed(1)] history_replayed(2)] history_replayed(3)]
  from replayed [OF fenced [OF merged [OF claimed]]] show ?thesis
    by (simp add: boot_observe_def history_read_def history_sources_def eval_nat_numeral)
qed

section \<open>What it recovers\<close>

theorem recovered_base_is_newest_wins_witness:
  "newest_rows (entry_rows \<circ> history_contents) (seal_directory (recovery_seal history_recovery))
     = [(path_of ''a'', DirTombstone (uid_at 1)), (path_of ''b'', DirLive (uid_at 2)), (path_of ''a'', DirLive (uid_at 1))]
   \<and> newest_rows (cell_rows \<circ> history_contents) (seal_ledger (recovery_seal history_recovery))
     = [(uid_at 1, CellDelete), (uid_at 2, CellValue history_record), (uid_at 1, CellValue history_record)]
   \<and> forest_resolve (recovery_base history_recovery) (path_of ''a'') = Some (DirTombstone (uid_at 1))
   \<and> forest_resolve (recovery_base history_recovery) (path_of ''b'') = Some (DirLive (uid_at 2))
   \<and> forest_record (recovery_base history_recovery) (uid_at 1) = None
   \<and> forest_record (recovery_base history_recovery) (uid_at 2) = Some history_record"
proof -
  let ?r = history_recovery
  have directory: "newest_rows (entry_rows \<circ> history_contents) (seal_directory (recovery_seal ?r))
      = [(path_of ''a'', DirTombstone (uid_at 1)), (path_of ''b'', DirLive (uid_at 2)), (path_of ''a'', DirLive (uid_at 1))]"
    and ledger: "newest_rows (cell_rows \<circ> history_contents) (seal_ledger (recovery_seal ?r))
      = [(uid_at 1, CellDelete), (uid_at 2, CellValue history_record), (uid_at 1, CellValue history_record)]"
    by (simp_all add: newest_rows_def history_recovery_def history_seal_fields history_tree_def history_contents_def
        history_tables_distinct entry_rows_def cell_rows_def)
  have "\<forall>(t, d)\<in>set (seen_tables history_read). history_contents t = d" by (auto simp: history_read_def)
  note newest = recovered_base_is_newest_wins [OF history_boot_run sample_encoders this, unfolded directory ledger]
  have "nz_of 2 \<noteq> nz_of (Suc 0)" by (simp add: nz_eq_iff u64_max_def)
  then show ?thesis
    using newest [of "path_of ''a''" "uid_at 1"] newest [of "path_of ''b''" "uid_at 2"] directory ledger
    by (simp add: history_paths cell_record_def)
qed

theorem recovered_state_is_replayed_suffix_witness:
  "map (batch_get \<circ> wal_batch) [history_run, history_fence] = [3, 4]
   \<and> owner_chain (Some (owner_from (gen 2))) [history_run, history_fence] (Some (owner_from (gen 5)))
   \<and> replay history_base (wal_log [history_run, history_fence]) = Some (Inr history_durable)"
proof -
  have "batch_get (batch_at 3) = 3" "batch_get (batch_at 4) = 4" by (simp_all add: u64_max_def)
  then show ?thesis
    using recovered_state_is_replayed_suffix [OF history_boot_run sample_encoders]
    by (simp add: history_read_def history_recovery_def history_seal_fields replay_owner_def
        authored_claim_new_def history_run_def [THEN arg_cong [of _ _ wal_batch]]
        history_fence_def [THEN arg_cong [of _ _ wal_batch]] del: owner_chain.simps batch_get.simps)
qed

end
