(* ===== verification/Key_Spelling.thy ===== *)
theory Key_Spelling
  imports Storage_Objects
begin

text \<open>
  The durable spellings: Seal, WAL and table keys of \<open>strom-storage-domain/src/spelling.rs\<close> and the
  UUID spelling of partition identities in \<open>partition.rs\<close>. Parsing and printing are the two
  operations of the locale \<open>canonical_spelling\<close>, which is interpreted for each kind of key; Seal
  and WAL keys embed reverse ordinals, so that their spellings sort newest first.
\<close>

section \<open>Key spellings\<close>

definition REVERSE_ORDINAL_DIGITS :: nat where "REVERSE_ORDINAL_DIGITS = 20"
definition GENERATION_DIGITS :: nat where "GENERATION_DIGITS = 20"
definition TABLE_ORDINAL_DIGITS :: nat where "TABLE_ORDINAL_DIGITS = 10"
definition SEAL_SEGMENT :: string where "SEAL_SEGMENT = ''seal''"
definition TABLE_SEGMENT :: string where "TABLE_SEGMENT = ''table''"
definition WAL_SEGMENT :: string where "WAL_SEGMENT = ''wal''"
definition NAMESPACE_VERSION :: string where "NAMESPACE_VERSION = ''v1''"

lemmas spelling_consts =
  REVERSE_ORDINAL_DIGITS_def GENERATION_DIGITS_def TABLE_ORDINAL_DIGITS_def SEAL_SEGMENT_def
  TABLE_SEGMENT_def WAL_SEGMENT_def NAMESPACE_VERSION_def

datatype KeySpellingError =
  KeyShape | KeyUnsupportedNamespace | KeyReverseOrdinal | KeyZeroCoordinate | KeyTableStore
| KeyTableCoordinate | KeyInvalidTableIdentity

datatype SealNamespace = SealNamespace

datatype WalNamespace = WalNamespace

datatype SealKey = SealKey (key_generation: SealGeneration)

datatype WalKey = WalKey (key_batch: BatchId)

datatype TableKey = TableKey (key_object: TableObjectId)

text \<open>\<open>Iterator::next\<close> on the segments that are left.\<close>

fun iter_next :: "'a list \<Rightarrow> 'a option \<times> 'a list" where
  "iter_next [] = (None, [])"
| "iter_next (x # xs) = (Some x, xs)"

definition reverse_ordinal_display :: "nat \<Rightarrow> string option" where
  "reverse_ordinal_display ordinal =
     map_option (pad REVERSE_ORDINAL_DIGITS) (checked_sub u64_max ordinal)"

definition parse_namespace :: "string \<Rightarrow> string \<Rightarrow> KeySpellingError + unit" where
  "parse_namespace input expected_kind =
     (let (kind, segments) = iter_next (split_on CHR ''/'' input) in
      if kind \<noteq> Some expected_kind then Inl KeyShape
      else let (version, segments) = iter_next segments in
      if version \<noteq> Some NAMESPACE_VERSION then Inl KeyUnsupportedNamespace
      else let (extra, segments) = iter_next segments in
      if extra \<noteq> None then Inl KeyShape else Inr ())"

definition parse_reverse_ordinal :: "string \<Rightarrow> KeySpellingError + nat" where
  "parse_reverse_ordinal input =
     (if length input \<noteq> REVERSE_ORDINAL_DIGITS \<or> \<not> list_all is_ascii_digit input then Inl KeyReverseOrdinal
      else ok_or KeyReverseOrdinal (parse_u64 input))"

definition parse_key :: "string \<Rightarrow> string \<Rightarrow> (KeySpellingError + nat) option" where
  "parse_key input expected_kind =
     (let (kind, segments) = iter_next (split_on CHR ''/'' input) in
      if kind \<noteq> Some expected_kind then Some (Inl KeyShape)
      else let (version, segments) = iter_next segments in
      if version \<noteq> Some NAMESPACE_VERSION then Some (Inl KeyUnsupportedNamespace)
      else let (ordinal, segments) = iter_next segments in
      and_then (Some (ok_or KeyShape ordinal)) (\<lambda>reverse_ordinal.
      let (extra, segments) = iter_next segments in
      if extra \<noteq> None then Some (Inl KeyShape)
      else and_then (Some (parse_reverse_ordinal reverse_ordinal)) (\<lambda>reversed.
        map_option Inr (checked_sub u64_max reversed))))"

definition parse_fixed_u64 :: "string \<Rightarrow> nat \<Rightarrow> KeySpellingError + nat" where
  "parse_fixed_u64 input digits =
     (if length input \<noteq> digits \<or> \<not> list_all is_ascii_digit input then Inl KeyTableCoordinate
      else ok_or KeyTableCoordinate (parse_u64 input))"

fun store_name :: "StoreKind \<Rightarrow> string" where
  "store_name StoreDirectory = ''directory''"
| "store_name StoreLedger = ''ledger''"
| "store_name StoreTally = ''tally''"
| "store_name StoreAnnals = ''annals''"

definition parse_store :: "string \<Rightarrow> KeySpellingError + StoreKind" where
  "parse_store input =
     (if input = ''directory'' then Inr StoreDirectory
      else if input = ''ledger'' then Inr StoreLedger
      else if input = ''tally'' then Inr StoreTally
      else if input = ''annals'' then Inr StoreAnnals
      else Inl KeyTableStore)"

definition seal_namespace_from_str :: "string \<Rightarrow> KeySpellingError + SealNamespace" where
  "seal_namespace_from_str input = try_ok (parse_namespace input SEAL_SEGMENT) (\<lambda>_. Inr SealNamespace)"

definition seal_namespace_display :: "SealNamespace \<Rightarrow> string" where
  "seal_namespace_display _ = SEAL_SEGMENT @ ''/'' @ NAMESPACE_VERSION"

definition seal_key_from_str :: "string \<Rightarrow> (KeySpellingError + SealKey) option" where
  "seal_key_from_str input =
     and_then (parse_key input SEAL_SEGMENT) (\<lambda>ordinal.
       Some (try_ok (map_err (\<lambda>_. KeyZeroCoordinate) (seal_generation_try_from ordinal))
         (\<lambda>generation. Inr (SealKey generation))))"

definition seal_key_display :: "SealKey \<Rightarrow> string option" where
  "seal_key_display key =
     map_option (\<lambda>ordinal. SEAL_SEGMENT @ ''/'' @ NAMESPACE_VERSION @ ''/'' @ ordinal)
       (reverse_ordinal_display (seal_generation_get (key_generation key)))"

definition wal_namespace_from_str :: "string \<Rightarrow> KeySpellingError + WalNamespace" where
  "wal_namespace_from_str input = try_ok (parse_namespace input WAL_SEGMENT) (\<lambda>_. Inr WalNamespace)"

definition wal_namespace_display :: "WalNamespace \<Rightarrow> string" where
  "wal_namespace_display _ = WAL_SEGMENT @ ''/'' @ NAMESPACE_VERSION"

definition wal_key_from_str :: "string \<Rightarrow> (KeySpellingError + WalKey) option" where
  "wal_key_from_str input =
     and_then (parse_key input WAL_SEGMENT) (\<lambda>ordinal.
       Some (try_ok (map_err (\<lambda>_. KeyZeroCoordinate) (batch_try_from ordinal))
         (\<lambda>batch. Inr (WalKey batch))))"

definition wal_key_display :: "WalKey \<Rightarrow> string option" where
  "wal_key_display key =
     map_option (\<lambda>ordinal. WAL_SEGMENT @ ''/'' @ NAMESPACE_VERSION @ ''/'' @ ordinal)
       (reverse_ordinal_display (batch_get (key_batch key)))"

definition u32_try_from :: "nat \<Rightarrow> unit + nat" where
  "u32_try_from n = (if n < 2 ^ 32 then Inr n else Inl ())"

definition table_key_from_str :: "string \<Rightarrow> KeySpellingError + TableKey" where
  "table_key_from_str input =
     (let (kind, segments) = iter_next (split_on CHR ''/'' input) in
      if kind \<noteq> Some TABLE_SEGMENT then Inl KeyShape
      else let (version, segments) = iter_next segments in
      if version \<noteq> Some NAMESPACE_VERSION then Inl KeyUnsupportedNamespace
      else let (store, segments) = iter_next segments in
      try_ok (try_ok (ok_or KeyShape store) parse_store) (\<lambda>store.
      let (birth, segments) = iter_next segments in
      try_ok (try_ok (ok_or KeyShape birth) (\<lambda>birth. parse_fixed_u64 birth GENERATION_DIGITS)) (\<lambda>birth.
      let (attempt, segments) = iter_next segments in
      try_ok (ok_or KeyShape attempt) (\<lambda>attempt.
      try_ok (ok_or KeyTableCoordinate (split_once CHR ''-'' attempt)) (\<lambda>(owner, counter).
      if CHR ''-'' \<in> set counter then Inl KeyTableCoordinate
      else try_ok (parse_fixed_u64 owner GENERATION_DIGITS) (\<lambda>owner.
      try_ok (parse_fixed_u64 counter GENERATION_DIGITS) (\<lambda>counter.
      let (ordinal, segments) = iter_next segments in
      try_ok (try_ok (ok_or KeyShape ordinal) (\<lambda>ordinal. parse_fixed_u64 ordinal TABLE_ORDINAL_DIGITS))
        (\<lambda>ordinal.
      try_ok (map_err (\<lambda>_. KeyTableCoordinate) (u32_try_from ordinal)) (\<lambda>ordinal.
      let (extra, segments) = iter_next segments in
      if extra \<noteq> None then Inl KeyShape
      else try_ok (map_err (\<lambda>_. KeyZeroCoordinate) (seal_generation_try_from birth)) (\<lambda>birth.
      try_ok (map_err (\<lambda>_. KeyZeroCoordinate) (seal_generation_try_from owner)) (\<lambda>owner.
      try_ok (map_err (\<lambda>_. KeyInvalidTableIdentity) (fresh_identity_new birth (AttemptId owner counter) ordinal))
        (\<lambda>fresh. Inr (TableKey (TableObjectId fresh store))))))))))))))"

definition table_key_display :: "TableKey \<Rightarrow> string" where
  "table_key_display key =
     (let fresh = table_fresh (key_object key) in
      TABLE_SEGMENT @ ''/'' @ NAMESPACE_VERSION @ ''/'' @ store_name (table_store (key_object key)) @ ''/''
      @ pad 20 (seal_generation_get (fresh_birth_generation fresh)) @ ''/''
      @ pad 20 (seal_generation_get (attempt_owner_claim (fresh_attempt fresh))) @ ''-''
      @ pad 20 (attempt_local_counter (fresh_attempt fresh)) @ ''/''
      @ pad 10 (fresh_ordinal fresh))"

section \<open>The spelling contract\<close>

locale canonical_spelling =
  fixes display :: "'k \<Rightarrow> string option"
    and from_str :: "string \<Rightarrow> ('e + 'k) option"
    and spelled :: "'k \<Rightarrow> bool"
  assumes from_str_total: "from_str s \<noteq> None"
    and from_str_Inr: "from_str s = Some (Inr k) \<longleftrightarrow> spelled k \<and> display k = Some s"
    and display_total: "spelled k \<Longrightarrow> display k \<noteq> None"
begin

lemma round_trip: "spelled k \<Longrightarrow> \<exists>s. display k = Some s \<and> from_str s = Some (Inr k)"
  using display_total [of k] by (auto simp: from_str_Inr)

lemma display_inject: "spelled k \<Longrightarrow> spelled l \<Longrightarrow> display k = display l \<longleftrightarrow> k = l"
  using round_trip [of k] round_trip [of l] by auto

lemma rejected: "(\<exists>e. from_str s = Some (Inl e)) \<longleftrightarrow> (\<forall>k. spelled k \<longrightarrow> display k \<noteq> Some s)"
proof (cases "from_str s")
  case None
  then show ?thesis using from_str_total by blast
next
  case (Some r)
  then show ?thesis using from_str_Inr [of s] by (cases r) auto
qed

end

section \<open>Fixed-width decimals\<close>

lemma split_on_eq:
  "split_on c s = ss \<longleftrightarrow> ss \<noteq> [] \<and> (\<forall>t\<in>set ss. c \<notin> set t) \<and> s = join_with c ss"
  using split_on_nonempty [of c s] split_on_segments_free [of _ c s] join_split [of c s] split_join [of ss c]
  by metis

lemma digits_value_less: "\<forall>c\<in>set s. is_ascii_digit c \<Longrightarrow> digits_value s < 10 ^ length s"
proof (induction s rule: rev_induct)
  case (snoc c s)
  then have "digit_value c < 10" "digits_value s + 1 \<le> 10 ^ length s"
    by (auto simp: digit_value_less Suc_le_eq)
  then show ?case by (simp add: digits_value_snoc)
qed (simp add: digits_value_def)

text \<open>A string of w digits parses to n exactly when it is the padded decimal of n.\<close>

lemma parse_fixed_width:
  assumes "0 < w"
  shows "length s = w \<and> list_all is_ascii_digit s \<and> parse_u64 s = Some n
     \<longleftrightarrow> n \<le> u64_max \<and> n < 10 ^ w \<and> s = pad w n" (is "?l \<longleftrightarrow> ?r")
proof
  assume l: ?l
  then have digits: "\<forall>c\<in>set s. is_ascii_digit c" and "s \<noteq> []"
    using assms by (auto simp: list_all_iff)
  with l have n: "n = digits_value s" "n \<le> u64_max"
    by (auto simp: parse_u64_digits split: if_split_asm)
  then show ?r
    using digits_value_less [OF digits] fixed_inject_value [OF digits] l assms by (auto simp: pad_fixed)
next
  assume r: ?r
  then have s: "s = fixed w n" using assms by (simp add: pad_fixed)
  moreover have "s \<noteq> []" using s assms by (auto simp: length_0_conv [symmetric])
  ultimately show ?l
    using r by (auto simp: list_all_iff parse_u64_digits fixed_digits digits_value_fixed)
qed

lemma pad_digits: "c \<in> set (pad w n) \<Longrightarrow> is_ascii_digit c"
  by (auto simp: pad_def dest: dec_digits)

lemma pad_free [simp]: "CHR ''/'' \<notin> set (pad w n)" "CHR ''-'' \<notin> set (pad w n)"
  using pad_digits by (fastforce simp: is_ascii_digit_def code_def)+

lemma u64_digits: "n \<le> u64_max \<Longrightarrow> n < 10 ^ 20"
  by (simp add: u64_max_def)

lemma parse_reverse_ordinal_Inr:
  "parse_reverse_ordinal s = Inr n \<longleftrightarrow> n \<le> u64_max \<and> s = pad 20 n"
  using parse_fixed_width [of 20 s n] u64_digits [of n]
  by (auto simp: parse_reverse_ordinal_def spelling_consts)

lemma parse_fixed_u64_Inr:
  "0 < w \<Longrightarrow> parse_fixed_u64 s w = Inr n \<longleftrightarrow> n \<le> u64_max \<and> n < 10 ^ w \<and> s = pad w n"
  using parse_fixed_width [of w s n] by (auto simp: parse_fixed_u64_def)

section \<open>Reverse-ordinal keys\<close>

lemma iter_next_cases: "iter_next xs = (case xs of [] \<Rightarrow> (None, []) | x # xs \<Rightarrow> (Some x, xs))"
  by (cases xs) simp_all

lemma parse_key_total: "parse_key s kind \<noteq> None"
  using parse_reverse_ordinal_Inr
  by (auto simp: parse_key_def Let_def iter_next_cases and_then_def checked_sub_def
      split: list.split sum.split)

lemma parse_key_Inr:
  assumes "CHR ''/'' \<notin> set kind"
  shows "parse_key s kind = Some (Inr n)
     \<longleftrightarrow> n \<le> u64_max \<and> s = kind @ ''/'' @ NAMESPACE_VERSION @ ''/'' @ pad 20 (u64_max - n)"
proof -
  have "parse_key s kind = Some (Inr n)
     \<longleftrightarrow> (\<exists>r. split_on CHR ''/'' s = [kind, NAMESPACE_VERSION, pad 20 r] \<and> r \<le> u64_max \<and> n = u64_max - r)"
    by (auto simp: parse_key_def Let_def iter_next_cases and_then_Inr parse_reverse_ordinal_Inr
        checked_sub_def split: list.split)
  also have "\<dots> \<longleftrightarrow> n \<le> u64_max \<and> s = kind @ ''/'' @ NAMESPACE_VERSION @ ''/'' @ pad 20 (u64_max - n)"
    using assms by (auto simp: split_on_eq spelling_consts intro!: exI [of _ "u64_max - n"])
  finally show ?thesis .
qed

lemma reverse_ordinal_display_u64:
  "n \<le> u64_max \<Longrightarrow> reverse_ordinal_display n = Some (pad 20 (u64_max - n))"
  by (simp add: reverse_ordinal_display_def checked_sub_def spelling_consts)

interpretation seal_key: canonical_spelling seal_key_display seal_key_from_str "\<lambda>_. True"
proof unfold_locales
  fix s and k :: SealKey
  obtain g where k: "k = SealKey g" by (cases k)
  show "seal_key_from_str s \<noteq> None"
    using parse_key_total [of s SEAL_SEGMENT] by (auto simp: seal_key_from_str_def and_then_def split: sum.split)
  have key: "seal_key_display k
      = Some (SEAL_SEGMENT @ ''/'' @ NAMESPACE_VERSION @ ''/'' @ pad 20 (u64_max - seal_generation_get g))"
    by (simp add: k seal_key_display_def reverse_ordinal_display_u64 seal_gen.get_le_max)
  then show "seal_key_display k \<noteq> None" by simp
  have "seal_key_from_str s = Some (Inr k) \<longleftrightarrow> parse_key s SEAL_SEGMENT = Some (Inr (seal_generation_get g))"
    by (auto simp: seal_key_from_str_def and_then_Inr try_ok_Inr k seal_gen.try_from_Inr)
  with key show "seal_key_from_str s = Some (Inr k) \<longleftrightarrow> True \<and> seal_key_display k = Some s"
    by (auto simp: parse_key_Inr seal_gen.get_le_max SEAL_SEGMENT_def)
qed

interpretation wal_key: canonical_spelling wal_key_display wal_key_from_str "\<lambda>_. True"
proof unfold_locales
  fix s and k :: WalKey
  obtain b where k: "k = WalKey b" by (cases k)
  show "wal_key_from_str s \<noteq> None"
    using parse_key_total [of s WAL_SEGMENT] by (auto simp: wal_key_from_str_def and_then_def split: sum.split)
  have key: "wal_key_display k
      = Some (WAL_SEGMENT @ ''/'' @ NAMESPACE_VERSION @ ''/'' @ pad 20 (u64_max - batch_get b))"
    by (simp add: k wal_key_display_def reverse_ordinal_display_u64 batch.get_le_max)
  then show "wal_key_display k \<noteq> None" by simp
  have "wal_key_from_str s = Some (Inr k) \<longleftrightarrow> parse_key s WAL_SEGMENT = Some (Inr (batch_get b))"
    by (auto simp: wal_key_from_str_def and_then_Inr try_ok_Inr k batch.try_from_Inr)
  with key show "wal_key_from_str s = Some (Inr k) \<longleftrightarrow> True \<and> wal_key_display k = Some s"
    by (auto simp: parse_key_Inr batch.get_le_max WAL_SEGMENT_def)
qed

text \<open>A later coordinate has a smaller spelling.\<close>

lemma pad_less: "m \<le> u64_max \<Longrightarrow> n \<le> u64_max \<Longrightarrow> pad 20 m < pad 20 n \<longleftrightarrow> m < n"
  using u64_digits by (simp add: pad_fixed fixed_less)

lemma append_less_same: "xs @ ys < xs @ zs \<longleftrightarrow> ys < (zs :: 'a::linorder list)"
  by (induction xs) auto

lemma reverse_less: "m \<le> l \<Longrightarrow> n \<le> l \<Longrightarrow> l - m < l - n \<longleftrightarrow> n < (m::nat)"
  by arith

lemma wal_key_less:
  "wal_key_display (WalKey b) = Some s \<Longrightarrow> wal_key_display (WalKey c) = Some t \<Longrightarrow> s < t \<longleftrightarrow> c < b"
  by (auto simp: wal_key_display_def reverse_ordinal_display_u64 batch.get_le_max append_less_same pad_less
      batch.get_less reverse_less)

lemma seal_key_less:
  "seal_key_display (SealKey g) = Some s \<Longrightarrow> seal_key_display (SealKey h) = Some t \<Longrightarrow> s < t \<longleftrightarrow> h < g"
  by (auto simp: seal_key_display_def reverse_ordinal_display_u64 seal_gen.get_le_max append_less_same pad_less
      seal_gen.get_less reverse_less)

section \<open>Table keys\<close>

definition table_object_ok :: "TableObjectId \<Rightarrow> bool" where
  "table_object_ok object \<longleftrightarrow>
     fresh_identity_ok (table_fresh object)
     \<and> attempt_local_counter (fresh_attempt (table_fresh object)) \<le> u64_max
     \<and> fresh_ordinal (table_fresh object) < 2 ^ 32"

lemma parse_store_Inr: "parse_store s = Inr store \<longleftrightarrow> s = store_name store"
  by (cases store) (auto simp: parse_store_def)

lemma store_name_free [simp]: "CHR ''/'' \<notin> set (store_name store)"
  by (cases store) simp_all

lemma append_minus_free: "CHR ''/'' \<notin> set (a @ CHR ''-'' # b) \<longleftrightarrow> CHR ''/'' \<notin> set a \<and> CHR ''/'' \<notin> set b"
  by auto

lemma table_key_from_str_Inr:
  "table_key_from_str s = Inr k \<longleftrightarrow> table_object_ok (key_object k) \<and> s = table_key_display k"
proof -
  obtain g c n d store where k: "k = TableKey (TableObjectId (FreshIdentity g (AttemptId c n) d) store)"
    by (cases k rule: TableKey.exhaust) (metis TableObjectId.exhaust FreshIdentity.exhaust AttemptId.exhaust)
  let ?segments = "[TABLE_SEGMENT, NAMESPACE_VERSION, store_name store, pad 20 (seal_generation_get g),
    pad 20 (seal_generation_get c) @ CHR ''-'' # pad 20 n, pad 10 d]"
  have "table_key_from_str s = Inr k
     \<longleftrightarrow> split_on CHR ''/'' s = ?segments \<and> table_object_ok (key_object k)"
  proof
    assume "table_key_from_str s = Inr k"
    then show "split_on CHR ''/'' s = ?segments \<and> table_object_ok (key_object k)"
      by (auto simp: table_key_from_str_def Let_def iter_next_cases try_ok_Inr parse_store_Inr
          parse_fixed_u64_Inr split_once_Some seal_gen.try_from_Inr fresh_identity_new_Inr u32_try_from_def
          table_object_ok_def k spelling_consts split: list.split_asm prod.split_asm if_split_asm)
  next
    assume segments: "split_on CHR ''/'' s = ?segments \<and> table_object_ok (key_object k)"
    then have ok: "n \<le> u64_max" "d < 2 ^ 32" "fresh_identity_ok (FreshIdentity g (AttemptId c n) d)"
      by (simp_all add: table_object_ok_def k)
    have "parse_fixed_u64 (pad 20 m) GENERATION_DIGITS = Inr m" if "m \<le> u64_max" for m
      using that u64_digits by (simp add: parse_fixed_u64_Inr spelling_consts)
    moreover have "parse_fixed_u64 (pad 10 d) TABLE_ORDINAL_DIGITS = Inr d"
      using ok(2) by (simp add: parse_fixed_u64_Inr spelling_consts u64_max_def)
    moreover have "split_once CHR ''-'' (pad 20 (seal_generation_get c) @ CHR ''-'' # pad 20 n)
        = Some (pad 20 (seal_generation_get c), pad 20 n)"
      by (simp add: split_once_Some)
    moreover have "parse_store (store_name store) = Inr store" by (simp add: parse_store_Inr)
    moreover have "fresh_identity_new g (AttemptId c n) d = Inr (FreshIdentity g (AttemptId c n) d)"
      using ok(3) by (simp add: fresh_identity_new_Inr)
    ultimately show "table_key_from_str s = Inr k"
      using segments ok
      by (simp add: table_key_from_str_def u32_try_from_def k seal_gen.try_from_get seal_gen.get_le_max)
  qed
  also have "split_on CHR ''/'' s = ?segments \<longleftrightarrow> s = table_key_display k"
    by (simp add: split_on_eq k table_key_display_def Let_def) (simp add: spelling_consts)
  finally show ?thesis by blast
qed

interpretation table_key: canonical_spelling "\<lambda>k. Some (table_key_display k)"
  "\<lambda>s. Some (table_key_from_str s)" "\<lambda>k. table_object_ok (key_object k)"
  by unfold_locales (auto simp: table_key_from_str_Inr)

section \<open>Partition spellings\<close>

definition hex_nibble :: "u8 \<Rightarrow> nat option" where
  "hex_nibble character =
     (if 48 \<le> code character \<and> code character \<le> 57 then checked_sub (code character) 48
      else if 97 \<le> code character \<and> code character \<le> 102 then
        (case checked_sub (code character) 97 of
           Some offset \<Rightarrow> if offset + 10 \<le> 255 then Some (offset + 10) else None
         | None \<Rightarrow> None)
      else None)"

definition hex_digit :: "nat \<Rightarrow> char" where
  "hex_digit n = (if n < 10 then char_of (48 + n) else char_of (87 + n))"

text \<open>The format \<open>{:02x}\<close>.\<close>

definition hex_octet :: "u8 \<Rightarrow> string" where
  "hex_octet octet = [hex_digit (code octet div 16), hex_digit (code octet mod 16)]"

text \<open>
  The loop of \<open>FromStr for PartitionId\<close> over the bytes from a position on, with the octets written
  so far and the pending high nibble.
\<close>

fun uuid_loop ::
  "nat \<Rightarrow> bytes \<Rightarrow> nat option \<Rightarrow> string \<Rightarrow> (PartitionIdError + bytes \<times> nat option) option" where
  "uuid_loop position octets high_nibble [] = Some (Inr (octets, high_nibble))"
| "uuid_loop position octets high_nibble (character # input) =
     (if position \<in> {8, 13, 18, 23} then
        (if character \<noteq> CHR ''-'' then Some (Inl PartitionMalformed)
         else uuid_loop (Suc position) octets high_nibble input)
      else case hex_nibble character of
        None \<Rightarrow> Some (Inl PartitionMalformed)
      | Some nibble \<Rightarrow>
          (case high_nibble of
             None \<Rightarrow> uuid_loop (Suc position) octets (Some nibble) input
           | Some high \<Rightarrow>
               do { require (high * 16 \<le> 255);
                    require (high * 16 + nibble \<le> 255);
                    require (length octets < 16);
                    uuid_loop (Suc position) (octets @ [char_of (high * 16 + nibble)]) None input }))"

definition partition_from_str :: "string \<Rightarrow> (PartitionIdError + PartitionId) option" where
  "partition_from_str input =
     (if length input \<noteq> 36 then Some (Inl PartitionMalformed)
      else and_then (uuid_loop 0 [] None input) (\<lambda>(octets, high_nibble).
        if high_nibble \<noteq> None \<or> length octets < 16 then Some (Inl PartitionMalformed)
        else Some (partition_try_from octets)))"

definition partition_display :: "PartitionId \<Rightarrow> string" where
  "partition_display p =
     concat (map (\<lambda>(index, octet). (if index \<in> {4, 6, 8, 10} then ''-'' else []) @ hex_octet octet)
       (enumerate 0 (partition_bytes p)))"

lemma hex_nibble_digit: "hex_nibble c = Some n \<longleftrightarrow> n < 16 \<and> c = hex_digit n"
proof -
  have "c = hex_digit n \<longleftrightarrow> code c = (if n < 10 then 48 + n else 87 + n)" if "n < 16"
    using that by (auto simp: hex_digit_def code_inject [symmetric])
  then show ?thesis
    by (cases "n < 16") (auto simp: hex_nibble_def checked_sub_def split: if_split_asm)
qed

text \<open>Two characters at the position of an octet are read exactly when they spell one.\<close>

lemma uuid_loop_octet:
  assumes "position \<notin> {8, 13, 18, 23}" "Suc position \<notin> {8, 13, 18, 23}" "length octets < 16"
  shows "uuid_loop position octets None (c # d # input) = Some (Inr r)
     \<longleftrightarrow> (\<exists>octet. [c, d] = hex_octet octet
          \<and> uuid_loop (Suc (Suc position)) (octets @ [octet]) None input = Some (Inr r))"
    (is "?l \<longleftrightarrow> ?r")
proof
  assume ?l
  then obtain h l where hl: "hex_nibble c = Some h" "hex_nibble d = Some l"
      "uuid_loop (Suc (Suc position)) (octets @ [char_of (h * 16 + l)]) None input = Some (Inr r)"
    using assms by (auto split: option.split_asm if_split_asm)
  then have "h < 16" "l < 16" "c = hex_digit h" "d = hex_digit l" by (simp_all add: hex_nibble_digit)
  with hl(3) show ?r
    by (intro exI [of _ "char_of (h * 16 + l)"]) (simp add: hex_octet_def)
next
  assume ?r
  then obtain octet where octet: "c = hex_digit (code octet div 16)" "d = hex_digit (code octet mod 16)"
      "uuid_loop (Suc (Suc position)) (octets @ [octet]) None input = Some (Inr r)"
    by (auto simp: hex_octet_def)
  have small: "code octet \<le> 255" "code octet div 16 < 16"
    using code_less [of octet] by (linarith, intro less_mult_imp_div_less) simp
  then have "hex_nibble c = Some (code octet div 16)" "hex_nibble d = Some (code octet mod 16)"
    using octet by (simp_all add: hex_nibble_digit)
  moreover have "code octet div 16 * 16 \<le> 255" using small(2) by linarith
  moreover have "char_of (code octet) = octet" by (simp add: code_def)
  ultimately show ?l
    using assms octet(3) small(1) by simp
qed

lemma uuid_loop_hyphen:
  "position \<in> {8, 13, 18, 23} \<Longrightarrow> uuid_loop position octets high (c # input) = Some (Inr r)
     \<longleftrightarrow> c = CHR ''-'' \<and> uuid_loop (Suc position) octets high input = Some (Inr r)"
  by auto

text \<open>The octets written, the pending nibble and the hyphens passed account for the position.\<close>

definition hyphens :: "nat \<Rightarrow> nat" where
  "hyphens position = length (filter (\<lambda>k. k < position) [8, 13, 18, 23])"

lemma hyphens_Suc:
  "hyphens (Suc position) = hyphens position + (if position \<in> {8, 13, 18, 23} then 1 else 0)"
  by (auto simp: hyphens_def less_Suc_eq)

lemma hyphens_all: "24 \<le> position \<Longrightarrow> hyphens position = 4"
  by (simp add: hyphens_def)

lemma uuid_loop_total:
  assumes "2 * length octets + (case high of None \<Rightarrow> 0 | Some h \<Rightarrow> 1) + hyphens position = position"
    and "position + length input = 36" "\<forall>h. high = Some h \<longrightarrow> h < 16"
  shows "uuid_loop position octets high input \<noteq> None"
  using assms
proof (induction input arbitrary: position octets high)
  case (Cons c input)
  show ?case
  proof (cases "position \<in> {8, 13, 18, 23}")
    case True
    then have "uuid_loop (Suc position) octets high input \<noteq> None"
      using Cons.prems True by (intro Cons.IH) (simp_all add: hyphens_Suc)
    with True show ?thesis by simp
  next
    case False
    then have step: "hyphens (Suc position) = hyphens position" by (simp add: hyphens_Suc)
    show ?thesis
    proof (cases "hex_nibble c")
      case None
      with False show ?thesis by simp
    next
      case (Some n)
      then have n: "n < 16" by (simp add: hex_nibble_digit)
      show ?thesis
      proof (cases high)
        case None
        have "uuid_loop (Suc position) octets (Some n) input \<noteq> None"
          using Cons.prems None n by (intro Cons.IH) (simp_all add: step)
        with False Some None show ?thesis by simp
      next
        case (Some h)
        then have h: "h < 16" "length octets < 16"
          using Cons.prems hyphens_all [of position] by (simp_all, presburger)
        have "uuid_loop (Suc position) (octets @ [char_of (h * 16 + n)]) None input \<noteq> None"
          using Cons.prems Some by (intro Cons.IH) (simp_all add: step)
        with False Some \<open>hex_nibble c = Some n\<close> h n show ?thesis by simp
      qed
    qed
  qed
qed simp

lemma partition_from_str_total: "partition_from_str s \<noteq> None"
proof -
  have "uuid_loop 0 [] None s \<noteq> None" if "length s = 36"
    using that by (intro uuid_loop_total) (simp_all add: hyphens_def)
  then show ?thesis
    by (auto simp: partition_from_str_def and_then_def split: sum.split)
qed

text \<open>A block of octets between two hyphens.\<close>

definition hex_octets :: "bytes \<Rightarrow> string" where
  "hex_octets octets = concat (map hex_octet octets)"

lemma length_hex_octets [simp]: "length (hex_octets octets) = 2 * length octets"
  by (induction octets) (simp_all add: hex_octets_def hex_octet_def)

lemma hex_digit_inject: "m < 16 \<Longrightarrow> n < 16 \<Longrightarrow> hex_digit m = hex_digit n \<longleftrightarrow> m = n"
  using hex_nibble_digit [of "hex_digit m" m] hex_nibble_digit [of "hex_digit m" n] by auto

lemma hex_octet_inject: "hex_octet x = hex_octet y \<longleftrightarrow> x = y"
proof -
  have high: "code z div 16 < 16" for z
    using code_less [of z] by (intro less_mult_imp_div_less) simp
  have "code x = code y" if "hex_octet x = hex_octet y"
  proof -
    from that have "code x div 16 = code y div 16" "code x mod 16 = code y mod 16"
      using high by (simp_all add: hex_octet_def hex_digit_inject)
    then show ?thesis by (metis div_mult_mod_eq)
  qed
  then show ?thesis by (auto simp: code_inject)
qed

lemma hex_octets_inject [simp]: "hex_octets xs = hex_octets ys \<longleftrightarrow> xs = ys"
proof (induction xs arbitrary: ys)
  case (Cons x xs)
  then show ?case
    using hex_octet_inject by (cases ys) (auto simp: hex_octets_def hex_octet_def)
qed (auto simp: hex_octets_def hex_octet_def split: list.split)

lemma uuid_loop_block:
  assumes "length s = 2 * k" "\<forall>i < 2 * k. position + i \<notin> {8, 13, 18, 23}" "length octets + k \<le> 16"
  shows "uuid_loop position octets None (s @ input) = Some (Inr r)
     \<longleftrightarrow> (\<exists>block. length block = k \<and> s = hex_octets block
          \<and> uuid_loop (position + 2 * k) (octets @ block) None input = Some (Inr r))"
  using assms
proof (induction k arbitrary: s position octets)
  case (Suc k)
  then obtain c d t where s: "s = c # d # t" "length t = 2 * k"
    by (auto simp: length_Suc_conv)
  have free: "position \<notin> {8, 13, 18, 23}" "Suc position \<notin> {8, 13, 18, 23}"
    using Suc.prems(2) [rule_format, of 0] Suc.prems(2) [rule_format, of 1] by simp_all
  have block: "uuid_loop (Suc (Suc position)) (octets @ [octet]) None (t @ input) = Some (Inr r)
     \<longleftrightarrow> (\<exists>block. length block = k \<and> t = hex_octets block
          \<and> uuid_loop (Suc (Suc position) + 2 * k) ((octets @ [octet]) @ block) None input = Some (Inr r))"
    for octet
    using Suc.prems(2) [rule_format, of "i + 2" for i] Suc.prems(3) s(2) by (intro Suc.IH) auto
  have "uuid_loop position octets None (s @ input) = Some (Inr r)
     \<longleftrightarrow> (\<exists>octet block. length block = k \<and> s = hex_octets (octet # block)
          \<and> uuid_loop (position + 2 * Suc k) (octets @ octet # block) None input = Some (Inr r))"
    using uuid_loop_octet [OF free, of octets c d "t @ input" r] Suc.prems(3)
    by (auto simp: s(1) block hex_octets_def hex_octet_def simp del: uuid_loop.simps)
  then show ?case
    by (auto simp: length_Suc_conv)
qed (simp add: hex_octets_def)

definition uuid_spelling :: "bytes \<Rightarrow> string" where
  "uuid_spelling octets =
     concat (map (\<lambda>(index, octet). (if index \<in> {4, 6, 8, 10} then ''-'' else []) @ hex_octet octet)
       (enumerate 0 octets))"

lemma uuid_spelling_blocks:
  assumes "length a = 4" "length b = 2" "length c = 2" "length d = 2" "length e = 6"
  shows "uuid_spelling (a @ b @ c @ d @ e)
     = hex_octets a @ CHR ''-'' # hex_octets b @ CHR ''-'' # hex_octets c @ CHR ''-'' # hex_octets d
       @ CHR ''-'' # hex_octets e"
  using assms
  by (auto simp: numeral_eq_Suc length_Suc_conv uuid_spelling_def hex_octets_def)

lemma split_at_length:
  assumes "length s = m + n"
  obtains u v where "s = u @ v" "length u = m" "length v = n"
  using assms by (metis append_take_drop_id diff_add_inverse length_drop length_take min.absorb2 le_add1)

lemma uuid_groups:
  assumes "length s = 36"
  obtains a h1 b h2 c h3 d h4 e where "s = a @ h1 # b @ h2 # c @ h3 # d @ h4 # e"
    "length a = 8" "length b = 4" "length c = 4" "length d = 4" "length e = 12"
proof -
  have cut: "\<exists>u h v. s = u @ h # v \<and> length u = m \<and> length v = n" if "length s = m + Suc n" for s :: "'a list" and m n
    using that by (elim split_at_length) (auto simp: length_Suc_conv)
  obtain a h1 s1 where 1: "s = a @ h1 # s1" "length a = 8" "length s1 = 27"
    using cut [of s 8 27] assms by auto
  obtain b h2 s2 where 2: "s1 = b @ h2 # s2" "length b = 4" "length s2 = 22"
    using cut [of s1 4 22] 1 by auto
  obtain c h3 s3 where 3: "s2 = c @ h3 # s3" "length c = 4" "length s3 = 17"
    using cut [of s2 4 17] 2 by auto
  obtain d h4 e where "s3 = d @ h4 # e" "length d = 4" "length e = 12"
    using cut [of s3 4 12] 3 by auto
  with 1 2 3 that show thesis by simp
qed

lemma uuid_loop_groups:
  assumes "length a = 8" "length b = 4" "length c = 4" "length d = 4" "length e = 12"
  shows "uuid_loop 0 [] None (a @ h1 # b @ h2 # c @ h3 # d @ h4 # e) = Some (Inr (octets, high))
     \<longleftrightarrow> high = None \<and> h1 = CHR ''-'' \<and> h2 = CHR ''-'' \<and> h3 = CHR ''-'' \<and> h4 = CHR ''-''
       \<and> (\<exists>o1 o2 o3 o4 o5. octets = o1 @ o2 @ o3 @ o4 @ o5 \<and> length o1 = 4 \<and> length o2 = 2 \<and> length o3 = 2
            \<and> length o4 = 2 \<and> length o5 = 6 \<and> a = hex_octets o1 \<and> b = hex_octets o2 \<and> c = hex_octets o3
            \<and> d = hex_octets o4 \<and> e = hex_octets o5)"
proof -
  have first: "uuid_loop 0 [] None (a @ t) = Some (Inr r)
     \<longleftrightarrow> (\<exists>o1. length o1 = 4 \<and> a = hex_octets o1 \<and> uuid_loop 8 o1 None t = Some (Inr r))" for t r
    using uuid_loop_block [of a 4 0 "[]" t r] assms by auto
  have second: "uuid_loop 9 xs None (b @ t) = Some (Inr r)
     \<longleftrightarrow> (\<exists>o2. length o2 = 2 \<and> b = hex_octets o2 \<and> uuid_loop 13 (xs @ o2) None t = Some (Inr r))"
    if "length xs = 4" for xs t r
    using uuid_loop_block [of b 2 9 xs t r] that assms by auto
  have third: "uuid_loop 14 xs None (c @ t) = Some (Inr r)
     \<longleftrightarrow> (\<exists>o3. length o3 = 2 \<and> c = hex_octets o3 \<and> uuid_loop 18 (xs @ o3) None t = Some (Inr r))"
    if "length xs = 6" for xs t r
    using uuid_loop_block [of c 2 14 xs t r] that assms by auto
  have fourth: "uuid_loop 19 xs None (d @ t) = Some (Inr r)
     \<longleftrightarrow> (\<exists>o4. length o4 = 2 \<and> d = hex_octets o4 \<and> uuid_loop 23 (xs @ o4) None t = Some (Inr r))"
    if "length xs = 8" for xs t r
    using uuid_loop_block [of d 2 19 xs t r] that assms by auto
  have fifth: "uuid_loop 24 xs None e = Some (Inr r)
     \<longleftrightarrow> (\<exists>o5. length o5 = 6 \<and> e = hex_octets o5 \<and> r = (xs @ o5, None))"
    if "length xs = 10" for xs r
    using uuid_loop_block [of e 6 24 xs "[]" r] that assms by auto
  show ?thesis
    by (simp add: first second third fourth fifth uuid_loop_hyphen del: uuid_loop.simps(2) cong: conj_cong)
      blast
qed

lemma octet_blocks:
  assumes "length octets = 16"
  obtains a b c d e where "octets = a @ b @ c @ d @ e"
    "length a = 4" "length b = 2" "length c = 2" "length d = 2" "length e = 6"
proof -
  obtain a r1 where 1: "octets = a @ r1" "length a = 4" "length r1 = 12"
    using assms split_at_length [of octets 4 12] by auto
  obtain b r2 where 2: "r1 = b @ r2" "length b = 2" "length r2 = 10"
    using 1 split_at_length [of r1 2 10] by auto
  obtain c r3 where 3: "r2 = c @ r3" "length c = 2" "length r3 = 8"
    using 2 split_at_length [of r2 2 8] by auto
  obtain d e where "r3 = d @ e" "length d = 2" "length e = 6"
    using 3 split_at_length [of r3 2 6] by auto
  with 1 2 3 that show thesis by simp
qed

lemma length_uuid_spelling: "length octets = 16 \<Longrightarrow> length (uuid_spelling octets) = 36"
  by (elim octet_blocks) (simp add: uuid_spelling_blocks)

lemma uuid_loop_Inr:
  assumes "length s = 36"
  shows "uuid_loop 0 [] None s = Some (Inr (octets, high))
     \<longleftrightarrow> high = None \<and> length octets = 16 \<and> s = uuid_spelling octets"
proof
  assume loop: "uuid_loop 0 [] None s = Some (Inr (octets, high))"
  obtain a h1 b h2 c h3 d h4 e where s: "s = a @ h1 # b @ h2 # c @ h3 # d @ h4 # e"
    and len: "length a = 8" "length b = 4" "length c = 4" "length d = 4" "length e = 12"
    using assms by (rule uuid_groups)
  with loop uuid_loop_groups [OF len, of h1 h2 h3 h4 octets high]
  show "high = None \<and> length octets = 16 \<and> s = uuid_spelling octets"
    by (auto simp: uuid_spelling_blocks)
next
  assume spelled: "high = None \<and> length octets = 16 \<and> s = uuid_spelling octets"
  then obtain a b c d e where o: "octets = a @ b @ c @ d @ e"
    "length a = 4" "length b = 2" "length c = 2" "length d = 2" "length e = 6"
    using octet_blocks by blast
  then have "uuid_loop 0 [] None (hex_octets a @ CHR ''-'' # hex_octets b @ CHR ''-'' # hex_octets c
      @ CHR ''-'' # hex_octets d @ CHR ''-'' # hex_octets e) = Some (Inr (octets, None))"
    by (subst uuid_loop_groups) auto
  with spelled o show "uuid_loop 0 [] None s = Some (Inr (octets, high))"
    by (simp add: uuid_spelling_blocks)
qed

lemma partition_try_from_Inr:
  assumes "length octets = 16"
  shows "partition_try_from octets = Inr p \<longleftrightarrow> octets = partition_bytes p"
proof (cases "octets = replicate 16 (CHR 0x00)")
  case True
  then show ?thesis
    using partition_bytes_inv(2) [of p] by (metis Inr_Inl_False partition_try_from_def)
next
  case False
  then show ?thesis
    using partition_bytes_of [OF assms False] partition_of_bytes [of p]
    by (metis partition_try_from_def sum.inject(2))
qed

lemma partition_from_str_Inr: "partition_from_str s = Some (Inr p) \<longleftrightarrow> s = partition_display p"
proof -
  have display: "partition_display p = uuid_spelling (partition_bytes p)"
    by (simp add: partition_display_def uuid_spelling_def)
  show ?thesis
  proof (cases "length s = 36")
    case True
    have "partition_from_str s = Some (Inr p)
       \<longleftrightarrow> (\<exists>octets. uuid_loop 0 [] None s = Some (Inr (octets, None)) \<and> length octets = 16
            \<and> partition_try_from octets = Inr p)"
      using True uuid_loop_Inr [OF True]
      by (fastforce simp: partition_from_str_def and_then_Inr split: if_split_asm)
    also have "\<dots> \<longleftrightarrow> s = partition_display p"
      unfolding uuid_loop_Inr [OF True] display
      using partition_try_from_Inr [of _ p] partition_bytes_inv(1) [of p] by metis
    finally show ?thesis .
  next
    case False
    then show ?thesis
      using length_uuid_spelling [OF partition_bytes_inv(1), of p] by (auto simp: partition_from_str_def display)
  qed
qed

interpretation partition_id: canonical_spelling "\<lambda>p. Some (partition_display p)" partition_from_str "\<lambda>_. True"
  by unfold_locales (use partition_from_str_total in \<open>auto simp: partition_from_str_Inr\<close>)

section \<open>Properties\<close>

text \<open>
  C37. Seal and WAL keys are spelled canonically: parsing never panics, a string parses to a key
  exactly when it is the spelling of that key, and every key has a spelling.
\<close>

theorem reverse_ordinal_keys_canonical:
  "(seal_key_from_str s = Some (Inr k) \<longleftrightarrow> seal_key_display k = Some s)
     \<and> (wal_key_from_str s = Some (Inr w) \<longleftrightarrow> wal_key_display w = Some s)
     \<and> seal_key_from_str s \<noteq> None \<and> wal_key_from_str s \<noteq> None
     \<and> seal_key_display k \<noteq> None \<and> wal_key_display w \<noteq> None"
  using seal_key.from_str_Inr wal_key.from_str_Inr seal_key.from_str_total wal_key.from_str_total
    seal_key.display_total wal_key.display_total by blast

lemma Min_image_antimono:
  fixes f :: "'a::linorder \<Rightarrow> 'b::linorder"
  assumes "finite X" "X \<noteq> {}" and less: "\<And>x y. f x < f y \<longleftrightarrow> y < x"
  shows "Min (f ` X) = f (Max X)"
proof (rule Min_eqI)
  show "f (Max X) \<le> y" if y: "y \<in> f ` X" for y
  proof -
    obtain x where "y = f x" "x \<in> X" using y by blast
    moreover from this have "x \<le> Max X" using assms(1) by simp
    ultimately show ?thesis using less [of x "Max X"] by (simp add: not_less [symmetric])
  qed
qed (use assms in auto)

text \<open>
  C36. Listing finds the newest object first: among the keys of finitely many batches, the smallest
  spelling in byte order belongs to the largest batch, and likewise for Seal generations.
\<close>

theorem newest_key_listed_first:
  assumes "finite B" "B \<noteq> {}" "finite G" "G \<noteq> {}"
  shows "wal_key_display (WalKey (Max B)) = Some (Min ((\<lambda>b. the (wal_key_display (WalKey b))) ` B))
     \<and> seal_key_display (SealKey (Max G)) = Some (Min ((\<lambda>g. the (seal_key_display (SealKey g))) ` G))"
proof -
  let ?f = "\<lambda>b. the (wal_key_display (WalKey b))" and ?g = "\<lambda>g. the (seal_key_display (SealKey g))"
  have f: "wal_key_display (WalKey b) = Some (?f b)" for b
    using wal_key.display_total [of "WalKey b"] by simp
  have g: "seal_key_display (SealKey b) = Some (?g b)" for b
    using seal_key.display_total [of "SealKey b"] by simp
  have "Min (?f ` B) = ?f (Max B)"
    by (rule Min_image_antimono) (use assms wal_key_less [OF f f] in simp_all)
  moreover have "Min (?g ` G) = ?g (Max G)"
    by (rule Min_image_antimono) (use assms seal_key_less [OF g g] in simp_all)
  ultimately show ?thesis using f g by simp
qed

theorem newest_key_listed_first_witness:
  "wal_key_display (WalKey (BatchId (nz_of 2)))
     = Some (Min ((\<lambda>b. the (wal_key_display (WalKey b))) ` {BatchId nz_min, BatchId (nz_of 2)}))"
proof -
  have "Max {BatchId nz_min, BatchId (nz_of 2)} = BatchId (nz_of 2)"
    by (simp add: max_def less_eq_BatchId_def u64_max_def)
  with newest_key_listed_first [of "{BatchId nz_min, BatchId (nz_of 2)}" "{seal_generation_genesis}"]
  show ?thesis by simp
qed

text \<open>
  C38. A string parses to a table key exactly when it is the spelling of an identity whose owner
  claim predates its birth generation.
\<close>

theorem table_key_parse_iff_display:
  "table_key_from_str s = Inr k \<longleftrightarrow> table_object_ok (key_object k) \<and> table_key_display k = s"
  by (auto simp: table_key_from_str_Inr)

text \<open>
  C39. A partition identity is read back from its lowercase hyphenated UUID and from no other
  string, and neither the parser's octet arithmetic nor its octet cursor can panic.
\<close>

theorem partition_id_parse_iff_display:
  "(partition_from_str s = Some (Inr p) \<longleftrightarrow> partition_display p = s) \<and> partition_from_str s \<noteq> None"
  using partition_from_str_total by (auto simp: partition_from_str_Inr)

end
