(* ===== verification/Archive.thy ===== *)
theory Archive
  imports Key_Spelling
begin

text \<open>
  The archive boundary of \<open>strom-storage-domain/src/archive.rs\<close> and \<open>archive/adapter.rs\<close>: the
  bounded writer behind \<open>encode\<close>, the shared decode bound, and the archived form of the protocol
  fields and identities with their checked conversions. The \<open>rkyv\<close> crate is a parameter: a
  serializer gives the chunks it writes and whether it completes, and \<open>rkyv::access\<close> gives the
  checked root of a byte string. A decoder accepts exactly the archived form of a valid value.
\<close>

section \<open>Encoding into a bounded writer\<close>

datatype DecodeError =
  DecodedBytesOverMax nat nat | MalformedArchive | InvalidBody | IdentityMismatch

record BoundedWriter =
  writer_bytes :: bytes
  writer_bytes_max :: nat
  writer_over_bound :: bool

definition bounded_writer_new :: "nat \<Rightarrow> BoundedWriter" where
  "bounded_writer_new bytes_max =
     \<lparr> writer_bytes = [], writer_bytes_max = bytes_max, writer_over_bound = False \<rparr>"

text \<open>
  One call of \<open>Writer::write\<close>. The parameter \<open>room\<close> says whether the vector, at its present length,
  has capacity for that many more bytes or \<open>try_reserve\<close> grants it.
\<close>

definition bounded_write :: "(nat \<Rightarrow> nat \<Rightarrow> bool) \<Rightarrow> BoundedWriter \<Rightarrow> bytes \<Rightarrow> BoundedWriter \<times> bool" where
  "bounded_write room w chunk =
     (let bytes_actual = saturating_add (length (writer_bytes w)) (length chunk) in
      if bytes_actual > writer_bytes_max w then (w \<lparr> writer_over_bound := True \<rparr>, False)
      else if \<not> room (length (writer_bytes w)) (length chunk) then (w, False)
      else (w \<lparr> writer_bytes := writer_bytes w @ chunk \<rparr>, True))"

text \<open>The serializer's writes, up to the first one that fails.\<close>

fun write_chunks :: "(nat \<Rightarrow> nat \<Rightarrow> bool) \<Rightarrow> BoundedWriter \<Rightarrow> bytes list \<Rightarrow> BoundedWriter \<times> bool" where
  "write_chunks room w [] = (w, True)"
| "write_chunks room w (chunk # chunks) =
     (case bounded_write room w chunk of
        (w, True) \<Rightarrow> write_chunks room w chunks
      | (w, False) \<Rightarrow> (w, False))"

definition encode ::
  "('v \<Rightarrow> bytes list \<times> bool) \<Rightarrow> (nat \<Rightarrow> nat \<Rightarrow> bool) \<Rightarrow> 'v \<Rightarrow> nat \<Rightarrow> EncodeError + bytes" where
  "encode serialize room value bytes_max =
     (let (chunks, completes) = serialize value;
          (w, written) = write_chunks room (bounded_writer_new bytes_max) chunks in
      if \<not> (written \<and> completes) then
        Inl (if writer_over_bound w then EncodedBytesOverMax bytes_max else Serialization)
      else Inr (writer_bytes w))"

definition decode_bound :: "bytes \<Rightarrow> nat \<Rightarrow> (nat \<times> nat) + unit" where
  "decode_bound bs bytes_max = (if length bs > bytes_max then Inl (bytes_max, length bs) else Inr ())"

definition decode_error_from :: "nat \<times> nat \<Rightarrow> DecodeError" where
  "decode_error_from = (\<lambda>(bytes_max, bytes_actual). DecodedBytesOverMax bytes_max bytes_actual)"

lemma write_chunks_ok:
  assumes "write_chunks room w chunks = (w', True)"
  shows "writer_bytes w' = writer_bytes w @ concat chunks \<and> writer_bytes_max w' = writer_bytes_max w
     \<and> writer_over_bound w' = writer_over_bound w
     \<and> (length (writer_bytes w) \<le> writer_bytes_max w \<and> writer_bytes_max w < u64_max
         \<longrightarrow> length (writer_bytes w') \<le> writer_bytes_max w)"
  using assms
proof (induction chunks arbitrary: w)
  case (Cons chunk chunks)
  then obtain w1 where w1: "bounded_write room w chunk = (w1, True)" "write_chunks room w1 chunks = (w', True)"
    by (auto split: prod.split_asm bool.split_asm)
  from w1(1) have "writer_bytes w1 = writer_bytes w @ chunk" "writer_bytes_max w1 = writer_bytes_max w"
    "writer_over_bound w1 = writer_over_bound w"
    "saturating_add (length (writer_bytes w)) (length chunk) \<le> writer_bytes_max w"
    by (auto simp: bounded_write_def Let_def split: if_split_asm)
  with Cons.IH [OF w1(2)] show ?case by (auto simp: saturating_add_def)
qed simp

lemma write_chunks_over:
  assumes "write_chunks room w chunks = (w', False)" "writer_over_bound w'" "\<not> writer_over_bound w"
    and "writer_bytes_max w < u64_max"
  shows "length (writer_bytes w) + length (concat chunks) > writer_bytes_max w"
  using assms
proof (induction chunks arbitrary: w)
  case (Cons chunk chunks)
  obtain w1 ok where w1: "bounded_write room w chunk = (w1, ok)" by fastforce
  show ?case
  proof (cases ok)
    case True
    with w1 have "w1 = w \<lparr> writer_bytes := writer_bytes w @ chunk \<rparr>"
      by (auto simp: bounded_write_def Let_def split: if_split_asm)
    with Cons.IH [of w1] Cons.prems w1 True show ?thesis by simp
  next
    case False
    with w1 Cons.prems show ?thesis
      by (auto simp: bounded_write_def Let_def saturating_add_def split: if_split_asm)
  qed
qed simp

lemma encode_Inr:
  assumes "encode serialize room v bytes_max = Inr bs" "bytes_max < u64_max"
  shows "\<exists>chunks. serialize v = (chunks, True) \<and> bs = concat chunks \<and> length bs \<le> bytes_max"
  using assms write_chunks_ok [of room "bounded_writer_new bytes_max"]
  by (fastforce simp: encode_def bounded_writer_new_def Let_def split: prod.split_asm if_split_asm)

text \<open>An allocator that never refuses.\<close>

definition allocates :: "(nat \<Rightarrow> nat \<Rightarrow> bool) \<Rightarrow> bool" where
  "allocates room \<longleftrightarrow> (\<forall>m n. room m n)"

lemma write_chunks_allocates:
  assumes "allocates room" "writer_bytes_max w < u64_max" "\<not> writer_over_bound w"
  shows "if length (writer_bytes w) + length (concat chunks) \<le> writer_bytes_max w \<or> chunks = []
     then write_chunks room w chunks = (w \<lparr> writer_bytes := writer_bytes w @ concat chunks \<rparr>, True)
     else \<exists>w'. write_chunks room w chunks = (w', False) \<and> writer_over_bound w'"
  using assms
proof (induction chunks arbitrary: w)
  case (Cons chunk chunks)
  let ?w = "w \<lparr> writer_bytes := writer_bytes w @ chunk \<rparr>"
  show ?case
  proof (cases "length (writer_bytes w) + length chunk \<le> writer_bytes_max w")
    case True
    with Cons.prems have "bounded_write room w chunk = (?w, True)"
      by (simp add: bounded_write_def saturating_add_def allocates_def Let_def)
    with Cons.IH [of ?w] Cons.prems True show ?thesis by (auto split: if_split_asm)
  next
    case False
    with Cons.prems(2) have "bounded_write room w chunk = (w \<lparr> writer_over_bound := True \<rparr>, False)"
      by (auto simp: bounded_write_def saturating_add_def Let_def min_def)
    with False show ?thesis by simp
  qed
qed simp

lemma encode_allocates:
  assumes "allocates room" "bytes_max < u64_max" "serialize v = (chunks, completes)"
  shows "encode serialize room v bytes_max =
     (if length (concat chunks) > bytes_max then Inl (EncodedBytesOverMax bytes_max)
      else if completes then Inr (concat chunks) else Inl Serialization)"
  using write_chunks_allocates [OF assms(1), of "bounded_writer_new bytes_max" chunks] assms(2,3)
  by (cases "chunks = []") (auto simp: encode_def bounded_writer_new_def split: if_split_asm)

section \<open>Archived fields\<close>

text \<open>
  The archived form of a nonzero integer is checked by \<open>rkyv::access\<close>; it converts back without
  loss. Strings, enumerations and integers are archived as themselves.
\<close>

definition seal_generation_from_archived :: "nonzero_u64 \<Rightarrow> SealGeneration" where
  "seal_generation_from_archived n = SealGeneration n"

definition batch_from_archived :: "nonzero_u64 \<Rightarrow> BatchId" where
  "batch_from_archived n = BatchId n"

definition stream_uid_from_archived :: "nonzero_u64 \<Rightarrow> StreamUid" where
  "stream_uid_from_archived n = StreamUid n"

definition owner_from_archived :: "nonzero_u64 \<Rightarrow> OwnerToken" where
  "owner_from_archived n = OwnerToken (seal_generation_from_archived n)"

primrec archive_generation :: "SealGeneration \<Rightarrow> nonzero_u64" where
  "archive_generation (SealGeneration n) = n"

primrec archive_batch :: "BatchId \<Rightarrow> nonzero_u64" where
  "archive_batch (BatchId n) = n"

primrec archive_uid :: "StreamUid \<Rightarrow> nonzero_u64" where
  "archive_uid (StreamUid n) = n"

primrec archive_owner :: "OwnerToken \<Rightarrow> nonzero_u64" where
  "archive_owner (OwnerToken g) = archive_generation g"

lemma archived_coordinates:
  "seal_generation_from_archived n = g \<longleftrightarrow> n = archive_generation g"
  "batch_from_archived n = b \<longleftrightarrow> n = archive_batch b"
  "stream_uid_from_archived n = u \<longleftrightarrow> n = archive_uid u"
  "owner_from_archived n = w \<longleftrightarrow> n = archive_owner w"
proof -
  show "seal_generation_from_archived n = g \<longleftrightarrow> n = archive_generation g"
    by (cases g) (auto simp: seal_generation_from_archived_def)
  show "batch_from_archived n = b \<longleftrightarrow> n = archive_batch b"
    by (cases b) (auto simp: batch_from_archived_def)
  show "stream_uid_from_archived n = u \<longleftrightarrow> n = archive_uid u"
    by (cases u) (auto simp: stream_uid_from_archived_def)
  show "owner_from_archived n = w \<longleftrightarrow> n = archive_owner w"
    by (cases w, cases "owner_generation w") (auto simp: owner_from_archived_def seal_generation_from_archived_def)
qed

text \<open>The array type \<open>[u8; 16]\<close>.\<close>

typedef octets = "{bs :: bytes. length bs = 16}"
  morphisms octets_list octets_abs
  by (rule exI [of _ "replicate 16 (CHR 0x00)"]) simp

setup_lifting type_definition_octets

lift_definition archive_partition :: "PartitionId \<Rightarrow> octets" is "\<lambda>bs. bs"
  by simp

definition partition_try_from_archived :: "octets \<Rightarrow> DecodeError + PartitionId" where
  "partition_try_from_archived part = map_err (\<lambda>_. InvalidBody) (partition_try_from (octets_list part))"

lemma archive_partition_list [simp]: "octets_list (archive_partition p) = partition_bytes p"
  by transfer simp

lemma partition_try_from_archived_Inr:
  "partition_try_from_archived a = Inr p \<longleftrightarrow> a = archive_partition p"
proof -
  have "length (octets_list a) = 16" using octets_list [of a] by simp
  then show ?thesis
    by (simp add: partition_try_from_archived_def partition_try_from_Inr octets_list_inject [symmetric])
qed

definition decode_content_type :: "string \<Rightarrow> DecodeError + StreamContentType" where
  "decode_content_type archived =
     try_ok (map_err (\<lambda>_. InvalidBody) (validate_canonical archived)) (\<lambda>_.
     try_ok (map_err (\<lambda>_. InvalidBody) (content_type_from_str archived)) (\<lambda>parsed. Inr parsed))"

definition decode_stream_path :: "string \<Rightarrow> DecodeError + StreamPath" where
  "decode_stream_path archived = map_err (\<lambda>_. InvalidBody) (stream_path_from_str archived)"

lemma decode_content_type_Inr: "decode_content_type s = Inr ct \<longleftrightarrow> s = content_type_as_str ct"
proof
  assume "decode_content_type s = Inr ct"
  then obtain c where c: "validate_canonical s = Inr c" "content_type_from_str s = Inr ct"
    by (auto simp: decode_content_type_def try_ok_Inr)
  from c(1) obtain t u charset where "canonical_parts t u charset" "s = spell t u charset"
    by (elim validate_canonical_parts)
  with c(2) show "s = content_type_as_str ct"
    by (auto simp: content_type_from_str_def media_type_from_spell content_type_as_str_def
        content_type_media_of [OF media_type_from_spell])
next
  assume s: "s = content_type_as_str ct"
  obtain t u charset where "canonical_parts t u charset" "content_type_as_str ct = spell t u charset"
    using content_type_as_str_parse [OF content_type_round_trip] by blast
  then have "validate_canonical s = Inr s" using s validate_canonical_spell by metis
  moreover have "content_type_from_str s = Inr ct" using s content_type_round_trip by simp
  ultimately show "decode_content_type s = Inr ct" by (simp add: decode_content_type_def)
qed

lemma decode_stream_path_Inr: "decode_stream_path s = Inr p \<longleftrightarrow> s = path_as_str p"
proof (cases "stream_path_validate s")
  case (Inl e)
  then show ?thesis by (auto simp: decode_stream_path_def stream_path_from_str_def)
next
  case (Inr t)
  then have "t = s" by (rule stream_path_validate_same)
  with Inr show ?thesis
    by (auto simp: decode_stream_path_def stream_path_from_str_def path_as_str_of)
qed

datatype ExpiryArchive = ExpiryArchiveNone | ExpiryArchiveTtl nat | ExpiryArchiveAbsolute i128

primrec expiry_archive_from :: "ExpiryPolicy \<Rightarrow> ExpiryArchive" where
  "expiry_archive_from NoExpiry = ExpiryArchiveNone"
| "expiry_archive_from (SlidingTtl ttl) = ExpiryArchiveTtl (nz_get (ttl_seconds ttl))"
| "expiry_archive_from (AbsoluteExpiry expires_at) = ExpiryArchiveAbsolute (expires_at_nanoseconds expires_at)"

primrec expiry_try_from_archived :: "(i128 \<Rightarrow> i128 option) \<Rightarrow> ExpiryArchive \<Rightarrow> DecodeError + ExpiryPolicy" where
  "expiry_try_from_archived from_nanosecond ExpiryArchiveNone = Inr NoExpiry"
| "expiry_try_from_archived from_nanosecond (ExpiryArchiveTtl seconds) =
     ok_or InvalidBody (map_option (\<lambda>n. SlidingTtl (StreamTtl n)) (nz_new seconds))"
| "expiry_try_from_archived from_nanosecond (ExpiryArchiveAbsolute unix_nanoseconds) =
     map_err (\<lambda>_. InvalidBody) (map_sum id AbsoluteExpiry (expires_at_try_from from_nanosecond unix_nanoseconds))"

text \<open>
  The range check of \<open>jiff\<close> keeps the instant it accepts; an expiry is representable when it does.
\<close>

definition nanosecond_exact :: "(i128 \<Rightarrow> i128 option) \<Rightarrow> bool" where
  "nanosecond_exact from_nanosecond \<longleftrightarrow> (\<forall>n m. from_nanosecond n = Some m \<longrightarrow> m = n)"

definition expiry_representable :: "(i128 \<Rightarrow> i128 option) \<Rightarrow> ExpiryPolicy \<Rightarrow> bool" where
  "expiry_representable from_nanosecond expiry \<longleftrightarrow>
     (\<forall>e. expiry = AbsoluteExpiry e \<longrightarrow>
        from_nanosecond (expires_at_nanoseconds e) = Some (expires_at_nanoseconds e))"

lemma wrapped_expiries: "StreamTtl n = t \<longleftrightarrow> n = ttl_seconds t" "ExpiresAt i = x \<longleftrightarrow> i = expires_at_nanoseconds x"
  by (cases t, auto) (cases x, auto)

lemma expiry_try_from_archived_Inr:
  assumes "nanosecond_exact from_nanosecond"
  shows "expiry_try_from_archived from_nanosecond a = Inr e
     \<longleftrightarrow> a = expiry_archive_from e \<and> expiry_representable from_nanosecond e"
proof (cases a)
  case ExpiryArchiveNone
  then show ?thesis by (cases e) (auto simp: expiry_representable_def)
next
  case (ExpiryArchiveTtl seconds)
  then show ?thesis
    by (cases e) (auto simp: expiry_representable_def nz_new_Some wrapped_expiries nz_eq_iff)
next
  case (ExpiryArchiveAbsolute n)
  with assms show ?thesis
    by (cases e; cases "from_nanosecond n")
      (auto simp: expiry_representable_def expires_at_try_from_def nanosecond_exact_def wrapped_expiries)
qed

datatype LifecycleArchive = LifecycleArchiveOpen | LifecycleArchiveClosed

primrec lifecycle_archive_from :: "StreamLifecycle \<Rightarrow> LifecycleArchive" where
  "lifecycle_archive_from LifecycleOpen = LifecycleArchiveOpen"
| "lifecycle_archive_from LifecycleClosed = LifecycleArchiveClosed"

primrec lifecycle_from_archived :: "LifecycleArchive \<Rightarrow> StreamLifecycle" where
  "lifecycle_from_archived LifecycleArchiveOpen = LifecycleOpen"
| "lifecycle_from_archived LifecycleArchiveClosed = LifecycleClosed"

lemma lifecycle_from_archived_eq: "lifecycle_from_archived a = l \<longleftrightarrow> a = lifecycle_archive_from l"
  by (cases a; cases l) simp_all

section \<open>Archived table identities\<close>

datatype ArchivedAttemptId =
  ArchivedAttemptId (archived_owner_claim: nonzero_u64) (archived_local_counter: "64 word")

datatype ArchivedFreshIdentity =
  ArchivedFreshIdentity (archived_birth_generation: nonzero_u64) (archived_attempt: ArchivedAttemptId)
    (archived_ordinal: "32 word")

datatype ArchivedTableObjectId =
  ArchivedTableObjectId (archived_fresh: ArchivedFreshIdentity) (archived_store: StoreKind)

definition attempt_from_archived :: "ArchivedAttemptId \<Rightarrow> AttemptId" where
  "attempt_from_archived attempt =
     AttemptId (seal_generation_from_archived (archived_owner_claim attempt))
       (unat (archived_local_counter attempt))"

definition fresh_try_from_archived :: "ArchivedFreshIdentity \<Rightarrow> DecodeError + FreshIdentity" where
  "fresh_try_from_archived fresh =
     map_err (\<lambda>_. InvalidBody)
       (fresh_identity_new (seal_generation_from_archived (archived_birth_generation fresh))
          (attempt_from_archived (archived_attempt fresh)) (unat (archived_ordinal fresh)))"

definition table_object_try_from_archived :: "ArchivedTableObjectId \<Rightarrow> DecodeError + TableObjectId" where
  "table_object_try_from_archived object =
     try_ok (fresh_try_from_archived (archived_fresh object)) (\<lambda>fresh.
       Inr (TableObjectId fresh (archived_store object)))"

primrec archive_attempt :: "AttemptId \<Rightarrow> ArchivedAttemptId" where
  "archive_attempt (AttemptId owner counter) =
     ArchivedAttemptId (archive_generation owner) (of_nat counter)"

primrec archive_fresh :: "FreshIdentity \<Rightarrow> ArchivedFreshIdentity" where
  "archive_fresh (FreshIdentity birth attempt ordinal) =
     ArchivedFreshIdentity (archive_generation birth) (archive_attempt attempt) (of_nat ordinal)"

primrec archive_table_object :: "TableObjectId \<Rightarrow> ArchivedTableObjectId" where
  "archive_table_object (TableObjectId fresh store) = ArchivedTableObjectId (archive_fresh fresh) store"

text \<open>An identity whose counter and ordinal have their machine widths.\<close>

definition fresh_ok :: "FreshIdentity \<Rightarrow> bool" where
  "fresh_ok fresh \<longleftrightarrow>
     fresh_identity_ok fresh \<and> attempt_local_counter (fresh_attempt fresh) \<le> u64_max \<and> fresh_ordinal fresh < 2 ^ 32"

lemma table_object_ok_fresh: "table_object_ok object \<longleftrightarrow> fresh_ok (table_fresh object)"
  by (simp add: table_object_ok_def fresh_ok_def)

lemma unat_eq_of_nat: "unat w = n \<longleftrightarrow> w = of_nat n \<and> n < 2 ^ LENGTH('w)" for w :: "'w::len word"
  by (metis unat_of_nat mod_less unsigned_less word_nat_cases)

lemma attempt_from_archived_eq:
  "attempt_from_archived a = t \<longleftrightarrow> a = archive_attempt t \<and> attempt_local_counter t \<le> u64_max"
  by (cases a; cases t) (auto simp: attempt_from_archived_def archived_coordinates unat_eq_of_nat u64_max_def)

lemma fresh_try_from_archived_Inr:
  "fresh_try_from_archived a = Inr f \<longleftrightarrow> a = archive_fresh f \<and> fresh_ok f"
  by (cases a; cases f)
    (auto simp: fresh_try_from_archived_def fresh_identity_new_Inr archived_coordinates attempt_from_archived_eq
      unat_eq_of_nat fresh_ok_def eq_commute [of _ "attempt_from_archived _"] eq_commute [of _ "unat _"]
      eq_commute [of _ "seal_generation_from_archived _"])

lemma table_object_try_from_archived_Inr:
  "table_object_try_from_archived a = Inr t \<longleftrightarrow> a = archive_table_object t \<and> fresh_ok (table_fresh t)"
  by (cases a; cases t) (auto simp: table_object_try_from_archived_def try_ok_Inr fresh_try_from_archived_Inr)

end
