(* ===== verification/Codecs.thy ===== *)
theory Codecs
  imports Archive
begin

text \<open>
  The checked codecs of WAL objects and Seals (\<open>wal/codec.rs\<close>, \<open>seal/codec.rs\<close>) over the archived form
  that the derived \<open>rkyv\<close> implementations give each structure. The parameters \<open>serialize\<close>, \<open>access\<close>,
  \<open>room\<close> and \<open>from_nanosecond\<close> stand for \<open>rkyv\<close>, the allocator and \<open>jiff\<close>. The locale
  \<open>located_decoder\<close> is what the stores rely on; both decoders, and those of the tables, provide it.
\<close>

section \<open>The interface of a decoder\<close>

text \<open>
  A decoder takes the durable location it read from. What it returns belongs there, is well formed
  and came from a bounded object; and it returns every well formed, representable value whose
  archived form is accessible in the bytes.
\<close>

locale located_decoder =
  fixes access :: "bytes \<Rightarrow> 'a option"
    and archive :: "'l \<Rightarrow> 'v \<Rightarrow> 'a"
    and located :: "'l \<Rightarrow> 'v \<Rightarrow> bool"
    and wellformed :: "'v \<Rightarrow> bool"
    and representable :: "'v \<Rightarrow> bool"
    and bytes_max :: nat
    and decode :: "'l \<Rightarrow> bytes \<Rightarrow> 'e + 'v"
  assumes decode_checked:
      "decode l bs = Inr v \<Longrightarrow> located l v \<and> wellformed v \<and> length bs \<le> bytes_max"
    and decode_archived:
      "access bs = Some (archive l v) \<Longrightarrow> length bs \<le> bytes_max \<Longrightarrow> located l v \<Longrightarrow> wellformed v
       \<Longrightarrow> representable v \<Longrightarrow> decode l bs = Inr v"
begin

lemma decode_over_bound: "length bs > bytes_max \<Longrightarrow> \<exists>e. decode l bs = Inl e"
  using decode_checked [of l bs] by (cases "decode l bs") auto

text \<open>What an encoder of the same archive wrote within the bound is read back at its location.\<close>

lemma decode_encode:
  assumes enc: "encode serialize room x bytes_max = Inr bs" and fits: "bytes_max < u64_max"
    and rkyv: "\<And>chunks. serialize x = (chunks, True) \<Longrightarrow> access (concat chunks) = Some (archive l v)"
    and v: "located l v" "wellformed v" "representable v"
  shows "decode l bs = Inr v"
proof -
  from encode_Inr [OF enc fits] obtain chunks
    where "serialize x = (chunks, True)" "bs = concat chunks" "length bs \<le> bytes_max" by blast
  then show ?thesis using rkyv v decode_archived by metis
qed

end

section \<open>Write-ahead log objects\<close>

datatype ArchivedOperationFact =
  ArchivedStreamCreated string nonzero_u64 string ExpiryArchive LifecycleArchive
| ArchivedStreamClosed string nonzero_u64
| ArchivedStreamDeleted string nonzero_u64

datatype ArchivedWalBody = ArchivedRun "ArchivedOperationFact list" | ArchivedFence

record ArchivedWalObject =
  archived_wal_partition :: octets
  archived_wal_batch :: nonzero_u64
  archived_wal_owner :: nonzero_u64
  archived_wal_body :: ArchivedWalBody

primrec archive_fact :: "OperationFact \<Rightarrow> ArchivedOperationFact" where
  "archive_fact (StreamCreated path uid content_type expiry lifecycle) =
     ArchivedStreamCreated (path_as_str path) (archive_uid uid) (content_type_as_str content_type)
       (expiry_archive_from expiry) (lifecycle_archive_from lifecycle)"
| "archive_fact (StreamClosed path uid) = ArchivedStreamClosed (path_as_str path) (archive_uid uid)"
| "archive_fact (StreamDeleted path uid) = ArchivedStreamDeleted (path_as_str path) (archive_uid uid)"

primrec archive_body :: "WalBody \<Rightarrow> ArchivedWalBody" where
  "archive_body (WalRun facts) = ArchivedRun (map archive_fact facts)"
| "archive_body WalFence = ArchivedFence"

definition archive_wal :: "WalObject \<Rightarrow> ArchivedWalObject" where
  "archive_wal object =
     \<lparr> archived_wal_partition = archive_partition (wal_partition object),
       archived_wal_batch = archive_batch (wal_batch object),
       archived_wal_owner = archive_owner (wal_owner object),
       archived_wal_body = archive_body (wal_body object) \<rparr>"

definition encode_wal ::
  "(ArchivedWalObject \<Rightarrow> bytes list \<times> bool) \<Rightarrow> (nat \<Rightarrow> nat \<Rightarrow> bool) \<Rightarrow> WalObject \<Rightarrow> EncodeError + bytes" where
  "encode_wal serialize room object = encode (\<lambda>o'. serialize (archive_wal o')) room object WAL_ENCODED_BYTES_MAX"

primrec decode_fact :: "(i128 \<Rightarrow> i128 option) \<Rightarrow> ArchivedOperationFact \<Rightarrow> DecodeError + OperationFact" where
  "decode_fact from_nanosecond (ArchivedStreamCreated path uid content_type expiry lifecycle) =
     try_ok (decode_stream_path path) (\<lambda>path.
     try_ok (decode_content_type content_type) (\<lambda>content_type.
     try_ok (expiry_try_from_archived from_nanosecond expiry) (\<lambda>expiry.
     Inr (StreamCreated path (stream_uid_from_archived uid) content_type expiry
            (lifecycle_from_archived lifecycle)))))"
| "decode_fact from_nanosecond (ArchivedStreamClosed path uid) =
     try_ok (decode_stream_path path) (\<lambda>path. Inr (StreamClosed path (stream_uid_from_archived uid)))"
| "decode_fact from_nanosecond (ArchivedStreamDeleted path uid) =
     try_ok (decode_stream_path path) (\<lambda>path. Inr (StreamDeleted path (stream_uid_from_archived uid)))"

primrec decode_body :: "(i128 \<Rightarrow> i128 option) \<Rightarrow> ArchivedWalBody \<Rightarrow> DecodeError + WalBody" where
  "decode_body from_nanosecond (ArchivedRun facts) =
     (if length facts = 0 \<or> length facts > WAL_RUN_FACTS_MAX then Inl InvalidBody
      else try_ok (try_map (decode_fact from_nanosecond) facts) (\<lambda>decoded_facts.
           try_ok (map_err (\<lambda>_. InvalidBody) (wal_facts_try_from decoded_facts)) (\<lambda>facts.
           Inr (WalRun facts))))"
| "decode_body from_nanosecond ArchivedFence = Inr WalFence"

definition decode_wal ::
  "(bytes \<Rightarrow> ArchivedWalObject option) \<Rightarrow> (i128 \<Rightarrow> i128 option) \<Rightarrow> PartitionId \<Rightarrow> BatchId \<Rightarrow> bytes
   \<Rightarrow> DecodeError + WalObject" where
  "decode_wal access from_nanosecond expected_partition expected_batch bs =
     try_ok (map_err decode_error_from (decode_bound bs WAL_ENCODED_BYTES_MAX)) (\<lambda>_.
     try_ok (ok_or MalformedArchive (access bs)) (\<lambda>archived.
     try_ok (partition_try_from_archived (archived_wal_partition archived)) (\<lambda>part.
     let batch = batch_from_archived (archived_wal_batch archived) in
     if part \<noteq> expected_partition \<or> batch \<noteq> expected_batch then Inl IdentityMismatch
     else
       let owner = owner_from_archived (archived_wal_owner archived) in
       try_ok (decode_body from_nanosecond (archived_wal_body archived)) (\<lambda>body.
       Inr \<lparr> wal_partition = part, wal_batch = batch, wal_owner = owner, wal_body = body \<rparr>))))"

subsection \<open>What a decoder accepts\<close>

text \<open>The facts whose expiry the timestamp library represents.\<close>

definition fact_representable :: "(i128 \<Rightarrow> i128 option) \<Rightarrow> OperationFact \<Rightarrow> bool" where
  "fact_representable from_nanosecond op \<longleftrightarrow>
     (case op of StreamCreated path uid content_type expiry lifecycle \<Rightarrow>
        expiry_representable from_nanosecond expiry | _ \<Rightarrow> True)"

definition body_representable :: "(i128 \<Rightarrow> i128 option) \<Rightarrow> WalBody \<Rightarrow> bool" where
  "body_representable from_nanosecond body \<longleftrightarrow>
     (case body of WalRun facts \<Rightarrow> list_all (fact_representable from_nanosecond) facts | WalFence \<Rightarrow> True)"

lemma expiry_representable_decodes:
  "expiry_representable from_nanosecond e
     \<Longrightarrow> expiry_try_from_archived from_nanosecond (expiry_archive_from e) = Inr e"
  by (cases e) (auto simp: expiry_representable_def expires_at_try_from_def wrapped_expiries)

lemmas archived_field_iffs =
  decode_stream_path_Inr decode_content_type_Inr archived_coordinates lifecycle_from_archived_eq

lemma archived_field_reads [simp]:
  "decode_stream_path (path_as_str p) = Inr p"
  "decode_content_type (content_type_as_str ct) = Inr ct"
  "seal_generation_from_archived (archive_generation g) = g"
  "batch_from_archived (archive_batch b) = b"
  "stream_uid_from_archived (archive_uid u) = u"
  "owner_from_archived (archive_owner w) = w"
  "lifecycle_from_archived (lifecycle_archive_from l) = l"
  "partition_try_from_archived (archive_partition q) = Inr q"
  by (simp_all add: archived_field_iffs partition_try_from_archived_Inr)

lemma archived_field_writes [simp]:
  "archive_generation (seal_generation_from_archived n) = n"
  "archive_batch (batch_from_archived n) = n"
  "archive_uid (stream_uid_from_archived n) = n"
  "archive_owner (owner_from_archived n) = n"
  using archived_coordinates by metis+

lemma archived_field_inject [simp]:
  "path_as_str p = path_as_str q \<longleftrightarrow> p = q"
  "content_type_as_str ct = content_type_as_str du \<longleftrightarrow> ct = du"
  "archive_uid u = archive_uid v \<longleftrightarrow> u = v"
  "lifecycle_archive_from l = lifecycle_archive_from m \<longleftrightarrow> l = m"
  "expiry_archive_from x = expiry_archive_from y \<longleftrightarrow> x = y"
proof -
  show "expiry_archive_from x = expiry_archive_from y \<longleftrightarrow> x = y"
    by (cases x; cases y) (auto simp: nz_eq_iff [symmetric], (metis wrapped_expiries)+)
qed (metis archived_field_reads sum.inject(2))+

lemma archive_body_inject: "archive_body b = archive_body c \<longleftrightarrow> b = c"
proof -
  have fact_inject: "archive_fact op = archive_fact op' \<longleftrightarrow> op = op'" for op op'
    by (cases op; cases op') auto
  then have "map archive_fact ops = map archive_fact ops' \<longleftrightarrow> ops = ops'" for ops ops'
    by (simp add: inj_map_eq_map inj_def)
  then show ?thesis by (cases b; cases c) auto
qed

lemma decode_fact_archive:
  "fact_representable from_nanosecond op \<Longrightarrow> decode_fact from_nanosecond (archive_fact op) = Inr op"
  by (cases op) (simp_all add: fact_representable_def expiry_representable_decodes)

lemma try_map_archive:
  "(\<And>x. x \<in> set xs \<Longrightarrow> f (g x) = Inr x) \<Longrightarrow> try_map f (map g xs) = Inr xs"
  by (induction xs) auto

lemma decode_body_archive:
  assumes "wal_body_ok body" "body_representable from_nanosecond body"
  shows "decode_body from_nanosecond (archive_body body) = Inr body"
proof (cases body)
  case (WalRun facts)
  with assms(2) have "try_map (decode_fact from_nanosecond) (map archive_fact facts) = Inr facts"
    by (intro try_map_archive) (auto simp: body_representable_def list_all_iff decode_fact_archive)
  with WalRun assms(1) show ?thesis by (auto simp: wal_body_ok_def wal_facts_try_from_def split: if_splits)
qed simp

lemma decode_body_ok: "decode_body from_nanosecond a = Inr body \<Longrightarrow> wal_body_ok body"
  by (cases a) (auto simp: try_ok_Inr wal_body_ok_def wal_facts_try_from_def split: if_splits)

interpretation wal_decoder: located_decoder access "\<lambda>_. archive_wal"
  "\<lambda>(part, batch) object. wal_partition object = part \<and> wal_batch object = batch"
  "\<lambda>object. wal_body_ok (wal_body object)"
  "\<lambda>object. body_representable from_nanosecond (wal_body object)"
  WAL_ENCODED_BYTES_MAX "\<lambda>(part, batch). decode_wal access from_nanosecond part batch"
  for access from_nanosecond
proof unfold_locales
  fix l bs v
  assume "(case l of (part, batch) \<Rightarrow> decode_wal access from_nanosecond part batch) bs = Inr v"
  then show "(case l of (part, batch) \<Rightarrow> \<lambda>object. wal_partition object = part \<and> wal_batch object = batch) v
      \<and> wal_body_ok (wal_body v) \<and> length bs \<le> WAL_ENCODED_BYTES_MAX"
    by (auto simp: decode_wal_def decode_bound_def try_ok_Inr Let_def decode_body_ok split: if_splits prod.splits)
next
  fix bs l v
  assume "access bs = Some (archive_wal v)" "length bs \<le> WAL_ENCODED_BYTES_MAX"
    and "(case l of (part, batch) \<Rightarrow> \<lambda>object. wal_partition object = part \<and> wal_batch object = batch) v"
    and "wal_body_ok (wal_body v)" "body_representable from_nanosecond (wal_body v)"
  then show "(case l of (part, batch) \<Rightarrow> decode_wal access from_nanosecond part batch) bs = Inr v"
    by (auto simp: decode_wal_def decode_bound_def archive_wal_def decode_body_archive Let_def split: prod.splits)
qed

lemma decode_fact_Inr:
  assumes "nanosecond_exact from_nanosecond"
  shows "decode_fact from_nanosecond a = Inr op \<longleftrightarrow> a = archive_fact op \<and> fact_representable from_nanosecond op"
  by (cases a; cases op)
    (auto simp: fact_representable_def try_ok_Inr archived_field_iffs expiry_try_from_archived_Inr [OF assms])

lemma decode_body_Inr:
  assumes "nanosecond_exact from_nanosecond"
  shows "decode_body from_nanosecond a = Inr body
     \<longleftrightarrow> a = archive_body body \<and> wal_body_ok body \<and> body_representable from_nanosecond body"
proof
  assume dec: "decode_body from_nanosecond a = Inr body"
  then show "a = archive_body body \<and> wal_body_ok body \<and> body_representable from_nanosecond body"
    using decode_body_ok [OF dec] try_map_Inr [OF decode_fact_Inr [OF assms]]
    by (cases a) (auto simp: try_ok_Inr body_representable_def wal_facts_try_from_def split: if_splits)
qed (auto simp: decode_body_archive)

text \<open>A body that is not accepted is an invalid body.\<close>

lemma decode_fact_Inl: "decode_fact from_nanosecond a = Inl e \<Longrightarrow> e = InvalidBody"
proof (cases a)
  case (ArchivedStreamCreated path uid ct expiry lifecycle)
  assume "decode_fact from_nanosecond a = Inl e"
  with ArchivedStreamCreated show ?thesis
    by (cases expiry) (auto simp: try_ok_Inl map_err_Inl decode_stream_path_def decode_content_type_def)
qed (auto simp: try_ok_Inl map_err_Inl decode_stream_path_def)

lemma decode_body_Inl: "decode_body from_nanosecond a = Inl e \<Longrightarrow> e = InvalidBody"
proof (cases a)
  case (ArchivedRun facts)
  have "try_map (decode_fact from_nanosecond) facts = Inl e \<Longrightarrow> e = InvalidBody"
    by (induction facts) (auto simp: try_ok_Inl dest: decode_fact_Inl)
  moreover assume "decode_body from_nanosecond a = Inl e"
  ultimately show ?thesis using ArchivedRun by (auto simp: try_ok_Inl map_err_Inl split: if_splits)
qed simp

lemma decode_wal_Inr:
  assumes "nanosecond_exact from_nanosecond"
  shows "decode_wal access from_nanosecond part batch bs = Inr object \<longleftrightarrow>
     length bs \<le> WAL_ENCODED_BYTES_MAX \<and> access bs = Some (archive_wal object)
     \<and> wal_partition object = part \<and> wal_batch object = batch
     \<and> wal_body_ok (wal_body object) \<and> body_representable from_nanosecond (wal_body object)"
proof
  assume dec: "decode_wal access from_nanosecond part batch bs = Inr object"
  with wal_decoder.decode_checked [of access from_nanosecond "(part, batch)"]
  have "wal_partition object = part \<and> wal_batch object = batch" "length bs \<le> WAL_ENCODED_BYTES_MAX" by auto
  moreover from dec have "access bs = Some (archive_wal object)
      \<and> wal_body_ok (wal_body object) \<and> body_representable from_nanosecond (wal_body object)"
    by (auto simp: decode_wal_def decode_bound_def try_ok_Inr Let_def decode_body_Inr [OF assms] archive_wal_def
        partition_try_from_archived_Inr archived_coordinates
        intro!: ArchivedWalObject.equality split: if_splits)
  ultimately show "length bs \<le> WAL_ENCODED_BYTES_MAX \<and> access bs = Some (archive_wal object)
     \<and> wal_partition object = part \<and> wal_batch object = batch
     \<and> wal_body_ok (wal_body object) \<and> body_representable from_nanosecond (wal_body object)" by blast
next
  assume "length bs \<le> WAL_ENCODED_BYTES_MAX \<and> access bs = Some (archive_wal object)
     \<and> wal_partition object = part \<and> wal_batch object = batch
     \<and> wal_body_ok (wal_body object) \<and> body_representable from_nanosecond (wal_body object)"
  then show "decode_wal access from_nanosecond part batch bs = Inr object"
    using wal_decoder.decode_archived [where l = "(part, batch)"] by auto
qed

section \<open>Seals\<close>

datatype ArchivedWalReplayPoint = ArchivedGenesis | ArchivedThrough nonzero_u64 nonzero_u64

datatype ArchivedTableRef =
  ArchivedTableRef (archived_object: ArchivedTableObjectId) (archived_object_bytes: nonzero_u64)

datatype ArchivedSortedRun = ArchivedSortedRun (archived_tables: "ArchivedTableRef list")

datatype ArchivedTreeVersion = ArchivedTreeVersion (archived_runs: "ArchivedSortedRun list")

record ArchivedSeal =
  archived_seal_partition :: octets
  archived_seal_generation :: nonzero_u64
  archived_seal_replay :: ArchivedWalReplayPoint
  archived_seal_directory :: ArchivedTreeVersion
  archived_seal_ledger :: ArchivedTreeVersion

primrec archive_replay :: "WalReplayPoint \<Rightarrow> ArchivedWalReplayPoint" where
  "archive_replay ReplayGenesis = ArchivedGenesis"
| "archive_replay (ReplayThrough batch owner) = ArchivedThrough (archive_batch batch) (archive_owner owner)"

primrec archive_table_ref :: "TableRef \<Rightarrow> ArchivedTableRef" where
  "archive_table_ref (TableRef object object_bytes) = ArchivedTableRef (archive_table_object object) object_bytes"

primrec archive_run :: "SortedRun \<Rightarrow> ArchivedSortedRun" where
  "archive_run (SortedRun tables) = ArchivedSortedRun (map archive_table_ref tables)"

primrec archive_tree :: "TreeVersion \<Rightarrow> ArchivedTreeVersion" where
  "archive_tree (TreeVersion runs) = ArchivedTreeVersion (map archive_run runs)"

definition archive_seal :: "Seal \<Rightarrow> ArchivedSeal" where
  "archive_seal seal =
     \<lparr> archived_seal_partition = archive_partition (seal_partition seal),
       archived_seal_generation = archive_generation (seal_generation seal),
       archived_seal_replay = archive_replay (seal_replay seal),
       archived_seal_directory = archive_tree (seal_directory seal),
       archived_seal_ledger = archive_tree (seal_ledger seal) \<rparr>"

definition encode_seal ::
  "(ArchivedSeal \<Rightarrow> bytes list \<times> bool) \<Rightarrow> (nat \<Rightarrow> nat \<Rightarrow> bool) \<Rightarrow> Seal \<Rightarrow> EncodeError + bytes" where
  "encode_seal serialize room seal = encode (\<lambda>s. serialize (archive_seal s)) room seal SEAL_ENCODED_BYTES_MAX"

definition decode_table_ref :: "ArchivedTableRef \<Rightarrow> DecodeError + TableRef" where
  "decode_table_ref archived =
     try_ok (table_object_try_from_archived (archived_object archived)) (\<lambda>object.
     map_err (\<lambda>_. InvalidBody) (table_ref_new object (archived_object_bytes archived)))"

definition decode_run :: "ArchivedSortedRun \<Rightarrow> DecodeError + SortedRun" where
  "decode_run archived =
     (if archived_tables archived = [] \<or> length (archived_tables archived) > RUN_TABLES_MAX then Inl InvalidBody
      else try_ok (try_map decode_table_ref (archived_tables archived)) (\<lambda>tables.
           map_err (\<lambda>_. InvalidBody) (sorted_run_try_from tables)))"

definition decode_tree :: "ArchivedTreeVersion \<Rightarrow> DecodeError + TreeVersion" where
  "decode_tree archived =
     (if length (archived_runs archived) > TREE_RUNS_MAX then Inl InvalidBody
      else try_ok (try_map decode_run (archived_runs archived)) (\<lambda>runs.
           map_err (\<lambda>_. InvalidBody) (tree_version_try_from runs)))"

primrec decode_replay :: "ArchivedWalReplayPoint \<Rightarrow> WalReplayPoint" where
  "decode_replay ArchivedGenesis = ReplayGenesis"
| "decode_replay (ArchivedThrough batch owner) =
     ReplayThrough (batch_from_archived batch) (owner_from_archived owner)"

definition decode_archived_seal ::
  "ArchivedSeal \<Rightarrow> PartitionId \<Rightarrow> SealGeneration \<Rightarrow> DecodeError + Seal" where
  "decode_archived_seal archived part generation =
     try_ok (decode_tree (archived_seal_directory archived)) (\<lambda>directory.
     try_ok (decode_tree (archived_seal_ledger archived)) (\<lambda>ledger.
     map_err (\<lambda>_. InvalidBody)
       (seal_new part generation (decode_replay (archived_seal_replay archived)) directory ledger)))"

definition decode_seal ::
  "(bytes \<Rightarrow> ArchivedSeal option) \<Rightarrow> SealGeneration \<Rightarrow> bytes \<Rightarrow> DecodeError + Seal" where
  "decode_seal access expected_generation bs =
     try_ok (map_err decode_error_from (decode_bound bs SEAL_ENCODED_BYTES_MAX)) (\<lambda>_.
     try_ok (ok_or MalformedArchive (access bs)) (\<lambda>archived.
     try_ok (partition_try_from_archived (archived_seal_partition archived)) (\<lambda>part.
     let generation = seal_generation_from_archived (archived_seal_generation archived) in
     if generation \<noteq> expected_generation then Inl IdentityMismatch
     else decode_archived_seal archived part generation)))"

text \<open>The bounds that the constructors of a Seal's parts enforce, beside \<open>seal_valid\<close>.\<close>

definition table_ref_ok :: "TableRef \<Rightarrow> bool" where
  "table_ref_ok table \<longleftrightarrow>
     fresh_ok (table_fresh (ref_object table)) \<and> nz_get (ref_object_bytes table) \<le> SST_OBJECT_BYTES_MAX"

definition run_ok :: "SortedRun \<Rightarrow> bool" where
  "run_ok run \<longleftrightarrow>
     run_tables run \<noteq> [] \<and> length (run_tables run) \<le> RUN_TABLES_MAX \<and> list_all table_ref_ok (run_tables run)"

definition tree_ok :: "TreeVersion \<Rightarrow> bool" where
  "tree_ok tree \<longleftrightarrow> length (tree_runs tree) \<le> TREE_RUNS_MAX \<and> list_all run_ok (tree_runs tree)"

definition seal_ok :: "Seal \<Rightarrow> bool" where
  "seal_ok seal \<longleftrightarrow> seal_valid seal \<and> tree_ok (seal_directory seal) \<and> tree_ok (seal_ledger seal)"

lemma decode_replay_eq: "decode_replay a = r \<longleftrightarrow> a = archive_replay r"
  by (cases a; cases r) (auto simp: archived_coordinates)

lemma decode_table_ref_Inr: "decode_table_ref a = Inr t \<longleftrightarrow> a = archive_table_ref t \<and> table_ref_ok t"
  by (cases a; cases t)
    (auto simp: decode_table_ref_def try_ok_Inr table_object_try_from_archived_Inr table_ref_new_def table_ref_ok_def)

lemma built_parts:
  "sorted_run_try_from ts = Inr r \<longleftrightarrow> r = SortedRun ts \<and> ts \<noteq> [] \<and> length ts \<le> RUN_TABLES_MAX"
  "tree_version_try_from rs = Inr t \<longleftrightarrow> t = TreeVersion rs \<and> length rs \<le> TREE_RUNS_MAX"
  by (auto simp: sorted_run_try_from_def tree_version_try_from_def)

lemma decode_run_Inr: "decode_run a = Inr r \<longleftrightarrow> a = archive_run r \<and> run_ok r"
  by (cases a; cases r)
    (auto simp: decode_run_def try_ok_Inr try_map_Inr [OF decode_table_ref_Inr] built_parts run_ok_def)

lemma decode_tree_Inr: "decode_tree a = Inr t \<longleftrightarrow> a = archive_tree t \<and> tree_ok t"
  by (cases a; cases t)
    (auto simp: decode_tree_def try_ok_Inr try_map_Inr [OF decode_run_Inr] built_parts tree_ok_def)

lemma decode_archived_seal_Inr:
  "decode_archived_seal a p g = Inr s \<longleftrightarrow>
     archived_seal_replay a = archive_replay (seal_replay s)
     \<and> archived_seal_directory a = archive_tree (seal_directory s)
     \<and> archived_seal_ledger a = archive_tree (seal_ledger s)
     \<and> seal_partition s = p \<and> seal_generation s = g \<and> seal_ok s" (is "?dec \<longleftrightarrow> ?archived")
proof
  assume ?dec
  then obtain d l where dl: "decode_tree (archived_seal_directory a) = Inr d"
      "decode_tree (archived_seal_ledger a) = Inr l"
      "seal_new p g (decode_replay (archived_seal_replay a)) d l = Inr s"
    by (auto simp: decode_archived_seal_def try_ok_Inr)
  moreover from dl(3) have "s = \<lparr> seal_partition = p, seal_generation = g,
      seal_replay = decode_replay (archived_seal_replay a), seal_directory = d, seal_ledger = l \<rparr>"
    by (simp add: seal_new_cases)
  ultimately show ?archived
    using seal_new_valid [OF dl(3)] by (auto simp: decode_tree_Inr seal_ok_def decode_replay_eq [symmetric])
next
  assume ?archived
  then have "decode_tree (archived_seal_directory a) = Inr (seal_directory s)"
      "decode_tree (archived_seal_ledger a) = Inr (seal_ledger s)"
      "decode_replay (archived_seal_replay a) = seal_replay s" "seal_valid s"
    by (simp_all add: decode_tree_Inr seal_ok_def decode_replay_eq)
  with \<open>?archived\<close> show ?dec by (auto simp: decode_archived_seal_def seal_valid_def)
qed

lemma decode_seal_Inr:
  "decode_seal access generation bs = Inr s \<longleftrightarrow>
     length bs \<le> SEAL_ENCODED_BYTES_MAX \<and> access bs = Some (archive_seal s)
     \<and> seal_generation s = generation \<and> seal_ok s" (is "?dec \<longleftrightarrow> ?archived")
proof
  assume ?dec
  then show ?archived
    by (auto simp: decode_seal_def decode_bound_def try_ok_Inr Let_def decode_archived_seal_Inr archive_seal_def
        partition_try_from_archived_Inr archived_coordinates intro!: ArchivedSeal.equality split: if_splits)
next
  assume ?archived
  then show ?dec
    by (auto simp: decode_seal_def decode_bound_def Let_def decode_archived_seal_Inr archive_seal_def)
qed

interpretation seal_decoder: located_decoder access "\<lambda>_. archive_seal"
  "\<lambda>generation seal. seal_generation seal = generation" seal_ok "\<lambda>_. True"
  SEAL_ENCODED_BYTES_MAX "decode_seal access" for access
  by unfold_locales (simp_all add: decode_seal_Inr)

end
