(* ===== verification/Restart.thy ===== *)
theory Restart
  imports Bootstrap_Theorems
begin

text \<open>
  Two bootstraps with a writer between them. The object store appears as what it holds: a table has
  one content, and a WAL coordinate one object, since both are created once and never replaced. The
  second bootstrap then replays everything the writer saw durable, and nothing below its head
  differs from what the writer established.
\<close>

section \<open>Owners along a suffix\<close>

lemma owner_chain_last:
  "owner_chain owner ws (Some t) \<Longrightarrow> ws \<noteq> [] \<Longrightarrow> wal_owner (last ws) = t"
proof (induction ws arbitrary: owner)
  case (Cons w ws)
  then obtain owner' where rest: "owner_chain owner' ws (Some t)"
    by (auto split: WalBody.split_asm)
  show ?case
  proof (cases "ws = []")
    case True
    with Cons.prems show ?thesis by (auto split: WalBody.split_asm)
  qed (simp add: Cons.IH [OF rest])
qed simp

lemma owner_chain_mono:
  "owner_chain (Some s) ws (Some t) \<Longrightarrow> s \<le> t"
proof (induction ws arbitrary: s)
  case (Cons w ws)
  then show ?case by (fastforce split: WalBody.split_asm)
qed simp

lemma owner_chain_le:
  "owner_chain owner ws (Some t) \<Longrightarrow> w \<in> set ws \<Longrightarrow> wal_owner w \<le> t"
proof (induction ws arbitrary: owner)
  case (Cons v ws)
  then show ?case by (auto split: WalBody.split_asm dest: owner_chain_mono)
qed simp

section \<open>What the store holds\<close>

definition reads_from :: "(TableRef \<Rightarrow> DecodedTable) \<Rightarrow> (nat \<Rightarrow> WalObject) \<Rightarrow> BootSeen \<Rightarrow> bool" where
  "reads_from contents wal_at seen \<longleftrightarrow>
     (\<forall>(t, d)\<in>set (seen_tables seen). contents t = d)
     \<and> (\<forall>w\<in>set (seen_wal seen). wal_at (batch_get (wal_batch w)) = w)"

definition holds_log :: "wal_encoder \<Rightarrow> (nat \<Rightarrow> WalObject) \<Rightarrow> EncodedWal list \<Rightarrow> bool" where
  "holds_log encode_wal wal_at established \<longleftrightarrow>
     (\<forall>w\<in>set established. \<forall>object.
        encoded_wal_new encode_wal object = Some (Inr w) \<longrightarrow> wal_at (batch_get (wal_batch object)) = object)"

definition run_object :: "WriterMachine \<Rightarrow> BatchId \<times> OperationFact list \<Rightarrow> WalObject" where
  "run_object m run = \<lparr> wal_partition = seal_partition (wm_seal m), wal_batch = fst run,
     wal_owner = claim_owner (wm_claim m), wal_body = WalRun (snd run) \<rparr>"

lemma run_object_simps [simp]:
  "wal_batch (run_object m run) = fst run" "wal_owner (run_object m run) = claim_owner (wm_claim m)"
  by (simp_all add: run_object_def)

lemma wal_log_append: "wal_log (ws @ vs) = wal_log ws @ wal_log vs"
  by (simp add: wal_log_def)

lemma wal_log_runs: "wal_log (map (run_object m) runs) = log_of runs"
  by (auto simp: wal_log_def log_of_def run_object_def comp_def intro!: arg_cong [of _ _ concat])

lemma holds_log_runs:
  assumes "list_all2 (encodes_run encode_wal m) established runs" "holds_log encode_wal wal_at established"
  shows "\<forall>run\<in>set runs. wal_at (batch_get (fst run)) = run_object m run"
  using assms
proof (induction rule: list_all2_induct)
  case (Cons w ws run runs)
  then have "wal_at (batch_get (wal_batch (run_object m run))) = run_object m run"
    unfolding holds_log_def encodes_run_def run_object_def by (meson list.set_intros(1))
  with Cons show ?case by (simp add: holds_log_def)
qed simp

lemma upt_split: "i \<le> j \<Longrightarrow> j \<le> k \<Longrightarrow> [i..<k] = [i..<j] @ [j..<k]"
  by (metis le_Suc_ex upt_add_eq_append)

text \<open>Objects at consecutive coordinates are the store's objects at those coordinates.\<close>

lemma objects_at:
  assumes "map (batch_get \<circ> wal_batch) ws = ns" "\<forall>w\<in>set ws. wal_at (batch_get (wal_batch w)) = w"
  shows "ws = map wal_at ns"
  using assms by (auto simp: map_idI)

lemma tables_same:
  assumes "map fst xs = map fst ys" "\<forall>(t, d)\<in>set xs. contents t = d" "\<forall>(t, d)\<in>set ys. contents t = d"
  shows "xs = ys"
proof -
  have "zs = map (\<lambda>t. (t, contents t)) (map fst zs)" if "\<forall>(t, d)\<in>set zs. contents t = d" for zs
    using that by (induction zs) auto
  with assms show ?thesis by metis
qed

section \<open>The second recovery\<close>

lemma restart_objects:
  assumes first: "wal_replayed seen\<^sub>1 s\<^sub>1 base\<^sub>1 durable\<^sub>1 (Suc d\<^sub>1) (Some t\<^sub>1)"
      "\<forall>w\<in>set (seen_wal seen\<^sub>1). wal_at (batch_get (wal_batch w)) = w"
    and runs: "map (batch_get \<circ> fst) runs = [Suc d\<^sub>1..<Suc d]"
      "\<forall>run\<in>set runs. wal_at (batch_get (fst run)) = run_object m run"
    and second: "wal_replayed seen\<^sub>2 s\<^sub>2 base\<^sub>2 durable\<^sub>2 (Suc d\<^sub>2) (Some t\<^sub>2)"
      "\<forall>w\<in>set (seen_wal seen\<^sub>2). wal_at (batch_get (wal_batch w)) = w"
    and owner: "claim_owner (wm_claim m) = t\<^sub>1" "t\<^sub>1 < t\<^sub>2"
    and cuts: "boot_cut s\<^sub>2 = boot_cut s\<^sub>1" "cut_get (boot_cut s\<^sub>1) \<le> d\<^sub>1" "cut_get (boot_cut s\<^sub>1) < d\<^sub>2"
      "d\<^sub>1 \<le> d"
  shows "d < d\<^sub>2"
    "seen_wal seen\<^sub>2 = seen_wal seen\<^sub>1 @ map (run_object m) runs @ map wal_at [Suc d..<Suc d\<^sub>2]"
proof -
  let ?c = "Suc (cut_get (boot_cut s\<^sub>1))"
  have ws1: "seen_wal seen\<^sub>1 = map wal_at [?c..<Suc d\<^sub>1]" and ws2: "seen_wal seen\<^sub>2 = map wal_at [?c..<Suc d\<^sub>2]"
    using first(1) second(1) objects_at [OF _ first(2)] objects_at [OF _ second(2)]
    unfolding wal_replayed_def cuts(1) by blast+
  have os: "map (run_object m) runs = map wal_at [Suc d\<^sub>1..<Suc d]"
    using runs by (intro objects_at) (auto simp: comp_def)
  have split: "[?c..<Suc d] = [?c..<Suc d\<^sub>1] @ [Suc d\<^sub>1..<Suc d]"
    using cuts by (intro upt_split) simp_all
  have below: "wal_owner (wal_at n) \<le> t\<^sub>1" if "?c \<le> n" "n \<le> d" for n
  proof -
    have "wal_at n \<in> set (seen_wal seen\<^sub>1 @ map (run_object m) runs)"
      using that unfolding ws1 os map_append [symmetric] split [symmetric] by (auto simp del: upt_Suc)
    with first(1) owner(1) show ?thesis
      by (auto simp: wal_replayed_def dest: owner_chain_le)
  qed
  have "seen_wal seen\<^sub>2 \<noteq> []" using ws2 cuts by simp
  then have "wal_owner (wal_at d\<^sub>2) = t\<^sub>2"
    using second(1) owner_chain_last [of _ "seen_wal seen\<^sub>2" t\<^sub>2] ws2 cuts(3)
    by (auto simp: wal_replayed_def last_map)
  with below [of d\<^sub>2] owner cuts show less: "d < d\<^sub>2" by (force simp: not_le)
  then have "[?c..<Suc d\<^sub>2] = [?c..<Suc d] @ [Suc d..<Suc d\<^sub>2]"
    using cuts by (intro upt_split) simp_all
  then show "seen_wal seen\<^sub>2 = seen_wal seen\<^sub>1 @ map (run_object m) runs @ map wal_at [Suc d..<Suc d\<^sub>2]"
    using split ws1 ws2 os by simp
qed

lemma seal_cut_owner:
  assumes "seal_valid s" "replay_owner (seal_replay s) = Some t"
  shows "t < owner_from (seal_generation s)"
  using assms by (auto simp: seal_valid_iff replay_owner_def less_OwnerToken_def split: WalReplayPoint.split_asm)

lemma restart_base:
  assumes "base_read seen\<^sub>1 s\<^sub>1 base\<^sub>1" "base_read seen\<^sub>2 s\<^sub>2 base\<^sub>2"
    and "reads_from contents wal_at seen\<^sub>1" "reads_from contents wal_at seen\<^sub>2"
    and "seal_directory s\<^sub>2 = seal_directory s\<^sub>1" "seal_ledger s\<^sub>2 = seal_ledger s\<^sub>1"
  shows "base\<^sub>2 = base\<^sub>1"
proof -
  have "planned s\<^sub>2 = planned s\<^sub>1" using assms by (simp add: planned_def)
  then have "seen_tables seen\<^sub>2 = seen_tables seen\<^sub>1"
    using assms by (intro tables_same [of _ _ contents]) (auto simp: base_read_def reads_from_def)
  with assms show ?thesis by (simp add: base_read_def)
qed

lemma restart_nonempty:
  assumes "wal_replayed seen s base durable (Suc d) (Some (owner_from g))"
    and "seal_valid s'" "seal_replay s = seal_replay s'" "seal_generation s' < g"
  shows "cut_get (boot_cut s') < d"
proof (rule ccontr)
  assume "\<not> ?thesis"
  then have "seen_wal seen = []" using assms by (auto simp: wal_replayed_def boot_cut_def)
  then have "replay_owner (seal_replay s') = Some (owner_from g)"
    using assms by (simp add: wal_replayed_def)
  with seal_cut_owner [OF assms(2)] assms(4) show False by (force simp: less_OwnerToken_def)
qed

text \<open>
  The second bootstrap claims a later generation of a Seal with the same replay point and tables.
\<close>

definition same_checkpoint :: "Seal \<Rightarrow> Seal \<Rightarrow> bool" where
  "same_checkpoint s s' \<longleftrightarrow>
     seal_replay s' = seal_replay s \<and> seal_directory s' = seal_directory s \<and> seal_ledger s' = seal_ledger s"

lemma restart_replays:
  assumes ok: "recovery_ok r\<^sub>1" "recovery_ok r\<^sub>2"
    and tr: "traced (RefreshingFinal r\<^sub>1) seen\<^sub>1" "traced (RefreshingFinal r\<^sub>2) seen\<^sub>2"
    and store: "reads_from contents wal_at seen\<^sub>1" "reads_from contents wal_at seen\<^sub>2"
      "holds_log encode_wal wal_at objects"
    and log: "log_ok encode_wal m\<^sub>0 m objects runs" "batch_get (recovery_durable_batch r\<^sub>1) \<le> batch_get (wm_durable_batch m)"
    and m0: "forest_of (wm_durable m\<^sub>0) = recovery_durable r\<^sub>1" "wm_claim m\<^sub>0 = recovery_claim r\<^sub>1"
      "wm_durable_batch m\<^sub>0 = recovery_durable_batch r\<^sub>1"
    and later: "seal_generation (recovery_seal r\<^sub>1) < seal_generation (recovery_seal r\<^sub>2)"
    and same: "same_checkpoint (recovery_seal r\<^sub>1) (recovery_seal r\<^sub>2)"
  shows "batch_get (wm_durable_batch m) < batch_get (recovery_durable_batch r\<^sub>2)"
    "replay (forest_of (wm_durable m)) (wal_log (map wal_at
         [Suc (batch_get (wm_durable_batch m))..<Suc (batch_get (recovery_durable_batch r\<^sub>2))]))
       = Some (Inr (recovery_durable r\<^sub>2))"
proof -
  let ?g1 = "seal_generation (recovery_seal r\<^sub>1)" and ?g2 = "seal_generation (recovery_seal r\<^sub>2)"
  have claim: "claim_owner (recovery_claim r\<^sub>1) = owner_from ?g1" "claim_owner (recovery_claim r\<^sub>2) = owner_from ?g2"
    using ok by (simp_all add: recovery_ok_def authored_claim_new_def)
  have bases: "recovery_base r\<^sub>2 = recovery_base r\<^sub>1"
    using restart_base [OF _ _ store(1,2), of "recovery_seal r\<^sub>1" "recovery_base r\<^sub>1" "recovery_seal r\<^sub>2"]
      tr same by (simp add: same_checkpoint_def)
  have first: "wal_replayed seen\<^sub>1 (recovery_seal r\<^sub>1) (recovery_base r\<^sub>1) (recovery_durable r\<^sub>1)
      (Suc (batch_get (recovery_durable_batch r\<^sub>1))) (Some (owner_from ?g1))"
    and second: "wal_replayed seen\<^sub>2 (recovery_seal r\<^sub>2) (recovery_base r\<^sub>1) (recovery_durable r\<^sub>2)
      (Suc (batch_get (recovery_durable_batch r\<^sub>2))) (Some (owner_from ?g2))"
    using tr claim bases by simp_all
  have nonempty: "cut_get (boot_cut (recovery_seal r\<^sub>1)) < batch_get (recovery_durable_batch r\<^sub>2)"
    using restart_nonempty [OF second _ _ later] ok same by (simp add: recovery_ok_def same_checkpoint_def)
  have runs: "map (batch_get \<circ> fst) runs
      = [Suc (batch_get (recovery_durable_batch r\<^sub>1))..<Suc (batch_get (wm_durable_batch m))]"
    "\<forall>run\<in>set runs. wal_at (batch_get (fst run)) = run_object m\<^sub>0 run"
    "replay (recovery_durable r\<^sub>1) (log_of runs) = Some (Inr (forest_of (wm_durable m)))"
    using log(1) m0 holds_log_runs [OF _ store(3), of m\<^sub>0 runs] by (simp_all add: log_ok_def)
  have side: "\<forall>w\<in>set (seen_wal seen\<^sub>1). wal_at (batch_get (wal_batch w)) = w"
    "\<forall>w\<in>set (seen_wal seen\<^sub>2). wal_at (batch_get (wal_batch w)) = w"
    "claim_owner (wm_claim m\<^sub>0) = owner_from ?g1" "owner_from ?g1 < owner_from ?g2"
    "boot_cut (recovery_seal r\<^sub>2) = boot_cut (recovery_seal r\<^sub>1)"
    "cut_get (boot_cut (recovery_seal r\<^sub>1)) \<le> batch_get (recovery_durable_batch r\<^sub>1)"
    using store m0 claim later same ok
    by (simp_all add: reads_from_def less_OwnerToken_def boot_cut_def same_checkpoint_def recovery_ok_def)
  note objects = restart_objects [OF first side(1) runs(1,2) second side(2-6) nonempty log(2)]
  show "batch_get (wm_durable_batch m) < batch_get (recovery_durable_batch r\<^sub>2)"
    by (rule objects)
  let ?rest = "map wal_at [Suc (batch_get (wm_durable_batch m))..<Suc (batch_get (recovery_durable_batch r\<^sub>2))]"
  have "wal_log (seen_wal seen\<^sub>2) = wal_log (seen_wal seen\<^sub>1) @ log_of runs @ wal_log ?rest"
    by (simp only: objects(2) wal_log_append wal_log_runs)
  moreover have "replay (recovery_base r\<^sub>1) (wal_log (seen_wal seen\<^sub>1)) = Some (Inr (recovery_durable r\<^sub>1))"
    "replay (recovery_base r\<^sub>1) (wal_log (seen_wal seen\<^sub>2)) = Some (Inr (recovery_durable r\<^sub>2))"
    using first second by (simp_all only: wal_replayed_def)
  ultimately show "replay (forest_of (wm_durable m)) (wal_log ?rest) = Some (Inr (recovery_durable r\<^sub>2))"
    using runs(3) by (simp only: replay_append) (simp del: upt_Suc)
qed

text \<open>The writer between two bootstraps, as a whole.\<close>

lemma restart_keeps_durable:
  assumes enc: "boot_encoders_ok encode_seal encode_wal" "wal_encoder_ok encode_wal"
    and first: "boot_run encode_seal encode_wal n\<^sub>1 k\<^sub>1 state\<^sub>1 seen\<^sub>1 (Some (BootComplete r\<^sub>1))"
    and flush: "1 \<le> flush_buffer_bytes" "flush_buffer_bytes \<le> WAL_ENCODED_BYTES_MAX"
    and writer: "from_recovery r\<^sub>1 interval flush_buffer_bytes = Some m\<^sub>0" "writer_run encode_wal m\<^sub>0 m h"
    and second: "boot_run encode_seal encode_wal n\<^sub>2 k\<^sub>2 state\<^sub>2 seen\<^sub>2 (Some (BootComplete r\<^sub>2))"
    and reads: "reads_from contents wal_at seen\<^sub>1" "reads_from contents wal_at seen\<^sub>2"
    and log: "holds_log encode_wal wal_at (obs_log h)"
    and later: "seal_generation (recovery_seal r\<^sub>1) < seal_generation (recovery_seal r\<^sub>2)"
    and same: "same_checkpoint (recovery_seal r\<^sub>1) (recovery_seal r\<^sub>2)"
  shows "batch_get (wm_durable_batch m) < batch_get (recovery_durable_batch r\<^sub>2)
     \<and> replay (forest_of (wm_durable m)) (wal_log (map wal_at
           [Suc (batch_get (wm_durable_batch m))..<Suc (batch_get (recovery_durable_batch r\<^sub>2))]))
         = Some (Inr (recovery_durable r\<^sub>2))
     \<and> occupancy_kept (forest_of (wm_durable m)) (recovery_durable r\<^sub>2)"
proof -
  have ends: "recovery_ok r\<^sub>1 \<and> traced (RefreshingFinal r\<^sub>1) seen\<^sub>1"
      "recovery_ok r\<^sub>2 \<and> traced (RefreshingFinal r\<^sub>2) seen\<^sub>2"
    using boot_run_complete [OF first enc(1)] boot_run_complete [OF second enc(1)] by blast+
  have m0: "writer_inv m\<^sub>0" "idle m\<^sub>0" "forest_of (wm_durable m\<^sub>0) = recovery_durable r\<^sub>1"
      "wm_claim m\<^sub>0 = recovery_claim r\<^sub>1" "wm_durable_batch m\<^sub>0 = recovery_durable_batch r\<^sub>1"
    using from_recovery_ok [of r\<^sub>1 flush_buffer_bytes interval] ends flush writer(1) by auto
  have acc: "accounted encode_wal m\<^sub>0 m h"
    by (rule writer_run_accounted [OF writer(2) enc(2) m0(1,2)])
  then obtain runs where runs: "log_ok encode_wal m\<^sub>0 m (obs_log h) runs"
      "batch_get (recovery_durable_batch r\<^sub>1) \<le> batch_get (wm_durable_batch m)"
    using m0 by (auto simp: accounted_def)
  have inv: "forest_inv (forest_of (wm_durable m))"
    using acc by (simp add: accounted_def writer_inv_def writer_core_def forests_ok_def)
  note replayed = restart_replays [OF _ _ _ _ reads log runs m0(3-5) later same]
  show ?thesis
    using replayed replay_occupancy [OF inv] ends by blast
qed

section \<open>A concrete restart\<close>

text \<open>
  The second bootstrap after the writer's one RUN: it claims generation three over the same Seal,
  finds the RUN at the tail, fences coordinate three and replays the three objects.
\<close>

definition restart_seal :: Seal where
  "restart_seal = sample_seal \<lparr> seal_generation := SealGeneration (nz_of 3) \<rparr>"

definition restart_loaded :: "Forest \<Rightarrow> LoadedBootstrap" where
  "restart_loaded durable = \<lparr> loaded_claimed = \<lparr> claimed_claim = authored_claim_new (SealGeneration (nz_of 3)),
     claimed_seal = restart_seal \<rparr>, loaded_base = forest_empty, loaded_durable = durable \<rparr>"

abbreviation restart_batch :: BatchId where
  "restart_batch \<equiv> BatchId (nz_of 3)"

definition restart_fence :: WalObject where
  "restart_fence = \<lparr> wal_partition = sample_partition, wal_batch = restart_batch,
     wal_owner = owner_from (SealGeneration (nz_of 3)), wal_body = WalFence \<rparr>"

definition restart_replay :: "Forest \<Rightarrow> BatchId \<Rightarrow> OwnerToken option \<Rightarrow> Replay" where
  "restart_replay durable b owner = \<lparr> replay_loaded = restart_loaded durable, replay_next = b,
     replay_fence = TakeoverFence restart_batch, replay_owner_token = owner \<rparr>"

definition restart_recovery :: WriterRecovery where
  "restart_recovery = \<lparr> recovery_claim = authored_claim_new (SealGeneration (nz_of 3)),
     recovery_seal = restart_seal, recovery_base = forest_empty, recovery_durable = sample_after,
     recovery_durable_batch = restart_batch \<rparr>"

abbreviation sample_owner :: OwnerToken where
  "sample_owner \<equiv> owner_from (SealGeneration (nz_of 2))"

lemma sample_run_fields:
  "wal_partition sample_run = sample_partition" "wal_batch sample_run = sample_batch"
  "wal_owner sample_run = sample_owner" "wal_body sample_run = WalRun [sample_fact]"
  by (simp_all add: sample_run_def sample_machine_def sample_recovery_def sample_seal_def
      authored_claim_new_def Let_def)

lemma restart_seal_fields:
  "seal_replay restart_seal = ReplayGenesis" "seal_partition restart_seal = sample_partition"
  "seal_generation restart_seal = SealGeneration (nz_of 3)"
  by (simp_all add: restart_seal_def sample_seal_def)

lemma sample_claimed_fields:
  "seal_generation sample_claimed = SealGeneration (nz_of 2)" "seal_valid sample_claimed"
  using claim_successor_valid [OF sample_seal_valid, of sample_claimed]
  by (simp_all add: sample_claimed_def claim_successor_Inr seal_gen.successor_Inr sample_seal_def)

lemmas restart_evaluation =
  sample_link_def boot_event_ok_def bootstrap_handle_def boot_effect_def restart_loaded_def
  restart_seal_fields sample_run_fields authored_claim_new_def Let_def

lemma restart_claim:
  "sample_link es ew (DiscoveringHead p) (HeadObserved (Some (SealGeneration (nz_of 2))))
     (ReadingSeal (SealGeneration (nz_of 2))) (BootEffect (ReadSeal (SealGeneration (nz_of 2))))"
  "encoded_seal_new es restart_seal = Some (Inr c) \<Longrightarrow>
     sample_link es ew (ReadingSeal (SealGeneration (nz_of 2))) (SealRead (Some sample_claimed))
       (PublishingClaim restart_seal []) (BootEffect (PublishClaim (EncodedAuthoritySeal c)))"
  "sample_link es ew (PublishingClaim restart_seal []) (ClaimPublished Authored)
     (ObservingWalTail (restart_loaded forest_empty) None) (BootEffect ObserveWalTail)"
proof -
  show "sample_link es ew (DiscoveringHead p) (HeadObserved (Some (SealGeneration (nz_of 2))))
     (ReadingSeal (SealGeneration (nz_of 2))) (BootEffect (ReadSeal (SealGeneration (nz_of 2))))"
    by (simp add: restart_evaluation handle_head_def)
  have "plan_bootstrap_sources sample_claimed = Inr []"
    by (simp add: plan_bootstrap_sources_def sample_claimed_def sample_seal_def seal_tables_def
        tree_tables_def tree_empty_def tree_sources_def)
  moreover have "claim_successor sample_claimed = Inr restart_seal"
    by (auto simp: claim_successor_Inr sample_claimed_def restart_seal_def seal_gen.successor_Inr
        intro!: exI [of _ "SealGeneration (nz_of 3)"])
  moreover have "SealGeneration (nz_of 3) \<noteq> seal_generation_genesis"
    by (simp add: seal_generation_genesis_def nz_eq_iff)
  ultimately show "sample_link es ew (ReadingSeal (SealGeneration (nz_of 2))) (SealRead (Some sample_claimed))
      (PublishingClaim restart_seal []) (BootEffect (PublishClaim (EncodedAuthoritySeal c)))"
    if "encoded_seal_new es restart_seal = Some (Inr c)"
    using that sample_claimed_fields by (simp add: restart_evaluation handle_seal_def authority_candidate_def)
  have "forest_try_from fmempty fmempty = Inr forest_empty"
    using forest_inv_empty by (simp add: forest_try_from_Inr forest_empty_def)
  then show "sample_link es ew (PublishingClaim restart_seal []) (ClaimPublished Authored)
     (ObservingWalTail (restart_loaded forest_empty) None) (BootEffect ObserveWalTail)"
    by (simp add: restart_evaluation handle_claim_def read_next_table_def merged_rows_default_def)
qed

lemma restart_takeover:
  "sample_link es ew (ObservingWalTail (restart_loaded forest_empty) None) (WalTailObserved (Some sample_batch))
     (ReadingWalTail (restart_loaded forest_empty) (TakeoverFence restart_batch) sample_batch)
     (BootEffect (ReadWal sample_partition sample_batch))"
  "encoded_wal_new ew restart_fence = Some (Inr f) \<Longrightarrow>
     sample_link es ew (ReadingWalTail (restart_loaded forest_empty) (TakeoverFence restart_batch) sample_batch)
       (WalRead (Some sample_run)) (EstablishingFence (restart_loaded forest_empty) (TakeoverFence restart_batch))
       (BootEffect (EstablishFence f))"
  "sample_link es ew (EstablishingFence (restart_loaded forest_empty) (TakeoverFence restart_batch))
     (FenceEstablished WalDurable) (Replaying (restart_replay forest_empty (BatchId nz_min) None))
     (BootEffect (ReadWal sample_partition (BatchId nz_min)))"
proof -
  have three: "batch_successor sample_batch = Inr restart_batch" by (simp add: batch.successor_Inr)
  have one: "batch_try_from 1 = Inr (BatchId nz_min)" by (simp add: batch.try_from_Inr)
  have "bound_takeover_fence None restart_batch = Inr (TakeoverFence restart_batch)"
    by (simp add: bound_takeover_fence_Inr u64_max_def bound_defs)
  with three show "sample_link es ew (ObservingWalTail (restart_loaded forest_empty) None)
     (WalTailObserved (Some sample_batch))
     (ReadingWalTail (restart_loaded forest_empty) (TakeoverFence restart_batch) sample_batch)
     (BootEffect (ReadWal sample_partition sample_batch))"
    by (simp add: restart_evaluation handle_wal_tail_def replay_batch_def plan_fence_candidate_def
        options_max_def)
  show "sample_link es ew (ReadingWalTail (restart_loaded forest_empty) (TakeoverFence restart_batch) sample_batch)
       (WalRead (Some sample_run)) (EstablishingFence (restart_loaded forest_empty) (TakeoverFence restart_batch))
       (BootEffect (EstablishFence f))"
    if "encoded_wal_new ew restart_fence = Some (Inr f)"
    using that
    by (simp add: restart_evaluation handle_wal_read_def handle_tail_read_def read_ok_def establish_fence_def
        restart_fence_def less_eq_OwnerToken_def less_eq_SealGeneration_def)
  from one show "sample_link es ew (EstablishingFence (restart_loaded forest_empty) (TakeoverFence restart_batch))
     (FenceEstablished WalDurable) (Replaying (restart_replay forest_empty (BatchId nz_min) None))
     (BootEffect (ReadWal sample_partition (BatchId nz_min)))"
    by (simp add: restart_evaluation handle_fence_def replay_start_def replay_owner_def restart_replay_def)
qed

lemma restart_replaying:
  "sample_link es ew (Replaying (restart_replay forest_empty (BatchId nz_min) None)) (WalRead (Some sample_fence))
     (Replaying (restart_replay forest_empty sample_batch (Some sample_owner)))
     (BootEffect (ReadWal sample_partition sample_batch))"
  "sample_link es ew (Replaying (restart_replay forest_empty sample_batch (Some sample_owner)))
     (WalRead (Some sample_run)) (Replaying (restart_replay sample_after restart_batch (Some sample_owner)))
     (BootEffect (ReadWal sample_partition restart_batch))"
  "sample_link es ew (Replaying (restart_replay sample_after restart_batch (Some sample_owner)))
     (WalRead (Some restart_fence)) (RefreshingFinal restart_recovery) (BootEffect ObserveHead)"
  "sample_link es ew (RefreshingFinal restart_recovery) (HeadObserved (Some (SealGeneration (nz_of 3))))
     BootCompleteState (BootComplete restart_recovery)"
proof -
  note replaying = restart_evaluation handle_wal_read_def handle_replay_read_def read_ok_def
    restart_replay_def replay_body_def replay_advance_def
  have following: "batch_successor (BatchId nz_min) = Inr sample_batch" "batch_successor sample_batch = Inr restart_batch"
    by (simp_all add: batch.successor_Inr)
  have other: "BatchId nz_min \<noteq> restart_batch" "sample_batch \<noteq> restart_batch"
    by (simp_all add: nz_eq_iff)
  show "sample_link es ew (Replaying (restart_replay forest_empty (BatchId nz_min) None))
     (WalRead (Some sample_fence)) (Replaying (restart_replay forest_empty sample_batch (Some sample_owner)))
     (BootEffect (ReadWal sample_partition sample_batch))"
    using following(1) other(1) by (simp add: replaying sample_fence_def)
  have "fold_replay_facts forest_empty sample_batch [sample_fact] = Some (Inr sample_after)"
    by (simp add: sample_fold)
  with following(2) other(2)
  show "sample_link es ew (Replaying (restart_replay forest_empty sample_batch (Some sample_owner)))
     (WalRead (Some sample_run)) (Replaying (restart_replay sample_after restart_batch (Some sample_owner)))
     (BootEffect (ReadWal sample_partition restart_batch))"
    by (simp add: replaying and_then_def)
  show "sample_link es ew (Replaying (restart_replay sample_after restart_batch (Some sample_owner)))
     (WalRead (Some restart_fence)) (RefreshingFinal restart_recovery) (BootEffect ObserveHead)"
    by (simp add: replaying restart_fence_def restart_recovery_def less_eq_OwnerToken_def
        less_eq_SealGeneration_def)
  show "sample_link es ew (RefreshingFinal restart_recovery) (HeadObserved (Some (SealGeneration (nz_of 3))))
     BootCompleteState (BootComplete restart_recovery)"
    by (simp add: restart_evaluation handle_head_def boot_complete_def restart_recovery_def)
qed

definition restart_read :: BootSeen where
  "restart_read = \<lparr> seen_head = Some sample_claimed, seen_tables = [],
     seen_wal = [sample_fence, sample_run, restart_fence] \<rparr>"

lemma restart_run:
  "boot_run one_byte_seal one_byte 11 0 BootCompleteState restart_read (Some (BootComplete restart_recovery))"
proof -
  note link = sample_link_run
  obtain c f where "encoded_seal_new one_byte_seal restart_seal = Some (Inr c)"
      "encoded_wal_new one_byte restart_fence = Some (Inr f)"
    using one_byte_encodes by metis
  note claimed = restart_claim(2) [OF this(1)] and fenced = restart_takeover(2) [OF this(2)]
  note loading = link [OF link [OF link [OF link [OF link [OF boot_run.start
    sample_discovery(1)] restart_claim(1)] claimed] restart_claim(3)] restart_takeover(1)]
  note replaying = link [OF link [OF link [OF link [OF link [OF loading fenced] restart_takeover(3)]
    restart_replaying(1)] restart_replaying(2)] restart_replaying(3)]
  from link [OF replaying restart_replaying(4)] show ?thesis
    by (simp add: boot_observe_def restart_read_def eval_nat_numeral)
qed

end
