(* ===== verification/Codec_Theorems.thy ===== *)
theory Codec_Theorems
  imports Codecs Restart
begin

text \<open>
  What the codecs promise: the exact result of the bounded encoder, the exact acceptance and
  rejections of the decoders, and round trips under the law of \<open>rkyv\<close>.
\<close>

section \<open>The codecs as encoders of the machines\<close>

text \<open>
  The law of \<open>rkyv\<close> that a codec relies on: the archive a serializer completes is accessible and has
  the root that was serialized.
\<close>

definition rkyv_faithful :: "('a \<Rightarrow> bytes list \<times> bool) \<Rightarrow> (bytes \<Rightarrow> 'a option) \<Rightarrow> bool" where
  "rkyv_faithful serialize access \<longleftrightarrow>
     (\<forall>a chunks. serialize a = (chunks, True) \<longrightarrow> concat chunks \<noteq> [] \<and> access (concat chunks) = Some a)"

lemma encoded_bounds_below_u64: "WAL_ENCODED_BYTES_MAX < u64_max" "SEAL_ENCODED_BYTES_MAX < u64_max"
  by (simp_all add: bound_defs u64_max_def)

lemma encode_wal_Inr:
  "encode_wal serialize room object = Inr bs
     \<Longrightarrow> \<exists>chunks. serialize (archive_wal object) = (chunks, True) \<and> bs = concat chunks
           \<and> length bs \<le> WAL_ENCODED_BYTES_MAX"
  by (auto simp: encode_wal_def dest: encode_Inr [OF _ encoded_bounds_below_u64(1)])

lemma encode_seal_Inr:
  "encode_seal serialize room seal = Inr bs
     \<Longrightarrow> \<exists>chunks. serialize (archive_seal seal) = (chunks, True) \<and> bs = concat chunks
           \<and> length bs \<le> SEAL_ENCODED_BYTES_MAX"
  by (auto simp: encode_seal_def dest: encode_Inr [OF _ encoded_bounds_below_u64(2)])

lemma codecs_boot_encoders:
  assumes "rkyv_faithful serialize_seal access_seal" "rkyv_faithful serialize_wal access_wal"
  shows "boot_encoders_ok (encode_seal serialize_seal room) (encode_wal serialize_wal room)"
  using assms encode_wal_Inr [of serialize_wal room] encode_seal_Inr [of serialize_seal room]
  unfolding boot_encoders_ok_def rkyv_faithful_def by metis

section \<open>Encoding and decoding\<close>

text \<open>
  C19. The bounded encoder reports exactly. Whatever the allocator does, an encoding is the complete
  archive and within its bound, and an over-bound error means that the archive is over the bound; when
  the allocator grants every reservation, the result is determined by the size and completion of the
  serialization.
\<close>

theorem encode_reports_exactly:
  assumes "bytes_max < u64_max" "serialize v = (chunks, completes)"
  shows "(\<forall>bs. encode serialize room v bytes_max = Inr bs \<longrightarrow>
        completes \<and> bs = concat chunks \<and> length bs \<le> bytes_max)
     \<and> (\<forall>m. encode serialize room v bytes_max = Inl (EncodedBytesOverMax m) \<longrightarrow>
        m = bytes_max \<and> length (concat chunks) > bytes_max)
     \<and> (allocates room \<longrightarrow> encode serialize room v bytes_max =
        (if length (concat chunks) > bytes_max then Inl (EncodedBytesOverMax bytes_max)
         else if completes then Inr (concat chunks) else Inl Serialization))"
proof (intro conjI)
  show "\<forall>bs. encode serialize room v bytes_max = Inr bs \<longrightarrow>
      completes \<and> bs = concat chunks \<and> length bs \<le> bytes_max"
    using encode_Inr [OF _ assms(1)] assms(2) by fastforce
  have "length (concat chunks) > bytes_max"
    if "write_chunks room (bounded_writer_new bytes_max) chunks = (w, ok)" "writer_over_bound w" for w ok
    using that write_chunks_over [of room "bounded_writer_new bytes_max" chunks w] assms(1)
      write_chunks_ok [of room "bounded_writer_new bytes_max" chunks w]
    by (cases ok) (auto simp: bounded_writer_new_def)
  then show "\<forall>m. encode serialize room v bytes_max = Inl (EncodedBytesOverMax m) \<longrightarrow>
      m = bytes_max \<and> length (concat chunks) > bytes_max"
    using assms(2) by (auto simp: encode_def Let_def split: prod.split_asm if_split_asm)
qed (simp add: encode_allocates [where serialize = serialize] assms)

theorem encode_reports_exactly_witness:
  "encode (\<lambda>v::nat. ([''ab'', ''c''], True)) (\<lambda>_ _. True) 0 3 = Inr ''abc''
   \<and> encode (\<lambda>v::nat. ([''ab'', ''c''], True)) (\<lambda>_ _. True) 0 2 = Inl (EncodedBytesOverMax 2)"
proof -
  let ?ser = "\<lambda>v::nat. ([''ab'', ''c''], True)" and ?room = "\<lambda>_ _ :: nat. True"
  have room: "allocates ?room" by (simp add: allocates_def)
  have "(3::nat) < u64_max" "(2::nat) < u64_max" by (simp_all add: u64_max_def)
  from encode_reports_exactly [OF this(1), of ?ser 0 _ _ ?room, OF refl]
    encode_reports_exactly [OF this(2), of ?ser 0 _ _ ?room, OF refl] room
  have "encode ?ser ?room 0 3 = (if 3 < length (concat [''ab'', ''c'']) then Inl (EncodedBytesOverMax 3)
      else if True then Inr (concat [''ab'', ''c'']) else Inl Serialization)"
    "encode ?ser ?room 0 2 = (if 2 < length (concat [''ab'', ''c'']) then Inl (EncodedBytesOverMax 2)
      else if True then Inr (concat [''ab'', ''c'']) else Inl Serialization)"
    by blast+
  then show ?thesis by simp
qed

text \<open>
  C17. The WAL decoder accepts exactly the archived form of a well formed object of the expected
  partition and batch, in bytes within the bound, whose expiries the timestamp library represents.
\<close>

theorem decode_wal_exact:
  assumes "nanosecond_exact from_nanosecond"
  shows "decode_wal access from_nanosecond part batch bs = Inr object \<longleftrightarrow>
     length bs \<le> WAL_ENCODED_BYTES_MAX \<and> access bs = Some (archive_wal object)
     \<and> wal_partition object = part \<and> wal_batch object = batch
     \<and> wal_body_ok (wal_body object) \<and> body_representable from_nanosecond (wal_body object)"
  using decode_wal_Inr [OF assms] .

lemma sample_run_ok: "wal_body_ok (wal_body sample_run)" "body_representable f (wal_body sample_run)"
  by (simp_all add: sample_run_fields wal_body_ok_def wal_facts_try_from_def body_representable_def
      fact_representable_def expiry_representable_def bound_defs)

theorem decode_wal_exact_witness:
  "decode_wal (\<lambda>_. Some (archive_wal sample_run)) (\<lambda>_. None) sample_partition sample_batch ''r'' = Inr sample_run
   \<and> decode_wal (\<lambda>_. Some (archive_wal sample_run)) (\<lambda>_. None) sample_partition restart_batch ''r'' \<noteq> Inr sample_run"
  using decode_wal_exact [of "\<lambda>_. None"] sample_run_ok
  by (simp add: nanosecond_exact_def sample_run_fields nz_eq_iff bound_defs)

text \<open>
  C18. The WAL decoder's rejections. Bytes over the bound are rejected before the archive is accessed,
  bytes without an archive are malformed, an object of another partition or batch is an identity
  mismatch whatever its body, and at its own location the archive of a typed object is invalid exactly
  when its run is empty, too long or holds an expiry that cannot be represented.
\<close>

theorem decode_wal_rejects:
  assumes "nanosecond_exact from_nanosecond"
  shows "(length bs > WAL_ENCODED_BYTES_MAX \<longrightarrow>
        decode_wal access from_nanosecond part batch bs = Inl (DecodedBytesOverMax WAL_ENCODED_BYTES_MAX (length bs)))
     \<and> (length bs \<le> WAL_ENCODED_BYTES_MAX \<and> access bs = None \<longrightarrow>
        decode_wal access from_nanosecond part batch bs = Inl MalformedArchive)
     \<and> (length bs \<le> WAL_ENCODED_BYTES_MAX \<and> access bs = Some (archive_wal object) \<longrightarrow>
          (wal_partition object \<noteq> part \<or> wal_batch object \<noteq> batch \<longrightarrow>
             decode_wal access from_nanosecond part batch bs = Inl IdentityMismatch)
        \<and> (wal_partition object = part \<and> wal_batch object = batch \<longrightarrow>
             (decode_wal access from_nanosecond part batch bs = Inl InvalidBody \<longleftrightarrow>
                \<not> (wal_body_ok (wal_body object) \<and> body_representable from_nanosecond (wal_body object)))))"
proof (intro conjI impI)
  assume "length bs \<le> WAL_ENCODED_BYTES_MAX \<and> access bs = Some (archive_wal object)"
    and "wal_partition object = part \<and> wal_batch object = batch"
  then have "decode_wal access from_nanosecond part batch bs =
      map_sum id (\<lambda>body. object \<lparr> wal_body := body \<rparr>) (decode_body from_nanosecond (archive_body (wal_body object)))"
    by (cases "decode_body from_nanosecond (archive_body (wal_body object))")
      (auto simp: decode_wal_def decode_bound_def archive_wal_def Let_def)
  moreover have "decode_body from_nanosecond (archive_body (wal_body object)) = Inl InvalidBody \<longleftrightarrow>
      \<not> (wal_body_ok (wal_body object) \<and> body_representable from_nanosecond (wal_body object))"
    using decode_body_Inr [OF assms] decode_body_Inl archive_body_inject by (metis sum.exhaust sum.simps(4))
  ultimately show "decode_wal access from_nanosecond part batch bs = Inl InvalidBody \<longleftrightarrow>
      \<not> (wal_body_ok (wal_body object) \<and> body_representable from_nanosecond (wal_body object))"
    by (cases "decode_body from_nanosecond (archive_body (wal_body object))") auto
qed (auto simp: decode_wal_def decode_bound_def decode_error_from_def archive_wal_def Let_def)

theorem decode_wal_rejects_witness:
  "decode_wal (\<lambda>_. None) (\<lambda>_. None) sample_partition sample_batch ''r'' = Inl MalformedArchive
   \<and> decode_wal (\<lambda>_. Some (archive_wal sample_run)) (\<lambda>_. None) sample_partition restart_batch ''r''
     = Inl IdentityMismatch
   \<and> decode_wal (\<lambda>_. Some (archive_wal (sample_run \<lparr> wal_body := WalRun [] \<rparr>))) (\<lambda>_. None)
       sample_partition sample_batch ''r'' = Inl InvalidBody"
proof -
  have exact: "nanosecond_exact (\<lambda>_. None)" by (simp add: nanosecond_exact_def)
  have short: "length ''r'' \<le> WAL_ENCODED_BYTES_MAX" by (simp add: bound_defs)
  let ?empty = "sample_run \<lparr> wal_body := WalRun [] \<rparr>"
  have "wal_partition ?empty = sample_partition \<and> wal_batch ?empty = sample_batch" "\<not> wal_body_ok (wal_body ?empty)"
    "sample_batch \<noteq> restart_batch"
    by (simp_all add: sample_run_fields wal_body_ok_def wal_facts_try_from_def nz_eq_iff)
  with decode_wal_rejects [OF exact, of "''r''" "\<lambda>_. None" sample_partition sample_batch]
    decode_wal_rejects [OF exact, of "''r''" "\<lambda>_. Some (archive_wal sample_run)" sample_partition restart_batch]
    decode_wal_rejects [OF exact, of "''r''" "\<lambda>_. Some (archive_wal ?empty)" sample_partition sample_batch ?empty]
    short sample_run_fields(2)
  show ?thesis by metis
qed

text \<open>
  C15. WAL objects and Seals survive their codecs. If \<open>rkyv\<close> gives back the root it serialized, a WAL
  object that \<open>encode_wal\<close> accepts decodes at its partition and batch to itself, and a Seal that
  \<open>encode_seal\<close> accepts decodes at its generation to itself.
\<close>

theorem codec_round_trip:
  assumes "rkyv_faithful serialize_wal access_wal" "rkyv_faithful serialize_seal access_seal"
  shows "(encode_wal serialize_wal room object = Inr bs \<and> wal_body_ok (wal_body object)
        \<and> body_representable from_nanosecond (wal_body object) \<longrightarrow>
        decode_wal access_wal from_nanosecond (wal_partition object) (wal_batch object) bs = Inr object)
     \<and> (encode_seal serialize_seal room seal = Inr bs' \<and> seal_ok seal \<longrightarrow>
        decode_seal access_seal (seal_generation seal) bs' = Inr seal)"
proof (intro conjI impI)
  assume wal: "encode_wal serialize_wal room object = Inr bs \<and> wal_body_ok (wal_body object)
        \<and> body_representable from_nanosecond (wal_body object)"
  with assms(1) wal_decoder.decode_encode [OF wal [THEN conjunct1, unfolded encode_wal_def]
      encoded_bounds_below_u64(1), where access = access_wal and from_nanosecond = from_nanosecond
        and l = "(wal_partition object, wal_batch object)" and v = object]
  show "decode_wal access_wal from_nanosecond (wal_partition object) (wal_batch object) bs = Inr object"
    by (auto simp: rkyv_faithful_def)
next
  assume seal: "encode_seal serialize_seal room seal = Inr bs' \<and> seal_ok seal"
  with assms(2) seal_decoder.decode_encode [OF seal [THEN conjunct1, unfolded encode_seal_def]
      encoded_bounds_below_u64(2), where access = access_seal and l = "seal_generation seal" and v = seal]
  show "decode_seal access_seal (seal_generation seal) bs' = Inr seal"
    by (auto simp: rkyv_faithful_def)
qed

text \<open>A serializer of one value, and the access that reads it back.\<close>

definition only :: "'a \<Rightarrow> 'a \<Rightarrow> bytes list \<times> bool" where
  "only root a = ([''r''], a = root)"

lemma only_faithful: "rkyv_faithful (only root) (\<lambda>bs. if bs = ''r'' then Some root else None)"
  by (simp add: rkyv_faithful_def only_def)

lemma only_encodes:
  "0 < bytes_max \<Longrightarrow> bytes_max < u64_max \<Longrightarrow> f v = root
     \<Longrightarrow> encode (\<lambda>v. only root (f v)) (\<lambda>_ _. True) v bytes_max = Inr ''r''"
  by (subst encode_allocates [of _ _ _ v "[''r'']" True]) (auto simp: allocates_def only_def)

theorem codec_round_trip_witness:
  "decode_wal (\<lambda>bs. if bs = ''r'' then Some (archive_wal sample_run) else None) (\<lambda>_. None)
     (wal_partition sample_run) (wal_batch sample_run) ''r'' = Inr sample_run
   \<and> decode_seal (\<lambda>bs. if bs = ''r'' then Some (archive_seal sample_seal) else None)
       (seal_generation sample_seal) ''r'' = Inr sample_seal"
proof -
  have "encode_wal (only (archive_wal sample_run)) (\<lambda>_ _. True) sample_run = Inr ''r''"
    "encode_seal (only (archive_seal sample_seal)) (\<lambda>_ _. True) sample_seal = Inr ''r''"
    unfolding encode_wal_def encode_seal_def by (simp_all add: only_encodes bound_defs u64_max_def)
  moreover have "seal_ok sample_seal"
    using sample_seal_valid by (simp add: seal_ok_def sample_seal_def tree_ok_def tree_empty_def)
  ultimately show ?thesis
    using codec_round_trip [OF only_faithful only_faithful] sample_run_ok by blast
qed

end
