(* ===== verification/Sst.thy ===== *)
theory Sst
  imports Codec_Theorems
begin

text \<open>
  The sorted-string tables of \<open>sst.rs\<close>, \<open>sst/directory.rs\<close> and \<open>sst/ledger.rs\<close>, and the table
  candidates of \<open>candidate.rs\<close>. Both codecs accept nonempty rows in strictly increasing key order; the
  decoders provide the \<open>located_decoder\<close> interface at a partition and a table key. The parameter
  \<open>row_size\<close> is the size of an archived row, and \<open>reserve\<close> says whether the decoder's vector can be
  reserved at a length.
\<close>

section \<open>Rows in key order\<close>

text \<open>The loop over \<open>previous\<close> that both encoders run before archiving.\<close>

fun ascending :: "'k::linorder option \<Rightarrow> 'k list \<Rightarrow> bool" where
  "ascending previous [] = True"
| "ascending previous (key # keys) =
     (if (case previous of None \<Rightarrow> False | Some previous_key \<Rightarrow> key \<le> previous_key) then False
      else ascending (Some key) keys)"

lemma ascending_Some: "ascending (Some k) ks \<longleftrightarrow> sorted_wrt (<) (k # ks)"
proof (induction ks arbitrary: k)
  case (Cons x ks)
  then show ?case by (auto simp: not_le)
qed simp

lemma ascending_None: "ascending None ks \<longleftrightarrow> sorted_wrt (<) ks"
  by (cases ks) (simp_all add: ascending_Some)

section \<open>Errors and bounds\<close>

datatype SstEncodeError =
  SstEncodeStoreMismatch | SstEmptyTable | SstRowsNotStrictlyOrdered | SstSerialization
| SstEncodedBytesOverMax | SstEncodeResourceBound

primrec sst_encode_error_from :: "EncodeError \<Rightarrow> SstEncodeError" where
  "sst_encode_error_from Serialization = SstSerialization"
| "sst_encode_error_from (EncodedBytesOverMax bytes_max) = SstEncodedBytesOverMax"

definition check_encode_rows :: "nat \<Rightarrow> nat \<Rightarrow> SstEncodeError + unit" where
  "check_encode_rows row_size rows_len =
     (if rows_len > PARTITION_PATH_OCCUPANCIES_MAX_V2 then Inl SstEncodeResourceBound
      else if min (rows_len * row_size) u64_max > SST_OBJECT_BYTES_MAX then Inl SstEncodedBytesOverMax
      else Inr ())"

datatype SstDecodeError =
  SstDecodedBytesOverMax nat | SstMalformedArchive | SstInvalidBody | SstIdentityMismatch
| SstDecodeStoreMismatch | SstDecodeResourceBound

definition check_decode_bound :: "bytes \<Rightarrow> SstDecodeError + unit" where
  "check_decode_bound bs =
     map_err (\<lambda>(bytes_max, bytes_actual). SstDecodedBytesOverMax bytes_actual)
       (decode_bound bs SST_OBJECT_BYTES_MAX)"

section \<open>Directory tables\<close>

datatype ArchivedDirectoryEntry = ArchivedLive nonzero_u64 | ArchivedTombstone nonzero_u64

primrec archive_entry :: "DirectoryEntry \<Rightarrow> ArchivedDirectoryEntry" where
  "archive_entry (DirLive uid) = ArchivedLive (archive_uid uid)"
| "archive_entry (DirTombstone uid) = ArchivedTombstone (archive_uid uid)"

primrec entry_from_archived :: "ArchivedDirectoryEntry \<Rightarrow> DirectoryEntry" where
  "entry_from_archived (ArchivedLive uid) = DirLive (stream_uid_from_archived uid)"
| "entry_from_archived (ArchivedTombstone uid) = DirTombstone (stream_uid_from_archived uid)"

datatype DirectoryRowArchive =
  DirectoryRowArchive (row_archive_path: string) (row_archive_entry: ArchivedDirectoryEntry)

definition directory_row_archive :: "StreamPath \<times> DirectoryEntry \<Rightarrow> DirectoryRowArchive" where
  "directory_row_archive row = DirectoryRowArchive (path_as_str (fst row)) (archive_entry (snd row))"

record DirectorySstArchive =
  directory_root_partition :: octets
  directory_root_fresh :: ArchivedFreshIdentity
  directory_root_rows :: "DirectoryRowArchive list"

definition directory_root ::
  "PartitionId \<Rightarrow> TableKey \<Rightarrow> (StreamPath \<times> DirectoryEntry) list \<Rightarrow> DirectorySstArchive" where
  "directory_root part expected rows =
     \<lparr> directory_root_partition = archive_partition part,
       directory_root_fresh = archive_fresh (table_fresh (key_object expected)),
       directory_root_rows = map directory_row_archive rows \<rparr>"

definition encode_directory_sst ::
  "(DirectorySstArchive \<Rightarrow> bytes list \<times> bool) \<Rightarrow> (nat \<Rightarrow> nat \<Rightarrow> bool) \<Rightarrow> nat \<Rightarrow> PartitionId \<Rightarrow> TableKey
   \<Rightarrow> (StreamPath \<times> DirectoryEntry) list \<Rightarrow> SstEncodeError + bytes" where
  "encode_directory_sst serialize room row_size part expected rows =
     (if table_store (key_object expected) \<noteq> StoreDirectory then Inl SstEncodeStoreMismatch
      else if rows = [] then Inl SstEmptyTable
      else try_ok (check_encode_rows row_size (length rows)) (\<lambda>_.
        if \<not> ascending None (map (path_as_str \<circ> fst) rows) then Inl SstRowsNotStrictlyOrdered
        else map_err sst_encode_error_from
               (encode serialize room (directory_root part expected rows) SST_OBJECT_BYTES_MAX)))"

text \<open>The loop of \<open>decode_directory_sst\<close> over the archived rows.\<close>

fun decode_directory_rows ::
  "string option \<Rightarrow> nat \<Rightarrow> DirectoryRowArchive list \<Rightarrow> SstDecodeError + (StreamPath \<times> DirectoryEntry) list"
where
  "decode_directory_rows previous resident_bytes [] = Inr []"
| "decode_directory_rows previous resident_bytes (row # rest) =
     (let key_bytes = row_archive_path row in
      if key_bytes = [] \<or> length key_bytes > STREAM_PATH_BYTES_MAX then Inl SstInvalidBody
      else if (case previous of None \<Rightarrow> False | Some previous_key \<Rightarrow> key_bytes \<le> previous_key)
        then Inl SstInvalidBody
      else try_ok (ok_or SstDecodeResourceBound (checked_add resident_bytes DIRECTORY_ROW_LOGICAL_BYTES_MAX))
        (\<lambda>resident_bytes.
          if resident_bytes > PARTITION_RESIDENT_LOGICAL_BYTES_MAX_V2 then Inl SstDecodeResourceBound
          else try_ok (map_err (\<lambda>_. SstInvalidBody) (stream_path_from_str key_bytes)) (\<lambda>path.
               try_ok (decode_directory_rows (Some key_bytes) resident_bytes rest) (\<lambda>rows.
               Inr ((path, entry_from_archived (row_archive_entry row)) # rows)))))"

definition decode_directory_sst ::
  "(bytes \<Rightarrow> DirectorySstArchive option) \<Rightarrow> (nat \<Rightarrow> bool) \<Rightarrow> PartitionId \<Rightarrow> TableKey \<Rightarrow> bytes
   \<Rightarrow> SstDecodeError + (StreamPath \<times> DirectoryEntry) list" where
  "decode_directory_sst access reserve expected_partition expected bs =
     try_ok (check_decode_bound bs) (\<lambda>_.
     if table_store (key_object expected) \<noteq> StoreDirectory then Inl SstDecodeStoreMismatch
     else
       try_ok (ok_or SstMalformedArchive (access bs)) (\<lambda>root.
       try_ok (map_err (\<lambda>_. SstInvalidBody) (partition_try_from_archived (directory_root_partition root))) (\<lambda>part.
       try_ok (map_err (\<lambda>_. SstInvalidBody) (fresh_try_from_archived (directory_root_fresh root))) (\<lambda>fresh.
       if part \<noteq> expected_partition \<or> fresh \<noteq> table_fresh (key_object expected) then Inl SstIdentityMismatch
       else if directory_root_rows root = [] then Inl SstInvalidBody
       else if length (directory_root_rows root) > PARTITION_PATH_OCCUPANCIES_MAX_V2 then Inl SstDecodeResourceBound
       else if \<not> reserve (length (directory_root_rows root)) then Inl SstDecodeResourceBound
       else decode_directory_rows None 0 (directory_root_rows root)))))"

section \<open>Ledger tables\<close>

record ArchivedStreamRecord =
  archived_record_content_type :: string
  archived_record_expiry :: ExpiryArchive
  archived_record_lifecycle :: LifecycleArchive
  archived_record_created_at :: nonzero_u64

datatype ArchivedLedgerCell = ArchivedValue ArchivedStreamRecord | ArchivedDelete

definition archive_record :: "StreamRecord \<Rightarrow> ArchivedStreamRecord" where
  "archive_record r =
     \<lparr> archived_record_content_type = content_type_as_str (record_content_type r),
       archived_record_expiry = expiry_archive_from (record_expiry r),
       archived_record_lifecycle = lifecycle_archive_from (record_lifecycle r),
       archived_record_created_at = archive_batch (record_created_at r) \<rparr>"

primrec archive_cell :: "LedgerCell \<Rightarrow> ArchivedLedgerCell" where
  "archive_cell (CellValue r) = ArchivedValue (archive_record r)"
| "archive_cell CellDelete = ArchivedDelete"

definition record_try_from_archived ::
  "(i128 \<Rightarrow> i128 option) \<Rightarrow> ArchivedStreamRecord \<Rightarrow> DecodeError + StreamRecord" where
  "record_try_from_archived from_nanosecond r =
     try_ok (decode_content_type (archived_record_content_type r)) (\<lambda>content_type.
     try_ok (expiry_try_from_archived from_nanosecond (archived_record_expiry r)) (\<lambda>expiry.
     Inr \<lparr> record_content_type = content_type, record_expiry = expiry,
           record_lifecycle = lifecycle_from_archived (archived_record_lifecycle r),
           record_created_at = batch_from_archived (archived_record_created_at r) \<rparr>))"

primrec cell_try_from_archived ::
  "(i128 \<Rightarrow> i128 option) \<Rightarrow> ArchivedLedgerCell \<Rightarrow> DecodeError + LedgerCell" where
  "cell_try_from_archived from_nanosecond (ArchivedValue r) =
     map_sum id CellValue (record_try_from_archived from_nanosecond r)"
| "cell_try_from_archived from_nanosecond ArchivedDelete = Inr CellDelete"

primrec archived_is_value :: "ArchivedLedgerCell \<Rightarrow> bool" where
  "archived_is_value (ArchivedValue r) = True"
| "archived_is_value ArchivedDelete = False"

record LedgerSstArchive =
  ledger_root_partition :: octets
  ledger_root_fresh :: ArchivedFreshIdentity
  ledger_root_rows :: "(nonzero_u64 \<times> ArchivedLedgerCell) list"

definition ledger_root ::
  "PartitionId \<Rightarrow> TableKey \<Rightarrow> (StreamUid \<times> LedgerCell) list \<Rightarrow> LedgerSstArchive" where
  "ledger_root part expected rows =
     \<lparr> ledger_root_partition = archive_partition part,
       ledger_root_fresh = archive_fresh (table_fresh (key_object expected)),
       ledger_root_rows = map (\<lambda>(uid, cell). (archive_uid uid, archive_cell cell)) rows \<rparr>"

definition encode_ledger_sst ::
  "(LedgerSstArchive \<Rightarrow> bytes list \<times> bool) \<Rightarrow> (nat \<Rightarrow> nat \<Rightarrow> bool) \<Rightarrow> nat \<Rightarrow> PartitionId \<Rightarrow> TableKey
   \<Rightarrow> (StreamUid \<times> LedgerCell) list \<Rightarrow> SstEncodeError + bytes" where
  "encode_ledger_sst serialize room row_size part expected rows =
     (if table_store (key_object expected) \<noteq> StoreLedger then Inl SstEncodeStoreMismatch
      else if rows = [] then Inl SstEmptyTable
      else try_ok (check_encode_rows row_size (length rows)) (\<lambda>_.
        if \<not> ascending None (map fst rows) then Inl SstRowsNotStrictlyOrdered
        else map_err sst_encode_error_from
               (encode serialize room (ledger_root part expected rows) SST_OBJECT_BYTES_MAX)))"

fun decode_ledger_rows ::
  "(i128 \<Rightarrow> i128 option) \<Rightarrow> StreamUid option \<Rightarrow> nat \<Rightarrow> (nonzero_u64 \<times> ArchivedLedgerCell) list
   \<Rightarrow> SstDecodeError + (StreamUid \<times> LedgerCell) list" where
  "decode_ledger_rows from_nanosecond previous resident_bytes [] = Inr []"
| "decode_ledger_rows from_nanosecond previous resident_bytes (row # rest) =
     (let uid = stream_uid_from_archived (fst row) in
      if (case previous of None \<Rightarrow> False | Some previous_uid \<Rightarrow> uid \<le> previous_uid) then Inl SstInvalidBody
      else
        let row_bytes = (if archived_is_value (snd row) then LEDGER_VALUE_ROW_LOGICAL_BYTES_MAX
                         else LEDGER_DELETE_ROW_LOGICAL_BYTES) in
        try_ok (ok_or SstDecodeResourceBound (checked_add resident_bytes row_bytes)) (\<lambda>resident_bytes.
          if resident_bytes > PARTITION_RESIDENT_LOGICAL_BYTES_MAX_V2 then Inl SstDecodeResourceBound
          else try_ok (map_err (\<lambda>_. SstInvalidBody) (cell_try_from_archived from_nanosecond (snd row))) (\<lambda>cell.
               try_ok (decode_ledger_rows from_nanosecond (Some uid) resident_bytes rest) (\<lambda>rows.
               Inr ((uid, cell) # rows)))))"

definition decode_ledger_sst ::
  "(bytes \<Rightarrow> LedgerSstArchive option) \<Rightarrow> (i128 \<Rightarrow> i128 option) \<Rightarrow> (nat \<Rightarrow> bool) \<Rightarrow> PartitionId \<Rightarrow> TableKey
   \<Rightarrow> bytes \<Rightarrow> SstDecodeError + (StreamUid \<times> LedgerCell) list" where
  "decode_ledger_sst access from_nanosecond reserve expected_partition expected bs =
     try_ok (check_decode_bound bs) (\<lambda>_.
     if table_store (key_object expected) \<noteq> StoreLedger then Inl SstDecodeStoreMismatch
     else
       try_ok (ok_or SstMalformedArchive (access bs)) (\<lambda>root.
       try_ok (map_err (\<lambda>_. SstInvalidBody) (partition_try_from_archived (ledger_root_partition root))) (\<lambda>part.
       try_ok (map_err (\<lambda>_. SstInvalidBody) (fresh_try_from_archived (ledger_root_fresh root))) (\<lambda>fresh.
       if part \<noteq> expected_partition \<or> fresh \<noteq> table_fresh (key_object expected) then Inl SstIdentityMismatch
       else if ledger_root_rows root = [] then Inl SstInvalidBody
       else if length (ledger_root_rows root) > PARTITION_PATH_OCCUPANCIES_MAX_V2 then Inl SstDecodeResourceBound
       else if \<not> reserve (length (ledger_root_rows root)) then Inl SstDecodeResourceBound
       else decode_ledger_rows from_nanosecond None 0 (ledger_root_rows root)))))"

section \<open>What the decoders accept\<close>

lemma entry_from_archived_eq: "entry_from_archived a = e \<longleftrightarrow> a = archive_entry e"
  by (cases a; cases e) (auto simp: archived_coordinates)

lemma path_str_nonempty: "path_as_str p \<noteq> []"
  using path_valid [of p] by (auto simp: stream_path_validate_def simp del: path_valid split: if_splits)

lemma decode_directory_rows_Inr:
  assumes "resident + length arows * DIRECTORY_ROW_LOGICAL_BYTES_MAX \<le> PARTITION_RESIDENT_LOGICAL_BYTES_MAX_V2"
  shows "decode_directory_rows previous resident arows = Inr rows \<longleftrightarrow>
     arows = map directory_row_archive rows \<and> ascending previous (map (path_as_str \<circ> fst) rows)"
  using assms
proof (induction arows arbitrary: previous resident rows)
  case Nil
  then show ?case by auto
next
  case (Cons row arows)
  obtain key entry where row: "row = DirectoryRowArchive key entry" by (cases row)
  have room: "resident + DIRECTORY_ROW_LOGICAL_BYTES_MAX \<le> PARTITION_RESIDENT_LOGICAL_BYTES_MAX_V2"
    using Cons.prems by simp
  moreover have "PARTITION_RESIDENT_LOGICAL_BYTES_MAX_V2 \<le> u64_max" by (simp add: bound_defs u64_max_def)
  ultimately have fits: "resident + DIRECTORY_ROW_LOGICAL_BYTES_MAX \<le> u64_max" by linarith
  have key: "stream_path_from_str key = Inr p \<longleftrightarrow> key = path_as_str p" for p
    using decode_stream_path_Inr [of key p] by (simp add: decode_stream_path_def)
  have IH: "decode_directory_rows previous (resident + DIRECTORY_ROW_LOGICAL_BYTES_MAX) arows = Inr rows \<longleftrightarrow>
      arows = map directory_row_archive rows \<and> ascending previous (map (path_as_str \<circ> fst) rows)"
    for previous rows
    using Cons.prems by (intro Cons.IH) (simp add: algebra_simps)
  have "decode_directory_rows previous resident (row # arows) = Inr rows \<longleftrightarrow>
      \<not> (case previous of None \<Rightarrow> False | Some previous_key \<Rightarrow> key \<le> previous_key)
      \<and> (\<exists>p rest. key = path_as_str p \<and> rows = (p, entry_from_archived entry) # rest
           \<and> arows = map directory_row_archive rest \<and> ascending (Some key) (map (path_as_str \<circ> fst) rest))"
    using row room fits path_str_nonempty path_str_nonempty [symmetric] path_length
    by (auto simp: Let_def try_ok_Inr IH key simp flip: not_less)
  also have "\<dots> \<longleftrightarrow> row # arows = map directory_row_archive rows
      \<and> ascending previous (map (path_as_str \<circ> fst) rows)"
    using row by (cases rows; cases previous) (auto simp: directory_row_archive_def entry_from_archived_eq [symmetric])
  finally show ?case .
qed

definition sst_rows_ok :: "('k::linorder \<times> 'r) list \<Rightarrow> bool" where
  "sst_rows_ok rows \<longleftrightarrow>
     rows \<noteq> [] \<and> length rows \<le> PARTITION_PATH_OCCUPANCIES_MAX_V2 \<and> sorted_wrt (<) (map fst rows)"

lemma ascending_paths: "ascending None (map (path_as_str \<circ> fst) rows) \<longleftrightarrow> sorted_wrt (<) (map fst rows)"
  by (simp add: ascending_None sorted_wrt_map less_StreamPath_def)

text \<open>The row count bounds the resident bytes, so the resident gate of the decoders never closes.\<close>

lemma resident_gate_open:
  "n \<le> PARTITION_PATH_OCCUPANCIES_MAX_V2 \<Longrightarrow>
     n * DIRECTORY_ROW_LOGICAL_BYTES_MAX \<le> PARTITION_RESIDENT_LOGICAL_BYTES_MAX_V2
     \<and> n * LEDGER_VALUE_ROW_LOGICAL_BYTES_MAX \<le> PARTITION_RESIDENT_LOGICAL_BYTES_MAX_V2"
  by (simp add: bound_defs)

definition table_at :: "StoreKind \<Rightarrow> TableKey \<Rightarrow> bool" where
  "table_at store key \<longleftrightarrow>
     table_store (key_object key) = store \<and> fresh_ok (table_fresh (key_object key))"

lemma check_decode_bound_Inr: "check_decode_bound bs = Inr u \<longleftrightarrow> length bs \<le> SST_OBJECT_BYTES_MAX"
  by (auto simp: check_decode_bound_def decode_bound_def)

lemma decode_directory_sst_Inr:
  "decode_directory_sst access reserve part key bs = Inr rows \<longleftrightarrow>
     length bs \<le> SST_OBJECT_BYTES_MAX \<and> table_at StoreDirectory key
     \<and> access bs = Some (directory_root part key rows) \<and> sst_rows_ok rows \<and> reserve (length rows)"
  (is "?dec \<longleftrightarrow> ?archived")
proof
  assume ?dec
  then obtain root where root: "length bs \<le> SST_OBJECT_BYTES_MAX" "table_store (key_object key) = StoreDirectory"
      "access bs = Some root" "directory_root_partition root = archive_partition part"
      "directory_root_fresh root = archive_fresh (table_fresh (key_object key))"
      "fresh_ok (table_fresh (key_object key))" "directory_root_rows root \<noteq> []"
      "length (directory_root_rows root) \<le> PARTITION_PATH_OCCUPANCIES_MAX_V2"
      "reserve (length (directory_root_rows root))"
      "decode_directory_rows None 0 (directory_root_rows root) = Inr rows"
    by (auto simp: decode_directory_sst_def try_ok_Inr check_decode_bound_Inr partition_try_from_archived_Inr
        fresh_try_from_archived_Inr split: if_splits)
  then show ?archived
    using decode_directory_rows_Inr [of 0 "directory_root_rows root" None rows] resident_gate_open
    by (auto simp: table_at_def sst_rows_ok_def directory_root_def ascending_paths
        intro!: DirectorySstArchive.equality)
next
  assume archived: ?archived
  then have "decode_directory_rows None 0 (map directory_row_archive rows) = Inr rows"
    using decode_directory_rows_Inr [of 0 "map directory_row_archive rows" None rows] resident_gate_open
    by (simp add: sst_rows_ok_def ascending_paths)
  moreover have "fresh_try_from_archived (archive_fresh (table_fresh (key_object key)))
      = Inr (table_fresh (key_object key))"
    using archived by (simp add: fresh_try_from_archived_Inr table_at_def)
  moreover have "check_decode_bound bs = Inr ()" using archived by (simp add: check_decode_bound_Inr)
  ultimately show ?dec
    using archived by (simp add: decode_directory_sst_def table_at_def directory_root_def sst_rows_ok_def)
qed

interpretation directory_decoder: located_decoder access "\<lambda>(part, key). directory_root part key"
  "\<lambda>(part, key) rows. table_at StoreDirectory key" sst_rows_ok "\<lambda>rows. reserve (length rows)"
  SST_OBJECT_BYTES_MAX "\<lambda>(part, key). decode_directory_sst access reserve part key"
  for access reserve
  by unfold_locales (auto simp: decode_directory_sst_Inr)

definition cell_representable :: "(i128 \<Rightarrow> i128 option) \<Rightarrow> LedgerCell \<Rightarrow> bool" where
  "cell_representable from_nanosecond cell \<longleftrightarrow>
     (case cell of CellValue r \<Rightarrow> expiry_representable from_nanosecond (record_expiry r) | CellDelete \<Rightarrow> True)"

lemma cell_archive_decodes:
  "cell_representable from_nanosecond cell \<Longrightarrow>
     cell_try_from_archived from_nanosecond (archive_cell cell) = Inr cell"
  by (cases cell) (auto simp: cell_representable_def record_try_from_archived_def archive_record_def
      expiry_representable_decodes)

lemma decode_ledger_rows_ascending:
  "decode_ledger_rows from_nanosecond previous resident arows = Inr rows \<Longrightarrow>
     ascending previous (map fst rows) \<and> length rows = length arows"
proof (induction arows arbitrary: previous resident rows)
  case (Cons row arows)
  then show ?case by (fastforce simp: Let_def try_ok_Inr split: if_splits)
qed simp

lemma decode_ledger_rows_archive:
  assumes "resident + length rows * LEDGER_VALUE_ROW_LOGICAL_BYTES_MAX \<le> PARTITION_RESIDENT_LOGICAL_BYTES_MAX_V2"
    and "ascending previous (map fst rows)" "list_all (cell_representable from_nanosecond \<circ> snd) rows"
  shows "decode_ledger_rows from_nanosecond previous resident
     (map (\<lambda>(uid, cell). (archive_uid uid, archive_cell cell)) rows) = Inr rows"
  using assms
proof (induction rows arbitrary: previous resident)
  case (Cons row rows)
  obtain uid cell where row: "row = (uid, cell)" by (cases row)
  define n where "n = (if archived_is_value (archive_cell cell) then LEDGER_VALUE_ROW_LOGICAL_BYTES_MAX
    else LEDGER_DELETE_ROW_LOGICAL_BYTES)"
  then have "n \<le> LEDGER_VALUE_ROW_LOGICAL_BYTES_MAX" by (simp add: bound_defs)
  with Cons.prems(1) have room: "resident + n + length rows * LEDGER_VALUE_ROW_LOGICAL_BYTES_MAX
      \<le> PARTITION_RESIDENT_LOGICAL_BYTES_MAX_V2"
    by simp
  moreover have "PARTITION_RESIDENT_LOGICAL_BYTES_MAX_V2 \<le> u64_max" by (simp add: bound_defs u64_max_def)
  ultimately have fits: "checked_add resident n = Some (resident + n)"
    "\<not> PARTITION_RESIDENT_LOGICAL_BYTES_MAX_V2 < resident + n"
    by simp_all
  have "decode_ledger_rows from_nanosecond (Some uid) (resident + n)
      (map (\<lambda>(uid, cell). (archive_uid uid, archive_cell cell)) rows) = Inr rows"
    using Cons.prems row by (intro Cons.IH room) (auto split: if_splits)
  moreover have "\<not> (case previous of None \<Rightarrow> False | Some previous_uid \<Rightarrow> uid \<le> previous_uid)"
    using Cons.prems(2) row by (auto split: if_splits)
  moreover have "cell_try_from_archived from_nanosecond (archive_cell cell) = Inr cell"
    using Cons.prems(3) row by (simp add: cell_archive_decodes)
  ultimately show ?case using row fits by (simp add: Let_def n_def [symmetric] checked_add_def)
qed simp

lemma decode_ledger_sst_checked:
  assumes "decode_ledger_sst access from_nanosecond reserve part key bs = Inr rows"
  shows "table_at StoreLedger key \<and> sst_rows_ok rows \<and> length bs \<le> SST_OBJECT_BYTES_MAX"
proof -
  from assms obtain root :: LedgerSstArchive where "length bs \<le> SST_OBJECT_BYTES_MAX" "table_at StoreLedger key"
      "ledger_root_rows root \<noteq> []" "length (ledger_root_rows root) \<le> PARTITION_PATH_OCCUPANCIES_MAX_V2"
      "decode_ledger_rows from_nanosecond None 0 (ledger_root_rows root) = Inr rows"
    by (auto simp: decode_ledger_sst_def table_at_def try_ok_Inr check_decode_bound_Inr
        partition_try_from_archived_Inr fresh_try_from_archived_Inr split: if_splits)
  then show ?thesis
    using decode_ledger_rows_ascending [of from_nanosecond None 0 "ledger_root_rows root" rows]
    by (auto simp: sst_rows_ok_def ascending_None)
qed

lemma decode_ledger_sst_archive:
  assumes "access bs = Some (ledger_root part key rows)" "length bs \<le> SST_OBJECT_BYTES_MAX"
    and "table_at StoreLedger key" "sst_rows_ok rows" "reserve (length rows)"
    and "list_all (cell_representable from_nanosecond \<circ> snd) rows"
  shows "decode_ledger_sst access from_nanosecond reserve part key bs = Inr rows"
proof -
  have "decode_ledger_rows from_nanosecond None 0 (ledger_root_rows (ledger_root part key rows)) = Inr rows"
    using assms resident_gate_open
    by (simp add: ledger_root_def decode_ledger_rows_archive ascending_None sst_rows_ok_def)
  moreover have "fresh_try_from_archived (archive_fresh (table_fresh (key_object key)))
      = Inr (table_fresh (key_object key))"
    using assms by (simp add: fresh_try_from_archived_Inr table_at_def)
  moreover have "check_decode_bound bs = Inr ()" using assms by (simp add: check_decode_bound_Inr)
  ultimately show ?thesis
    using assms by (simp add: decode_ledger_sst_def table_at_def ledger_root_def sst_rows_ok_def)
qed

interpretation ledger_decoder: located_decoder access "\<lambda>(part, key). ledger_root part key"
  "\<lambda>(part, key) rows. table_at StoreLedger key" sst_rows_ok
  "\<lambda>rows. reserve (length rows) \<and> list_all (cell_representable from_nanosecond \<circ> snd) rows"
  SST_OBJECT_BYTES_MAX "\<lambda>(part, key). decode_ledger_sst access from_nanosecond reserve part key"
  for access from_nanosecond reserve
  by unfold_locales (auto simp: decode_ledger_sst_archive dest: decode_ledger_sst_checked)

section \<open>Table candidates\<close>

record EncodedTable =
  etable_key :: TableKey
  etable_table :: TableRef
  etable_bytes :: bytes

definition from_encoded :: "TableKey \<Rightarrow> bytes \<Rightarrow> EncodedTable option" where
  "from_encoded key encoded =
     do { assert_candidate_bytes encoded SST_OBJECT_BYTES_MAX;
          object_bytes \<leftarrow> nz_new (length encoded);
          table \<leftarrow> expect_ok (table_ref_new (key_object key) object_bytes);
          Some \<lparr> etable_key = key, etable_table = table, etable_bytes = encoded \<rparr> }"

definition encode_directory ::
  "(DirectorySstArchive \<Rightarrow> bytes list \<times> bool) \<Rightarrow> (nat \<Rightarrow> nat \<Rightarrow> bool) \<Rightarrow> nat \<Rightarrow> PartitionId \<Rightarrow> TableKey
   \<Rightarrow> (StreamPath \<times> DirectoryEntry) list \<Rightarrow> (SstEncodeError + EncodedTable) option" where
  "encode_directory serialize room row_size part key rows =
     and_then (Some (encode_directory_sst serialize room row_size part key rows)) (\<lambda>encoded.
       map_option Inr (from_encoded key encoded))"

definition encode_ledger ::
  "(LedgerSstArchive \<Rightarrow> bytes list \<times> bool) \<Rightarrow> (nat \<Rightarrow> nat \<Rightarrow> bool) \<Rightarrow> nat \<Rightarrow> PartitionId \<Rightarrow> TableKey
   \<Rightarrow> (StreamUid \<times> LedgerCell) list \<Rightarrow> (SstEncodeError + EncodedTable) option" where
  "encode_ledger serialize room row_size part key rows =
     and_then (Some (encode_ledger_sst serialize room row_size part key rows)) (\<lambda>encoded.
       map_option Inr (from_encoded key encoded))"

lemma from_encoded_Some:
  assumes "bs \<noteq> []" "length bs \<le> SST_OBJECT_BYTES_MAX"
  shows "\<exists>n. nz_get n = length bs \<and> from_encoded key bs =
     Some \<lparr> etable_key = key, etable_table = TableRef (key_object key) n, etable_bytes = bs \<rparr>"
proof -
  have "0 < length bs" "length bs \<le> u64_max" using assms by (auto simp: bound_defs u64_max_def)
  then have "nz_new (length bs) = Some (nz_of (length bs))" by (simp add: nz_new_Some nz_eq_iff)
  with assms \<open>0 < length bs\<close> \<open>length bs \<le> u64_max\<close> show ?thesis
    by (auto simp: from_encoded_def table_ref_new_def assert_candidate_bytes_def)
qed

lemma encode_directory_sst_Inr:
  assumes "encode_directory_sst serialize room row_size part key rows = Inr bs"
  shows "table_store (key_object key) = StoreDirectory \<and> sst_rows_ok rows
     \<and> encode serialize room (directory_root part key rows) SST_OBJECT_BYTES_MAX = Inr bs"
  using assms
  by (auto simp: encode_directory_sst_def check_encode_rows_def sst_rows_ok_def ascending_paths try_ok_Inr
      simp flip: not_less split: if_splits)

lemma encode_ledger_sst_Inr:
  assumes "encode_ledger_sst serialize room row_size part key rows = Inr bs"
  shows "table_store (key_object key) = StoreLedger \<and> sst_rows_ok rows
     \<and> encode serialize room (ledger_root part key rows) SST_OBJECT_BYTES_MAX = Inr bs"
  using assms
  by (auto simp: encode_ledger_sst_def check_encode_rows_def sst_rows_ok_def ascending_None try_ok_Inr
      simp flip: not_less split: if_splits)

lemma sst_bound_below_u64: "SST_OBJECT_BYTES_MAX < u64_max"
  by (simp add: bound_defs u64_max_def)

lemma from_encoded_encode:
  assumes "encode serialize room root SST_OBJECT_BYTES_MAX = Inr bs" "rkyv_faithful serialize access"
  shows "\<exists>n. nz_get n = length bs \<and> from_encoded key bs =
     Some \<lparr> etable_key = key, etable_table = TableRef (key_object key) n, etable_bytes = bs \<rparr>"
proof -
  from encode_Inr [OF assms(1) sst_bound_below_u64] assms(2) have "bs \<noteq> []" "length bs \<le> SST_OBJECT_BYTES_MAX"
    unfolding rkyv_faithful_def by metis+
  then show ?thesis by (rule from_encoded_Some)
qed

lemma encode_directory_agrees:
  assumes rkyv: "rkyv_faithful serialize access"
    and enc: "encode_directory serialize room row_size part key rows = Some (Inr table)"
    and "fresh_ok (table_fresh (key_object key))" "reserve (length rows)"
  shows "etable_key table = key \<and> ref_object (etable_table table) = key_object key
     \<and> nz_get (ref_object_bytes (etable_table table)) = length (etable_bytes table)
     \<and> decode_directory_sst access reserve part key (etable_bytes table) = Inr rows"
proof -
  obtain bs where bs: "encode_directory_sst serialize room row_size part key rows = Inr bs"
      "from_encoded key bs = Some table"
    using enc by (auto simp: encode_directory_def and_then_Inr)
  note gates = encode_directory_sst_Inr [OF bs(1)]
  have "decode_directory_sst access reserve part key bs = Inr rows"
    using directory_decoder.decode_encode [OF gates [THEN conjunct2, THEN conjunct2] sst_bound_below_u64,
        where access = access and reserve = reserve and l = "(part, key)" and v = rows] assms gates
    by (auto simp: rkyv_faithful_def table_at_def)
  then show ?thesis
    using from_encoded_encode [OF _ rkyv, of room "directory_root part key rows" bs key] bs(2) gates by auto
qed

lemma encode_ledger_agrees:
  assumes rkyv: "rkyv_faithful serialize access"
    and enc: "encode_ledger serialize room row_size part key cells = Some (Inr table)"
    and "fresh_ok (table_fresh (key_object key))" "reserve (length cells)"
    and "list_all (cell_representable from_nanosecond \<circ> snd) cells"
  shows "etable_key table = key \<and> ref_object (etable_table table) = key_object key
     \<and> nz_get (ref_object_bytes (etable_table table)) = length (etable_bytes table)
     \<and> decode_ledger_sst access from_nanosecond reserve part key (etable_bytes table) = Inr cells"
proof -
  obtain bs where bs: "encode_ledger_sst serialize room row_size part key cells = Inr bs"
      "from_encoded key bs = Some table"
    using enc by (auto simp: encode_ledger_def and_then_Inr)
  note gates = encode_ledger_sst_Inr [OF bs(1)]
  have "decode_ledger_sst access from_nanosecond reserve part key bs = Inr cells"
    using ledger_decoder.decode_encode [OF gates [THEN conjunct2, THEN conjunct2] sst_bound_below_u64,
        where access = access and from_nanosecond = from_nanosecond and reserve = reserve
        and l = "(part, key)" and v = cells] assms gates
    by (auto simp: rkyv_faithful_def table_at_def)
  then show ?thesis
    using from_encoded_encode [OF _ rkyv, of room "ledger_root part key cells" bs key] bs(2) gates by auto
qed

text \<open>
  C16. A table candidate agrees with its key, its reference and its rows. With a faithful serializer
  neither constructor can panic; the candidate it returns names the object of its key and its exact
  length, and decodes at its partition and key to the rows it was given.
\<close>

theorem table_candidates_agree:
  assumes "rkyv_faithful serialize_directory access_directory" "rkyv_faithful serialize_ledger access_ledger"
  shows "encode_directory serialize_directory room row_size part key rows \<noteq> None
     \<and> encode_ledger serialize_ledger room row_size part key cells \<noteq> None
     \<and> (encode_directory serialize_directory room row_size part key rows = Some (Inr table)
          \<and> fresh_ok (table_fresh (key_object key)) \<and> reserve (length rows) \<longrightarrow>
        etable_key table = key \<and> ref_object (etable_table table) = key_object key
        \<and> nz_get (ref_object_bytes (etable_table table)) = length (etable_bytes table)
        \<and> decode_directory_sst access_directory reserve part key (etable_bytes table) = Inr rows)
     \<and> (encode_ledger serialize_ledger room row_size part key cells = Some (Inr table)
          \<and> fresh_ok (table_fresh (key_object key)) \<and> reserve (length cells)
          \<and> list_all (cell_representable from_nanosecond \<circ> snd) cells \<longrightarrow>
        etable_key table = key \<and> ref_object (etable_table table) = key_object key
        \<and> nz_get (ref_object_bytes (etable_table table)) = length (etable_bytes table)
        \<and> decode_ledger_sst access_ledger from_nanosecond reserve part key (etable_bytes table) = Inr cells)"
proof (intro conjI)
  show "encode_directory serialize_directory room row_size part key rows \<noteq> None"
    using from_encoded_encode [OF _ assms(1)] encode_directory_sst_Inr
    by (cases "encode_directory_sst serialize_directory room row_size part key rows")
      (fastforce simp: encode_directory_def)+
  show "encode_ledger serialize_ledger room row_size part key cells \<noteq> None"
    using from_encoded_encode [OF _ assms(2)] encode_ledger_sst_Inr
    by (cases "encode_ledger_sst serialize_ledger room row_size part key cells")
      (fastforce simp: encode_ledger_def)+
qed (use encode_directory_agrees [OF assms(1)] encode_ledger_agrees [OF assms(2)] in blast)+

definition sample_table_key :: "StoreKind \<Rightarrow> TableKey" where
  "sample_table_key store = TableKey (TableObjectId
     (FreshIdentity (SealGeneration (nz_of 2)) (AttemptId seal_generation_genesis 0) 0) store)"

definition sample_rows :: "(StreamPath \<times> DirectoryEntry) list" where
  "sample_rows = [(path_of ''a'', DirLive sample_uid)]"

definition sample_cells :: "(StreamUid \<times> LedgerCell) list" where
  "sample_cells = [(sample_uid, CellDelete)]"

lemma sample_table_key_fields:
  "table_store (key_object (sample_table_key store)) = store"
  "fresh_ok (table_fresh (key_object (sample_table_key store)))"
  by (simp_all add: sample_table_key_def fresh_ok_def fresh_identity_ok_def less_SealGeneration_def seal_generation_genesis_def)

lemma sample_tables_encode:
  "encode_directory_sst (only (directory_root part (sample_table_key StoreDirectory) sample_rows)) (\<lambda>_ _. True) 64
     part (sample_table_key StoreDirectory) sample_rows = Inr ''r''"
  "encode_ledger_sst (only (ledger_root part (sample_table_key StoreLedger) sample_cells)) (\<lambda>_ _. True) 64
     part (sample_table_key StoreLedger) sample_cells = Inr ''r''"
  using only_encodes [of SST_OBJECT_BYTES_MAX "\<lambda>v. v"] sst_bound_below_u64
  by (simp_all add: encode_directory_sst_def encode_ledger_sst_def sample_table_key_fields sample_rows_def
      sample_cells_def check_encode_rows_def bound_defs u64_max_def)

theorem table_candidates_agree_witness:
  "\<exists>table access (cells_table :: EncodedTable) cells_access.
     encode_directory (only (directory_root sample_partition (sample_table_key StoreDirectory) sample_rows))
       (\<lambda>_ _. True) 64 sample_partition (sample_table_key StoreDirectory) sample_rows = Some (Inr table)
   \<and> decode_directory_sst access (\<lambda>_. True) sample_partition (sample_table_key StoreDirectory) (etable_bytes table)
       = Inr sample_rows
   \<and> decode_ledger_sst cells_access (\<lambda>_. None) (\<lambda>_. True) sample_partition (sample_table_key StoreLedger)
       (etable_bytes cells_table) = Inr sample_cells"
proof -
  obtain t1 t2 where t: "from_encoded (sample_table_key StoreDirectory) ''r'' = Some t1"
      "from_encoded (sample_table_key StoreLedger) ''r'' = Some t2"
    using from_encoded_Some [of "''r''"] by (force simp: bound_defs)
  let ?dir = "directory_root sample_partition (sample_table_key StoreDirectory) sample_rows"
  let ?led = "ledger_root sample_partition (sample_table_key StoreLedger) sample_cells"
  have enc: "encode_directory (only ?dir) (\<lambda>_ _. True) 64 sample_partition (sample_table_key StoreDirectory) sample_rows
      = Some (Inr t1)"
    "encode_ledger (only ?led) (\<lambda>_ _. True) 64 sample_partition (sample_table_key StoreLedger) sample_cells
      = Some (Inr t2)"
    using sample_tables_encode t by (simp_all add: encode_directory_def encode_ledger_def)
  have rep: "list_all (cell_representable (\<lambda>_. None) \<circ> snd) sample_cells"
    by (simp add: sample_cells_def cell_representable_def)
  have "decode_directory_sst (\<lambda>bs. if bs = ''r'' then Some ?dir else None) (\<lambda>_. True) sample_partition
      (sample_table_key StoreDirectory) (etable_bytes t1) = Inr sample_rows"
    using table_candidates_agree [OF only_faithful [of ?dir] only_faithful [of ?led], of "\<lambda>_ _. True" 64
        sample_partition "sample_table_key StoreDirectory" sample_rows sample_cells t1 "\<lambda>_. True" "\<lambda>_. None"]
      enc(1) sample_table_key_fields(2) by simp
  moreover have "decode_ledger_sst (\<lambda>bs. if bs = ''r'' then Some ?led else None) (\<lambda>_. None) (\<lambda>_. True)
      sample_partition (sample_table_key StoreLedger) (etable_bytes t2) = Inr sample_cells"
    using table_candidates_agree [OF only_faithful [of ?dir] only_faithful [of ?led], of "\<lambda>_ _. True" 64
        sample_partition "sample_table_key StoreLedger" sample_rows sample_cells t2 "\<lambda>_. True" "\<lambda>_. None"]
      enc(2) rep sample_table_key_fields(2) by simp
  ultimately show ?thesis using enc(1) by (intro exI conjI) assumption+
qed

end
