(* ===== verification/Object_Store.thy ===== *)
theory Object_Store
  imports Storage_Objects
begin

text \<open>
  The raw object-store adapter of \<open>strom-object-store\<close>: object keys, put bodies and bounds, and the
  operations of \<open>adapter.rs\<close>. The \<open>object_store\<close> backend is a parameter: a record of functions that
  pass a world along, so that whatever other clients do to the store happens inside a call. What the
  adapter relies on about a backend is the predicate \<open>backend_ok\<close>; the locale \<open>raw_store\<close> is what the
  typed stores rely on about the adapter.
\<close>

section \<open>Object keys\<close>

definition KEY_BYTES_MAX :: nat where
  "KEY_BYTES_MAX = 1024"

definition LIST_KEYS_MAX :: nat where
  "LIST_KEYS_MAX = 1000"

definition PUT_BYTES_MAX :: nat where
  "PUT_BYTES_MAX = 5 * 1024 * 1024 * 1024"

lemmas adapter_bounds = KEY_BYTES_MAX_def LIST_KEYS_MAX_def PUT_BYTES_MAX_def

definition is_key_character :: "char \<Rightarrow> bool" where
  "is_key_character c \<longleftrightarrow> is_ascii_lowercase c \<or> is_ascii_digit c \<or> c \<in> set ''-_.''"

datatype ObjectKeyError =
  KeyEmpty | KeyTooLong nat | KeyForbiddenCharacter char | KeyEmptySegment | KeyRelativeSegment

text \<open>The loop over the segments; a forbidden character is named by its first byte.\<close>

fun check_key_segments :: "string list \<Rightarrow> ObjectKeyError + unit" where
  "check_key_segments [] = Inr ()"
| "check_key_segments (segment # rest) =
     (if segment = [] then Inl KeyEmptySegment
      else if segment = ''.'' \<or> segment = ''..'' then Inl KeyRelativeSegment
      else case List.find (\<lambda>c. \<not> is_key_character c) segment of
             Some c \<Rightarrow> Inl (KeyForbiddenCharacter c)
           | None \<Rightarrow> check_key_segments rest)"

definition object_key_validate :: "string \<Rightarrow> ObjectKeyError + unit" where
  "object_key_validate raw =
     (if raw = [] then Inl KeyEmpty
      else if length raw > KEY_BYTES_MAX then Inl (KeyTooLong (length raw))
      else check_key_segments (split_on (CHR ''/'') raw))"

typedef ObjectKey = "{s :: string. object_key_validate s = Inr ()}"
  morphisms key_as_str key_abs
  by (rule exI [of _ "''a''"]) (simp add: object_key_validate_def is_key_character_def is_ascii_lowercase_def
      code_def adapter_bounds)

setup_lifting type_definition_ObjectKey

lift_definition key_of :: "string \<Rightarrow> ObjectKey" is
  "\<lambda>s. if object_key_validate s = Inr () then s else ''a''"
  by (simp add: object_key_validate_def is_key_character_def is_ascii_lowercase_def code_def adapter_bounds)

definition object_key_try_from :: "string \<Rightarrow> ObjectKeyError + ObjectKey" where
  "object_key_try_from raw = map_sum id (\<lambda>_. key_of raw) (object_key_validate raw)"

lemma object_key_eq_iff: "p = q \<longleftrightarrow> key_as_str p = key_as_str q"
  by (simp add: key_as_str_inject)

instantiation ObjectKey :: linorder
begin

definition less_eq_ObjectKey :: "ObjectKey \<Rightarrow> ObjectKey \<Rightarrow> bool" where
  "p \<le> q \<longleftrightarrow> key_as_str p \<le> key_as_str q"

definition less_ObjectKey :: "ObjectKey \<Rightarrow> ObjectKey \<Rightarrow> bool" where
  "p < q \<longleftrightarrow> key_as_str p < key_as_str q"

instance
  by standard (auto simp: less_eq_ObjectKey_def less_ObjectKey_def object_key_eq_iff)

end

instantiation ObjectKey :: equal
begin

definition equal_ObjectKey :: "ObjectKey \<Rightarrow> ObjectKey \<Rightarrow> bool" where
  "equal_ObjectKey p q \<longleftrightarrow> key_as_str p = key_as_str q"

instance
  by standard (simp add: equal_ObjectKey_def object_key_eq_iff)

end

lemma object_key_try_from_Inr:
  "object_key_try_from s = Inr k \<longleftrightarrow> key_as_str k = s"
proof
  assume "object_key_try_from s = Inr k"
  then have "object_key_validate s = Inr ()" "k = key_of s"
    by (cases "object_key_validate s"; simp add: object_key_try_from_def)+
  then show "key_as_str k = s" by (simp add: key_of.rep_eq)
next
  assume "key_as_str k = s"
  moreover have "object_key_validate (key_as_str k) = Inr ()" using key_as_str [of k] by simp
  moreover from this have "key_of (key_as_str k) = k"
    by (simp add: key_as_str_inject [symmetric] key_of.rep_eq)
  ultimately show "object_key_try_from s = Inr k" by (simp add: object_key_try_from_def)
qed

section \<open>Bodies, bounds and evidence\<close>

datatype PutBody = PutBody (body_slice: bytes)

datatype PutBodyError = BodyEmpty | OverPutBound nat

definition put_body_try_from :: "bytes \<Rightarrow> PutBodyError + PutBody" where
  "put_body_try_from raw =
     (if raw = [] then Inl BodyEmpty
      else if length raw > PUT_BYTES_MAX then Inl (OverPutBound (length raw))
      else Inr (PutBody raw))"

datatype ByteBound = ByteBound (byte_bound: nonzero_u64)

datatype ZeroByteBound = ZeroByteBound

definition byte_bound_try_from :: "nat \<Rightarrow> ZeroByteBound + ByteBound" where
  "byte_bound_try_from raw = ok_or ZeroByteBound (map_option ByteBound (nz_new raw))"

datatype Etag = Etag (etag_str: string)

datatype EmptyEtag = EmptyEtag

definition etag_try_from :: "string \<Rightarrow> EmptyEtag + Etag" where
  "etag_try_from raw = (if raw = [] then Inl EmptyEtag else Inr (Etag raw))"

datatype CreateEvidence = Direct | DurableMatch | NotOurs | Unresolved

datatype RawObject = RawObject (raw_body: bytes) (raw_etag: Etag)

datatype KeysBound = KeysBound (keys_bound: nonzero_u64)

datatype KeysBoundError = KeysZero | OverListBound nat

definition keys_bound_try_from :: "nat \<Rightarrow> KeysBoundError + KeysBound" where
  "keys_bound_try_from raw =
     try_ok (ok_or KeysZero (nz_new raw)) (\<lambda>bound.
       if nz_get bound > LIST_KEYS_MAX then Inl (OverListBound (nz_get bound)) else Inr (KeysBound bound))"

record ListPageRequest =
  request_prefix :: ObjectKey
  request_start_exclusive :: "ObjectKey option"
  request_keys_max :: KeysBound

datatype ListPage = ListPage (page_keys: "ObjectKey list") (page_continuation: "ObjectKey option")

datatype StoreContradiction =
  OversizedObject ObjectKey nat nat
| ForeignKey string ObjectKeyError
| UnorderedList ObjectKey ObjectKey

datatype StoreError =
  AdapterRetryable string | AdapterRejected string | AdapterContradiction StoreContradiction

section \<open>The backend\<close>

text \<open>The variants of \<open>object_store::Error\<close> that the adapter tells apart, and the text it prints.\<close>

datatype BackendErrorKind =
  BackendNotFound | BackendAlreadyExists | BackendPrecondition | BackendPermissionDenied
| BackendUnauthenticated | BackendNotSupported | BackendNotImplemented | BackendInvalidPath
| BackendUnknownConfigurationKey | BackendOther

datatype BackendError = BackendError (backend_kind: BackendErrorKind) (backend_text: string)

text \<open>An observation: its metadata, and the stream of its body with the errors that may interrupt it.\<close>

record GetResult =
  meta_size :: nat
  meta_etag :: "string option"
  body_stream :: "(BackendError + bytes) list"

record 'w Backend =
  path_parses :: "string \<Rightarrow> bool"
  put_create :: "string \<Rightarrow> bytes \<Rightarrow> 'w \<Rightarrow> (BackendError + unit) \<times> 'w"
  get_object :: "string \<Rightarrow> 'w \<Rightarrow> (BackendError + GetResult) \<times> 'w"
  list_objects :: "string \<Rightarrow> string option \<Rightarrow> 'w \<Rightarrow> (BackendError + string) list \<times> 'w"
  delete_object :: "string \<Rightarrow> 'w \<Rightarrow> (BackendError + unit) \<times> 'w"

text \<open>\<open>GetResult::bytes\<close>: the whole body, or the first error of its stream.\<close>

definition observation_bytes :: "GetResult \<Rightarrow> BackendError + bytes" where
  "observation_bytes observation = map_sum id concat (try_map (\<lambda>chunk. chunk) (body_stream observation))"

section \<open>The adapter\<close>

definition to_store_path :: "'w Backend \<Rightarrow> ObjectKey \<Rightarrow> string option" where
  "to_store_path backend key = do { require (path_parses backend (key_as_str key)); Some (key_as_str key) }"

definition map_operation_error :: "BackendError \<Rightarrow> StoreError" where
  "map_operation_error source =
     (if backend_kind source \<in> {BackendPermissionDenied, BackendUnauthenticated, BackendNotSupported,
           BackendNotImplemented, BackendInvalidPath, BackendUnknownConfigurationKey}
      then AdapterRejected (backend_text source) else AdapterRetryable (backend_text source))"

definition require_etag :: "string option \<Rightarrow> StoreError + Etag" where
  "require_etag observed =
     try_ok (ok_or (AdapterRejected ''backend returned no etag for an observed object'') observed) (\<lambda>raw.
     map_err (\<lambda>_. AdapterRejected ''etag is empty'') (etag_try_from raw))"

definition parse_listed_key :: "string \<Rightarrow> StoreError + ObjectKey" where
  "parse_listed_key location =
     map_err (\<lambda>source. AdapterContradiction (ForeignKey location source)) (object_key_try_from location)"

fun consume_chunks ::
  "ObjectKey \<Rightarrow> nat \<Rightarrow> nat \<Rightarrow> bytes \<Rightarrow> (BackendError + bytes) list \<Rightarrow> (StoreError + bytes) option" where
  "consume_chunks key bytes_max bytes_observed body [] = Some (Inr body)"
| "consume_chunks key bytes_max bytes_observed body (chunk # rest) =
     (case chunk of
        Inl source \<Rightarrow> Some (Inl (map_operation_error source))
      | Inr chunk \<Rightarrow>
          do { bytes_remaining \<leftarrow> checked_sub bytes_max bytes_observed;
               if length chunk > bytes_remaining then
                 Some (Inl (AdapterContradiction
                   (OversizedObject key bytes_max (saturating_add bytes_max 1))))
               else
                 do { bytes_observed \<leftarrow> checked_add bytes_observed (length chunk);
                      consume_chunks key bytes_max bytes_observed (body @ chunk) rest } })"

definition consume_bounded_object ::
  "ObjectKey \<Rightarrow> ByteBound \<Rightarrow> GetResult \<Rightarrow> (StoreError + RawObject) option" where
  "consume_bounded_object key bytes_max observation =
     and_then (Some (require_etag (meta_etag observation))) (\<lambda>etag.
     and_then (consume_chunks key (nz_get (byte_bound bytes_max)) 0 [] (body_stream observation)) (\<lambda>body.
     Some (Inr (RawObject body etag))))"

definition compare_occupant :: "'w Backend \<Rightarrow> string \<Rightarrow> PutBody \<Rightarrow> 'w \<Rightarrow> CreateEvidence \<times> 'w" where
  "compare_occupant backend location candidate w =
     (let (observed, w) = get_object backend location w in
      case observed of
        Inr observation \<Rightarrow>
          (if meta_size observation \<noteq> length (body_slice candidate) then NotOurs
           else case observation_bytes observation of
                  Inr occupant \<Rightarrow> if occupant = body_slice candidate then DurableMatch else NotOurs
                | Inl _ \<Rightarrow> Unresolved, w)
      | Inl _ \<Rightarrow> (Unresolved, w))"

definition create_if_absent ::
  "'w Backend \<Rightarrow> ObjectKey \<Rightarrow> PutBody \<Rightarrow> 'w \<Rightarrow> ((StoreError + CreateEvidence) \<times> 'w) option" where
  "create_if_absent backend key candidate w =
     do { location \<leftarrow> to_store_path backend key;
          let (outcome, w) = put_create backend location (body_slice candidate) w;
          case outcome of
            Inr _ \<Rightarrow> Some (Inr Direct, w)
          | Inl e \<Rightarrow>
              if backend_kind e \<in> {BackendAlreadyExists, BackendPrecondition} then
                let (evidence, w) = compare_occupant backend location candidate w in
                Some (Inr evidence, w)
              else if backend_kind e \<in> {BackendPermissionDenied, BackendUnauthenticated} then
                Some (Inl (AdapterRejected (backend_text e)), w)
              else Some (Inr Unresolved, w) }"

definition read_object ::
  "'w Backend \<Rightarrow> ObjectKey \<Rightarrow> ByteBound \<Rightarrow> 'w \<Rightarrow> ((StoreError + RawObject option) \<times> 'w) option" where
  "read_object backend key bytes_max w =
     do { location \<leftarrow> to_store_path backend key;
          let (observed, w) = get_object backend location w;
          case observed of
            Inr observation \<Rightarrow>
              if meta_size observation > nz_get (byte_bound bytes_max) then
                Some (Inl (AdapterContradiction
                  (OversizedObject key (nz_get (byte_bound bytes_max)) (meta_size observation))), w)
              else
                do { object \<leftarrow> consume_bounded_object key bytes_max observation;
                     Some (map_sum id Some object, w) }
          | Inl e \<Rightarrow>
              if backend_kind e = BackendNotFound then Some (Inr None, w)
              else Some (Inl (map_operation_error e), w) }"

fun list_entries ::
  "ObjectKey option \<Rightarrow> nat \<Rightarrow> ObjectKey list \<Rightarrow> (BackendError + string) list
   \<Rightarrow> StoreError + (ObjectKey list \<times> bool)" where
  "list_entries start_exclusive keys_max keys [] = Inr (keys, False)"
| "list_entries start_exclusive keys_max keys (entry # rest) =
     try_ok (map_err map_operation_error entry) (\<lambda>location.
     try_ok (parse_listed_key location) (\<lambda>listed.
     case (if keys = [] then start_exclusive else Some (last keys)) of
       Some previous \<Rightarrow>
         if previous \<ge> listed then Inl (AdapterContradiction (UnorderedList previous listed))
         else if length keys = keys_max then Inr (keys, True)
         else list_entries start_exclusive keys_max (keys @ [listed]) rest
     | None \<Rightarrow>
         if length keys = keys_max then Inr (keys, True)
         else list_entries start_exclusive keys_max (keys @ [listed]) rest))"

definition list_page ::
  "'w Backend \<Rightarrow> ListPageRequest \<Rightarrow> 'w \<Rightarrow> ((StoreError + ListPage) \<times> 'w) option" where
  "list_page backend request w =
     do { prefix \<leftarrow> to_store_path backend (request_prefix request);
          offset \<leftarrow> (case request_start_exclusive request of
             Some offset \<Rightarrow> map_option Some (to_store_path backend offset)
           | None \<Rightarrow> Some None);
          let (listing, w) = list_objects backend prefix offset w;
          Some (try_ok (list_entries (request_start_exclusive request) (nz_get (keys_bound (request_keys_max request)))
                  [] listing) (\<lambda>(keys, truncated).
                let continuation = (if truncated then (if keys = [] then None else Some (last keys)) else None) in
                Inr (ListPage keys continuation)), w) }"

definition delete_idempotent :: "'w Backend \<Rightarrow> ObjectKey \<Rightarrow> 'w \<Rightarrow> ((StoreError + unit) \<times> 'w) option" where
  "delete_idempotent backend key w =
     do { location \<leftarrow> to_store_path backend key;
          let (outcome, w) = delete_object backend location w;
          case outcome of
            Inr _ \<Rightarrow> Some (Inr (), w)
          | Inl e \<Rightarrow>
              if backend_kind e = BackendNotFound then Some (Inr (), w)
              else Some (Inl (map_operation_error e), w) }"

section \<open>What a backend promises\<close>

text \<open>
  A world has the contents of the store, by location; \<open>evolves\<close> relates a world to the worlds that
  other clients and later calls can lead to. A backend call happens at the world it returns: a create
  that succeeds found the location empty and filled it, an observation carries the body and the size
  of the object there, an absent answer and a deletion leave the location empty, and a listing gives
  the locations below the prefix and after the offset, as far as it goes. Valid keys parse as
  locations. This is what the \<open>ObjectStore\<close> trait promises, \<open>trait_ok\<close>; the trait leaves the order of
  a listing open. The selected backends also list in lexicographic order: a listing has given every
  smaller location before it gives one, \<open>lists_in_order\<close>.
\<close>

definition below :: "string \<Rightarrow> string option \<Rightarrow> string \<Rightarrow> bool" where
  "below prefix offset location \<longleftrightarrow>
     (\<exists>rest. location = prefix @ CHR ''/'' # rest) \<and> (\<forall>p. offset = Some p \<longrightarrow> p < location)"

definition put_ok :: "('w \<Rightarrow> string \<Rightarrow> bytes option) \<Rightarrow> ('w \<Rightarrow> 'w \<Rightarrow> bool) \<Rightarrow> 'w Backend \<Rightarrow> bool" where
  "put_ok contents evolves backend \<longleftrightarrow>
     (\<forall>location body w outcome w'. put_create backend location body w = (outcome, w') \<longrightarrow>
        evolves w w'
        \<and> (outcome = Inr () \<longrightarrow> contents w' location = Some body
             \<and> (\<exists>w\<^sub>0. evolves w w\<^sub>0 \<and> contents w\<^sub>0 location = None)))"

definition get_ok :: "('w \<Rightarrow> string \<Rightarrow> bytes option) \<Rightarrow> ('w \<Rightarrow> 'w \<Rightarrow> bool) \<Rightarrow> 'w Backend \<Rightarrow> bool" where
  "get_ok contents evolves backend \<longleftrightarrow>
     (\<forall>location w observed w'. get_object backend location w = (observed, w') \<longrightarrow>
        evolves w w'
        \<and> (\<forall>observation. observed = Inr observation \<longrightarrow>
             (\<exists>body. contents w' location = Some body \<and> meta_size observation = length body
                \<and> (\<forall>chunks. body_stream observation = map Inr chunks \<longrightarrow> concat chunks = body)))
        \<and> (\<forall>e. observed = Inl e \<and> backend_kind e = BackendNotFound \<longrightarrow> contents w' location = None))"

definition delete_ok :: "('w \<Rightarrow> string \<Rightarrow> bytes option) \<Rightarrow> ('w \<Rightarrow> 'w \<Rightarrow> bool) \<Rightarrow> 'w Backend \<Rightarrow> bool" where
  "delete_ok contents evolves backend \<longleftrightarrow>
     (\<forall>location w outcome w'. delete_object backend location w = (outcome, w') \<longrightarrow>
        evolves w w'
        \<and> (outcome = Inr () \<or> (\<exists>e. outcome = Inl e \<and> backend_kind e = BackendNotFound) \<longrightarrow>
             contents w' location = None))"

definition stored_below :: "('w \<Rightarrow> string \<Rightarrow> bytes option) \<Rightarrow> 'w \<Rightarrow> string \<Rightarrow> string option \<Rightarrow> string set" where
  "stored_below contents w prefix offset = {location. contents w location \<noteq> None \<and> below prefix offset location}"

definition list_ok :: "('w \<Rightarrow> string \<Rightarrow> bytes option) \<Rightarrow> ('w \<Rightarrow> 'w \<Rightarrow> bool) \<Rightarrow> 'w Backend \<Rightarrow> bool" where
  "list_ok contents evolves backend \<longleftrightarrow>
     (\<forall>prefix offset w listing w'. list_objects backend prefix offset w = (listing, w') \<longrightarrow>
        evolves w w' \<and> finite (stored_below contents w' prefix offset)
        \<and> (\<forall>locations rest. listing = map Inr locations @ rest \<longrightarrow>
             set locations \<subseteq> stored_below contents w' prefix offset
             \<and> (rest = [] \<longrightarrow> set locations = stored_below contents w' prefix offset)))"

definition lists_in_order :: "('w \<Rightarrow> string \<Rightarrow> bytes option) \<Rightarrow> 'w Backend \<Rightarrow> bool" where
  "lists_in_order contents backend \<longleftrightarrow>
     (\<forall>prefix offset w listing w' locations rest. list_objects backend prefix offset w = (listing, w') \<longrightarrow>
        listing = map Inr locations @ rest \<longrightarrow>
        sorted_wrt (<) locations
        \<and> (\<forall>unlisted \<in> stored_below contents w' prefix offset - set locations. \<forall>location \<in> set locations.
             location < unlisted))"

definition trait_ok ::
  "('w \<Rightarrow> string \<Rightarrow> bytes option) \<Rightarrow> ('w \<Rightarrow> 'w \<Rightarrow> bool) \<Rightarrow> 'w Backend \<Rightarrow> bool" where
  "trait_ok contents evolves backend \<longleftrightarrow>
     reflp evolves \<and> transp evolves \<and> (\<forall>key. path_parses backend (key_as_str key))
     \<and> put_ok contents evolves backend \<and> get_ok contents evolves backend
     \<and> delete_ok contents evolves backend \<and> list_ok contents evolves backend"

definition backend_ok ::
  "('w \<Rightarrow> string \<Rightarrow> bytes option) \<Rightarrow> ('w \<Rightarrow> 'w \<Rightarrow> bool) \<Rightarrow> 'w Backend \<Rightarrow> bool" where
  "backend_ok contents evolves backend \<longleftrightarrow>
     trait_ok contents evolves backend \<and> lists_in_order contents backend"

lemmas backend_defs = backend_ok_def trait_ok_def

section \<open>What the adapter promises\<close>

lemma observation_bytes_Inr:
  "observation_bytes g = Inr bs \<longleftrightarrow> (\<exists>chunks. body_stream g = map Inr chunks \<and> bs = concat chunks)"
proof -
  have "try_map (\<lambda>c. c) cs = Inr ys \<longleftrightarrow> cs = map Inr ys" for cs :: "(BackendError + bytes) list" and ys
    using try_map_Inr [of "\<lambda>c. c" Inr "\<lambda>_. True" cs ys] by (simp add: list_all_iff)
  moreover have "map_sum id f r = Inr y \<longleftrightarrow> (\<exists>x. r = Inr x \<and> y = f x)" for r :: "BackendError + bytes list"
    and f :: "bytes list \<Rightarrow> bytes" and y by (cases r) auto
  ultimately show ?thesis by (simp add: observation_bytes_def)
qed

lemma consume_chunks_total:
  assumes "observed \<le> bytes_max" "bytes_max \<le> u64_max" "length body = observed"
  shows "\<exists>r. consume_chunks key bytes_max observed body chunks = Some r
     \<and> (\<forall>bs. r = Inr bs \<longrightarrow> length bs \<le> bytes_max \<and> (\<exists>cs. chunks = map Inr cs \<and> bs = body @ concat cs))"
  using assms
proof (induction chunks arbitrary: observed body)
  case (Cons chunk chunks)
  show ?case
  proof (cases chunk)
    case (Inr c)
    show ?thesis
    proof (cases "length c > bytes_max - observed")
      case False
      with Cons.prems have "observed + length c \<le> bytes_max" by simp
      then obtain r where r: "consume_chunks key bytes_max (observed + length c) (body @ c) chunks = Some r"
          "\<And>bs. r = Inr bs \<Longrightarrow> length bs \<le> bytes_max \<and> (\<exists>cs. chunks = map Inr cs \<and> bs = (body @ c) @ concat cs)"
        using Cons.IH [of "observed + length c" "body @ c"] Cons.prems by auto
      have "consume_chunks key bytes_max observed body (chunk # chunks) = Some r"
        using r(1) Inr False Cons.prems by (simp add: checked_sub_def checked_add_def)
      moreover have "\<exists>cs. chunk # chunks = map Inr cs \<and> bs = body @ concat cs" if bs: "r = Inr bs" for bs
      proof -
        obtain cs where "chunks = map Inr cs" "bs = (body @ c) @ concat cs" using r(2) [OF bs] by blast
        then show ?thesis using Inr by (intro exI [of _ "c # cs"]) simp
      qed
      ultimately show ?thesis using r(2) by blast
    qed (use Cons.prems Inr in \<open>auto simp: checked_sub_def\<close>)
  qed auto
qed simp

text \<open>
  The evidence of a create: a direct win and a match both leave the candidate at its location, a
  direct win found it empty, and foreign evidence names an occupant with other bytes.
\<close>

lemma create_if_absent_sound:
  assumes ok: "backend_ok contents evolves backend"
  shows "\<exists>r w'. create_if_absent backend key candidate w = Some (r, w') \<and> evolves w w'
     \<and> (r \<in> {Inr Direct, Inr DurableMatch} \<longrightarrow> contents w' (key_as_str key) = Some (body_slice candidate))
     \<and> (r = Inr Direct \<longrightarrow> (\<exists>w\<^sub>0. evolves w w\<^sub>0 \<and> contents w\<^sub>0 (key_as_str key) = None))
     \<and> (r = Inr NotOurs \<longrightarrow>
          (\<exists>body. contents w' (key_as_str key) = Some body \<and> body \<noteq> body_slice candidate))"
proof -
  obtain outcome w1 where put: "put_create backend (key_as_str key) (body_slice candidate) w = (outcome, w1)"
    by fastforce
  obtain observed w2 where got: "get_object backend (key_as_str key) w1 = (observed, w2)" by fastforce
  have puts: "evolves w w1" "outcome = Inr () \<Longrightarrow> contents w1 (key_as_str key) = Some (body_slice candidate)
      \<and> (\<exists>w\<^sub>0. evolves w w\<^sub>0 \<and> contents w\<^sub>0 (key_as_str key) = None)"
    using ok put unfolding backend_defs put_ok_def by blast+
  have gets: "evolves w1 w2" "observed = Inr g \<Longrightarrow>
      \<exists>body. contents w2 (key_as_str key) = Some body \<and> meta_size g = length body
        \<and> (\<forall>chunks. body_stream g = map Inr chunks \<longrightarrow> concat chunks = body)" for g
    using ok got unfolding backend_defs get_ok_def by blast+
  have both: "evolves w w2" using ok puts(1) gets(1) unfolding backend_defs transp_def by blast
  have path: "to_store_path backend key = Some (key_as_str key)"
    using ok by (simp add: backend_defs to_store_path_def)
  obtain evidence where cmp: "compare_occupant backend (key_as_str key) candidate w1 = (evidence, w2)"
    by (cases observed) (auto simp: compare_occupant_def got)
  have occupant: "evidence = DurableMatch \<Longrightarrow> contents w2 (key_as_str key) = Some (body_slice candidate)"
    "evidence = NotOurs \<Longrightarrow> \<exists>body. contents w2 (key_as_str key) = Some body \<and> body \<noteq> body_slice candidate"
    "evidence \<noteq> Direct"
    using cmp gets(2)
    by (fastforce simp: compare_occupant_def got observation_bytes_Inr split: sum.split_asm if_split_asm)+
  show ?thesis
  proof (cases outcome)
    case (Inr u)
    with puts path put show ?thesis by (simp add: create_if_absent_def)
  next
    case (Inl e)
    with path put cmp occupant puts both show ?thesis by (auto simp: create_if_absent_def)
  qed
qed

lemma read_object_sound:
  assumes ok: "backend_ok contents evolves backend"
  shows "\<exists>r w'. read_object backend key bound w = Some (r, w') \<and> evolves w w'
     \<and> (\<forall>object. r = Inr (Some object) \<longrightarrow> contents w' (key_as_str key) = Some (raw_body object)
          \<and> length (raw_body object) \<le> nz_get (byte_bound bound))
     \<and> (r = Inr None \<longrightarrow> contents w' (key_as_str key) = None)"
proof -
  obtain observed w1 where got: "get_object backend (key_as_str key) w = (observed, w1)" by fastforce
  have gets: "evolves w w1" "observed = Inr g \<Longrightarrow>
      \<exists>body. contents w1 (key_as_str key) = Some body \<and> meta_size g = length body
        \<and> (\<forall>chunks. body_stream g = map Inr chunks \<longrightarrow> concat chunks = body)"
    "observed = Inl e \<Longrightarrow> backend_kind e = BackendNotFound \<Longrightarrow> contents w1 (key_as_str key) = None" for g e
    using ok got unfolding backend_defs get_ok_def by blast+
  have path: "to_store_path backend key = Some (key_as_str key)"
    using ok by (simp add: backend_defs to_store_path_def)
  show ?thesis
  proof (cases observed)
    case (Inl e)
    with path got gets show ?thesis by (auto simp: read_object_def)
  next
    case (Inr g)
    then obtain body where body: "contents w1 (key_as_str key) = Some body"
        "\<And>chunks. body_stream g = map Inr chunks \<Longrightarrow> concat chunks = body"
      using gets(2) by blast
    obtain r where r: "consume_chunks key (nz_get (byte_bound bound)) 0 [] (body_stream g) = Some r"
        "\<forall>bs. r = Inr bs \<longrightarrow> length bs \<le> nz_get (byte_bound bound)
           \<and> (\<exists>cs. body_stream g = map Inr cs \<and> bs = concat cs)"
      using consume_chunks_total [of 0 "nz_get (byte_bound bound)" "[]" key "body_stream g"] by auto
    with path got gets Inr body show ?thesis
      by (cases r; cases "require_etag (meta_etag g)")
        (auto simp: read_object_def consume_bounded_object_def and_then_def)
  qed
qed

lemma delete_idempotent_sound:
  assumes ok: "backend_ok contents evolves backend"
  shows "\<exists>r w'. delete_idempotent backend key w = Some (r, w') \<and> evolves w w'
     \<and> (r = Inr () \<longrightarrow> contents w' (key_as_str key) = None)"
proof -
  obtain outcome w1 where del: "delete_object backend (key_as_str key) w = (outcome, w1)" by fastforce
  have "evolves w w1" "outcome = Inr () \<or> (\<exists>e. outcome = Inl e \<and> backend_kind e = BackendNotFound) \<Longrightarrow>
      contents w1 (key_as_str key) = None"
    using ok del unfolding backend_defs delete_ok_def by blast+
  moreover have "to_store_path backend key = Some (key_as_str key)"
    using ok by (simp add: backend_defs to_store_path_def)
  ultimately show ?thesis using del by (cases outcome) (auto simp: delete_idempotent_def)
qed

definition page_ordered :: "ObjectKey option \<Rightarrow> ObjectKey list \<Rightarrow> bool" where
  "page_ordered start keys \<longleftrightarrow>
     sorted_wrt (<) keys \<and> (\<forall>k\<in>set keys. \<forall>p. start = Some p \<longrightarrow> p < k)"

lemma page_ordered_snoc:
  assumes "page_ordered start keys"
    and "\<And>p. (if keys = [] then start else Some (last keys)) = Some p \<Longrightarrow> p < k"
  shows "page_ordered start (keys @ [k])"
proof (cases "keys = []")
  case True
  with assms(2) show ?thesis by (simp add: page_ordered_def)
next
  case False
  with assms(1) have "x \<le> last keys" if "x \<in> set keys" for x
    using that by (cases keys rule: rev_cases) (auto simp: page_ordered_def sorted_wrt_append less_imp_le)
  moreover have "last keys < k" using assms(2) False by simp
  ultimately have "x < k" if "x \<in> set keys" for x using that by (meson order.strict_trans1)
  moreover from this have "p < k" if "start = Some p" for p
    using that assms(1) False last_in_set [of keys] by (meson order.strict_trans page_ordered_def)
  ultimately show ?thesis using assms(1) by (auto simp: page_ordered_def sorted_wrt_append)
qed

lemma list_entries_Inr:
  assumes "list_entries start keys_max keys entries = Inr (keys', truncated)"
    and "page_ordered start keys" "length keys \<le> keys_max"
  shows "\<exists>locations rest. entries = map Inr locations @ rest
     \<and> map key_as_str keys' = map key_as_str keys @ locations \<and> page_ordered start keys'
     \<and> length keys' \<le> keys_max
     \<and> (if truncated then length keys' = keys_max
          \<and> (\<exists>next rest'. rest = Inr (key_as_str next) # rest' \<and> page_ordered start (keys' @ [next]))
        else rest = [])"
  using assms
proof (induction entries arbitrary: keys)
  case (Cons entry entries)
  from Cons.prems(1) obtain location listed where entry: "entry = Inr location" "key_as_str listed = location"
    by (cases entry) (auto simp: try_ok_Inr parse_listed_key_def object_key_try_from_Inr)
  let ?previous = "if keys = [] then start else Some (last keys)"
  have listed: "parse_listed_key location = Inr listed"
    using entry by (simp add: parse_listed_key_def object_key_try_from_Inr)
  have before: "p < listed" if "?previous = Some p" for p
    using Cons.prems(1) that entry(1) listed by (auto simp: not_le split: option.split_asm if_split_asm)
  note snoc = page_ordered_snoc [OF Cons.prems(2) before]
  show ?case
  proof (cases "length keys = keys_max")
    case True
    with Cons.prems entry(1) listed have "keys' = keys \<and> truncated"
      by (auto split: option.split_asm if_split_asm)
    with Cons.prems(2) True snoc entry show ?thesis
      by (intro exI [of _ "[]"] exI [of _ "entry # entries"]) auto
  next
    case False
    with Cons.prems(1) entry(1) listed have "list_entries start keys_max (keys @ [listed]) entries = Inr (keys', truncated)"
      by (auto split: option.split_asm if_split_asm)
    from Cons.IH [OF this snoc] Cons.prems(3) False
    obtain locations rest where "entries = map Inr locations @ rest"
        "map key_as_str keys' = map key_as_str (keys @ [listed]) @ locations" "page_ordered start keys'"
        "length keys' \<le> keys_max"
        "if truncated then length keys' = keys_max
           \<and> (\<exists>next rest'. rest = Inr (key_as_str next) # rest' \<and> page_ordered start (keys' @ [next]))
         else rest = []"
      by auto
    with entry show ?thesis by (intro exI [of _ "location # locations"] exI [of _ rest]) auto
  qed
qed auto

text \<open>The order check never refuses a listing that is in order and after the start.\<close>

lemma list_entries_in_order:
  assumes "\<And>locations rest. entries = map Inr locations @ rest \<Longrightarrow>
      sorted_wrt (<) (map key_as_str keys @ locations) \<and> (\<forall>l\<in>set locations. \<forall>p. start = Some p \<longrightarrow> key_as_str p < l)"
  shows "list_entries start keys_max keys entries \<noteq> Inl (AdapterContradiction (UnorderedList p k))"
  using assms
proof (induction entries arbitrary: keys)
  case (Cons entry entries)
  show ?case
  proof (cases entry)
    case (Inl e)
    then show ?thesis by (simp add: map_operation_error_def)
  next
    case (Inr location)
    show ?thesis
    proof (cases "object_key_try_from location")
      case (Inl e)
      with \<open>entry = Inr location\<close> show ?thesis by (simp add: parse_listed_key_def)
    next
      case listed: (Inr listed)
      then have key: "key_as_str listed = location" by (simp add: object_key_try_from_Inr)
      have rest: "list_entries start keys_max (keys @ [listed]) entries \<noteq> Inl (AdapterContradiction (UnorderedList p k))"
      proof (rule Cons.IH)
        fix locations rest
        assume "entries = map Inr locations @ rest"
        with Cons.prems [of "location # locations" rest] Inr key
        show "sorted_wrt (<) (map key_as_str (keys @ [listed]) @ locations)
            \<and> (\<forall>l\<in>set locations. \<forall>p. start = Some p \<longrightarrow> key_as_str p < l)"
          by simp
      qed
      have "sorted_wrt (<) (map key_as_str keys @ [location])" "\<forall>p. start = Some p \<longrightarrow> key_as_str p < location"
        using Cons.prems [of "[location]" entries] Inr by simp_all
      then have "\<not> previous \<ge> listed" if "(if keys = [] then start else Some (last keys)) = Some previous" for previous
        using that key by (cases "keys = []") (auto simp: sorted_wrt_append not_le less_ObjectKey_def)
      with rest Inr listed show ?thesis
        by (auto simp: parse_listed_key_def split: option.split)
    qed
  qed
qed simp

text \<open>
  A page cut from a listing: its keys are the first ones, in order; it ends with the listing, or it is
  full and another key in order follows.
\<close>

definition page_from :: "ObjectKey option \<Rightarrow> nat \<Rightarrow> (BackendError + string) list \<Rightarrow> ListPage \<Rightarrow> bool" where
  "page_from start keys_max listing page \<longleftrightarrow>
     (\<exists>rest. listing = map Inr (map key_as_str (page_keys page)) @ rest
        \<and> page_ordered start (page_keys page) \<and> length (page_keys page) \<le> keys_max
        \<and> (case page_continuation page of
             None \<Rightarrow> rest = []
           | Some c \<Rightarrow> page_keys page \<noteq> [] \<and> c = last (page_keys page) \<and> length (page_keys page) = keys_max
               \<and> (\<exists>next rest'. rest = Inr (key_as_str next) # rest' \<and> page_ordered start (page_keys page @ [next]))))"

text \<open>One page over any store that keeps the promises of the trait, listed in whatever order.\<close>

lemma list_page_listed:
  assumes ok: "trait_ok contents evolves backend"
  obtains listing r w' where
    "list_objects backend (key_as_str (request_prefix request))
       (map_option key_as_str (request_start_exclusive request)) w = (listing, w')"
    "evolves w w'" "list_page backend request w = Some (r, w')"
    "\<And>page. r = Inr page \<Longrightarrow> page_from (request_start_exclusive request) (nz_get (keys_bound (request_keys_max request))) listing page"
    "\<And>e. r = Inl e \<longleftrightarrow> list_entries (request_start_exclusive request)
       (nz_get (keys_bound (request_keys_max request))) [] listing = Inl e"
proof -
  let ?prefix = "key_as_str (request_prefix request)"
    and ?offset = "map_option key_as_str (request_start_exclusive request)"
    and ?max = "nz_get (keys_bound (request_keys_max request))"
  obtain listing w1 where listed: "list_objects backend ?prefix ?offset w = (listing, w1)" by fastforce
  from ok listed have "evolves w w1" unfolding trait_ok_def list_ok_def by blast
  have path: "to_store_path backend key = Some (key_as_str key)" for key
    using ok by (simp add: trait_ok_def to_store_path_def)
  let ?entries = "list_entries (request_start_exclusive request) ?max [] listing"
  let ?r = "try_ok ?entries (\<lambda>(keys, truncated).
      Inr (ListPage keys (if truncated then (if keys = [] then None else Some (last keys)) else None)))"
  have page: "list_page backend request w = Some (?r, w1)"
    by (cases "request_start_exclusive request") (use listed in \<open>simp_all add: list_page_def path Let_def\<close>)
  show ?thesis
  proof (rule that [OF listed \<open>evolves w w1\<close> page])
    fix page
    assume "?r = Inr page"
    then obtain keys truncated where kt: "?entries = Inr (keys, truncated)"
        "page = ListPage keys (if truncated then (if keys = [] then None else Some (last keys)) else None)"
      by (auto simp: try_ok_Inr)
    have "page_ordered (request_start_exclusive request) []" "length [] \<le> ?max" "0 < ?max"
      by (simp_all add: page_ordered_def)
    from list_entries_Inr [OF kt(1) this(1,2)] this(3) kt(2)
    show "page_from (request_start_exclusive request) ?max listing page"
      unfolding page_from_def by (cases "keys = []"; cases truncated) auto
  next
    fix e
    show "?r = Inl e \<longleftrightarrow> ?entries = Inl e" by (cases ?entries) auto
  qed
qed

text \<open>
  Over a backend that lists in order a page holds the smallest keys of the store below the prefix and
  after the start, all of them when there is no continuation.
\<close>

lemma list_page_sound:
  assumes ok: "backend_ok contents evolves backend"
  shows "\<exists>r w'. list_page backend request w = Some (r, w') \<and> evolves w w'
     \<and> (\<forall>page. r = Inr page \<longrightarrow>
          (\<exists>more. sorted_wrt (<) (map key_as_str (page_keys page) @ more)
               \<and> set (map key_as_str (page_keys page) @ more) = {location. contents w' location \<noteq> None
                    \<and> below (key_as_str (request_prefix request))
                        (map_option key_as_str (request_start_exclusive request)) location}
               \<and> (page_continuation page = None \<longrightarrow> more = [])))"
proof -
  have trait: "trait_ok contents evolves backend" and order: "lists_in_order contents backend"
    using ok by (simp_all add: backend_ok_def)
  let ?offset = "map_option key_as_str (request_start_exclusive request)"
  obtain listing r w' where listed: "list_objects backend (key_as_str (request_prefix request)) ?offset w = (listing, w')"
      "evolves w w'" "list_page backend request w = Some (r, w')"
      "\<And>page. r = Inr page \<Longrightarrow>
         page_from (request_start_exclusive request) (nz_get (keys_bound (request_keys_max request))) listing page"
    using list_page_listed [OF trait, of request w] by metis
  let ?stored = "stored_below contents w' (key_as_str (request_prefix request)) ?offset"
  have "\<exists>more. sorted_wrt (<) (map key_as_str (page_keys page) @ more)
      \<and> set (map key_as_str (page_keys page) @ more) = ?stored \<and> (page_continuation page = None \<longrightarrow> more = [])"
    if inr: "r = Inr page" for page
  proof -
    let ?keys = "map key_as_str (page_keys page)"
    obtain rest where rest: "listing = map Inr ?keys @ rest" "page_continuation page = None \<longrightarrow> rest = []"
      using listed(4) [OF inr] unfolding page_from_def by (auto split: option.split_asm)
    have stored: "finite ?stored" "set ?keys \<subseteq> ?stored" "rest = [] \<longrightarrow> set ?keys = ?stored"
      using trait listed(1) rest(1) unfolding trait_ok_def list_ok_def by blast+
    have sorted: "sorted_wrt (<) ?keys" "\<forall>unlisted \<in> ?stored - set ?keys. \<forall>location \<in> set ?keys. location < unlisted"
      using order listed(1) rest(1) unfolding lists_in_order_def by blast+
    let ?more = "sorted_list_of_set (?stored - set ?keys)"
    have more: "set ?more = ?stored - set ?keys" using stored(1) by simp
    have "sorted_wrt (<) (?keys @ ?more)"
      using sorted stored(1) unfolding sorted_wrt_append more by (simp add: strict_sorted_iff)
    moreover have "set (?keys @ ?more) = ?stored" unfolding set_append more using stored(2) by blast
    moreover have "page_continuation page = None \<longrightarrow> ?more = []" using rest(2) stored(3) by simp
    ultimately show ?thesis by (intro exI [of _ ?more] conjI)
  qed
  with listed(2,3) show ?thesis unfolding stored_below_def by blast
qed

text \<open>What a full page leaves out, and where the next one starts.\<close>

lemma page_rest:
  assumes "page_ordered start keys" "keys \<noteq> []"
    and "\<forall>unlisted \<in> stored_below contents w prefix (map_option key_as_str start) - key_as_str ` set keys.
      \<forall>location \<in> key_as_str ` set keys. location < unlisted"
  shows "stored_below contents w prefix (map_option key_as_str start) - key_as_str ` set keys
     = stored_below contents w prefix (Some (key_as_str (last keys)))"
proof (intro equalityI subsetI)
  fix location
  assume "location \<in> stored_below contents w prefix (map_option key_as_str start) - key_as_str ` set keys"
  with assms(2,3) show "location \<in> stored_below contents w prefix (Some (key_as_str (last keys)))"
    by (auto simp: stored_below_def below_def)
next
  fix location
  assume rest: "location \<in> stored_below contents w prefix (Some (key_as_str (last keys)))"
  have "p < last keys" if "start = Some p" for p using assms(1,2) that by (auto simp: page_ordered_def)
  moreover have "k \<le> last keys" if "k \<in> set keys" for k
    using that assms(1) by (cases keys rule: rev_cases) (auto simp: page_ordered_def sorted_wrt_append less_imp_le)
  ultimately show "location \<in> stored_below contents w prefix (map_option key_as_str start) - key_as_str ` set keys"
    using rest by (fastforce simp: stored_below_def below_def less_ObjectKey_def less_eq_ObjectKey_def dest: leD)
qed

lemma page_continues:
  assumes "list_ok contents evolves backend" "list_objects backend prefix (map_option key_as_str start) w = (listing, w')"
    and "listing = map Inr (map key_as_str keys) @ Inr (key_as_str next) # rest"
    and "page_ordered start (keys @ [next])" "keys \<noteq> []"
  shows "key_as_str ` set keys \<noteq> stored_below contents w' prefix (map_option key_as_str start)"
    and "lists_in_order contents backend \<Longrightarrow>
      stored_below contents w' prefix (map_option key_as_str start) - key_as_str ` set keys
        = stored_below contents w' prefix (Some (key_as_str (last keys)))"
proof -
  let ?stored = "stored_below contents w' prefix (map_option key_as_str start)"
  have "listing = map Inr (map key_as_str (keys @ [next])) @ rest" using assms(3) by simp
  then have "set (map key_as_str (keys @ [next])) \<subseteq> ?stored"
    using assms(1,2) unfolding list_ok_def by blast
  moreover have "key_as_str next \<notin> key_as_str ` set keys"
    using assms(4) by (auto simp: page_ordered_def sorted_wrt_append less_ObjectKey_def)
  ultimately show "key_as_str ` set keys \<noteq> ?stored" by auto
  assume "lists_in_order contents backend"
  with assms(2,3) have unlisted: "\<forall>unlisted \<in> ?stored - set (map key_as_str keys). \<forall>location \<in> set (map key_as_str keys). location < unlisted"
    unfolding lists_in_order_def by blast
  have "page_ordered start keys" using assms(4) by (auto simp: page_ordered_def sorted_wrt_append)
  from page_rest [OF this assms(5) unlisted [unfolded set_map]]
  show "?stored - key_as_str ` set keys = stored_below contents w' prefix (Some (key_as_str (last keys)))" .
qed

section \<open>The interface of the adapter\<close>

text \<open>
  Coordinates are immutable when no client ever replaces the bytes of an occupied location, not even
  after a deletion.
\<close>

definition immutable :: "('w \<Rightarrow> string \<Rightarrow> bytes option) \<Rightarrow> ('w \<Rightarrow> 'w \<Rightarrow> bool) \<Rightarrow> bool" where
  "immutable contents evolves \<longleftrightarrow>
     (\<forall>w w' location body body'. evolves w w' \<longrightarrow> contents w location = Some body \<longrightarrow>
        contents w' location = Some body' \<longrightarrow> body = body')"

locale raw_store =
  fixes promise :: "('w \<Rightarrow> string \<Rightarrow> bytes option) \<Rightarrow> ('w \<Rightarrow> 'w \<Rightarrow> bool) \<Rightarrow> 'b \<Rightarrow> bool"
    and create :: "'b \<Rightarrow> ObjectKey \<Rightarrow> PutBody \<Rightarrow> 'w \<Rightarrow> ((StoreError + CreateEvidence) \<times> 'w) option"
    and read :: "'b \<Rightarrow> ObjectKey \<Rightarrow> ByteBound \<Rightarrow> 'w \<Rightarrow> ((StoreError + RawObject option) \<times> 'w) option"
  assumes order: "promise contents evolves b \<Longrightarrow> reflp evolves \<and> transp evolves"
    and create_sound: "promise contents evolves b \<Longrightarrow> \<exists>r w'. create b key candidate w = Some (r, w') \<and> evolves w w'
       \<and> (r \<in> {Inr Direct, Inr DurableMatch} \<longrightarrow> contents w' (key_as_str key) = Some (body_slice candidate))
       \<and> (r = Inr Direct \<longrightarrow> (\<exists>w\<^sub>0. evolves w w\<^sub>0 \<and> contents w\<^sub>0 (key_as_str key) = None))
       \<and> (r = Inr NotOurs \<longrightarrow>
            (\<exists>body. contents w' (key_as_str key) = Some body \<and> body \<noteq> body_slice candidate))"
    and read_sound: "promise contents evolves b \<Longrightarrow> \<exists>r w'. read b key bound w = Some (r, w') \<and> evolves w w'
       \<and> (\<forall>object. r = Inr (Some object) \<longrightarrow> contents w' (key_as_str key) = Some (raw_body object)
            \<and> length (raw_body object) \<le> nz_get (byte_bound bound))
       \<and> (r = Inr None \<longrightarrow> contents w' (key_as_str key) = None)"
begin

lemma create_cases:
  assumes "promise contents evolves b"
  obtains r w' where "create b key candidate w = Some (r, w')" "evolves w w'"
    "r \<in> {Inr Direct, Inr DurableMatch} \<Longrightarrow> contents w' (key_as_str key) = Some (body_slice candidate)"
    "r = Inr Direct \<Longrightarrow> \<exists>w\<^sub>0. evolves w w\<^sub>0 \<and> contents w\<^sub>0 (key_as_str key) = None"
    "r = Inr NotOurs \<Longrightarrow> \<exists>body. contents w' (key_as_str key) = Some body \<and> body \<noteq> body_slice candidate"
  using create_sound [OF assms] by blast

lemma read_cases:
  assumes "promise contents evolves b"
  obtains r w' where "read b key bound w = Some (r, w')" "evolves w w'"
    "\<And>object. r = Inr (Some object) \<Longrightarrow> contents w' (key_as_str key) = Some (raw_body object)
       \<and> length (raw_body object) \<le> nz_get (byte_bound bound)"
    "r = Inr None \<Longrightarrow> contents w' (key_as_str key) = None"
  using read_sound [OF assms, of key bound w] by blast

text \<open>What was once at an immutable location is what a later read finds there, if anything.\<close>

lemma read_back:
  assumes "promise contents evolves b" "immutable contents evolves"
    and "contents w (key_as_str key) = Some body" "evolves w w\<^sub>1"
    and "read b key bound w\<^sub>1 = Some (Inr (Some object), w\<^sub>2)"
  shows "raw_body object = body"
proof -
  from read_cases [OF assms(1), of key bound w\<^sub>1] assms(5)
  have "evolves w\<^sub>1 w\<^sub>2" "contents w\<^sub>2 (key_as_str key) = Some (raw_body object)" by (metis option.inject prod.inject)+
  moreover from this(1) have "evolves w w\<^sub>2" using order [OF assms(1)] assms(4) by (meson transpE)
  ultimately show ?thesis using assms(2,3) unfolding immutable_def by metis
qed

end

interpretation adapter: raw_store backend_ok create_if_absent read_object
proof unfold_locales
  fix contents evolves and b :: "'a Backend"
  assume "backend_ok contents evolves b"
  then show "reflp evolves \<and> transp evolves" by (simp add: backend_defs)
qed (fact create_if_absent_sound read_object_sound)+

section \<open>A backend in memory\<close>

text \<open>
  An append-only store over a finite map: creation is atomic, observations are whole, listings are
  sorted and deletions are refused.
\<close>

definition memory_backend :: "(string, bytes) fmap Backend" where
  "memory_backend =
     \<lparr> path_parses = (\<lambda>_. True),
       put_create = (\<lambda>location body w. case fmlookup w location of
          None \<Rightarrow> (Inr (), fmupd location body w)
        | Some _ \<Rightarrow> (Inl (BackendError BackendAlreadyExists ''exists''), w)),
       get_object = (\<lambda>location w. case fmlookup w location of
          None \<Rightarrow> (Inl (BackendError BackendNotFound ''absent''), w)
        | Some body \<Rightarrow> (Inr \<lparr> meta_size = length body, meta_etag = Some ''e'', body_stream = [Inr body] \<rparr>, w)),
       list_objects = (\<lambda>prefix offset w.
          (map Inr (sorted_list_of_set {location \<in> fmdom' w. below prefix offset location}), w)),
       delete_object = (\<lambda>location w. (Inl (BackendError BackendNotSupported ''append-only''), w)) \<rparr>"

lemma memory_listing:
  assumes "list_objects memory_backend prefix offset w = (listing, w')"
  shows "w' = w" "finite (stored_below fmlookup w' prefix offset)"
    "listing = map Inr (sorted_list_of_set (stored_below fmlookup w' prefix offset))"
proof -
  have "stored_below fmlookup w prefix offset = {l \<in> fmdom' w. below prefix offset l}"
    by (auto simp: stored_below_def fmlookup_dom'_iff)
  with assms show "w' = w" "finite (stored_below fmlookup w' prefix offset)"
    "listing = map Inr (sorted_list_of_set (stored_below fmlookup w' prefix offset))"
    by (auto simp: memory_backend_def)
qed

text \<open>The locations a complete listing has given before its rest.\<close>

lemma listing_of:
  "map Inr every = map Inr locations @ rest \<longleftrightarrow> (\<exists>more. every = locations @ more \<and> rest = map Inr more)"
  by (auto simp: map_eq_append_conv inj_map_eq_map)

lemma whole_listing:
  "set every = stored \<Longrightarrow> map Inr every = map Inr locations @ rest \<Longrightarrow>
     set locations \<subseteq> stored \<and> (rest = [] \<longrightarrow> set locations = stored)"
  for rest :: "(BackendError + string) list"
  by (auto simp: listing_of)

lemma memory_trait_ok: "trait_ok fmlookup (\<lambda>w w'. fmlookup w \<subseteq>\<^sub>m fmlookup w') memory_backend"
proof -
  let ?grows = "\<lambda>w w' :: (string, bytes) fmap. fmlookup w \<subseteq>\<^sub>m fmlookup w'"
  have "reflp ?grows" "transp ?grows"
    by (auto intro: reflpI transpI map_le_refl map_le_trans)
  moreover have "put_ok fmlookup ?grows memory_backend"
    unfolding put_ok_def
  proof (intro allI impI)
    fix location body outcome and w w' :: "(string, bytes) fmap"
    assume put: "put_create memory_backend location body w = (outcome, w')"
    show "?grows w w' \<and> (outcome = Inr () \<longrightarrow> fmlookup w' location = Some body
        \<and> (\<exists>w\<^sub>0. ?grows w w\<^sub>0 \<and> fmlookup w\<^sub>0 location = None))"
    proof (cases "fmlookup w location")
      case None
      with put have "w' = fmupd location body w" by (simp add: memory_backend_def)
      with None show ?thesis by (auto simp: map_le_def fmlookup_dom'_iff intro!: exI [of _ w])
    qed (use put in \<open>auto simp: memory_backend_def\<close>)
  qed
  moreover have "get_ok fmlookup ?grows memory_backend"
    by (auto simp: get_ok_def memory_backend_def split: option.split_asm)
  moreover have "delete_ok fmlookup ?grows memory_backend"
    by (auto simp: delete_ok_def memory_backend_def)
  moreover have "list_ok fmlookup ?grows memory_backend"
    unfolding list_ok_def
  proof (intro allI impI)
    fix prefix offset w listing w'
    assume "list_objects memory_backend prefix offset w = (listing, w')"
    from memory_listing [OF this]
      whole_listing [of "sorted_list_of_set (stored_below fmlookup w' prefix offset)" "stored_below fmlookup w' prefix offset"]
    show "?grows w w' \<and> finite (stored_below fmlookup w' prefix offset)
        \<and> (\<forall>locations rest. listing = map Inr locations @ rest \<longrightarrow>
             set locations \<subseteq> stored_below fmlookup w' prefix offset
             \<and> (rest = [] \<longrightarrow> set locations = stored_below fmlookup w' prefix offset))"
      by simp
  qed
  ultimately show ?thesis by (simp add: trait_ok_def memory_backend_def)
qed

lemma memory_backend_ok: "backend_ok fmlookup (\<lambda>w w'. fmlookup w \<subseteq>\<^sub>m fmlookup w') memory_backend"
proof -
  have "lists_in_order fmlookup memory_backend"
    unfolding lists_in_order_def
  proof (intro allI impI)
    fix prefix offset w listing w' locations and rest :: "(BackendError + string) list"
    assume "list_objects memory_backend prefix offset w = (listing, w')" and split: "listing = map Inr locations @ rest"
    from memory_listing [OF this(1)] have stored: "finite (stored_below fmlookup w' prefix offset)"
        "listing = map Inr (sorted_list_of_set (stored_below fmlookup w' prefix offset))"
      by simp_all
    then have "map Inr (sorted_list_of_set (stored_below fmlookup w' prefix offset)) = map Inr locations @ rest"
      using split by simp
    then obtain more where every: "sorted_list_of_set (stored_below fmlookup w' prefix offset) = locations @ more"
      unfolding listing_of by blast
    then have "sorted_wrt (<) (locations @ more)"
      by (metis strict_sorted_list_of_set)
    moreover have "stored_below fmlookup w' prefix offset = set locations \<union> set more"
      using every stored(1) by (metis set_append set_sorted_list_of_set)
    ultimately show "sorted_wrt (<) locations \<and> (\<forall>unlisted \<in> stored_below fmlookup w' prefix offset - set locations.
        \<forall>location \<in> set locations. location < unlisted)"
      by (auto simp: sorted_wrt_append)
  qed
  with memory_trait_ok show ?thesis by (simp add: backend_ok_def)
qed

lemma memory_immutable: "immutable fmlookup (\<lambda>w w' :: (string, bytes) fmap. fmlookup w \<subseteq>\<^sub>m fmlookup w')"
  by (auto simp: immutable_def map_le_def dom_def)

section \<open>Evidence and pages\<close>

text \<open>
  C24. The adapter's evidence is true of the store. Over a backend that keeps its promises no
  operation panics; a create that reports \<open>Direct\<close> found the key empty and left exactly the candidate
  there, \<open>DurableMatch\<close> means the candidate's bytes are there, \<open>NotOurs\<close> means other bytes are; a read
  returns the whole object within its bound, or reports an absence that is one; a deletion that
  succeeds leaves nothing.
\<close>

theorem adapter_evidence_is_true:
  assumes "backend_ok contents evolves backend"
  shows "(\<exists>r w'. create_if_absent backend key candidate w = Some (r, w') \<and> evolves w w'
       \<and> (r \<in> {Inr Direct, Inr DurableMatch} \<longrightarrow> contents w' (key_as_str key) = Some (body_slice candidate))
       \<and> (r = Inr Direct \<longrightarrow> (\<exists>w\<^sub>0. evolves w w\<^sub>0 \<and> contents w\<^sub>0 (key_as_str key) = None))
       \<and> (r = Inr NotOurs \<longrightarrow>
            (\<exists>body. contents w' (key_as_str key) = Some body \<and> body \<noteq> body_slice candidate)))
     \<and> (\<exists>r w'. read_object backend key bound w = Some (r, w') \<and> evolves w w'
       \<and> (\<forall>object. r = Inr (Some object) \<longrightarrow> contents w' (key_as_str key) = Some (raw_body object)
            \<and> length (raw_body object) \<le> nz_get (byte_bound bound))
       \<and> (r = Inr None \<longrightarrow> contents w' (key_as_str key) = None))
     \<and> (\<exists>r w'. delete_idempotent backend key w = Some (r, w') \<and> evolves w w'
       \<and> (r = Inr () \<longrightarrow> contents w' (key_as_str key) = None))"
  by (rule conjI [OF create_if_absent_sound [OF assms] conjI [OF read_object_sound [OF assms]
        delete_idempotent_sound [OF assms]]])

theorem adapter_evidence_is_true_witness:
  "\<exists>w'. create_if_absent memory_backend (key_of ''k'') (PutBody ''v'') fmempty = Some (Inr Direct, w')
     \<and> fmlookup w' (key_as_str (key_of ''k'')) = Some ''v''"
  using adapter_evidence_is_true [OF memory_backend_ok, of "key_of ''k''" "PutBody ''v''" fmempty]
  by (auto simp: create_if_absent_def to_store_path_def memory_backend_def)

text \<open>
  C25. A list page is ordered, bounded and has no gaps. Over a store that keeps the promises of the
  trait, which leave the order of a listing open, listing never panics; a page holds stored keys below
  the prefix, strictly ascending after the exclusive start and no more than asked for; without a
  continuation it holds all of them, and a continuation is the last key of a full page and means that
  there are more. Over a backend that lists in lexicographic order a page is never refused as
  unordered, and the keys it leaves out are exactly those that a request from its continuation
  selects.
\<close>

theorem list_page_has_no_gaps:
  assumes "trait_ok contents evolves backend"
  shows "\<exists>r w'. list_page backend request w = Some (r, w') \<and> evolves w w'
     \<and> (\<forall>page stored. r = Inr page \<longrightarrow>
          stored = stored_below contents w' (key_as_str (request_prefix request))
             (map_option key_as_str (request_start_exclusive request)) \<longrightarrow>
          page_ordered (request_start_exclusive request) (page_keys page)
          \<and> length (page_keys page) \<le> nz_get (keys_bound (request_keys_max request))
          \<and> key_as_str ` set (page_keys page) \<subseteq> stored
          \<and> (page_continuation page = None \<longrightarrow> key_as_str ` set (page_keys page) = stored)
          \<and> (\<forall>c. page_continuation page = Some c \<longrightarrow>
               length (page_keys page) = nz_get (keys_bound (request_keys_max request))
               \<and> c = last (page_keys page) \<and> key_as_str ` set (page_keys page) \<noteq> stored
               \<and> (lists_in_order contents backend \<longrightarrow>
                    stored - key_as_str ` set (page_keys page)
                      = stored_below contents w' (key_as_str (request_prefix request)) (Some (key_as_str c)))))
     \<and> (lists_in_order contents backend \<longrightarrow>
          (\<forall>p k. r \<noteq> Inl (AdapterContradiction (UnorderedList p k))))"
proof -
  let ?start = "request_start_exclusive request" and ?prefix = "key_as_str (request_prefix request)"
  let ?max = "nz_get (keys_bound (request_keys_max request))" and ?offset = "map_option key_as_str ?start"
  obtain listing r w' where listed: "list_objects backend ?prefix ?offset w = (listing, w')"
      "evolves w w'" "list_page backend request w = Some (r, w')"
    and paged: "\<And>page. r = Inr page \<Longrightarrow> page_from ?start ?max listing page"
    and refused: "\<And>e. r = Inl e \<longleftrightarrow> list_entries ?start ?max [] listing = Inl e"
    by (rule list_page_listed [OF assms, of request w]) (rule that)
  let ?stored = "stored_below contents w' ?prefix ?offset"
  have lists: "set locations \<subseteq> ?stored \<and> (rest = [] \<longrightarrow> set locations = ?stored)"
    if "listing = map Inr locations @ rest" for locations rest
    using assms listed(1) that unfolding trait_ok_def list_ok_def by blast
  have list: "list_ok contents evolves backend" using assms by (simp add: trait_ok_def)
  have page: "page_ordered ?start keys \<and> length keys \<le> ?max \<and> key_as_str ` set keys \<subseteq> ?stored
      \<and> (continuation = None \<longrightarrow> key_as_str ` set keys = ?stored)
      \<and> (\<forall>c. continuation = Some c \<longrightarrow> length keys = ?max \<and> c = last keys \<and> key_as_str ` set keys \<noteq> ?stored
           \<and> (lists_in_order contents backend \<longrightarrow>
                ?stored - key_as_str ` set keys = stored_below contents w' ?prefix (Some (key_as_str c))))"
    if inr: "r = Inr (ListPage keys continuation)" for keys continuation
  proof -
    let ?keys = "map key_as_str keys"
    obtain rest where rest: "listing = map Inr ?keys @ rest" "page_ordered ?start keys" "length keys \<le> ?max"
        "case continuation of None \<Rightarrow> rest = []
         | Some c \<Rightarrow> keys \<noteq> [] \<and> c = last keys \<and> length keys = ?max
             \<and> (\<exists>next rest'. rest = Inr (key_as_str next) # rest' \<and> page_ordered ?start (keys @ [next]))"
      using paged [OF inr] unfolding page_from_def ListPage.sel by blast
    have sub: "key_as_str ` set keys \<subseteq> ?stored" "rest = [] \<longrightarrow> key_as_str ` set keys = ?stored"
      using lists [OF rest(1)] by simp_all
    have "length keys = ?max \<and> c = last keys \<and> key_as_str ` set keys \<noteq> ?stored
        \<and> (lists_in_order contents backend \<longrightarrow>
             ?stored - key_as_str ` set keys = stored_below contents w' ?prefix (Some (key_as_str c)))"
      if "continuation = Some c" for c
      using rest(1,4) that page_continues [OF list listed(1), of keys] by fastforce
    with rest(2,3) sub rest(4) show ?thesis by (cases continuation) auto
  qed
  have ordered: "r \<noteq> Inl (AdapterContradiction (UnorderedList p k))" if order: "lists_in_order contents backend" for p k
  proof -
    have "sorted_wrt (<) (map key_as_str [] @ locations) \<and> (\<forall>l\<in>set locations. \<forall>p. ?start = Some p \<longrightarrow> key_as_str p < l)"
      if "listing = map Inr locations @ rest" for locations rest
    proof -
      have "sorted_wrt (<) locations" using order listed(1) that unfolding lists_in_order_def by blast
      moreover have "\<forall>l\<in>set locations. l \<in> ?stored" using lists [OF that] by blast
      ultimately show ?thesis by (simp add: stored_below_def below_def)
    qed
    then have "list_entries ?start ?max [] listing \<noteq> Inl (AdapterContradiction (UnorderedList p k))"
      by (intro list_entries_in_order [where keys = "[]" and start = ?start]) simp_all
    with refused show ?thesis by simp
  qed
  have paged: "page_ordered ?start (page_keys page) \<and> length (page_keys page) \<le> ?max
      \<and> key_as_str ` set (page_keys page) \<subseteq> ?stored
      \<and> (page_continuation page = None \<longrightarrow> key_as_str ` set (page_keys page) = ?stored)
      \<and> (\<forall>c. page_continuation page = Some c \<longrightarrow> length (page_keys page) = ?max \<and> c = last (page_keys page)
           \<and> key_as_str ` set (page_keys page) \<noteq> ?stored
           \<and> (lists_in_order contents backend \<longrightarrow> ?stored - key_as_str ` set (page_keys page)
                = stored_below contents w' ?prefix (Some (key_as_str c))))" if "r = Inr page" for page
  proof -
    have "r = Inr (ListPage (page_keys page) (page_continuation page))" using that by simp
    from page [OF this] show ?thesis .
  qed
  show ?thesis
    by (rule exI [of _ r], rule exI [of _ w'], intro conjI allI impI, fact listed(3), fact listed(2))
      (use paged ordered in simp_all)
qed

definition sample_request :: ListPageRequest where
  "sample_request = \<lparr> request_prefix = key_of ''k'', request_start_exclusive = None,
     request_keys_max = KeysBound nz_min \<rparr>"

definition sample_store :: "(string, bytes) fmap" where
  "sample_store = fmupd ''k/a'' ''v'' (fmupd ''k/b'' ''v'' fmempty)"

definition reversed_backend :: "(string, bytes) fmap Backend" where
  "reversed_backend = memory_backend \<lparr> list_objects :=
     (\<lambda>prefix offset w. (case list_objects memory_backend prefix offset w of (listing, w) \<Rightarrow> (rev listing, w))) \<rparr>"

lemma reversed_trait_ok: "trait_ok fmlookup (\<lambda>w w'. fmlookup w \<subseteq>\<^sub>m fmlookup w') reversed_backend"
proof -
  let ?grows = "\<lambda>w w' :: (string, bytes) fmap. fmlookup w \<subseteq>\<^sub>m fmlookup w'"
  have "list_ok fmlookup ?grows reversed_backend"
    unfolding list_ok_def
  proof (intro allI impI)
    fix prefix offset w listing w'
    assume "list_objects reversed_backend prefix offset w = (listing, w')"
    then have "list_objects memory_backend prefix offset w = (rev listing, w')"
      by (auto simp: reversed_backend_def split: prod.split_asm)
    from memory_listing [OF this] have "w' = w" "finite (stored_below fmlookup w' prefix offset)"
        "listing = map Inr (rev (sorted_list_of_set (stored_below fmlookup w' prefix offset)))"
      by (simp_all add: rev_map rev_swap)
    with whole_listing [of "rev (sorted_list_of_set (stored_below fmlookup w' prefix offset))"
        "stored_below fmlookup w' prefix offset"]
    show "?grows w w' \<and> finite (stored_below fmlookup w' prefix offset)
        \<and> (\<forall>locations rest. listing = map Inr locations @ rest \<longrightarrow>
             set locations \<subseteq> stored_below fmlookup w' prefix offset
             \<and> (rest = [] \<longrightarrow> set locations = stored_below fmlookup w' prefix offset))"
      by simp
  qed
  with memory_trait_ok show ?thesis
    by (simp add: trait_ok_def put_ok_def get_ok_def delete_ok_def reversed_backend_def)
qed

text \<open>
  Two keys listed one at a time: the first page continues at its key and leaves the second to the
  next page. The same contents in reverse order keep the promises of the trait, and are refused.
\<close>

lemma sample_listing:
  "key_as_str (key_of ''k'') = ''k''" "object_key_try_from ''k/a'' = Inr (key_of ''k/a'')"
  "object_key_try_from ''k/b'' = Inr (key_of ''k/b'')" "key_as_str (key_of ''k/a'') = ''k/a''"
  "key_as_str (key_of ''k/b'') = ''k/b''"
  by (simp_all add: object_key_try_from_def key_of.rep_eq object_key_validate_def is_key_character_def
      is_ascii_lowercase_def code_def adapter_bounds)

lemma sample_pages:
  "list_page memory_backend sample_request sample_store
     = Some (Inr (ListPage [key_of ''k/a''] (Some (key_of ''k/a''))), sample_store)"
  "list_page reversed_backend sample_request sample_store
     = Some (Inl (AdapterContradiction (UnorderedList (key_of ''k/b'') (key_of ''k/a''))), sample_store)"
proof -
  have "{location \<in> fmdom' sample_store. below ''k'' None location} = {''k/a'', ''k/b''}"
    by (auto simp: below_def sample_store_def)
  moreover have "sorted_list_of_set {''k/a'', ''k/b''} = [''k/a'', ''k/b'']" by simp
  ultimately have "list_objects memory_backend ''k'' None sample_store = ([Inr ''k/a'', Inr ''k/b''], sample_store)"
    by (simp add: memory_backend_def)
  moreover have "\<not> key_of ''k/b'' \<le> key_of ''k/a''" "key_of ''k/a'' \<le> key_of ''k/b''"
    by (simp_all add: less_eq_ObjectKey_def sample_listing)
  moreover have "path_parses memory_backend location" for location by (simp add: memory_backend_def)
  ultimately show "list_page memory_backend sample_request sample_store
     = Some (Inr (ListPage [key_of ''k/a''] (Some (key_of ''k/a''))), sample_store)"
    "list_page reversed_backend sample_request sample_store
     = Some (Inl (AdapterContradiction (UnorderedList (key_of ''k/b'') (key_of ''k/a''))), sample_store)"
    by (simp_all add: list_page_def to_store_path_def sample_request_def sample_listing parse_listed_key_def
        reversed_backend_def)
qed

theorem list_page_has_no_gaps_witness:
  "list_page memory_backend sample_request sample_store
     = Some (Inr (ListPage [key_of ''k/a''] (Some (key_of ''k/a''))), sample_store)
   \<and> stored_below fmlookup sample_store ''k'' None - {''k/a''}
     = stored_below fmlookup sample_store ''k'' (Some ''k/a'')
   \<and> list_page reversed_backend sample_request sample_store
     = Some (Inl (AdapterContradiction (UnorderedList (key_of ''k/b'') (key_of ''k/a''))), sample_store)
   \<and> \<not> lists_in_order fmlookup reversed_backend"
proof -
  have "trait_ok fmlookup (\<lambda>w w'. fmlookup w \<subseteq>\<^sub>m fmlookup w') memory_backend" "lists_in_order fmlookup memory_backend"
    using memory_backend_ok by (simp_all add: backend_ok_def)
  with list_page_has_no_gaps [OF this(1), of sample_request sample_store]
  have "stored_below fmlookup sample_store ''k'' None - {''k/a''} = stored_below fmlookup sample_store ''k'' (Some ''k/a'')"
    by (simp add: sample_pages) (simp add: sample_request_def sample_listing)
  moreover have "\<not> lists_in_order fmlookup reversed_backend"
    using list_page_has_no_gaps [OF reversed_trait_ok, of sample_request sample_store] by (simp add: sample_pages)
  ultimately show ?thesis by (simp add: sample_pages)
qed

end
