(* ===== verification/Typed_Store.thy ===== *)
theory Typed_Store
  imports Sst Object_Store
begin

text \<open>
  The typed Seal, WAL and table stores of \<open>strom-storage-engine/src/store\<close>: canonical keys over the
  adapter, create-once candidates, exact reads with a checked decode, the newest key of a namespace,
  and authorized deletes. A \<open>Host\<close> collects the parameters of an engine process: the backend, the
  archive library, the allocator, the timestamp library, and the text of each diagnostic.
\<close>

section \<open>The host\<close>

text \<open>The diagnostics whose text a typed store puts into an error.\<close>

datatype Diagnostic =
  AdapterDiagnostic StoreContradiction
| ListedNotSealKey ObjectKey KeySpellingError
| SealUndecodable ObjectKey SealGeneration DecodeError
| ListedNotWalKey ObjectKey KeySpellingError
| WalUndecodable ObjectKey PartitionId BatchId DecodeError
| WalNotRetainable ObjectKey PutBodyError
| TableAbsent TableKey
| TableLengthDiffers TableKey nat nonzero_u64
| DirectoryUndecodable TableKey SstDecodeError
| LedgerUndecodable TableKey SstDecodeError
| NoResidentDecoder TableKey

record 'w Host =
  host_backend :: "'w Backend"
  host_text :: "Diagnostic \<Rightarrow> string"
  host_room :: "nat \<Rightarrow> nat \<Rightarrow> bool"
  host_reserve :: "nat \<Rightarrow> bool"
  host_from_nanosecond :: "i128 \<Rightarrow> i128 option"
  host_serialize_seal :: "ArchivedSeal \<Rightarrow> bytes list \<times> bool"
  host_access_seal :: "bytes \<Rightarrow> ArchivedSeal option"
  host_serialize_wal :: "ArchivedWalObject \<Rightarrow> bytes list \<times> bool"
  host_access_wal :: "bytes \<Rightarrow> ArchivedWalObject option"
  host_access_directory :: "bytes \<Rightarrow> DirectorySstArchive option"
  host_access_ledger :: "bytes \<Rightarrow> LedgerSstArchive option"

text \<open>An operation on the store passes the world along; \<open>None\<close> is a panic.\<close>

type_synonym ('w, 'a) io = "'w \<Rightarrow> ('a \<times> 'w) option"

definition io_try :: "('w, 'e + 'a) io \<Rightarrow> ('a \<Rightarrow> ('w, 'e + 'b) io) \<Rightarrow> ('w, 'e + 'b) io" where
  "io_try m f w =
     do { (r, w) \<leftarrow> m w;
          case r of Inl e \<Rightarrow> Some (Inl e, w) | Inr x \<Rightarrow> f x w }"

definition io_map_err :: "('e \<Rightarrow> 'd) \<Rightarrow> ('w, 'e + 'a) io \<Rightarrow> ('w, 'd + 'a) io" where
  "io_map_err g m w = map_option (\<lambda>(r, w). (map_err g r, w)) (m w)"

definition typed_store_error :: "'w Host \<Rightarrow> StoreError \<Rightarrow> TypedStoreError" where
  "typed_store_error host error =
     (case error of
        AdapterRetryable detail \<Rightarrow> StoreRetryable detail
      | AdapterRejected detail \<Rightarrow> StoreRejected detail
      | AdapterContradiction contradiction \<Rightarrow>
          StoreContradiction (host_text host (AdapterDiagnostic contradiction)))"

definition typed_store_contradiction :: "'w Host \<Rightarrow> Diagnostic \<Rightarrow> TypedStoreError" where
  "typed_store_contradiction host diagnostic = StoreContradiction (host_text host diagnostic)"

definition object_key :: "string option \<Rightarrow> ObjectKey option" where
  "object_key spelling = do { s \<leftarrow> spelling; expect_ok (object_key_try_from s) }"

definition newest_keys_bound :: "KeysBound option" where
  "newest_keys_bound = expect_ok (keys_bound_try_from 1)"

section \<open>Seals\<close>

definition seal_read_bound :: "ByteBound option" where
  "seal_read_bound = expect_ok (byte_bound_try_from SEAL_ENCODED_BYTES_MAX)"

definition create_seal ::
  "'w Host \<Rightarrow> SealGeneration \<Rightarrow> bytes \<Rightarrow> ('w, TypedStoreError + CreateEvidence) io" where
  "create_seal host generation bs w =
     do { key \<leftarrow> object_key (seal_key_display (SealKey generation));
          body \<leftarrow> expect_ok (put_body_try_from bs);
          io_map_err (typed_store_error host) (create_if_absent (host_backend host) key body) w }"

definition store_establish_genesis ::
  "'w Host \<Rightarrow> EncodedGenesisSeal \<Rightarrow> ('w, TypedStoreError + GenesisEstablishment) io" where
  "store_establish_genesis host candidate =
     io_try (create_seal host (seal_generation (eseal_seal (genesis_encoded candidate)))
               (eseal_bytes (genesis_encoded candidate)))
       (\<lambda>evidence w. Some (case evidence of
            Direct \<Rightarrow> Inr GenesisEstablished
          | DurableMatch \<Rightarrow> Inr GenesisEstablished
          | NotOurs \<Rightarrow> Inr GenesisLostRace
          | Unresolved \<Rightarrow> Inr GenesisUnresolved, w))"

definition publish_authority ::
  "'w Host \<Rightarrow> EncodedAuthoritySeal \<Rightarrow> ('w, TypedStoreError + SealPublication) io" where
  "publish_authority host candidate =
     io_try (create_seal host (authority_generation candidate) (eseal_bytes (authority_encoded candidate)))
       (\<lambda>evidence w. Some (case evidence of
            Direct \<Rightarrow> Inr Authored
          | DurableMatch \<Rightarrow> Inr NoAuthority
          | NotOurs \<Rightarrow> Inr NoAuthority
          | Unresolved \<Rightarrow> Inr PublicationUnresolved, w))"

definition newest_generation :: "'w Host \<Rightarrow> ('w, TypedStoreError + SealGeneration option) io" where
  "newest_generation host w =
     do { prefix \<leftarrow> object_key (Some (seal_namespace_display SealNamespace));
          keys_max \<leftarrow> newest_keys_bound;
          io_try (io_map_err (typed_store_error host) (list_page (host_backend host)
              \<lparr> request_prefix = prefix, request_start_exclusive = None, request_keys_max = keys_max \<rparr>))
            (\<lambda>page w.
               case page_keys page of
                 [] \<Rightarrow> Some (Inr None, w)
               | listed # _ \<Rightarrow>
                   do { parsed \<leftarrow> seal_key_from_str (key_as_str listed);
                        Some (try_ok (map_err (\<lambda>source.
                                  typed_store_contradiction host (ListedNotSealKey listed source)) parsed)
                                (\<lambda>key. Inr (Some (key_generation key))), w) }) w }"

definition read_seal :: "'w Host \<Rightarrow> SealGeneration \<Rightarrow> ('w, TypedStoreError + Seal option) io" where
  "read_seal host generation w =
     do { key \<leftarrow> object_key (seal_key_display (SealKey generation));
          bound \<leftarrow> seal_read_bound;
          io_try (io_map_err (typed_store_error host) (read_object (host_backend host) key bound))
            (\<lambda>observed w.
               case observed of
                 None \<Rightarrow> Some (Inr None, w)
               | Some observed \<Rightarrow>
                   Some (map_err (\<lambda>source. typed_store_contradiction host (SealUndecodable key generation source))
                           (map_sum id Some (decode_seal (host_access_seal host) generation (raw_body observed))),
                         w)) w }"

section \<open>WAL objects\<close>

record ObservedWal =
  observed_object :: WalObject
  observed_validator :: Etag
  observed_bytes :: PutBody

datatype WalDeleteRefusal = DeleteRefusedFence BatchId

datatype AuthorizedWalRunDelete = AuthorizedWalRunDelete (delete_batch: BatchId) (delete_validator: Etag)

definition into_run_delete :: "ObservedWal \<Rightarrow> WalDeleteRefusal + AuthorizedWalRunDelete" where
  "into_run_delete observed =
     (case wal_body (observed_object observed) of
        WalRun _ \<Rightarrow>
          Inr (AuthorizedWalRunDelete (wal_batch (observed_object observed)) (observed_validator observed))
      | WalFence \<Rightarrow> Inl (DeleteRefusedFence (wal_batch (observed_object observed))))"

definition wal_read_bound :: "ByteBound option" where
  "wal_read_bound = expect_ok (byte_bound_try_from WAL_ENCODED_BYTES_MAX)"

definition create_wal :: "'w Host \<Rightarrow> EncodedWal \<Rightarrow> ('w, TypedStoreError + CreateEvidence) io" where
  "create_wal host candidate w =
     do { key \<leftarrow> object_key (wal_key_display (WalKey (ewal_batch candidate)));
          body \<leftarrow> expect_ok (put_body_try_from (ewal_bytes candidate));
          io_map_err (typed_store_error host) (create_if_absent (host_backend host) key body) w }"

definition read_wal ::
  "'w Host \<Rightarrow> PartitionId \<Rightarrow> BatchId \<Rightarrow> ('w, TypedStoreError + ObservedWal option) io" where
  "read_wal host part batch w =
     do { key \<leftarrow> object_key (wal_key_display (WalKey batch));
          bound \<leftarrow> wal_read_bound;
          io_try (io_map_err (typed_store_error host) (read_object (host_backend host) key bound))
            (\<lambda>observed w.
               case observed of
                 None \<Rightarrow> Some (Inr None, w)
               | Some observed \<Rightarrow>
                   Some (try_ok (map_err (\<lambda>source.
                               typed_store_contradiction host (WalUndecodable key part batch source))
                             (decode_wal (host_access_wal host) (host_from_nanosecond host) part batch
                               (raw_body observed))) (\<lambda>object.
                         try_ok (map_err (\<lambda>source. typed_store_contradiction host (WalNotRetainable key source))
                             (put_body_try_from (raw_body observed))) (\<lambda>retained.
                         Inr (Some \<lparr> observed_object = object, observed_validator = raw_etag observed,
                                     observed_bytes = retained \<rparr>))), w)) w }"

definition establish_wal :: "'w Host \<Rightarrow> EncodedWal \<Rightarrow> ('w, TypedStoreError + WalEstablishment) io" where
  "establish_wal host candidate =
     io_try (create_wal host candidate) (\<lambda>evidence.
       case evidence of
         Direct \<Rightarrow> (\<lambda>w. Some (Inr WalDurable, w))
       | DurableMatch \<Rightarrow> (\<lambda>w. Some (Inr WalDurable, w))
       | NotOurs \<Rightarrow> (\<lambda>w. Some (Inr WalOccupied, w))
       | Unresolved \<Rightarrow>
           io_try (read_wal host (ewal_partition candidate) (ewal_batch candidate)) (\<lambda>observed w.
             Some (case observed of
                Some observed \<Rightarrow>
                  if body_slice (observed_bytes observed) = ewal_bytes candidate then Inr WalDurable
                  else Inr WalOccupied
              | None \<Rightarrow> Inr WalUnresolvedAbsent, w)))"

definition newest_surviving_batch :: "'w Host \<Rightarrow> ('w, TypedStoreError + BatchId option) io" where
  "newest_surviving_batch host w =
     do { prefix \<leftarrow> object_key (Some (wal_namespace_display WalNamespace));
          keys_max \<leftarrow> newest_keys_bound;
          io_try (io_map_err (typed_store_error host) (list_page (host_backend host)
              \<lparr> request_prefix = prefix, request_start_exclusive = None, request_keys_max = keys_max \<rparr>))
            (\<lambda>page w.
               case page_keys page of
                 [] \<Rightarrow> Some (Inr None, w)
               | listed # _ \<Rightarrow>
                   do { parsed \<leftarrow> wal_key_from_str (key_as_str listed);
                        Some (try_ok (map_err (\<lambda>source.
                                  typed_store_contradiction host (ListedNotWalKey listed source)) parsed)
                                (\<lambda>key. Inr (Some (key_batch key))), w) }) w }"

definition delete_run :: "'w Host \<Rightarrow> AuthorizedWalRunDelete \<Rightarrow> ('w, TypedStoreError + unit) io" where
  "delete_run host proof w =
     do { key \<leftarrow> object_key (wal_key_display (WalKey (delete_batch proof)));
          io_map_err (typed_store_error host) (delete_idempotent (host_backend host) key) w }"

section \<open>Tables\<close>

datatype CandidateTableEvidence = TableMatch | TableForeign | TableMissing

datatype TableEstablishment = TableEstablished | TableAbandoned | TableContradiction string

datatype AuthorizedTableDelete = AuthorizedTableDelete (delete_object_id: TableObjectId)

definition dropped_by :: "CollectionInput \<Rightarrow> AuthorizedTableDelete list" where
  "dropped_by input =
     (let successor_objects = set (map ref_object (seal_tables (collection_successor input))) in
      map AuthorizedTableDelete
        (filter (\<lambda>object. object \<notin> successor_objects)
          (map ref_object (seal_tables (collection_source input)))))"

definition create_table :: "'w Host \<Rightarrow> EncodedTable \<Rightarrow> ('w, TypedStoreError + CreateEvidence) io" where
  "create_table host candidate w =
     do { key \<leftarrow> object_key (Some (table_key_display (etable_key candidate)));
          body \<leftarrow> expect_ok (put_body_try_from (etable_bytes candidate));
          io_map_err (typed_store_error host) (create_if_absent (host_backend host) key body) w }"

definition reconcile_table ::
  "'w Host \<Rightarrow> EncodedTable \<Rightarrow> ('w, TypedStoreError + CandidateTableEvidence) io" where
  "reconcile_table host candidate w =
     do { key \<leftarrow> object_key (Some (table_key_display (etable_key candidate)));
          bound \<leftarrow> expect_ok (byte_bound_try_from (nz_get (ref_object_bytes (etable_table candidate))));
          io_try (io_map_err (typed_store_error host) (read_object (host_backend host) key bound))
            (\<lambda>observed w.
               Some (Inr (case observed of
                  Some observed \<Rightarrow>
                    if raw_body observed = etable_bytes candidate then TableMatch else TableForeign
                | None \<Rightarrow> TableMissing), w)) w }"

definition establish_table :: "'w Host \<Rightarrow> EncodedTable \<Rightarrow> ('w, TableEstablishment) io" where
  "establish_table host candidate w =
     do { (created, w) \<leftarrow> create_table host candidate w;
          case created of
            Inr Direct \<Rightarrow> Some (TableEstablished, w)
          | Inr DurableMatch \<Rightarrow> Some (TableEstablished, w)
          | Inr NotOurs \<Rightarrow>
              Some (TableContradiction ''foreign bytes occupy a fresh checkpoint table identity'', w)
          | Inr Unresolved \<Rightarrow>
              do { (reconciled, w) \<leftarrow> reconcile_table host candidate w;
                   Some (case reconciled of
                      Inr TableMatch \<Rightarrow> TableEstablished
                    | Inr TableForeign \<Rightarrow>
                        TableContradiction ''an unresolved fresh checkpoint table contains foreign bytes''
                    | Inr TableMissing \<Rightarrow> TableAbandoned
                    | Inl (StoreRetryable _) \<Rightarrow> TableAbandoned
                    | Inl (StoreRejected _) \<Rightarrow> TableAbandoned
                    | Inl (StoreContradiction detail) \<Rightarrow> TableContradiction detail, w) }
          | Inl (StoreRetryable _) \<Rightarrow> Some (TableAbandoned, w)
          | Inl (StoreRejected _) \<Rightarrow> Some (TableAbandoned, w)
          | Inl (StoreContradiction detail) \<Rightarrow> Some (TableContradiction detail, w) }"

definition delete_table :: "'w Host \<Rightarrow> AuthorizedTableDelete \<Rightarrow> ('w, TypedStoreError + unit) io" where
  "delete_table host proof w =
     do { key \<leftarrow> object_key (Some (table_key_display (TableKey (delete_object_id proof))));
          io_map_err (typed_store_error host) (delete_idempotent (host_backend host) key) w }"

definition read_table ::
  "'w Host \<Rightarrow> PartitionId \<Rightarrow> TableRef \<Rightarrow> ('w, TypedStoreError + DecodedTable) io" where
  "read_table host part table w =
     (let key = TableKey (ref_object table) in
      do { location \<leftarrow> object_key (Some (table_key_display key));
           bound \<leftarrow> expect_ok (byte_bound_try_from (nz_get (ref_object_bytes table)));
           io_try (io_map_err (typed_store_error host) (read_object (host_backend host) location bound))
             (\<lambda>observed w.
                Some (case observed of
                   None \<Rightarrow> Inl (typed_store_contradiction host (TableAbsent key))
                 | Some observed \<Rightarrow>
                     if length (raw_body observed) \<noteq> nz_get (ref_object_bytes table) then
                       Inl (typed_store_contradiction host
                         (TableLengthDiffers key (length (raw_body observed)) (ref_object_bytes table)))
                     else (case table_store (ref_object table) of
                         StoreDirectory \<Rightarrow>
                           map_err (\<lambda>source. typed_store_contradiction host (DirectoryUndecodable key source))
                             (map_sum id DecodedDirectory (decode_directory_sst (host_access_directory host)
                               (host_reserve host) part key (raw_body observed)))
                       | StoreLedger \<Rightarrow>
                           map_err (\<lambda>source. typed_store_contradiction host (LedgerUndecodable key source))
                             (map_sum id DecodedLedger (decode_ledger_sst (host_access_ledger host)
                               (host_from_nanosecond host) (host_reserve host) part key (raw_body observed)))
                       | StoreTally \<Rightarrow> Inl (typed_store_contradiction host (NoResidentDecoder key))
                       | StoreAnnals \<Rightarrow> Inl (typed_store_contradiction host (NoResidentDecoder key))), w)) w })"

section \<open>Canonical keys are object keys\<close>

definition segment_ok :: "string \<Rightarrow> bool" where
  "segment_ok s \<longleftrightarrow> s \<noteq> [] \<and> s \<noteq> ''.'' \<and> s \<noteq> ''..'' \<and> list_all is_key_character s"

lemma check_key_segments_Inr: "check_key_segments ss = Inr () \<longleftrightarrow> list_all segment_ok ss"
proof (induction ss)
  case (Cons s ss)
  show ?case
  proof (cases "list_all is_key_character s")
    case True
    then have "List.find (\<lambda>c. \<not> is_key_character c) s = None" by (simp add: find_None_iff list_all_iff)
    with True Cons show ?thesis by (simp add: segment_ok_def)
  next
    case False
    then obtain c where "List.find (\<lambda>c. \<not> is_key_character c) s = Some c"
      by (cases "List.find (\<lambda>c. \<not> is_key_character c) s") (auto simp: find_None_iff list_all_iff)
    with False show ?thesis by (simp add: segment_ok_def)
  qed
qed simp

lemmas key_character_evaluation =
  is_key_character_def is_ascii_lowercase_def is_ascii_digit_def code_def

lemma segments_valid:
  assumes "ss \<noteq> []" "length (join_with (CHR ''/'') ss) \<le> KEY_BYTES_MAX" "list_all segment_ok ss"
  shows "object_key_validate (join_with (CHR ''/'') ss) = Inr ()"
proof -
  have "\<not> is_key_character (CHR ''/'')" by (simp add: key_character_evaluation)
  then have "CHR ''/'' \<notin> set s" if "segment_ok s" for s
    using that by (auto simp: segment_ok_def list_all_iff)
  then have split: "split_on (CHR ''/'') (join_with (CHR ''/'') ss) = ss"
    using assms(3) by (intro split_join assms(1)) (auto simp: list_all_iff)
  have "join_with (CHR ''/'') ss \<noteq> []"
  proof
    assume "join_with (CHR ''/'') ss = []"
    with split have "ss = [[]]" by simp
    with assms(3) show False by (simp add: segment_ok_def)
  qed
  with split show ?thesis
    using assms by (simp add: object_key_validate_def check_key_segments_Inr)
qed

lemma object_key_valid:
  "object_key_validate s = Inr () \<Longrightarrow> \<exists>key. object_key (Some s) = Some key \<and> key_as_str key = s"
  using object_key_try_from_Inr [of s "key_of s"] by (simp add: object_key_def key_of.rep_eq)

lemma pad_segment: "segment_ok (pad w n)"
proof -
  have "\<not> is_ascii_digit (CHR ''.'')" by (simp add: is_ascii_digit_def code_def)
  then have "CHR ''.'' \<notin> set (pad w n)" using pad_digits by blast
  moreover have "pad w n \<noteq> []" by (simp add: pad_def)
  moreover have "list_all is_key_character (pad w n)"
    by (auto simp: list_all_iff is_key_character_def dest: pad_digits)
  ultimately show ?thesis by (auto simp: segment_ok_def)
qed

definition seal_location :: "SealGeneration \<Rightarrow> string" where
  "seal_location g = ''seal/v1/'' @ pad 20 (u64_max - seal_generation_get g)"

definition wal_location :: "BatchId \<Rightarrow> string" where
  "wal_location b = ''wal/v1/'' @ pad 20 (u64_max - batch_get b)"

lemma length_pad_u64: "n \<le> u64_max \<Longrightarrow> length (pad 20 n) = 20"
  by (simp add: pad_fixed [OF u64_digits])

lemma seal_key_display: "seal_key_display (SealKey g) = Some (seal_location g)"
  by (simp add: seal_key_display_def reverse_ordinal_display_u64 seal_gen.get_le_max seal_location_def
      spelling_consts)

lemma wal_key_display: "wal_key_display (WalKey b) = Some (wal_location b)"
  by (simp add: wal_key_display_def reverse_ordinal_display_u64 batch.get_le_max wal_location_def
      spelling_consts)

lemma seal_location_valid: "object_key_validate (seal_location g) = Inr ()"
proof -
  let ?ss = "[''seal'', ''v1'', pad 20 (u64_max - seal_generation_get g)]"
  have "seal_location g = join_with (CHR ''/'') ?ss" by (simp add: seal_location_def)
  then show ?thesis
    using segments_valid [of ?ss] pad_segment
    by (simp add: adapter_bounds length_pad_u64 segment_ok_def [of "x # s" for x s] key_character_evaluation)
qed

lemma wal_location_valid: "object_key_validate (wal_location b) = Inr ()"
proof -
  let ?ss = "[''wal'', ''v1'', pad 20 (u64_max - batch_get b)]"
  have "wal_location b = join_with (CHR ''/'') ?ss" by (simp add: wal_location_def)
  then show ?thesis
    using segments_valid [of ?ss] pad_segment
    by (simp add: adapter_bounds length_pad_u64 segment_ok_def [of "x # s" for x s] key_character_evaluation)
qed

lemma namespaces_valid:
  "object_key_validate (seal_namespace_display SealNamespace) = Inr ()"
  "object_key_validate (wal_namespace_display WalNamespace) = Inr ()"
  by (simp_all add: object_key_validate_def seal_namespace_display_def wal_namespace_display_def spelling_consts
      adapter_bounds key_character_evaluation)

lemma table_key_valid:
  assumes "table_object_ok object"
  shows "object_key_validate (table_key_display (TableKey object)) = Inr ()"
proof -
  let ?fresh = "table_fresh object"
  let ?birth = "pad 20 (seal_generation_get (fresh_birth_generation ?fresh))"
    and ?owner = "pad 20 (seal_generation_get (attempt_owner_claim (fresh_attempt ?fresh)))"
    and ?counter = "pad 20 (attempt_local_counter (fresh_attempt ?fresh))"
    and ?ordinal = "pad 10 (fresh_ordinal ?fresh)"
  let ?ss = "[''table'', ''v1'', store_name (table_store object), ?birth, ?owner @ CHR ''-'' # ?counter, ?ordinal]"
  have spelled: "table_key_display (TableKey object) = join_with (CHR ''/'') ?ss"
    by (simp add: table_key_display_def Let_def spelling_consts)
  have "length ?ordinal = 10"
    using assms by (simp add: pad_fixed table_object_ok_def)
  moreover have "length ?birth = 20" "length ?owner = 20" "length ?counter = 20"
    using assms by (simp_all add: length_pad_u64 seal_gen.get_le_max table_object_ok_def)
  moreover have "length (store_name (table_store object)) \<le> 9"
    by (cases "table_store object") simp_all
  ultimately have "length (join_with (CHR ''/'') ?ss) \<le> KEY_BYTES_MAX"
    by (simp add: adapter_bounds)
  moreover have "segment_ok (store_name (table_store object))"
    by (cases "table_store object") (simp_all add: segment_ok_def key_character_evaluation)
  moreover have "segment_ok (?owner @ CHR ''-'' # ?counter)"
  proof -
    have "list_all is_key_character (pad w n)" for w n using pad_segment by (simp add: segment_ok_def)
    moreover have "s \<noteq> [] \<and> s \<noteq> ''.'' \<and> s \<noteq> ''..''" if "length s = 41" for s :: string
      using that by auto
    ultimately show ?thesis
      using \<open>length ?owner = 20\<close> \<open>length ?counter = 20\<close>
      by (simp add: segment_ok_def is_key_character_def [of "CHR ''-''"])
  qed
  moreover have "segment_ok ''table''" "segment_ok ''v1''"
    by (simp_all add: segment_ok_def key_character_evaluation)
  ultimately show ?thesis
    using segments_valid [of ?ss] pad_segment by (simp add: spelled del: join_with.simps)
qed

end
