(* ===== verification/Store_Evidence.thy ===== *)
theory Store_Evidence
  imports Typed_Store
begin

text \<open>
  What the typed stores promise over a lawful backend: no operation panics, evidence of a create is
  evidence about the canonical location of its candidate, a read returns the decoded object that is
  there, and the newest key of a namespace is its maximum.
\<close>

section \<open>Evidence\<close>

lemma io_map_err_Some: "m w = Some (r, w') \<Longrightarrow> io_map_err g m w = Some (map_err g r, w')"
  by (simp add: io_map_err_def)

lemma io_try_Some:
  "m w = Some (r, w') \<Longrightarrow> io_try m f w = (case r of Inl e \<Rightarrow> Some (Inl e, w') | Inr x \<Rightarrow> f x w')"
  by (simp add: io_try_def)

lemma map_sum_Inr: "map_sum id f r = Inr y \<longleftrightarrow> (\<exists>x. r = Inr x \<and> y = f x)"
  by (cases r) auto

lemma put_body_valid:
  "bs \<noteq> [] \<Longrightarrow> length bs \<le> PUT_BYTES_MAX \<Longrightarrow> put_body_try_from bs = Inr (PutBody bs)"
  by (simp add: put_body_try_from_def)

text \<open>What a create evidence says about a location, for every kind of candidate.\<close>

definition object_created ::
  "('w \<Rightarrow> string \<Rightarrow> bytes option) \<Rightarrow> ('w \<Rightarrow> 'w \<Rightarrow> bool) \<Rightarrow> string \<Rightarrow> bytes \<Rightarrow> 'w
   \<Rightarrow> TypedStoreError + CreateEvidence \<Rightarrow> 'w \<Rightarrow> bool" where
  "object_created contents evolves location bs w r w' \<longleftrightarrow>
     evolves w w'
     \<and> (r \<in> {Inr Direct, Inr DurableMatch} \<longrightarrow> contents w' location = Some bs)
     \<and> (r = Inr Direct \<longrightarrow> (\<exists>w\<^sub>0. evolves w w\<^sub>0 \<and> contents w\<^sub>0 location = None))
     \<and> (r = Inr NotOurs \<longrightarrow> (\<exists>body. contents w' location = Some body \<and> body \<noteq> bs))"

lemma create_sound:
  assumes ok: "backend_ok contents evolves (host_backend host)"
    and key: "object_key_validate location = Inr ()" and body: "bs \<noteq> []" "length bs \<le> PUT_BYTES_MAX"
  shows "\<exists>r w'. do { key \<leftarrow> object_key (Some location);
                     body \<leftarrow> expect_ok (put_body_try_from bs);
                     io_map_err (typed_store_error host) (create_if_absent (host_backend host) key body) w }
           = Some (r, w') \<and> object_created contents evolves location bs w r w'"
proof -
  obtain k where k: "object_key (Some location) = Some k" "key_as_str k = location"
    using object_key_valid [OF key] by blast
  obtain r w' where r: "create_if_absent (host_backend host) k (PutBody bs) w = Some (r, w')" "evolves w w'"
      "r \<in> {Inr Direct, Inr DurableMatch} \<Longrightarrow> contents w' (key_as_str k) = Some (body_slice (PutBody bs))"
      "r = Inr Direct \<Longrightarrow> \<exists>w\<^sub>0. evolves w w\<^sub>0 \<and> contents w\<^sub>0 (key_as_str k) = None"
      "r = Inr NotOurs \<Longrightarrow> \<exists>body. contents w' (key_as_str k) = Some body \<and> body \<noteq> body_slice (PutBody bs)"
    using adapter.create_sound [OF ok, of k "PutBody bs" w] by blast
  note r = this [unfolded k(2) PutBody.sel]
  have "object_created contents evolves location bs w (map_err (typed_store_error host) r) w'"
    using r by (cases r) (auto simp: object_created_def map_err_Inl)
  then show ?thesis
    using k(1) r(1) by (simp add: put_body_valid [OF body] io_map_err_Some expect_ok_def)
qed

text \<open>What an observation says about a location.\<close>

definition object_seen ::
  "('w \<Rightarrow> string \<Rightarrow> bytes option) \<Rightarrow> ('w \<Rightarrow> 'w \<Rightarrow> bool) \<Rightarrow> string \<Rightarrow> nat \<Rightarrow> 'w
   \<Rightarrow> TypedStoreError + RawObject option \<Rightarrow> 'w \<Rightarrow> bool" where
  "object_seen contents evolves location bound w r w' \<longleftrightarrow>
     evolves w w'
     \<and> (\<forall>object. r = Inr (Some object) \<longrightarrow>
          contents w' location = Some (raw_body object) \<and> length (raw_body object) \<le> bound)
     \<and> (r = Inr None \<longrightarrow> contents w' location = None)"

lemma read_sound:
  assumes ok: "backend_ok contents evolves (host_backend host)"
    and key: "object_key (Some location) = Some k" "key_as_str k = location"
  shows "\<exists>r w'. io_map_err (typed_store_error host) (read_object (host_backend host) k bound) w = Some (r, w')
     \<and> object_seen contents evolves location (nz_get (byte_bound bound)) w r w'"
proof -
  obtain r w' where r: "read_object (host_backend host) k bound w = Some (r, w')" "evolves w w'"
      "\<And>object. r = Inr (Some object) \<Longrightarrow> contents w' (key_as_str k) = Some (raw_body object)
         \<and> length (raw_body object) \<le> nz_get (byte_bound bound)"
      "r = Inr None \<Longrightarrow> contents w' (key_as_str k) = None"
    using adapter.read_sound [OF ok, of k bound w] by blast
  note r = this [unfolded key(2)]
  have "object_seen contents evolves location (nz_get (byte_bound bound)) w (map_err (typed_store_error host) r) w'"
    using r by (cases r) (auto simp: object_seen_def map_err_Inl)
  with r(1) show ?thesis by (auto simp: io_map_err_Some)
qed

section \<open>Seals and WAL objects\<close>

lemma typed_bounds:
  "SEAL_ENCODED_BYTES_MAX \<le> PUT_BYTES_MAX" "SST_OBJECT_BYTES_MAX \<le> PUT_BYTES_MAX"
  "WAL_ENCODED_BYTES_MAX \<le> PUT_BYTES_MAX"
  by (simp_all add: bound_defs adapter_bounds)

lemma byte_bound_valid:
  "0 < n \<Longrightarrow> n \<le> u64_max \<Longrightarrow> \<exists>b. byte_bound_try_from n = Inr b \<and> nz_get (byte_bound b) = n"
  by (auto simp: byte_bound_try_from_def nz_new_def nz_get_of)

lemma read_bounds:
  "\<exists>b. seal_read_bound = Some b \<and> nz_get (byte_bound b) = SEAL_ENCODED_BYTES_MAX"
  "\<exists>b. wal_read_bound = Some b \<and> nz_get (byte_bound b) = WAL_ENCODED_BYTES_MAX"
  using byte_bound_valid [of SEAL_ENCODED_BYTES_MAX] byte_bound_valid [of WAL_ENCODED_BYTES_MAX]
  by (auto simp: seal_read_bound_def wal_read_bound_def bound_defs u64_max_def)

definition seal_candidate_ok :: "EncodedSeal \<Rightarrow> bool" where
  "seal_candidate_ok c \<longleftrightarrow> eseal_bytes c \<noteq> [] \<and> length (eseal_bytes c) \<le> SEAL_ENCODED_BYTES_MAX"

definition wal_candidate_ok :: "EncodedWal \<Rightarrow> bool" where
  "wal_candidate_ok c \<longleftrightarrow> ewal_bytes c \<noteq> [] \<and> length (ewal_bytes c) \<le> WAL_ENCODED_BYTES_MAX"

text \<open>Construction asserts both bounds, so every candidate that exists is within them.\<close>

lemma candidates_ok:
  "encoded_seal_new enc_seal s = Some (Inr c) \<Longrightarrow> seal_candidate_ok c"
  "encoded_wal_new enc_wal object = Some (Inr x) \<Longrightarrow> wal_candidate_ok x"
  by (auto simp: encoded_seal_new_def encoded_wal_new_def seal_candidate_ok_def wal_candidate_ok_def
      bind_eq_Some_conv split: sum.split_asm)

lemma typed_candidates_ok:
  "authority_candidate enc_seal s = Some (Inr c) \<Longrightarrow> seal_candidate_ok (authority_encoded c)"
  "genesis_candidate enc_seal s = Some (Inr g) \<Longrightarrow> seal_candidate_ok (genesis_encoded g)"
  by (cases "the (encoded_seal_new enc_seal s)";
      auto simp: authority_candidate_def genesis_candidate_def intro: candidates_ok(1) split: if_split_asm)+

lemma create_seal_sound:
  assumes ok: "backend_ok contents evolves (host_backend host)"
    and "bs \<noteq> []" "length bs \<le> SEAL_ENCODED_BYTES_MAX"
  shows "\<exists>r w'. create_seal host g bs w = Some (r, w') \<and> object_created contents evolves (seal_location g) bs w r w'"
  unfolding create_seal_def seal_key_display
  by (rule create_sound [OF ok seal_location_valid]) (use assms typed_bounds in simp_all)

lemma create_wal_sound:
  assumes ok: "backend_ok contents evolves (host_backend host)" and c: "wal_candidate_ok c"
  shows "\<exists>r w'. create_wal host c w = Some (r, w')
     \<and> object_created contents evolves (wal_location (ewal_batch c)) (ewal_bytes c) w r w'"
  unfolding create_wal_def wal_key_display
  by (rule create_sound [OF ok wal_location_valid]) (use c typed_bounds in \<open>simp_all add: wal_candidate_ok_def\<close>)

lemma genesis_sound:
  assumes ok: "backend_ok contents evolves (host_backend host)" and c: "seal_candidate_ok (genesis_encoded c)"
  shows "\<exists>r w'. store_establish_genesis host c w = Some (r, w') \<and> evolves w w'
     \<and> (r = Inr GenesisEstablished \<longrightarrow>
          contents w' (seal_location (seal_generation (eseal_seal (genesis_encoded c))))
            = Some (eseal_bytes (genesis_encoded c)))
     \<and> (r = Inr GenesisLostRace \<longrightarrow>
          contents w' (seal_location (seal_generation (eseal_seal (genesis_encoded c)))) \<noteq> None)"
proof -
  obtain r w' where r: "create_seal host (seal_generation (eseal_seal (genesis_encoded c)))
        (eseal_bytes (genesis_encoded c)) w = Some (r, w')"
      "object_created contents evolves (seal_location (seal_generation (eseal_seal (genesis_encoded c))))
        (eseal_bytes (genesis_encoded c)) w r w'"
    using create_seal_sound [OF ok] c unfolding seal_candidate_ok_def by blast
  then show ?thesis
    by (cases r) (auto simp: store_establish_genesis_def io_try_Some object_created_def split: CreateEvidence.split)
qed

lemma publish_sound:
  assumes ok: "backend_ok contents evolves (host_backend host)" and c: "seal_candidate_ok (authority_encoded c)"
  shows "\<exists>r w'. publish_authority host c w = Some (r, w') \<and> evolves w w'
     \<and> (r = Inr Authored \<longrightarrow>
          contents w' (seal_location (authority_generation c)) = Some (eseal_bytes (authority_encoded c))
          \<and> (\<exists>w\<^sub>0. evolves w w\<^sub>0 \<and> contents w\<^sub>0 (seal_location (authority_generation c)) = None))
     \<and> (r = Inr NoAuthority \<longrightarrow> contents w' (seal_location (authority_generation c)) \<noteq> None)"
proof -
  obtain r w' where r: "create_seal host (authority_generation c) (eseal_bytes (authority_encoded c)) w = Some (r, w')"
      "object_created contents evolves (seal_location (authority_generation c)) (eseal_bytes (authority_encoded c)) w r w'"
    using create_seal_sound [OF ok] c unfolding seal_candidate_ok_def by blast
  then show ?thesis
    by (cases r) (auto simp: publish_authority_def io_try_Some object_created_def split: CreateEvidence.split)
qed

text \<open>A read of a Seal returns the checked Seal whose bytes are at its location.\<close>

lemma read_seal_sound:
  assumes ok: "backend_ok contents evolves (host_backend host)"
  shows "\<exists>r w'. read_seal host g w = Some (r, w') \<and> evolves w w'
     \<and> (\<forall>s. r = Inr (Some s) \<longrightarrow> (\<exists>bs. contents w' (seal_location g) = Some bs
          \<and> decode_seal (host_access_seal host) g bs = Inr s))
     \<and> (r = Inr None \<longrightarrow> contents w' (seal_location g) = None)"
proof -
  obtain k where k: "object_key (Some (seal_location g)) = Some k" "key_as_str k = seal_location g"
    using object_key_valid [OF seal_location_valid] by blast
  obtain bound where bound: "seal_read_bound = Some bound" using read_bounds by blast
  obtain r w' where r: "io_map_err (typed_store_error host) (read_object (host_backend host) k bound) w = Some (r, w')"
      "object_seen contents evolves (seal_location g) (nz_get (byte_bound bound)) w r w'"
    using read_sound [OF ok k] by blast
  show ?thesis
    using r by (cases r) (auto simp: read_seal_def seal_key_display k bound io_try_Some object_seen_def
        map_sum_Inr split: option.split)
qed

lemma read_wal_sound:
  assumes ok: "backend_ok contents evolves (host_backend host)"
  shows "\<exists>r w'. read_wal host part b w = Some (r, w') \<and> evolves w w'
     \<and> (\<forall>x. r = Inr (Some x) \<longrightarrow> contents w' (wal_location b) = Some (body_slice (observed_bytes x))
          \<and> decode_wal (host_access_wal host) (host_from_nanosecond host) part b (body_slice (observed_bytes x))
              = Inr (observed_object x))
     \<and> (r = Inr None \<longrightarrow> contents w' (wal_location b) = None)"
proof -
  obtain k where k: "object_key (Some (wal_location b)) = Some k" "key_as_str k = wal_location b"
    using object_key_valid [OF wal_location_valid] by blast
  obtain bound where bound: "wal_read_bound = Some bound" using read_bounds by blast
  obtain r w' where r: "io_map_err (typed_store_error host) (read_object (host_backend host) k bound) w = Some (r, w')"
      "object_seen contents evolves (wal_location b) (nz_get (byte_bound bound)) w r w'"
    using read_sound [OF ok k] by blast
  have "put_body_try_from bs = Inr p \<Longrightarrow> body_slice p = bs" for bs p
    by (auto simp: put_body_try_from_def split: if_split_asm)
  then show ?thesis
    using r by (cases r) (auto simp: read_wal_def wal_key_display k bound io_try_Some object_seen_def
        try_ok_Inr map_err_Inl split: option.split)
qed

lemma establish_wal_sound:
  assumes ok: "backend_ok contents evolves (host_backend host)" and c: "wal_candidate_ok c"
  shows "\<exists>r w'. establish_wal host c w = Some (r, w') \<and> evolves w w'
     \<and> (r = Inr WalDurable \<longrightarrow> contents w' (wal_location (ewal_batch c)) = Some (ewal_bytes c))
     \<and> (r = Inr WalOccupied \<longrightarrow>
          (\<exists>bs. contents w' (wal_location (ewal_batch c)) = Some bs \<and> bs \<noteq> ewal_bytes c))
     \<and> (r = Inr WalUnresolvedAbsent \<longrightarrow> contents w' (wal_location (ewal_batch c)) = None)"
proof -
  obtain r w\<^sub>1 where r: "create_wal host c w = Some (r, w\<^sub>1)"
      "object_created contents evolves (wal_location (ewal_batch c)) (ewal_bytes c) w r w\<^sub>1"
    using create_wal_sound [OF ok c] by blast
  show ?thesis
  proof (cases "r = Inr Unresolved")
    case False
    with r show ?thesis
      by (cases r) (auto simp: establish_wal_def io_try_Some object_created_def split: CreateEvidence.split)
  next
    case True
    obtain r' w\<^sub>2 where r': "read_wal host (ewal_partition c) (ewal_batch c) w\<^sub>1 = Some (r', w\<^sub>2)" "evolves w\<^sub>1 w\<^sub>2"
        "\<And>x. r' = Inr (Some x) \<Longrightarrow> contents w\<^sub>2 (wal_location (ewal_batch c)) = Some (body_slice (observed_bytes x))"
        "r' = Inr None \<Longrightarrow> contents w\<^sub>2 (wal_location (ewal_batch c)) = None"
      using read_wal_sound [OF ok] by metis
    have "evolves w w\<^sub>2"
      using r(2) r'(2) ok unfolding object_created_def backend_defs by (metis transpE)
    with r(1) r' True show ?thesis
      by (cases r') (auto simp: establish_wal_def io_try_Some split: option.split)
  qed
qed

section \<open>The newest key of a namespace\<close>

text \<open>The first page of one key: empty exactly when the namespace is, and otherwise its least location.\<close>

lemma first_page_sound:
  assumes ok: "backend_ok contents evolves (host_backend host)"
    and prefix: "object_key_validate prefix = Inr ()"
  obtains k m r w' where "object_key (Some prefix) = Some k" "newest_keys_bound = Some m"
    and "io_map_err (typed_store_error host) (list_page (host_backend host)
        \<lparr> request_prefix = k, request_start_exclusive = None, request_keys_max = m \<rparr>) w = Some (r, w')"
    and "evolves w w'"
    and "\<And>page location. r = Inr page \<Longrightarrow> page_keys page = [] \<Longrightarrow> below prefix None location \<Longrightarrow>
        contents w' location = None"
    and "\<And>page x xs location. r = Inr page \<Longrightarrow> page_keys page = x # xs \<Longrightarrow>
        below prefix None (key_as_str x) \<and> contents w' (key_as_str x) \<noteq> None
        \<and> (below prefix None location \<longrightarrow> contents w' location \<noteq> None \<longrightarrow> key_as_str x \<le> location)"
proof -
  obtain k where k: "object_key (Some prefix) = Some k" "key_as_str k = prefix"
    using object_key_valid [OF prefix] by blast
  obtain m where m: "newest_keys_bound = Some m"
    by (simp add: newest_keys_bound_def keys_bound_try_from_def nz_new_def u64_max_def adapter_bounds)
  let ?request = "\<lparr> request_prefix = k, request_start_exclusive = None, request_keys_max = m \<rparr>"
  obtain r w' where r: "list_page (host_backend host) ?request w = Some (r, w')" "evolves w w'"
      "\<And>page. r = Inr page \<Longrightarrow> \<exists>more. sorted_wrt (<) (map key_as_str (page_keys page) @ more)
         \<and> set (map key_as_str (page_keys page) @ more) = {location. contents w' location \<noteq> None
              \<and> below prefix None location}
         \<and> (page_continuation page = None \<longrightarrow> more = [])"
    using list_page_sound [OF ok, of ?request w] k(2) by auto
  have last_page: "page_continuation page = None" if "r = Inr page" "page_keys page = []" for page
  proof -
    obtain location where "to_store_path (host_backend host) k = Some location"
      using r(1) by (auto simp: list_page_def bind_eq_Some_conv)
    moreover obtain listing w\<^sub>1 where "list_objects (host_backend host) location None w = (listing, w\<^sub>1)"
      by fastforce
    ultimately show ?thesis
      using r(1) that
      by (cases "list_entries None (nz_get (keys_bound m)) [] listing") (auto simp: list_page_def Let_def)
  qed
  show ?thesis
  proof (rule that [OF k(1) m io_map_err_Some [where m = "list_page (host_backend host) ?request", OF r(1)] r(2)])
    show "contents w' location = None"
      if page: "map_err (typed_store_error host) r = Inr page" "page_keys page = []" "below prefix None location"
      for page location
    proof -
      from page have "r = Inr page" by simp
      from r(3) [OF this] last_page [OF this page(2)] page(2)
      have "{location. contents w' location \<noteq> None \<and> below prefix None location} = {}" by auto
      with page(3) show ?thesis by blast
    qed
    show "below prefix None (key_as_str x) \<and> contents w' (key_as_str x) \<noteq> None
        \<and> (below prefix None location \<longrightarrow> contents w' location \<noteq> None \<longrightarrow> key_as_str x \<le> location)"
      if page: "map_err (typed_store_error host) r = Inr page" "page_keys page = x # xs"
      for page x xs location
    proof -
      from page have "r = Inr page" by simp
      from r(3) [OF this] obtain more where more:
          "sorted_wrt (<) (key_as_str x # map key_as_str xs @ more)"
          "set (key_as_str x # map key_as_str xs @ more)
             = {location. contents w' location \<noteq> None \<and> below prefix None location}"
        unfolding page(2) list.map append_Cons by blast
      have "key_as_str x \<le> location" if "location \<in> set (key_as_str x # map key_as_str xs @ more)"
        using that more(1) unfolding sorted_wrt.simps(2) set_simps insert_iff by (meson order.refl less_imp_le)
      moreover have "key_as_str x \<in> set (key_as_str x # map key_as_str xs @ more)" by simp
      ultimately show ?thesis unfolding more(2) by blast
    qed
  qed
qed

text \<open>
  What a namespace owes to the one-key listing: its locations are below its prefix, a parsed key is at
  the location of its coordinate, and later coordinates come first.
\<close>

locale listed_namespace =
  fixes prefix :: string and location :: "'c::linorder \<Rightarrow> string"
    and from_str :: "string \<Rightarrow> ('e + 'k) option" and coordinate :: "'k \<Rightarrow> 'c"
  assumes prefix_valid: "object_key_validate prefix = Inr ()"
    and location_below: "below prefix None (location c)"
    and from_str_some: "\<exists>parsed. from_str s = Some parsed"
    and from_str_location: "from_str s = Some (Inr k) \<Longrightarrow> s = location (coordinate k)"
    and newest_first: "location c < location d \<longleftrightarrow> d < c"
begin

lemma newest_sound:
  assumes ok: "backend_ok contents evolves (host_backend host)"
  shows "\<exists>r w'. do { prefix \<leftarrow> object_key (Some prefix);
          keys_max \<leftarrow> newest_keys_bound;
          io_try (io_map_err (typed_store_error host) (list_page (host_backend host)
              \<lparr> request_prefix = prefix, request_start_exclusive = None, request_keys_max = keys_max \<rparr>))
            (\<lambda>page w.
               case page_keys page of
                 [] \<Rightarrow> Some (Inr None, w)
               | listed # _ \<Rightarrow>
                   do { parsed \<leftarrow> from_str (key_as_str listed);
                        Some (try_ok (map_err (diagnose listed) parsed)
                                (\<lambda>key. Inr (Some (coordinate key))), w) }) w } = Some (r, w')
     \<and> evolves w w'
     \<and> (\<forall>c. r = Inr (Some c) \<longrightarrow> contents w' (location c) \<noteq> None
          \<and> (\<forall>d. contents w' (location d) \<noteq> None \<longrightarrow> d \<le> c))
     \<and> (r = Inr None \<longrightarrow> (\<forall>d. contents w' (location d) = None))"
proof -
  obtain k m r w' where k: "object_key (Some prefix) = Some k" "newest_keys_bound = Some m"
      "io_map_err (typed_store_error host) (list_page (host_backend host)
        \<lparr> request_prefix = k, request_start_exclusive = None, request_keys_max = m \<rparr>) w = Some (r, w')"
      "evolves w w'"
    and empty: "\<And>page location. r = Inr page \<Longrightarrow> page_keys page = [] \<Longrightarrow> below prefix None location \<Longrightarrow>
        contents w' location = None"
    and first: "\<And>page x xs location. r = Inr page \<Longrightarrow> page_keys page = x # xs \<Longrightarrow>
        below prefix None (key_as_str x) \<and> contents w' (key_as_str x) \<noteq> None
        \<and> (below prefix None location \<longrightarrow> contents w' location \<noteq> None \<longrightarrow> key_as_str x \<le> location)"
    using first_page_sound [OF ok prefix_valid, of w thesis] by blast
  note start = k(1,2) io_try_Some [where m = "io_map_err _ (list_page _ _)", OF k(3)]
  show ?thesis
  proof (cases r)
    case (Inl e)
    with k(4) show ?thesis by (simp add: start)
  next
    case (Inr page)
    show ?thesis
    proof (cases "page_keys page")
      case Nil
      with Inr k(4) empty [OF Inr Nil] location_below show ?thesis by (simp add: start)
    next
      case (Cons x xs)
      obtain parsed where parsed: "from_str (key_as_str x) = Some parsed"
        using from_str_some by blast
      have newest: "contents w' (location (coordinate key)) \<noteq> None
          \<and> (\<forall>d. contents w' (location d) \<noteq> None \<longrightarrow> d \<le> coordinate key)" if "parsed = Inr key" for key
        using parsed that from_str_location first [OF Inr Cons] location_below newest_first
        by (metis leD leI)
      show ?thesis
        using \<open>r = Inr page\<close> Cons k(4) parsed newest by (cases parsed) (simp_all add: start)
    qed
  qed
qed

end

interpretation seal_namespace: listed_namespace "seal_namespace_display SealNamespace" seal_location
  seal_key_from_str key_generation
proof unfold_locales
  show "seal_location c < seal_location d \<longleftrightarrow> d < c" for c d
    by (rule seal_key_less [OF seal_key_display seal_key_display])
  show "s = seal_location (key_generation k)" if "seal_key_from_str s = Some (Inr k)" for s k
    using that seal_key.from_str_Inr [of s k] seal_key_display [of "key_generation k"] by simp
qed (use seal_key.from_str_total namespaces_valid in \<open>auto simp: below_def seal_namespace_display_def
      spelling_consts seal_location_def\<close>)

interpretation wal_namespace: listed_namespace "wal_namespace_display WalNamespace" wal_location
  wal_key_from_str key_batch
proof unfold_locales
  show "wal_location c < wal_location d \<longleftrightarrow> d < c" for c d
    by (rule wal_key_less [OF wal_key_display wal_key_display])
  show "s = wal_location (key_batch k)" if "wal_key_from_str s = Some (Inr k)" for s k
    using that wal_key.from_str_Inr [of s k] wal_key_display [of "key_batch k"] by simp
qed (use wal_key.from_str_total namespaces_valid in \<open>auto simp: below_def wal_namespace_display_def
      spelling_consts wal_location_def\<close>)

lemma newest_generation_sound:
  assumes "backend_ok contents evolves (host_backend host)"
  shows "\<exists>r w'. newest_generation host w = Some (r, w') \<and> evolves w w'
     \<and> (\<forall>g. r = Inr (Some g) \<longrightarrow> contents w' (seal_location g) \<noteq> None
          \<and> (\<forall>h. contents w' (seal_location h) \<noteq> None \<longrightarrow> h \<le> g))
     \<and> (r = Inr None \<longrightarrow> (\<forall>h. contents w' (seal_location h) = None))"
  unfolding newest_generation_def by (rule seal_namespace.newest_sound [OF assms])

lemma newest_surviving_batch_sound:
  assumes "backend_ok contents evolves (host_backend host)"
  shows "\<exists>r w'. newest_surviving_batch host w = Some (r, w') \<and> evolves w w'
     \<and> (\<forall>b. r = Inr (Some b) \<longrightarrow> contents w' (wal_location b) \<noteq> None
          \<and> (\<forall>c. contents w' (wal_location c) \<noteq> None \<longrightarrow> c \<le> b))
     \<and> (r = Inr None \<longrightarrow> (\<forall>c. contents w' (wal_location c) = None))"
  unfolding newest_surviving_batch_def by (rule wal_namespace.newest_sound [OF assms])

section \<open>Tables\<close>

abbreviation table_location :: "TableRef \<Rightarrow> string" where
  "table_location t \<equiv> table_key_display (TableKey (ref_object t))"

text \<open>The object that the bytes of a table reference decode to.\<close>

definition table_decodes :: "'w Host \<Rightarrow> PartitionId \<Rightarrow> TableRef \<Rightarrow> bytes \<Rightarrow> DecodedTable \<Rightarrow> bool" where
  "table_decodes host part t bs d \<longleftrightarrow>
     length bs = nz_get (ref_object_bytes t)
     \<and> (case d of
          DecodedDirectory rows \<Rightarrow> decode_directory_sst (host_access_directory host) (host_reserve host) part
              (TableKey (ref_object t)) bs = Inr rows
        | DecodedLedger rows \<Rightarrow> decode_ledger_sst (host_access_ledger host) (host_from_nanosecond host)
              (host_reserve host) part (TableKey (ref_object t)) bs = Inr rows)"

lemma table_decodes_unique:
  assumes "table_decodes host part t bs d" "table_decodes host part t bs d'"
  shows "d = d'"
proof -
  have "table_store (ref_object t) = StoreDirectory"
    if "decode_directory_sst access reserve part (TableKey (ref_object t)) bs = Inr rows" for access reserve rows
    using that by (simp add: decode_directory_sst_Inr table_at_def)
  moreover have "table_store (ref_object t) = StoreLedger"
    if "decode_ledger_sst access f reserve part (TableKey (ref_object t)) bs = Inr rows" for access f reserve rows
    using decode_ledger_sst_checked [OF that] by (simp add: table_at_def)
  ultimately show ?thesis
    using assms unfolding table_decodes_def by (cases d; cases d') fastforce+
qed

lemma table_decodes_ok: "table_decodes host part t bs d \<Longrightarrow> decoded_ok (table_store (ref_object t)) d"
  by (auto simp: table_decodes_def decoded_ok_def decode_directory_sst_Inr table_at_def sst_rows_ok_def
      split: DecodedTable.split_asm dest: decode_ledger_sst_checked)

lemma read_table_sound:
  assumes ok: "backend_ok contents evolves (host_backend host)" and object: "table_object_ok (ref_object t)"
  shows "\<exists>r w'. read_table host part t w = Some (r, w') \<and> evolves w w'
     \<and> (\<forall>d. r = Inr d \<longrightarrow> (\<exists>bs. contents w' (table_location t) = Some bs \<and> table_decodes host part t bs d))"
proof -
  obtain k where k: "object_key (Some (table_location t)) = Some k" "key_as_str k = table_location t"
    using object_key_valid [OF table_key_valid [OF object]] by blast
  obtain bound where bound: "byte_bound_try_from (nz_get (ref_object_bytes t)) = Inr bound"
    using byte_bound_valid [of "nz_get (ref_object_bytes t)"] by auto
  obtain r w' where r: "io_map_err (typed_store_error host) (read_object (host_backend host) k bound) w = Some (r, w')"
      "object_seen contents evolves (table_location t) (nz_get (byte_bound bound)) w r w'"
    using read_sound [OF ok k] by blast
  note start = read_table_def Let_def k(1) bound io_try_Some [where m = "io_map_err _ (read_object _ _ _)", OF r(1)]
  show ?thesis
  proof (cases "\<exists>raw. r = Inr (Some raw) \<and> length (raw_body raw) = nz_get (ref_object_bytes t)")
    case True
    then obtain raw where raw: "r = Inr (Some raw)" "length (raw_body raw) = nz_get (ref_object_bytes t)" by blast
    with r(2) have "contents w' (table_location t) = Some (raw_body raw)" "evolves w w'"
      by (simp_all add: object_seen_def)
    with raw show ?thesis
      by (cases "table_store (ref_object t)")
        (auto simp: start table_decodes_def map_sum_Inr)
  next
    case False
    have "evolves w w'" using r(2) by (simp add: object_seen_def)
    with False show ?thesis
      by (cases r) (auto simp: start split: option.split)
  qed
qed

lemma establish_table_sound:
  assumes ok: "backend_ok contents evolves (host_backend host)"
    and object: "table_object_ok (key_object key)" and c: "from_encoded key bs = Some c"
  shows "\<exists>r w'. establish_table host c w = Some (r, w') \<and> evolves w w'
     \<and> (r = TableEstablished \<longrightarrow> contents w' (table_location (etable_table c)) = Some (etable_bytes c))"
proof -
  have bs: "bs \<noteq> []" "length bs \<le> SST_OBJECT_BYTES_MAX" using c by (auto simp: from_encoded_def bind_eq_Some_conv)
  from from_encoded_Some [OF bs, of key] c obtain n where
    fields: "etable_key c = key" "etable_table c = TableRef (key_object key) n" "etable_bytes c = bs" "nz_get n = length bs"
    by auto
  let ?location = "table_location (etable_table c)"
  have located: "table_key_display (etable_key c) = ?location" "object_key_validate ?location = Inr ()"
    using table_key_valid [OF object] by (simp_all add: fields)
  obtain r w\<^sub>1 where r: "create_table host c w = Some (r, w\<^sub>1)" "object_created contents evolves ?location bs w r w\<^sub>1"
    using create_sound [OF ok located(2), of bs w] bs typed_bounds(2) le_trans
    unfolding create_table_def located(1) fields(3) by blast
  show ?thesis
  proof (cases "r = Inr Unresolved")
    case False
    with r show ?thesis
      by (cases r) (auto simp: establish_table_def object_created_def fields split: CreateEvidence.split TypedStoreError.split)
  next
    case True
    obtain k where k: "object_key (Some ?location) = Some k" "key_as_str k = ?location"
      using object_key_valid [OF located(2)] by blast
    obtain bound where bound: "byte_bound_try_from (nz_get (ref_object_bytes (etable_table c))) = Inr bound"
      using byte_bound_valid [of "nz_get (ref_object_bytes (etable_table c))"] by auto
    obtain r' w\<^sub>2 where r': "io_map_err (typed_store_error host) (read_object (host_backend host) k bound) w\<^sub>1 = Some (r', w\<^sub>2)"
        "object_seen contents evolves ?location (nz_get (byte_bound bound)) w\<^sub>1 r' w\<^sub>2"
      using read_sound [OF ok k] by blast
    have reconciled: "reconcile_table host c w\<^sub>1 = (case r' of
          Inl e \<Rightarrow> Some (Inl e, w\<^sub>2)
        | Inr seen \<Rightarrow> Some (Inr (case seen of
              Some raw \<Rightarrow> if raw_body raw = etable_bytes c then TableMatch else TableForeign
            | None \<Rightarrow> TableMissing), w\<^sub>2))"
      by (simp add: reconcile_table_def located(1) k(1) bound
          io_try_Some [where m = "io_map_err _ (read_object _ _ _)", OF r'(1)])
    have "evolves w w\<^sub>2"
      using r(2) r'(2) ok unfolding object_created_def object_seen_def backend_defs by (metis transpE)
    with r(1) True r'(2) show ?thesis
      by (cases r') (auto simp: establish_table_def reconciled object_seen_def split: option.split TypedStoreError.split)
  qed
qed

text \<open>A collector may delete a table only if the successor does not select it, and never a FENCE.\<close>

lemma dropped_by_exact:
  "AuthorizedTableDelete object \<in> set (dropped_by input) \<longleftrightarrow>
     object \<in> ref_object ` set (seal_tables (collection_source input))
     \<and> object \<notin> ref_object ` set (seal_tables (collection_successor input))"
  by (auto simp: dropped_by_def Let_def)

section \<open>Evidence is true of the store\<close>

definition memory_host ::
  "(ArchivedSeal \<Rightarrow> bytes list \<times> bool) \<Rightarrow> (bytes \<Rightarrow> ArchivedSeal option)
   \<Rightarrow> (ArchivedWalObject \<Rightarrow> bytes list \<times> bool) \<Rightarrow> (bytes \<Rightarrow> ArchivedWalObject option) \<Rightarrow> (string, bytes) fmap Host" where
  "memory_host serialize_seal access_seal serialize_wal access_wal =
     \<lparr> host_backend = memory_backend, host_text = (\<lambda>_. ''contradiction''), host_room = (\<lambda>_ _. True),
       host_reserve = (\<lambda>_. True), host_from_nanosecond = Some,
       host_serialize_seal = serialize_seal, host_access_seal = access_seal,
       host_serialize_wal = serialize_wal, host_access_wal = access_wal,
       host_access_directory = (\<lambda>_. None), host_access_ledger = (\<lambda>_. None) \<rparr>"

abbreviation grows :: "(string, bytes) fmap \<Rightarrow> (string, bytes) fmap \<Rightarrow> bool" where
  "grows \<equiv> \<lambda>w w'. fmlookup w \<subseteq>\<^sub>m fmlookup w'"

lemma memory_host_ok: "backend_ok fmlookup grows (host_backend (memory_host ss acs sw acw))"
  by (simp add: memory_host_def memory_backend_ok)

text \<open>
  C22. An establishment of a WAL candidate is true of the store. Over a backend that keeps its
  promises \<open>establish_wal\<close> never panics, also when it reconciles an ambiguous create; \<open>Durable\<close> means
  that the candidate's bytes are at the canonical location of its batch, \<open>Occupied\<close> that other bytes
  are, and \<open>UnresolvedAbsent\<close> that nothing was there when it looked.
\<close>

theorem wal_establishment_is_true:
  assumes "backend_ok contents evolves (host_backend host)"
    and "encoded_wal_new enc_wal object = Some (Inr candidate)"
  shows "\<exists>r w'. establish_wal host candidate w = Some (r, w') \<and> evolves w w'
     \<and> (r = Inr WalDurable \<longrightarrow> contents w' (wal_location (ewal_batch candidate)) = Some (ewal_bytes candidate))
     \<and> (r = Inr WalOccupied \<longrightarrow>
          (\<exists>bs. contents w' (wal_location (ewal_batch candidate)) = Some bs \<and> bs \<noteq> ewal_bytes candidate))
     \<and> (r = Inr WalUnresolvedAbsent \<longrightarrow> contents w' (wal_location (ewal_batch candidate)) = None)"
  using establish_wal_sound [OF assms(1) candidates_ok(2) [OF assms(2)]] .

definition bare_host :: "(string, bytes) fmap Host" where
  "bare_host = memory_host (\<lambda>_. ([], False)) (\<lambda>_. None) (\<lambda>_. ([], False)) (\<lambda>_. None)"

lemma bare_host_ok: "backend_ok fmlookup grows (host_backend bare_host)"
  by (simp add: bare_host_def memory_host_ok)

lemma memory_backends [simp]:
  "host_backend (memory_host ss acs sw acw) = memory_backend" "host_backend bare_host = memory_backend"
  by (simp_all add: memory_host_def bare_host_def)

lemma memory_create:
  assumes "object_key_validate location = Inr ()" "fmlookup w location = None"
  shows "\<exists>k. object_key (Some location) = Some k
     \<and> io_map_err f (create_if_absent memory_backend k (PutBody bs)) w = Some (Inr Direct, fmupd location bs w)"
  using object_key_valid [OF assms(1)] assms(2)
  by (auto simp: io_map_err_def create_if_absent_def to_store_path_def memory_backend_def)

theorem wal_establishment_is_true_witness:
  "\<exists>w'. establish_wal bare_host sample_wal fmempty = Some (Inr WalDurable, w')
     \<and> fmlookup w' (wal_location sample_batch) = Some ''r''"
proof -
  have "establish_wal bare_host sample_wal fmempty
      = Some (Inr WalDurable, fmupd (wal_location sample_batch) ''r'' fmempty)"
    using memory_create [OF wal_location_valid [of sample_batch], of fmempty "typed_store_error bare_host" "''r''"]
    by (auto simp: establish_wal_def create_wal_def wal_key_display sample_wal_def put_body_try_from_def
        adapter_bounds io_try_def)
  with wal_establishment_is_true [OF bare_host_ok sample_encoded, of fmempty] show ?thesis
    by (auto simp: sample_wal_def)
qed

text \<open>No operation deletes a Seal, and no other process may.\<close>

definition seals_permanent :: "('w \<Rightarrow> string \<Rightarrow> bytes option) \<Rightarrow> ('w \<Rightarrow> 'w \<Rightarrow> bool) \<Rightarrow> bool" where
  "seals_permanent contents evolves \<longleftrightarrow>
     (\<forall>g w w'. evolves w w' \<longrightarrow> contents w (seal_location g) \<noteq> None \<longrightarrow> contents w' (seal_location g) \<noteq> None)"

text \<open>
  C21. Authorship of a generation is exclusive. If Seals are never deleted, then once
  \<open>publish_authority\<close> has returned \<open>Authored\<close> for a generation, no later publication of that
  generation by any process returns \<open>Authored\<close>, even with the same bytes.
\<close>

theorem authorship_is_exclusive:
  assumes "backend_ok contents evolves (host_backend host)" "backend_ok contents evolves (host_backend other)"
    and "seals_permanent contents evolves"
    and "authority_candidate enc_seal seal = Some (Inr candidate)"
    and "authority_candidate enc_seal' seal' = Some (Inr rival)"
    and "authority_generation rival = authority_generation candidate"
    and "publish_authority host candidate w\<^sub>1 = Some (Inr Authored, w\<^sub>2)" "evolves w\<^sub>2 w\<^sub>3"
  shows "\<exists>r w\<^sub>4. publish_authority other rival w\<^sub>3 = Some (r, w\<^sub>4) \<and> r \<noteq> Inr Authored"
proof -
  have "seal_candidate_ok (authority_encoded candidate)" "seal_candidate_ok (authority_encoded rival)"
    using assms(4,5) typed_candidates_ok(1) by blast+
  note first = publish_sound [OF assms(1) this(1), of w\<^sub>1] and second = publish_sound [OF assms(2) this(2), of w\<^sub>3]
  have held: "contents w\<^sub>2 (seal_location (authority_generation candidate)) \<noteq> None"
    using first assms(7) by auto
  obtain r w\<^sub>4 where r: "publish_authority other rival w\<^sub>3 = Some (r, w\<^sub>4)"
      "r = Inr Authored \<longrightarrow> (\<exists>w\<^sub>0. evolves w\<^sub>3 w\<^sub>0 \<and> contents w\<^sub>0 (seal_location (authority_generation candidate)) = None)"
    using second assms(6) by auto
  then show ?thesis using held assms(3,8) unfolding seals_permanent_def by blast
qed

lemma memory_seals_permanent: "seals_permanent fmlookup grows"
  unfolding seals_permanent_def by (metis domIff map_le_def)

theorem authorship_is_exclusive_witness:
  "\<exists>c w\<^sub>2 w\<^sub>4 r. authority_candidate one_byte_seal sample_claimed = Some (Inr c)
     \<and> publish_authority bare_host c fmempty = Some (Inr Authored, w\<^sub>2)
     \<and> publish_authority bare_host c w\<^sub>2 = Some (r, w\<^sub>4) \<and> r \<noteq> Inr Authored"
proof -
  let ?c = "EncodedAuthoritySeal \<lparr> eseal_seal = sample_claimed, eseal_bytes = ''s'' \<rparr>"
  let ?w = "fmupd (seal_location (authority_generation ?c)) ''s'' fmempty"
  have c: "authority_candidate one_byte_seal sample_claimed = Some (Inr ?c)"
    by (simp add: authority_candidate_def encoded_seal_new_def one_byte_seal_def assert_candidate_bytes_def
        sample_claimed_fields seal_generation_genesis_def nz_eq_iff u64_max_def bound_defs)
  have authored: "publish_authority bare_host ?c fmempty = Some (Inr Authored, ?w)"
    using memory_create [OF seal_location_valid [of "authority_generation ?c"], of fmempty "typed_store_error bare_host" "''s''"]
    by (auto simp: publish_authority_def create_seal_def seal_key_display put_body_try_from_def
        adapter_bounds io_try_def)
  from authorship_is_exclusive [OF bare_host_ok bare_host_ok memory_seals_permanent c c refl authored, of ?w]
  show ?thesis using c authored by auto
qed

text \<open>
  C23. The newest key of a namespace is the newest object. Over a backend that keeps its promises the
  one-key listings of Seals and of WAL objects never panic; a generation or batch they return is there
  and none later is, and they return none only when the namespace holds no object.
\<close>

theorem newest_listing_is_newest:
  assumes "backend_ok contents evolves (host_backend host)"
  shows "(\<exists>r w'. newest_generation host w = Some (r, w') \<and> evolves w w'
       \<and> (\<forall>g. r = Inr (Some g) \<longrightarrow> contents w' (seal_location g) \<noteq> None
            \<and> (\<forall>h. contents w' (seal_location h) \<noteq> None \<longrightarrow> h \<le> g))
       \<and> (r = Inr None \<longrightarrow> (\<forall>h. contents w' (seal_location h) = None)))
     \<and> (\<exists>r w'. newest_surviving_batch host w = Some (r, w') \<and> evolves w w'
       \<and> (\<forall>b. r = Inr (Some b) \<longrightarrow> contents w' (wal_location b) \<noteq> None
            \<and> (\<forall>c. contents w' (wal_location c) \<noteq> None \<longrightarrow> c \<le> b))
       \<and> (r = Inr None \<longrightarrow> (\<forall>c. contents w' (wal_location c) = None)))"
  by (rule conjI [OF newest_generation_sound [OF assms] newest_surviving_batch_sound [OF assms]])

theorem newest_listing_is_newest_witness:
  "\<exists>w'. newest_generation bare_host (fmupd (seal_location seal_generation_genesis) ''s'' fmempty)
         = Some (Inr (Some seal_generation_genesis), w')
     \<and> (\<forall>h. fmlookup w' (seal_location h) \<noteq> None \<longrightarrow> h \<le> seal_generation_genesis)"
proof -
  let ?l = "seal_location seal_generation_genesis" let ?w = "fmupd ?l ''s'' fmempty"
  obtain k where k: "object_key (Some (seal_namespace_display SealNamespace)) = Some k"
      "key_as_str k = seal_namespace_display SealNamespace"
    using object_key_valid [OF namespaces_valid(1)] by blast
  have "object_key_validate ?l = Inr ()" by (rule seal_location_valid)
  then have parsed: "parse_listed_key ?l = Inr (key_of ?l)" "key_as_str (key_of ?l) = ?l"
    by (simp_all add: parse_listed_key_def object_key_try_from_def key_of.rep_eq)
  have "{location \<in> fmdom' ?w. below (seal_namespace_display SealNamespace) None location} = {?l}"
    using seal_namespace.location_below by auto
  then have "newest_generation bare_host ?w = Some (Inr (Some seal_generation_genesis), ?w)"
    using seal_key.from_str_Inr [of ?l "SealKey seal_generation_genesis"]
    by (simp add: newest_generation_def k io_try_def io_map_err_def list_page_def to_store_path_def bare_host_def
        memory_host_def memory_backend_def parsed newest_keys_bound_def keys_bound_try_from_def nz_new_def u64_max_def
        adapter_bounds seal_key_display)
  with newest_listing_is_newest [OF bare_host_ok, of ?w] show ?thesis by auto
qed

end
