(* ===== verification/Bootstrap_Driver.thy ===== *)
theory Bootstrap_Driver
  imports Store_Evidence
begin

text \<open>
  The sequential interpreter of the bootstrap machine, \<open>strom-storage-engine/src/bootstrap.rs\<close>: it
  executes each effect on the typed stores and feeds the completion back until the machine completes
  or exits. The loop has no bound of its own; over a store that keeps its promises it is shown to
  return, never to panic, and to be a run of the machine in which every completion is true of the
  store.
\<close>

section \<open>The interpreter\<close>

definition complete_event :: "TypedStoreError + 'a \<Rightarrow> ('a \<Rightarrow> BootstrapEvent) \<Rightarrow> BootstrapEvent" where
  "complete_event result succeeded =
     (case result of Inr value \<Rightarrow> succeeded value | Inl error \<Rightarrow> StoreFailed error)"

definition completed :: "('w, TypedStoreError + 'a) io \<Rightarrow> ('a \<Rightarrow> BootstrapEvent) \<Rightarrow> ('w, BootstrapEvent) io" where
  "completed operation succeeded w =
     do { (result, w) \<leftarrow> operation w; Some (complete_event result succeeded, w) }"

definition execute_effect :: "'w Host \<Rightarrow> BootstrapEffect \<Rightarrow> ('w, BootstrapEvent) io" where
  "execute_effect host effect =
     (case effect of
        ObserveHead \<Rightarrow> completed (newest_generation host) HeadObserved
      | EstablishGenesis candidate \<Rightarrow> completed (store_establish_genesis host candidate) GenesisEstablishedEvent
      | ReadSeal generation \<Rightarrow> completed (read_seal host generation) SealRead
      | PublishClaim candidate \<Rightarrow> completed (publish_authority host candidate) ClaimPublished
      | ReadTable part table \<Rightarrow> completed (read_table host part table) (TableRead table)
      | ObserveWalTail \<Rightarrow> completed (newest_surviving_batch host) WalTailObserved
      | ReadWal part batch \<Rightarrow>
          completed (read_wal host part batch) (\<lambda>observed. WalRead (map_option observed_object observed))
      | EstablishFence candidate \<Rightarrow> completed (establish_wal host candidate) FenceEstablished)"

text \<open>The encoders of the host: the codecs over its serializers and its allocator.\<close>

definition host_seal :: "'w Host \<Rightarrow> seal_encoder" where
  "host_seal host = encode_seal (host_serialize_seal host) (host_room host)"

definition host_wal :: "'w Host \<Rightarrow> wal_encoder" where
  "host_wal host = encode_wal (host_serialize_wal host) (host_room host)"

partial_function (option) bootstrap_loop ::
  "'w Host \<Rightarrow> BootstrapMachine \<Rightarrow> BootstrapStep \<Rightarrow> 'w \<Rightarrow> ((BootstrapExit + WriterRecovery) \<times> 'w) option" where
  "bootstrap_loop host machine step w =
     (case step of
        BootEffect effect \<Rightarrow>
          do { (event, w) \<leftarrow> execute_effect host effect w;
               (machine, step) \<leftarrow> bootstrap_handle (host_seal host) (host_wal host) machine event;
               bootstrap_loop host machine step w }
      | BootComplete recovery \<Rightarrow> Some (Inr recovery, w)
      | BootExit exit \<Rightarrow> Some (Inl exit, w))"

text \<open>The sixteen bytes that the random generator filled in.\<close>

definition mint_partition_id :: "bytes \<Rightarrow> PartitionId option" where
  "mint_partition_id drawn =
     (let octets = (if drawn = replicate 16 (CHR 0x00) then drawn[15 := CHR 0x01] else drawn) in
      expect_ok (partition_try_from octets))"

definition bootstrap :: "'w Host \<Rightarrow> bytes \<Rightarrow> 'w \<Rightarrow> ((BootstrapExit + WriterRecovery) \<times> 'w) option" where
  "bootstrap host drawn w =
     do { part \<leftarrow> mint_partition_id drawn;
          (machine, step) \<leftarrow> bootstrap_handle (host_seal host) (host_wal host) bootstrap_new (BootStarted part);
          bootstrap_loop host machine step w }"

lemma mint_partition_id_total: "length drawn = 16 \<Longrightarrow> \<exists>p. mint_partition_id drawn = Some p"
  by (auto simp: mint_partition_id_def Let_def partition_try_from_def dest: arg_cong [where f = "\<lambda>xs. xs ! 15"])

section \<open>What a step of the machine passes on\<close>

definition fence_object :: "LoadedBootstrap \<Rightarrow> TakeoverFence \<Rightarrow> WalObject" where
  "fence_object l f = \<lparr> wal_partition = seal_partition (claimed_seal (loaded_claimed l)),
     wal_batch = fence_batch f, wal_owner = claim_owner (claimed_claim (loaded_claimed l)), wal_body = WalFence \<rparr>"

fun fence_of :: "BootstrapState \<Rightarrow> WalObject option" where
  "fence_of (EstablishingFence l f) = Some (fence_object l f)"
| "fence_of (Replaying r) = Some (fence_object (replay_loaded r) (replay_fence r))"
| "fence_of _ = None"

fun claimed_of :: "BootstrapState \<Rightarrow> Seal option" where
  "claimed_of (ReadingTable load _) = Some (claimed_seal (load_claimed load))"
| "claimed_of (ObservingWalTail l _) = Some (claimed_seal (loaded_claimed l))"
| "claimed_of (ReadingWalTail l _ _) = Some (claimed_seal (loaded_claimed l))"
| "claimed_of (EstablishingFence l _) = Some (claimed_seal (loaded_claimed l))"
| "claimed_of (Replaying r) = Some (claimed_seal (loaded_claimed (replay_loaded r)))"
| "claimed_of (RefreshingFinal r) = Some (recovery_seal r)"
| "claimed_of _ = None"

text \<open>An issued candidate was constructed, and the candidate of a FENCE encodes the FENCE of the state.\<close>

definition candidate_issued :: "wal_encoder \<Rightarrow> BootstrapState \<Rightarrow> BootstrapEffect \<Rightarrow> bool" where
  "candidate_issued enc_wal state eff \<longleftrightarrow>
     (case eff of
        EstablishGenesis c \<Rightarrow> seal_candidate_ok (genesis_encoded c)
      | PublishClaim c \<Rightarrow> seal_candidate_ok (authority_encoded c)
      | EstablishFence c \<Rightarrow> \<exists>object. fence_of state = Some object \<and> encoded_wal_new enc_wal object = Some (Inr c)
      | _ \<Rightarrow> True)"

definition linked :: "wal_encoder \<Rightarrow> BootstrapState \<Rightarrow> BootstrapEvent \<Rightarrow> BootstrapState \<Rightarrow> BootstrapEffect \<Rightarrow> bool" where
  "linked enc_wal s e s' eff \<longleftrightarrow>
     candidate_issued enc_wal s' eff
     \<and> (\<forall>r'. s' = Replaying r' \<longrightarrow> fence_of s' = fence_of s \<and> (e = FenceEstablished WalDurable \<or> (\<exists>r. s = Replaying r)))
     \<and> (\<forall>c. claimed_of s' = Some c \<longrightarrow>
          claimed_of s = Some c \<or> (\<exists>sources. s = PublishingClaim c sources \<and> e = ClaimPublished Authored))
     \<and> (case s' of
          ReadingSeal g \<Rightarrow> e = HeadObserved (Some g) \<or> (\<exists>p. s = EstablishingGenesis p)
        | EstablishingGenesis p \<Rightarrow> s = DiscoveringHead p \<and> e = HeadObserved None
        | DiscoveringHead p \<Rightarrow> s = EstablishingGenesis p \<and> e = lost_race \<or> s = BootInitial
        | _ \<Rightarrow> True)"

definition passes :: "wal_encoder \<Rightarrow> BootstrapState \<Rightarrow> BootstrapEvent \<Rightarrow> boot_result \<Rightarrow> bool" where
  "passes enc_wal s e result \<longleftrightarrow>
     (\<forall>s' eff. result = Some (\<lparr> bm_state = Some s' \<rparr>, BootEffect eff) \<longrightarrow> linked enc_wal s e s' eff)"

lemma passes_simps [simp]:
  "passes enc_wal s e None" "passes enc_wal s e (boot_exit x)" "passes enc_wal s e (boot_complete r)"
  "passes enc_wal s e (refresh_anomaly c d)"
  "passes enc_wal s e (boot_effect s' eff) \<longleftrightarrow> linked enc_wal s e s' eff"
  by (auto simp: passes_def boot_exit_def boot_complete_def refresh_anomaly_def boot_effect_def linked_def
      candidate_issued_def)

lemma read_next_table_passes:
  assumes "claimed_of s = Some (claimed_seal (load_claimed load))
     \<or> (\<exists>sources. s = PublishingClaim (claimed_seal (load_claimed load)) sources \<and> e = ClaimPublished Authored)"
  shows "passes enc_wal s e (read_next_table load)"
  using assms by (auto simp: read_next_table_def linked_def candidate_issued_def split: list.split sum.split)

lemma establish_fence_passes:
  assumes "claimed_of s = Some (claimed_seal (loaded_claimed l))"
  shows "passes enc_wal s e (establish_fence enc_wal l f)"
  using assms
  by (cases "encoded_wal_new enc_wal (fence_object l f)")
    (auto simp: establish_fence_def linked_def candidate_issued_def fence_object_def split: sum.split)

lemma handle_seal_passes: "passes enc_wal s (SealRead r) (handle_seal enc_seal s r)"
proof (cases r)
  case None
  then show ?thesis by (cases s) (simp_all add: handle_seal_def)
next
  case (Some head)
  have "passes enc_wal s (SealRead r)
      (do { encoding \<leftarrow> authority_candidate enc_seal c;
            case encoding of
              Inr encoded \<Rightarrow> boot_effect (PublishingClaim c sources) (PublishClaim encoded)
            | Inl source \<Rightarrow> boot_exit (x source) })" for c sources x
    by (cases "authority_candidate enc_seal c")
      (auto simp: linked_def candidate_issued_def intro: typed_candidates_ok(1) split: sum.split)
  with Some show ?thesis by (cases s) (auto simp: handle_seal_def split: sum.split)
qed

lemma handle_head_passes: "passes enc_wal s (HeadObserved r) (handle_head enc_seal s r)"
proof -
  have "passes enc_wal (DiscoveringHead p) (HeadObserved None) (establish_genesis enc_seal p)" for p
  proof (cases "expect_ok (seal_new p seal_generation_genesis ReplayGenesis tree_empty tree_empty)")
    case None
    then show ?thesis by (simp add: establish_genesis_def)
  next
    case (Some genesis)
    then show ?thesis
      by (cases "genesis_candidate enc_seal genesis")
        (auto simp: establish_genesis_def linked_def candidate_issued_def intro: typed_candidates_ok(2) split: sum.split)
  qed
  then show ?thesis
    by (cases s; cases r) (auto simp: handle_head_def linked_def candidate_issued_def)
qed

lemma handle_replay_passes: "passes enc_wal (Replaying r) e (handle_replay_read r observed)"
proof -
  have "passes enc_wal (Replaying r) e (replay_advance r owner durable)" for owner durable
    by (cases "Some (claim_owner (claimed_claim (loaded_claimed (replay_loaded r)))) = owner")
      (auto simp: replay_advance_def Let_def linked_def candidate_issued_def fence_object_def split: sum.split)
  then have "passes enc_wal (Replaying r) e (replay_body r object \<bind> (\<lambda>folded. case folded of
      Inl detail \<Rightarrow> refresh_anomaly c detail | Inr (owner, durable) \<Rightarrow> replay_advance r owner durable))" for object c
    by (cases "replay_body r object") (auto split: sum.split)
  then show ?thesis
    by (cases observed) (auto simp: handle_replay_read_def Let_def require_def)
qed

lemma handle_wal_tail_passes: "passes enc_wal s (WalTailObserved r) (handle_wal_tail enc_wal s r)"
  by (cases s) (auto simp: handle_wal_tail_def Let_def linked_def candidate_issued_def
      intro!: establish_fence_passes split: sum.split option.split)

lemma handle_fence_passes: "passes enc_wal s (FenceEstablished r) (handle_fence s r)"
  by (cases s; cases r) (auto simp: handle_fence_def Let_def linked_def candidate_issued_def split: sum.split)

lemma handle_table_passes: "passes enc_wal s (TableRead t d) (handle_table s t d)"
proof (cases s)
  case (ReadingTable load source)
  have "passes enc_wal s (TableRead t d) (read_next_table load')"
    if "merge_decoded load source d = Some (Inr load')" for load'
    using merge_decoded_read [OF that] ReadingTable by (intro read_next_table_passes) simp
  then show ?thesis
    using ReadingTable by (cases "merge_decoded load source d") (auto simp: handle_table_def require_def split: sum.split)
qed (simp_all add: handle_table_def)

lemma handle_claim_passes: "passes enc_wal s (ClaimPublished r) (handle_claim s r)"
  by (cases s; cases r) (auto simp: handle_claim_def intro!: read_next_table_passes)

lemma bootstrap_handle_passes:
  "passes enc_wal s e (bootstrap_handle enc_seal enc_wal \<lparr> bm_state = Some s \<rparr> e)"
proof (cases e)
  case (WalRead observed)
  have "passes enc_wal (ReadingWalTail l f tail) e (handle_tail_read enc_wal l f tail observed)" for l f tail
    by (cases observed) (auto simp: handle_tail_read_def require_def intro!: establish_fence_passes)
  with WalRead handle_replay_passes show ?thesis
    by (cases s) (auto simp: bootstrap_handle_def handle_wal_read_def)
next
  case (GenesisEstablishedEvent r)
  then show ?thesis
    by (cases s; cases r) (auto simp: bootstrap_handle_def handle_genesis_def linked_def candidate_issued_def)
next
  case (StoreFailed err)
  then show ?thesis
    by (cases s; cases err) (auto simp: bootstrap_handle_def handle_store_failure_def)
qed (auto simp: bootstrap_handle_def handle_head_passes handle_seal_passes handle_claim_passes handle_table_passes
      handle_wal_tail_passes handle_fence_passes require_def linked_def candidate_issued_def)

section \<open>Completions are true of the store\<close>

text \<open>
  What the interpreter relies on: the backend keeps its promises, the archive library reads back what
  it wrote, and the timestamp library is exact. Seals are never deleted.
\<close>

definition host_ok :: "('w \<Rightarrow> string \<Rightarrow> bytes option) \<Rightarrow> ('w \<Rightarrow> 'w \<Rightarrow> bool) \<Rightarrow> 'w Host \<Rightarrow> bool" where
  "host_ok contents evolves host \<longleftrightarrow>
     backend_ok contents evolves (host_backend host)
     \<and> rkyv_faithful (host_serialize_seal host) (host_access_seal host)
     \<and> rkyv_faithful (host_serialize_wal host) (host_access_wal host)
     \<and> nanosecond_exact (host_from_nanosecond host)"

lemma host_ok_order: "host_ok contents evolves host \<Longrightarrow> evolves w w"
  "host_ok contents evolves host \<Longrightarrow> evolves w w' \<Longrightarrow> evolves w' w'' \<Longrightarrow> evolves w w''"
  by (auto simp: host_ok_def backend_defs dest: reflpD transpD)

lemma host_encoders: "host_ok contents evolves host \<Longrightarrow> boot_encoders_ok (host_seal host) (host_wal host)"
  by (auto simp: host_ok_def host_seal_def host_wal_def intro: codecs_boot_encoders)

definition was_at ::
  "('w \<Rightarrow> string \<Rightarrow> bytes option) \<Rightarrow> ('w \<Rightarrow> 'w \<Rightarrow> bool) \<Rightarrow> 'w \<Rightarrow> string \<Rightarrow> bytes \<Rightarrow> bool" where
  "was_at contents evolves w location bs \<longleftrightarrow> (\<exists>w\<^sub>0. evolves w\<^sub>0 w \<and> contents w\<^sub>0 location = Some bs)"

abbreviation wal_reads :: "'w Host \<Rightarrow> bytes \<Rightarrow> WalObject \<Rightarrow> bool" where
  "wal_reads host bs x \<equiv>
     decode_wal (host_access_wal host) (host_from_nanosecond host) (wal_partition x) (wal_batch x) bs = Inr x"

definition true_event ::
  "'w Host \<Rightarrow> ('w \<Rightarrow> string \<Rightarrow> bytes option) \<Rightarrow> BootstrapState \<Rightarrow> BootstrapEvent \<Rightarrow> 'w \<Rightarrow> bool" where
  "true_event host contents state event w \<longleftrightarrow>
     (case event of
        HeadObserved None \<Rightarrow> \<forall>g. contents w (seal_location g) = None
      | HeadObserved (Some g) \<Rightarrow> \<forall>h. contents w (seal_location h) \<noteq> None \<longrightarrow> h \<le> g
      | GenesisEstablishedEvent r \<Rightarrow>
          r \<noteq> GenesisUnresolved \<longrightarrow> contents w (seal_location seal_generation_genesis) \<noteq> None
      | SealRead (Some s) \<Rightarrow> \<exists>bs. contents w (seal_location (seal_generation s)) = Some bs
          \<and> decode_seal (host_access_seal host) (seal_generation s) bs = Inr s
      | ClaimPublished Authored \<Rightarrow> \<forall>c sources. state = PublishingClaim c sources \<longrightarrow>
          contents w (seal_location (seal_generation c)) \<noteq> None
      | TableRead t d \<Rightarrow> \<exists>bs c. claimed_of state = Some c \<and> contents w (table_location t) = Some bs
          \<and> table_decodes host (seal_partition c) t bs d
      | WalRead (Some x) \<Rightarrow> \<exists>bs. contents w (wal_location (wal_batch x)) = Some bs \<and> wal_reads host bs x
      | FenceEstablished WalDurable \<Rightarrow> \<forall>object. fence_of state = Some object \<longrightarrow>
          (\<exists>bs. host_wal host object = Inr bs \<and> contents w (wal_location (wal_batch object)) = Some bs)
      | _ \<Rightarrow> True)"

lemma completed_Some: "operation w = Some (r, w') \<Longrightarrow> completed operation f w = Some (complete_event r f, w')"
  by (simp add: completed_def)

definition delivers ::
  "'w Host \<Rightarrow> ('w \<Rightarrow> string \<Rightarrow> bytes option) \<Rightarrow> ('w \<Rightarrow> 'w \<Rightarrow> bool) \<Rightarrow> BootstrapState \<Rightarrow> 'w
   \<Rightarrow> (BootstrapEvent \<times> 'w) option \<Rightarrow> bool" where
  "delivers host contents evolves state w result \<longleftrightarrow>
     (\<exists>e w'. result = Some (e, w') \<and> evolves w w' \<and> boot_event_ok state e \<and> true_event host contents state e w')"

text \<open>An operation that returns delivers; a failure is a completion that every waiting state accepts.\<close>

lemma delivers_completed:
  assumes "operation w = Some (r, w')" "evolves w w'" "state \<noteq> BootInitial" "state \<noteq> BootCompleteState"
    and "\<And>x. r = Inr x \<Longrightarrow> boot_event_ok state (f x) \<and> true_event host contents state (f x) w'"
  shows "delivers host contents evolves state w (completed operation f w)"
  using assms
  by (cases r) (auto simp: delivers_def completed_Some complete_event_def boot_event_ok_def true_event_def)

lemma delivers_head:
  assumes "host_ok contents evolves host"
    and "state = DiscoveringHead p \<or> state = RefreshingAnomaly c detail \<or> state = RefreshingFinal recovery"
  shows "delivers host contents evolves state w (completed (newest_generation host) HeadObserved w)"
proof -
  obtain r w' where r: "newest_generation host w = Some (r, w')" "evolves w w'"
      "\<And>g h. r = Inr (Some g) \<Longrightarrow> contents w' (seal_location h) \<noteq> None \<Longrightarrow> h \<le> g"
      "\<And>h. r = Inr None \<Longrightarrow> contents w' (seal_location h) = None"
    using newest_generation_sound [of contents evolves host w] assms(1) unfolding host_ok_def by blast
  show ?thesis
  proof (rule delivers_completed [where r = r and w' = w'])
    fix x assume "r = Inr x"
    with r(3,4) assms(2)
    show "boot_event_ok state (HeadObserved x) \<and> true_event host contents state (HeadObserved x) w'"
      by (cases x) (auto simp: boot_event_ok_def true_event_def)
  qed (use r(1,2) assms(2) in auto)
qed

lemma delivers_genesis:
  assumes "host_ok contents evolves host" "seal_candidate_ok (genesis_encoded c)"
    and "seal_generation (eseal_seal (genesis_encoded c)) = seal_generation_genesis"
  shows "delivers host contents evolves (EstablishingGenesis p) w
    (completed (store_establish_genesis host c) GenesisEstablishedEvent w)"
proof -
  obtain r w' where r: "store_establish_genesis host c w = Some (r, w')" "evolves w w'"
      "r = Inr GenesisEstablished \<Longrightarrow> contents w' (seal_location seal_generation_genesis) \<noteq> None"
      "r = Inr GenesisLostRace \<Longrightarrow> contents w' (seal_location seal_generation_genesis) \<noteq> None"
    using genesis_sound [of contents evolves host c w] assms unfolding host_ok_def by auto
  show ?thesis
  proof (rule delivers_completed [where r = r and w' = w'])
    fix x assume "r = Inr x"
    with r(3,4) show "boot_event_ok (EstablishingGenesis p) (GenesisEstablishedEvent x)
        \<and> true_event host contents (EstablishingGenesis p) (GenesisEstablishedEvent x) w'"
      by (cases x) (auto simp: boot_event_ok_def true_event_def)
  qed (use r(1,2) in auto)
qed

lemma delivers_seal:
  assumes "host_ok contents evolves host"
  shows "delivers host contents evolves (ReadingSeal g) w (completed (read_seal host g) SealRead w)"
proof -
  obtain r w' where r: "read_seal host g w = Some (r, w')" "evolves w w'"
      "\<And>s. r = Inr (Some s) \<Longrightarrow> \<exists>bs. contents w' (seal_location g) = Some bs
         \<and> decode_seal (host_access_seal host) g bs = Inr s"
    using read_seal_sound [of contents evolves host g w] assms unfolding host_ok_def by blast
  show ?thesis
  proof (rule delivers_completed [where r = r and w' = w'])
    fix x assume "r = Inr x"
    with r(3) show "boot_event_ok (ReadingSeal g) (SealRead x) \<and> true_event host contents (ReadingSeal g) (SealRead x) w'"
      by (cases x) (auto simp: boot_event_ok_def true_event_def decode_seal_Inr seal_ok_def)
  qed (use r(1,2) in auto)
qed

lemma delivers_claim:
  assumes "host_ok contents evolves host" "seal_candidate_ok (authority_encoded e)" "authority_seal e = c"
  shows "delivers host contents evolves (PublishingClaim c sources) w
    (completed (publish_authority host e) ClaimPublished w)"
proof -
  obtain r w' where r: "publish_authority host e w = Some (r, w')" "evolves w w'"
      "r = Inr Authored \<Longrightarrow> contents w' (seal_location (authority_generation e)) \<noteq> None"
    using publish_sound [of contents evolves host e w] assms unfolding host_ok_def by auto
  show ?thesis
  proof (rule delivers_completed [where r = r and w' = w'])
    fix x assume "r = Inr x"
    with r(3) assms(3) show "boot_event_ok (PublishingClaim c sources) (ClaimPublished x)
        \<and> true_event host contents (PublishingClaim c sources) (ClaimPublished x) w'"
      by (cases x) (auto simp: boot_event_ok_def true_event_def authority_generation_def authority_seal_def)
  qed (use r(1,2) in auto)
qed

lemma delivers_table:
  assumes "host_ok contents evolves host" "table_object_ok (ref_object (planned_table source))"
    and "part = seal_partition (claimed_seal (load_claimed load))" "t = planned_table source"
  shows "delivers host contents evolves (ReadingTable load source) w
    (completed (read_table host part t) (TableRead t) w)"
proof -
  obtain r w' where r: "read_table host part t w = Some (r, w')" "evolves w w'"
      "\<And>d. r = Inr d \<Longrightarrow> \<exists>bs. contents w' (table_location t) = Some bs \<and> table_decodes host part t bs d"
    using read_table_sound [of contents evolves host t part w] assms unfolding host_ok_def by blast
  show ?thesis
  proof (rule delivers_completed [where r = r and w' = w'])
    fix d assume "r = Inr d"
    with r(3) [of d] assms(3,4) table_decodes_ok
    show "boot_event_ok (ReadingTable load source) (TableRead t d)
        \<and> true_event host contents (ReadingTable load source) (TableRead t d) w'"
      by (auto simp: boot_event_ok_def true_event_def)
  qed (use r(1,2) in auto)
qed

lemma delivers_tail:
  assumes "host_ok contents evolves host"
  shows "delivers host contents evolves (ObservingWalTail l occupied) w
    (completed (newest_surviving_batch host) WalTailObserved w)"
proof -
  obtain r w' where "newest_surviving_batch host w = Some (r, w')" "evolves w w'"
    using newest_surviving_batch_sound [of contents evolves host w] assms unfolding host_ok_def by blast
  then show ?thesis
    by (intro delivers_completed [where r = r and w' = w']) (auto simp: boot_event_ok_def true_event_def)
qed

lemma wal_reads_iff:
  assumes "decode_wal access from_nanosecond part b bs = Inr x"
  shows "wal_partition x = part \<and> wal_batch x = b"
  using wal_decoder.decode_checked [of access from_nanosecond "(part, b)"] assms by auto

text \<open>
  A WAL read delivers the object at the coordinate. At the coordinate of the FENCE that is the FENCE
  this bootstrap established: its bytes were there, and locations are immutable.
\<close>

lemma archive_wal_inject: "archive_wal x = archive_wal y \<longleftrightarrow> x = y"
proof
  assume eq: "archive_wal x = archive_wal y"
  then have "archive_partition (wal_partition x) = archive_partition (wal_partition y)"
    "archive_batch (wal_batch x) = archive_batch (wal_batch y)"
    "archive_owner (wal_owner x) = archive_owner (wal_owner y)"
    "wal_body x = wal_body y"
    by (simp_all add: archive_wal_def archive_body_inject)
  then have "wal_partition x = wal_partition y" "wal_batch x = wal_batch y" "wal_owner x = wal_owner y"
    by (metis partition_try_from_archived_Inr sum.inject(2), (metis archived_field_reads)+)
  with \<open>wal_body x = wal_body y\<close> show "x = y" by simp
qed simp

lemma encoded_reads_back:
  assumes "host_ok contents evolves host" "host_wal host object = Inr bs"
    and "decode_wal (host_access_wal host) (host_from_nanosecond host) part b bs = Inr x"
  shows "x = object"
proof -
  have "host_access_wal host bs = Some (archive_wal object)"
    using encode_wal_Inr [of "host_serialize_wal host" "host_room host" object bs] assms(1,2)
    unfolding host_ok_def rkyv_faithful_def host_wal_def by auto
  with assms(1,3) have "archive_wal x = archive_wal object"
    unfolding host_ok_def by (metis decode_wal_Inr option.inject)
  then show ?thesis by (simp add: archive_wal_inject)
qed

lemma delivers_wal:
  assumes ok: "host_ok contents evolves host" and imm: "immutable contents evolves"
    and state: "state = ReadingWalTail l f b \<or> state = Replaying r \<and> l = replay_loaded r \<and> b = replay_next r"
    and part: "part = seal_partition (claimed_seal (loaded_claimed l))"
    and fence: "\<And>r. state = Replaying r \<Longrightarrow> \<exists>bs. host_wal host (fence_object (replay_loaded r) (replay_fence r)) = Inr bs
      \<and> was_at contents evolves w (wal_location (fence_batch (replay_fence r))) bs"
  shows "delivers host contents evolves state w
    (completed (read_wal host part b) (\<lambda>seen. WalRead (map_option observed_object seen)) w)"
proof -
  obtain res w' where res: "read_wal host part b w = Some (res, w')" "evolves w w'"
      "\<And>x. res = Inr (Some x) \<Longrightarrow> contents w' (wal_location b) = Some (body_slice (observed_bytes x))
         \<and> decode_wal (host_access_wal host) (host_from_nanosecond host) part b (body_slice (observed_bytes x))
             = Inr (observed_object x)"
    using read_wal_sound [of contents evolves host part b w] ok unfolding host_ok_def by blast
  show ?thesis
  proof (rule delivers_completed [where r = res and w' = w'])
    fix seen assume seen: "res = Inr seen"
    show "boot_event_ok state (WalRead (map_option observed_object seen))
        \<and> true_event host contents state (WalRead (map_option observed_object seen)) w'"
    proof (cases seen)
      case None
      with state show ?thesis by (auto simp: boot_event_ok_def true_event_def read_ok_def)
    next
      case (Some x)
      with seen have "res = Inr (Some x)" by simp
      note x = res(3) [OF this]
      note located = wal_reads_iff [OF conjunct2 [OF x]]
      have "observed_object x = fence_object (replay_loaded r) (replay_fence r)"
        if r: "state = Replaying r" "replay_next r = fence_batch (replay_fence r)" for r
      proof -
        obtain bs w\<^sub>0 where bs: "host_wal host (fence_object (replay_loaded r) (replay_fence r)) = Inr bs"
            "evolves w\<^sub>0 w" "contents w\<^sub>0 (wal_location (fence_batch (replay_fence r))) = Some bs"
          using fence [OF r(1)] unfolding was_at_def by blast
        moreover have "b = fence_batch (replay_fence r)" using r state by auto
        ultimately have "body_slice (observed_bytes x) = bs"
          using imm x host_ok_order(2) [OF ok bs(2) res(2)] unfolding immutable_def by metis
        with x encoded_reads_back [OF ok bs(1)] show ?thesis by blast
      qed
      with Some x located state part show ?thesis
        by (auto simp: boot_event_ok_def true_event_def read_ok_def fence_object_def)
    qed
  qed (use res(1,2) state in auto)
qed

lemma delivers_fence:
  assumes "host_ok contents evolves host" "encoded_wal_new (host_wal host) (fence_object l f) = Some (Inr c)"
  shows "delivers host contents evolves (EstablishingFence l f) w (completed (establish_wal host c) FenceEstablished w)"
proof -
  have c: "host_wal host (fence_object l f) = Inr (ewal_bytes c)" "ewal_batch c = wal_batch (fence_object l f)"
    using assms(2) by (auto simp: encoded_wal_new_def bind_eq_Some_conv split: sum.split_asm)
  obtain r w' where r: "establish_wal host c w = Some (r, w')" "evolves w w'"
      "r = Inr WalDurable \<Longrightarrow> contents w' (wal_location (ewal_batch c)) = Some (ewal_bytes c)"
    using establish_wal_sound [OF _ candidates_ok(2) [OF assms(2)], of contents evolves host w] assms(1)
    unfolding host_ok_def by blast
  show ?thesis
  proof (rule delivers_completed [where r = r and w' = w'])
    fix x assume "r = Inr x"
    with r(3) c show "boot_event_ok (EstablishingFence l f) (FenceEstablished x)
        \<and> true_event host contents (EstablishingFence l f) (FenceEstablished x) w'"
      by (cases x) (auto simp: boot_event_ok_def true_event_def)
  qed (use r(1,2) in auto)
qed

end
