(* ===== verification/Driver_Theorems.thy ===== *)
theory Driver_Theorems
  imports Bootstrap_Driver
begin

text \<open>
  The interpreter of bootstrap over a lawful store: its loop is a run of the machine whose every
  completion is true of the store, it never panics, and it returns.
\<close>

section \<open>What the interpreter keeps\<close>

lemma planned_tables: "planned_table ` set (planned seal) = set (seal_tables seal)"
proof -
  have "planned_table ` set (tree_sources tree) = set (tree_tables tree)" for tree
  proof -
    have "planned_table ` set (run_sources run) = set (run_tables run)" for run
      using run_sources_tables [of run] by (metis set_map)
    then show ?thesis by (simp add: tree_sources_def tree_tables_def image_UN)
  qed
  then show ?thesis by (simp add: planned_def seal_tables_def image_Un)
qed

lemma seal_ok_tables: "seal_ok s \<Longrightarrow> t \<in> set (seal_tables s) \<Longrightarrow> table_object_ok (ref_object t)"
  by (auto simp: seal_ok_def tree_ok_def run_ok_def table_ref_ok_def seal_tables_def tree_tables_def
      list_all_iff table_object_ok_fresh)

lemma was_at_mono:
  assumes "host_ok contents evolves host" "was_at contents evolves w l bs" "evolves w w'"
  shows "was_at contents evolves w' l bs"
  using assms host_ok_order(2) unfolding was_at_def by meson

lemma was_at_now:
  "host_ok contents evolves host \<Longrightarrow> contents w l = Some bs \<Longrightarrow> was_at contents evolves w l bs"
  using host_ok_order(1) unfolding was_at_def by meson

text \<open>What was read was in the store: the head, the tables in the head's partition, the WAL objects.\<close>

definition backed ::
  "'w Host \<Rightarrow> ('w \<Rightarrow> string \<Rightarrow> bytes option) \<Rightarrow> ('w \<Rightarrow> 'w \<Rightarrow> bool) \<Rightarrow> BootSeen \<Rightarrow> 'w \<Rightarrow> bool" where
  "backed host contents evolves seen w \<longleftrightarrow>
     (\<forall>head. seen_head seen = Some head \<longrightarrow> seal_ok head)
     \<and> (\<forall>(t, d)\<in>set (seen_tables seen). \<exists>head bs. seen_head seen = Some head
          \<and> was_at contents evolves w (table_location t) bs \<and> table_decodes host (seal_partition head) t bs d)
     \<and> (\<forall>x\<in>set (seen_wal seen). \<exists>bs. was_at contents evolves w (wal_location (wal_batch x)) bs \<and> wal_reads host bs x)"

text \<open>
  In a state of the loop: a FENCE being replayed towards was established, a claim was published, and
  the head is no older than any Seal of the first world.
\<close>

definition driver_inv ::
  "'w Host \<Rightarrow> ('w \<Rightarrow> string \<Rightarrow> bytes option) \<Rightarrow> ('w \<Rightarrow> 'w \<Rightarrow> bool) \<Rightarrow> 'w \<Rightarrow> BootstrapState \<Rightarrow> BootSeen \<Rightarrow> 'w \<Rightarrow> bool" where
  "driver_inv host contents evolves first state seen w \<longleftrightarrow>
     backed host contents evolves seen w
     \<and> (\<forall>r. state = Replaying r \<longrightarrow> (\<exists>bs. host_wal host (fence_object (replay_loaded r) (replay_fence r)) = Inr bs
          \<and> was_at contents evolves w (wal_location (fence_batch (replay_fence r))) bs))
     \<and> (\<forall>c. claimed_of state = Some c \<longrightarrow> contents w (seal_location (seal_generation c)) \<noteq> None)
     \<and> (\<forall>g. contents first (seal_location g) \<noteq> None \<longrightarrow>
          (\<forall>h. state = ReadingSeal h \<longrightarrow> g \<le> h) \<and> (\<forall>p. state \<noteq> EstablishingGenesis p)
          \<and> (\<forall>head. seen_head seen = Some head \<longrightarrow> g \<le> seal_generation head))"

lemma boot_run_awaits:
  assumes "boot_run enc_seal enc_wal n k state seen (Some (BootEffect eff))" "boot_encoders_ok enc_seal enc_wal"
  shows "awaits state eff"
  using assms(1)
proof (cases rule: boot_run.cases)
  case (step n k state\<^sub>0 seen prev e)
  with bootstrap_handle_ok [OF assms(2) boot_run_inv [OF step(4) assms(2)] step(5)] show ?thesis
    by (simp add: boot_ok_def)
qed

lemma execute_delivers:
  assumes ok: "host_ok contents evolves host" and imm: "immutable contents evolves"
    and run: "boot_run (host_seal host) (host_wal host) n k state seen (Some (BootEffect eff))"
    and issued: "candidate_issued (host_wal host) state eff" and inv: "driver_inv host contents evolves first state seen w"
  shows "delivers host contents evolves state w (execute_effect host eff w)"
proof -
  note aw = boot_run_awaits [OF run host_encoders [OF ok]]
  have traced: "traced state seen" by (rule boot_run_traced [OF run host_encoders [OF ok]])
  show ?thesis
  proof (cases state)
    case (ReadingTable load source)
    have "planned_table source \<in> set (seal_tables (claimed_seal (load_claimed load)))"
      using traced ReadingTable planned_tables [of "claimed_seal (load_claimed load)"]
      by (auto simp: image_iff dest!: arg_cong [where f = set])
    moreover from traced ReadingTable obtain head where "seen_head seen = Some head"
        "claim_successor head = Inr (claimed_seal (load_claimed load))"
      by (auto simp: claims_def)
    ultimately have "table_object_ok (ref_object (planned_table source))"
      using inv seal_ok_tables [of head "planned_table source"]
      by (auto simp: driver_inv_def backed_def claim_successor_Inr seal_tables_def)
    with aw ReadingTable show ?thesis by (simp add: execute_effect_def delivers_table [OF ok])
  next
    case (ReadingWalTail l f b)
    with aw show ?thesis
      using delivers_wal [OF ok imm, of state l f b] by (simp add: execute_effect_def)
  next
    case (Replaying r)
    with aw inv show ?thesis
      using delivers_wal [OF ok imm, of state "replay_loaded r" _ "replay_next r"]
      by (simp add: execute_effect_def driver_inv_def)
  qed (use aw issued in \<open>auto simp: execute_effect_def candidate_issued_def delivers_head [OF ok] delivers_seal [OF ok]
        delivers_tail [OF ok] intro: delivers_claim [OF ok] delivers_fence [OF ok] delivers_genesis [OF ok]\<close>)
qed

lemma backed_mono:
  assumes "host_ok contents evolves host" "backed host contents evolves seen w" "evolves w w'"
  shows "backed host contents evolves seen w'"
  using assms(2) was_at_mono [OF assms(1) _ assms(3)] unfolding backed_def by blast

lemma backed_observe:
  assumes ok: "host_ok contents evolves host" and b: "backed host contents evolves seen w" and w: "evolves w w'"
    and traced: "traced state seen" and ev: "boot_event_ok state e" and true: "true_event host contents state e w'"
  shows "backed host contents evolves (boot_observe state e seen) w'"
proof -
  note b' = backed_mono [OF ok b w]
  show ?thesis
  proof (cases e)
    case (SealRead r)
    with true b' show ?thesis
      by (cases r) (auto simp: boot_observe_def backed_def true_event_def decode_seal_Inr)
  next
    case (TableRead t d)
    with ev obtain load source where state: "state = ReadingTable load source"
      by (cases state) (auto simp: boot_event_ok_def)
    with traced obtain head where head: "seen_head seen = Some head"
        "claim_successor head = Inr (claimed_seal (load_claimed load))"
      by (auto simp: claims_def)
    from head(2) have "seal_partition (claimed_seal (load_claimed load)) = seal_partition head"
      by (auto simp: claim_successor_Inr)
    with true TableRead state obtain bs where "contents w' (table_location t) = Some bs"
        "table_decodes host (seal_partition head) t bs d"
      by (auto simp: true_event_def)
    with TableRead head(1) b' was_at_now [OF ok] show ?thesis
      by (fastforce simp: boot_observe_def backed_def)
  next
    case (WalRead observed)
    show ?thesis
    proof (cases observed)
      case None
      with WalRead b' show ?thesis by (simp add: boot_observe_def)
    next
      case (Some x)
      with WalRead true obtain bs where "contents w' (wal_location (wal_batch x)) = Some bs" "wal_reads host bs x"
        by (auto simp: true_event_def)
      with WalRead Some b' was_at_now [OF ok] show ?thesis
        by (cases state) (auto simp: boot_observe_def backed_def)
    qed
  qed (use b' in \<open>auto simp: boot_observe_def backed_def\<close>)
qed

lemma driver_step:
  assumes ok: "host_ok contents evolves host" and perm: "seals_permanent contents evolves"
    and run: "boot_run (host_seal host) (host_wal host) n k state seen prev"
    and inv: "driver_inv host contents evolves first state seen w"
    and w: "evolves first w" "evolves w w'" and ev: "boot_event_ok state e" "true_event host contents state e w'"
    and link: "linked (host_wal host) state e state' eff"
  shows "driver_inv host contents evolves first state' (boot_observe state e seen) w'"
proof -
  have traced: "traced state seen" by (rule boot_run_traced [OF run host_encoders [OF ok]])
  have kept: "contents w' (seal_location g) \<noteq> None"
    if "contents first (seal_location g) \<noteq> None \<or> contents w (seal_location g) \<noteq> None" for g
    using that perm w unfolding seals_permanent_def by blast
  have fence: "\<exists>bs. host_wal host (fence_object (replay_loaded r) (replay_fence r)) = Inr bs
      \<and> was_at contents evolves w' (wal_location (fence_batch (replay_fence r))) bs" if "state' = Replaying r" for r
  proof (cases "\<exists>r\<^sub>0. state = Replaying r\<^sub>0")
    case True
    then obtain r\<^sub>0 where r\<^sub>0: "state = Replaying r\<^sub>0" ..
    with link that have "fence_object (replay_loaded r) (replay_fence r)
        = fence_object (replay_loaded r\<^sub>0) (replay_fence r\<^sub>0)"
      by (simp add: linked_def)
    moreover from this have "fence_batch (replay_fence r) = fence_batch (replay_fence r\<^sub>0)"
      by (simp add: fence_object_def)
    ultimately show ?thesis
      using inv r\<^sub>0 was_at_mono [OF ok _ w(2)] unfolding driver_inv_def by metis
  next
    case False
    with link that have "fence_of state = Some (fence_object (replay_loaded r) (replay_fence r))"
        "e = FenceEstablished WalDurable"
      by (auto simp: linked_def)
    with ev(2) was_at_now [OF ok] show ?thesis by (fastforce simp: true_event_def fence_object_def)
  qed
  have claim: "contents w' (seal_location (seal_generation c)) \<noteq> None" if "claimed_of state' = Some c" for c
  proof -
    from link that have "claimed_of state = Some c \<or> (\<exists>sources. state = PublishingClaim c sources \<and> e = ClaimPublished Authored)"
      by (simp add: linked_def)
    then show ?thesis using inv kept ev(2) by (auto simp: driver_inv_def true_event_def)
  qed
  have head: "(\<forall>h. state' = ReadingSeal h \<longrightarrow> g \<le> h) \<and> (\<forall>p. state' \<noteq> EstablishingGenesis p)
      \<and> (\<forall>head. seen_head (boot_observe state e seen) = Some head \<longrightarrow> g \<le> seal_generation head)"
    if g: "contents first (seal_location g) \<noteq> None" for g
  proof -
    have past: "\<forall>h. state = ReadingSeal h \<longrightarrow> g \<le> h" "\<forall>p. state \<noteq> EstablishingGenesis p"
        "\<forall>head. seen_head seen = Some head \<longrightarrow> g \<le> seal_generation head"
      using inv g unfolding driver_inv_def by blast+
    have "g \<le> seal_generation head" if "seen_head (boot_observe state e seen) = Some head" for head
    proof (cases "\<exists>s. e = SealRead (Some s)")
      case True
      with that ev(1) past(1) show ?thesis
        by (cases state) (auto simp: boot_observe_def boot_event_ok_def)
    next
      case False
      then have "seen_head (boot_observe state e seen) = seen_head seen"
        by (auto simp: boot_observe_def split: BootstrapEvent.split option.split BootstrapState.split)
      with that past(3) show ?thesis by simp
    qed
    moreover have "state' \<noteq> EstablishingGenesis p" for p
      using link ev(2) kept [OF disjI1 [OF g]] by (auto simp: linked_def true_event_def)
    moreover have "g \<le> h" if "state' = ReadingSeal h" for h
      using link that past(2) ev(2) kept [OF disjI1 [OF g]] by (auto simp: linked_def true_event_def)
    ultimately show ?thesis by blast
  qed
  show ?thesis
    unfolding driver_inv_def
    using backed_observe [OF ok _ w(2) traced ev] inv fence claim head unfolding driver_inv_def by blast
qed

section \<open>The loop returns\<close>

text \<open>
  A lost genesis race leads back to discovery, but then the genesis Seal is there and stays, and
  discovery cannot lead to another attempt.
\<close>

definition drive_weight :: "('w \<Rightarrow> string \<Rightarrow> bytes option) \<Rightarrow> BootstrapState \<Rightarrow> 'w \<Rightarrow> nat" where
  "drive_weight contents state w = 2 * boot_steps state -
     (case state of
        DiscoveringHead _ \<Rightarrow> if contents w (seal_location seal_generation_genesis) \<noteq> None then 3 else 0
      | _ \<Rightarrow> 0)"

lemma drive_weight_less:
  assumes ok: "host_ok contents evolves host" and perm: "seals_permanent contents evolves"
    and inv: "boot_inv state" and initial: "state \<noteq> BootInitial"
    and w: "evolves w w'" and ev: "boot_event_ok state e" "true_event host contents state e w'"
    and step: "bootstrap_handle (host_seal host) (host_wal host) \<lparr> bm_state = Some state \<rparr> e
      = Some (\<lparr> bm_state = Some state' \<rparr>, BootEffect eff)"
  shows "drive_weight contents state' w' < drive_weight contents state w"
proof (cases "e = lost_race")
  case True
  with step obtain p where "state = EstablishingGenesis p" "state' = DiscoveringHead p"
    by (cases state) (auto simp: bootstrap_handle_def handle_genesis_def boot_effect_def)
  moreover have "contents w' (seal_location seal_generation_genesis) \<noteq> None"
    using ev(2) True by (simp add: true_event_def)
  ultimately show ?thesis by (simp add: drive_weight_def)
next
  case False
  have less: "boot_steps state' < boot_steps state"
    using bootstrap_handle_ok [OF host_encoders [OF ok] inv ev(1)] step False by (simp add: boot_ok_def)
  have link: "linked (host_wal host) state e state' eff"
    using bootstrap_handle_passes step unfolding passes_def by blast
  with False initial have after: "drive_weight contents state' w' = 2 * boot_steps state'"
    by (cases state') (auto simp: drive_weight_def linked_def)
  show ?thesis
  proof (cases "\<exists>p. state = DiscoveringHead p \<and> contents w (seal_location seal_generation_genesis) \<noteq> None")
    case True
    then obtain p where p: "state = DiscoveringHead p" "contents w (seal_location seal_generation_genesis) \<noteq> None"
      by blast
    with perm w have "contents w' (seal_location seal_generation_genesis) \<noteq> None"
      unfolding seals_permanent_def by blast
    with ev(2) have "e \<noteq> HeadObserved None" by (auto simp: true_event_def)
    with p(1) ev(1) step obtain g where "state' = ReadingSeal g"
      by (cases e) (auto simp: boot_event_ok_def bootstrap_handle_def handle_head_def handle_store_failure_def
          boot_effect_def boot_exit_def split: option.split_asm TypedStoreError.split_asm)
    with after p show ?thesis by (simp add: drive_weight_def)
  next
    case False
    then have "drive_weight contents state w = 2 * boot_steps state"
      by (cases state) (auto simp: drive_weight_def)
    with after less show ?thesis by simp
  qed
qed

text \<open>
  What a completed bootstrap leaves: a run of the machine in which all that was read was in the store,
  and a claim that is newer than every Seal of the first world and the newest of the last.
\<close>

definition recovered ::
  "'w Host \<Rightarrow> ('w \<Rightarrow> string \<Rightarrow> bytes option) \<Rightarrow> ('w \<Rightarrow> 'w \<Rightarrow> bool) \<Rightarrow> 'w \<Rightarrow> WriterRecovery \<Rightarrow> 'w \<Rightarrow> bool" where
  "recovered host contents evolves first r w \<longleftrightarrow>
     (\<exists>n k seen. boot_run (host_seal host) (host_wal host) n k BootCompleteState seen (Some (BootComplete r))
        \<and> backed host contents evolves seen w)
     \<and> contents w (seal_location (seal_generation (recovery_seal r))) \<noteq> None
     \<and> (\<forall>g. contents w (seal_location g) \<noteq> None \<longrightarrow> g \<le> seal_generation (recovery_seal r))
     \<and> (\<forall>g. contents first (seal_location g) \<noteq> None \<longrightarrow> g < seal_generation (recovery_seal r))"

lemma completion_recovered:
  assumes ok: "host_ok contents evolves host" and perm: "seals_permanent contents evolves"
    and run: "boot_run (host_seal host) (host_wal host) n k state seen prev"
    and inv: "driver_inv host contents evolves first state seen w"
    and w: "evolves w w'" and ev: "boot_event_ok state e" "true_event host contents state e w'"
    and step: "bootstrap_handle (host_seal host) (host_wal host) \<lparr> bm_state = Some state \<rparr> e
      = Some (\<lparr> bm_state = Some state' \<rparr>, BootComplete r)"
  shows "recovered host contents evolves first r w'"
proof -
  note enc = host_encoders [OF ok]
  note run' = boot_run.step [OF run ev(1) step]
  from bootstrap_handle_ok [OF enc boot_run_inv [OF run enc] ev(1)] step
  have final: "state = RefreshingFinal r" "state' = BootCompleteState" "recovery_ok r"
    by (simp_all add: boot_ok_def)
  from step final(1) have e: "e = HeadObserved (Some (claim_generation (recovery_claim r)))"
    by (cases e) (auto simp: bootstrap_handle_def handle_head_def handle_genesis_def handle_seal_def handle_claim_def
        handle_table_def handle_wal_tail_def handle_wal_read_def handle_fence_def handle_store_failure_def
        boot_complete_def boot_exit_def require_def split: option.split_asm if_split_asm TypedStoreError.split_asm)
  have traced: "traced state seen" by (rule boot_run_traced [OF run enc])
  with final(1) obtain head where head: "seen_head seen = Some head" "claim_successor head = Inr (recovery_seal r)"
    by (auto simp: base_read_def claims_def)
  then have "seal_generation head < seal_generation (recovery_seal r)"
    by (auto simp: claim_successor_Inr seal_gen.successor_greater)
  with inv head(1) have "\<forall>g. contents first (seal_location g) \<noteq> None \<longrightarrow> g < seal_generation (recovery_seal r)"
    unfolding driver_inv_def by (meson le_less_trans)
  moreover have "contents w' (seal_location (seal_generation (recovery_seal r))) \<noteq> None"
    using inv final(1) perm w unfolding driver_inv_def seals_permanent_def by (metis claimed_of.simps(6))
  moreover have "\<forall>g. contents w' (seal_location g) \<noteq> None \<longrightarrow> g \<le> seal_generation (recovery_seal r)"
    using ev(2) e final(3) by (simp add: true_event_def recovery_ok_def authored_claim_new_def)
  moreover have "backed host contents evolves (boot_observe state e seen) w'"
    using backed_observe [OF ok _ w traced ev] inv unfolding driver_inv_def by blast
  ultimately show ?thesis
    using run' final(2) unfolding recovered_def by blast
qed

lemma bootstrap_loop_effect:
  assumes "execute_effect host eff w = Some (e, w')"
    and "bootstrap_handle (host_seal host) (host_wal host) machine e = Some (machine', step)"
  shows "bootstrap_loop host machine (BootEffect eff) w = bootstrap_loop host machine' step w'"
  using assms by (subst bootstrap_loop.simps) simp

lemma bootstrap_loop_end:
  "bootstrap_loop host machine (BootComplete r) w = Some (Inr r, w)"
  "bootstrap_loop host machine (BootExit x) w = Some (Inl x, w)"
  by (simp_all add: bootstrap_loop.simps)

lemma bootstrap_loop_returns:
  assumes ok: "host_ok contents evolves host" and imm: "immutable contents evolves"
    and perm: "seals_permanent contents evolves"
    and "boot_run (host_seal host) (host_wal host) n k state seen (Some (BootEffect eff))"
    and "candidate_issued (host_wal host) state eff" "driver_inv host contents evolves first state seen w" "evolves first w"
    and "state \<noteq> BootInitial"
  shows "\<exists>res w'. bootstrap_loop host \<lparr> bm_state = Some state \<rparr> (BootEffect eff) w = Some (res, w') \<and> evolves first w'
     \<and> (\<forall>r. res = Inr r \<longrightarrow> recovered host contents evolves first r w')"
  using assms(4-)
proof (induction "drive_weight contents state w" arbitrary: state seen eff w n k rule: less_induct)
  case less
  note enc = host_encoders [OF ok]
  obtain e w' where e: "execute_effect host eff w = Some (e, w')" "evolves w w'" "boot_event_ok state e"
      "true_event host contents state e w'"
    using execute_delivers [OF ok imm less.prems(1-3)] unfolding delivers_def by blast
  note inv = boot_run_inv [OF less.prems(1) enc]
  obtain state' step where step: "bootstrap_handle (host_seal host) (host_wal host) \<lparr> bm_state = Some state \<rparr> e
      = Some (\<lparr> bm_state = Some state' \<rparr>, step)"
    using bootstrap_handle_ok [OF enc inv e(3)] by (auto simp: boot_ok_def)
  have first: "evolves first w'" using host_ok_order(2) [OF ok less.prems(4) e(2)] .
  show ?case
  proof (cases step)
    case (BootEffect eff')
    have link: "linked (host_wal host) state e state' eff'"
      using bootstrap_handle_passes step BootEffect unfolding passes_def by blast
    then have "candidate_issued (host_wal host) state' eff'" by (simp add: linked_def)
    moreover have "state' \<noteq> BootInitial"
      using bootstrap_handle_ok [OF enc inv e(3)] step BootEffect by (auto simp: boot_ok_def)
    moreover note drive_weight_less [OF ok perm inv less.prems(5) e(2-4) step [unfolded BootEffect]]
      driver_step [OF ok perm less.prems(1,3,4) e(2-4) link] boot_run.step [OF less.prems(1) e(3) step]
    ultimately show ?thesis
      using less.hyps first bootstrap_loop_effect [OF e(1) step] BootEffect by simp
  next
    case (BootComplete r)
    then show ?thesis
      using first completion_recovered [OF ok perm less.prems(1,3) e(2-4)] step
      by (simp add: bootstrap_loop_effect [OF e(1) step] bootstrap_loop_end)
  next
    case (BootExit x)
    then show ?thesis using first by (simp add: bootstrap_loop_effect [OF e(1) step] bootstrap_loop_end)
  qed
qed

lemma bootstrap_returns:
  assumes ok: "host_ok contents evolves host" and "immutable contents evolves" "seals_permanent contents evolves"
    and drawn: "length drawn = 16"
  shows "\<exists>res w'. bootstrap host drawn w = Some (res, w') \<and> evolves w w'
     \<and> (\<forall>r. res = Inr r \<longrightarrow> recovered host contents evolves w r w')"
proof -
  obtain p where p: "mint_partition_id drawn = Some p" using mint_partition_id_total [OF drawn] ..
  have step: "bootstrap_handle (host_seal host) (host_wal host) \<lparr> bm_state = Some BootInitial \<rparr> (BootStarted p)
      = Some (\<lparr> bm_state = Some (DiscoveringHead p) \<rparr>, BootEffect ObserveHead)"
    by (simp add: bootstrap_handle_def boot_effect_def)
  have "boot_event_ok BootInitial (BootStarted p)" by (simp add: boot_event_ok_def)
  note run = boot_run.step [OF boot_run.start this step]
  have "driver_inv host contents evolves w (DiscoveringHead p) (boot_observe BootInitial (BootStarted p) nothing_read) w"
    by (simp add: driver_inv_def backed_def boot_observe_def nothing_read_def)
  from bootstrap_loop_returns [OF assms(1-3) run _ this host_ok_order(1) [OF ok]]
  show ?thesis
    by (simp add: bootstrap_def p bootstrap_new_def step candidate_issued_def)
qed

end
