(* ===== verification/Archive_Format.thy ===== *)
theory Archive_Format
  imports Sst
begin

text \<open>
  How large an archive is. The crate features of \<open>Cargo.toml\<close> fix the format of \<open>rkyv\<close>: archived
  primitives are little endian and unaligned, so that a structure is its fields one after the other,
  without padding; strings, vectors and boxed slices are a 32-bit relative pointer and a 32-bit length
  with their contents elsewhere in the archive; an enumeration is a tag and room for its largest
  variant. An archive holds the contents of everything reachable from its root, and the root. The
  sizes of the source's archived structures follow from their declarations; what each theorem asks of
  \<open>rkyv\<close> is that an archive whose offsets fit a relative pointer is completed within that size.

  The lemmas show that the estimates of \<open>bounds.rs\<close> and \<open>wal/fact.rs\<close> dominate these sizes.
\<close>

section \<open>The sizes of archived structures\<close>

record ArchiveFormat =
  string_bytes :: nat
  vec_bytes :: nat
  tag_bytes :: nat

definition compact :: "ArchiveFormat \<Rightarrow> bool" where
  "compact fmt \<longleftrightarrow> string_bytes fmt \<le> 8 \<and> vec_bytes fmt \<le> 8 \<and> tag_bytes fmt \<le> 1"

definition expiry_bytes :: "ArchiveFormat \<Rightarrow> nat" where
  "expiry_bytes fmt = tag_bytes fmt + 16"

definition lifecycle_bytes :: "ArchiveFormat \<Rightarrow> nat" where
  "lifecycle_bytes fmt = tag_bytes fmt"

definition fact_bytes :: "ArchiveFormat \<Rightarrow> nat" where
  "fact_bytes fmt = tag_bytes fmt + string_bytes fmt + 8 + string_bytes fmt + expiry_bytes fmt + lifecycle_bytes fmt"

primrec fact_contents :: "ArchivedOperationFact \<Rightarrow> nat" where
  "fact_contents (ArchivedStreamCreated path uid content_type expiry lifecycle) = length path + length content_type"
| "fact_contents (ArchivedStreamClosed path uid) = length path"
| "fact_contents (ArchivedStreamDeleted path uid) = length path"

definition wal_bytes :: "ArchiveFormat \<Rightarrow> ArchivedWalObject \<Rightarrow> nat" where
  "wal_bytes fmt a = 16 + 8 + 8 + tag_bytes fmt + vec_bytes fmt
     + (case archived_wal_body a of
          ArchivedRun facts \<Rightarrow> sum_list (map (\<lambda>op. fact_bytes fmt + fact_contents op) facts)
        | ArchivedFence \<Rightarrow> 0)"

definition fresh_bytes :: nat where
  "fresh_bytes = 8 + (8 + 8) + 4"

definition table_ref_bytes :: "ArchiveFormat \<Rightarrow> nat" where
  "table_ref_bytes fmt = fresh_bytes + tag_bytes fmt + 8"

definition tree_contents :: "ArchiveFormat \<Rightarrow> ArchivedTreeVersion \<Rightarrow> nat" where
  "tree_contents fmt tree =
     sum_list (map (\<lambda>run. vec_bytes fmt + length (archived_tables run) * table_ref_bytes fmt) (archived_runs tree))"

definition seal_bytes :: "ArchiveFormat \<Rightarrow> ArchivedSeal \<Rightarrow> nat" where
  "seal_bytes fmt a = 16 + 8 + (tag_bytes fmt + 8 + 8) + vec_bytes fmt + vec_bytes fmt
     + tree_contents fmt (archived_seal_directory a) + tree_contents fmt (archived_seal_ledger a)"

definition directory_row_bytes :: "ArchiveFormat \<Rightarrow> nat" where
  "directory_row_bytes fmt = string_bytes fmt + tag_bytes fmt + 8"

definition directory_bytes :: "ArchiveFormat \<Rightarrow> DirectorySstArchive \<Rightarrow> nat" where
  "directory_bytes fmt root = 16 + fresh_bytes + vec_bytes fmt
     + sum_list (map (\<lambda>row. directory_row_bytes fmt + length (row_archive_path row)) (directory_root_rows root))"

definition cell_row_bytes :: "ArchiveFormat \<Rightarrow> nat" where
  "cell_row_bytes fmt = 8 + tag_bytes fmt + string_bytes fmt + expiry_bytes fmt + lifecycle_bytes fmt + 8"

primrec cell_contents :: "ArchivedLedgerCell \<Rightarrow> nat" where
  "cell_contents (ArchivedValue r) = length (archived_record_content_type r)"
| "cell_contents ArchivedDelete = 0"

definition ledger_bytes :: "ArchiveFormat \<Rightarrow> LedgerSstArchive \<Rightarrow> nat" where
  "ledger_bytes fmt root = 16 + fresh_bytes + vec_bytes fmt
     + sum_list (map (\<lambda>row. cell_row_bytes fmt + cell_contents (snd row)) (ledger_root_rows root))"

lemmas archive_sizes = expiry_bytes_def lifecycle_bytes_def fact_bytes_def fresh_bytes_def table_ref_bytes_def
  directory_row_bytes_def cell_row_bytes_def

text \<open>
  The law of \<open>rkyv\<close>: the archives of a type are completed within their size when every offset fits a
  32-bit relative pointer.
\<close>

definition sized :: "('a \<Rightarrow> nat) \<Rightarrow> 'a set \<Rightarrow> ('a \<Rightarrow> bytes list \<times> bool) \<Rightarrow> bool" where
  "sized bytes_of archives serialize \<longleftrightarrow>
     (\<forall>a\<in>archives. bytes_of a < 2 ^ 31 \<longrightarrow>
        (\<exists>chunks. serialize a = (chunks, True) \<and> length (concat chunks) \<le> bytes_of a))"

definition directory_roots :: "DirectorySstArchive set" where
  "directory_roots = (\<Union>part key. range (directory_root part key))"

definition ledger_roots :: "LedgerSstArchive set" where
  "ledger_roots = (\<Union>part key. range (ledger_root part key))"

lemma sizedD:
  assumes "sized bytes_of archives serialize" "a \<in> archives" "bytes_of a \<le> n" "n < 2 ^ 31"
  shows "\<exists>chunks. serialize a = (chunks, True) \<and> length (concat chunks) \<le> n"
  using assms unfolding sized_def by (meson le_less_trans order_trans)

section \<open>The estimates dominate\<close>

lemma fact_estimated:
  assumes "compact fmt"
  shows "fact_bytes fmt + fact_contents (archive_fact op) \<le> estimated_encoded_bytes op"
proof -
  have sizes: "fact_bytes fmt \<le> WAL_FACT_ENCODED_FIXED_BYTES_MAX"
    using assms by (simp add: compact_def archive_sizes bound_defs)
  have short: "length (path_as_str p) + length (content_type_as_str ct) \<le> 768" for p ct
    using path_length [of p] content_type_length [of ct] by (simp add: bound_defs)
  have "m + n \<le> 2000 \<Longrightarrow> saturating_add m n = m + n" for m n :: nat
    by (simp add: saturating_add_def u64_max_def)
  note small = this
  show ?thesis
  proof (cases op)
    case (StreamCreated p u ct e l)
    with sizes short [of p ct] show ?thesis
      by (simp add: estimated_encoded_bytes_def small WAL_FACT_ENCODED_FIXED_BYTES_MAX_def)
  next
    case (StreamClosed p u)
    with sizes short [of p octet_stream] show ?thesis
      by (simp add: estimated_encoded_bytes_def small WAL_FACT_ENCODED_FIXED_BYTES_MAX_def)
  next
    case (StreamDeleted p u)
    with sizes short [of p octet_stream] show ?thesis
      by (simp add: estimated_encoded_bytes_def small WAL_FACT_ENCODED_FIXED_BYTES_MAX_def)
  qed
qed

lemma run_estimated:
  assumes "compact fmt" "wal_body object = WalRun facts"
  shows "wal_bytes fmt (archive_wal object)
     \<le> WAL_RUN_FIXED_ENCODED_BYTES_MAX + sum_list (map estimated_encoded_bytes facts)"
proof -
  have "sum_list (map (\<lambda>op. fact_bytes fmt + fact_contents (archive_fact op)) facts)
      \<le> sum_list (map estimated_encoded_bytes facts)"
    by (rule sum_list_mono) (rule fact_estimated [OF assms(1)])
  moreover have "16 + 8 + 8 + tag_bytes fmt + vec_bytes fmt \<le> WAL_RUN_FIXED_ENCODED_BYTES_MAX"
    using assms(1) by (simp add: compact_def bound_defs)
  ultimately show ?thesis using assms(2) by (simp add: wal_bytes_def archive_wal_def comp_def)
qed

text \<open>So \<open>encode_wal\<close> never refuses a RUN that the accounting of the writer admits.\<close>

lemma codec_wal_encoder:
  assumes rkyv: "rkyv_faithful serialize access" and fmt: "compact fmt"
    and layout: "sized (wal_bytes fmt) (range archive_wal) serialize" and room: "allocates room"
  shows "wal_encoder_ok (encode_wal serialize room)"
  unfolding wal_encoder_ok_def
proof (intro allI impI)
  fix object :: WalObject and facts
  assume run: "wal_body object = WalRun facts"
    and est: "WAL_RUN_FIXED_ENCODED_BYTES_MAX + sum_list (map estimated_encoded_bytes facts) \<le> WAL_ENCODED_BYTES_MAX"
  have "wal_bytes fmt (archive_wal object) \<le> WAL_ENCODED_BYTES_MAX"
    using run_estimated [OF fmt run] est by (rule order_trans)
  from sizedD [OF layout rangeI this] obtain chunks where chunks: "serialize (archive_wal object) = (chunks, True)"
      "length (concat chunks) \<le> WAL_ENCODED_BYTES_MAX"
    by (auto simp: WAL_ENCODED_BYTES_MAX_def)
  then have "encode_wal serialize room object = Inr (concat chunks)"
    by (simp add: encode_wal_def encode_allocates [OF room encoded_bounds_below_u64(1)])
  with chunks rkyv show "\<exists>bs. encode_wal serialize room object = Inr bs \<and> bs \<noteq> [] \<and> length bs \<le> WAL_ENCODED_BYTES_MAX"
    unfolding rkyv_faithful_def by metis
qed

text \<open>And the charges of the rows of a table, as \<open>checkpoint/prepare.rs\<close> adds them up, cover its archive.\<close>

lemma directory_estimated:
  assumes "compact fmt"
  shows "directory_bytes fmt (directory_root part key rows)
     \<le> SST_ARCHIVE_FIXED_BYTES_MAX + length rows * DIRECTORY_ROW_ENCODED_BYTES_MAX"
proof -
  have "directory_row_bytes fmt + length (path_as_str p) \<le> DIRECTORY_ROW_ENCODED_BYTES_MAX" for p
    using assms path_length [of p] by (simp add: compact_def archive_sizes bound_defs)
  then have "sum_list (map (\<lambda>row. directory_row_bytes fmt + length (path_as_str (fst row))) rows)
      \<le> sum_list (map (\<lambda>_. DIRECTORY_ROW_ENCODED_BYTES_MAX) rows)"
    by (intro sum_list_mono)
  moreover have "16 + fresh_bytes + vec_bytes fmt \<le> SST_ARCHIVE_FIXED_BYTES_MAX"
    using assms by (simp add: compact_def archive_sizes bound_defs)
  ultimately show ?thesis
    by (simp add: directory_bytes_def directory_root_def directory_row_archive_def comp_def sum_list_triv)
qed

lemma value_row_estimated:
  assumes "compact fmt"
  shows "cell_row_bytes fmt + length (content_type_as_str ct) \<le> LEDGER_VALUE_ROW_ENCODED_BYTES_MAX"
  using assms content_type_length [of ct] by (simp add: compact_def archive_sizes bound_defs)

lemma delete_row_estimated: "compact fmt \<Longrightarrow> cell_row_bytes fmt \<le> LEDGER_DELETE_ROW_ENCODED_BYTES_MAX"
  by (simp add: compact_def archive_sizes bound_defs)

text \<open>A Seal within the limits of a tree and of a bootstrap fits the Seal bound.\<close>

lemma tree_contents_archive:
  "tree_contents fmt (archive_tree tree)
     = length (tree_runs tree) * vec_bytes fmt + length (tree_tables tree) * table_ref_bytes fmt"
proof (cases tree)
  case (TreeVersion runs)
  have "length (archived_tables (archive_run run)) = length (run_tables run)" for run by (cases run) simp
  then have "sum_list (map (\<lambda>run. vec_bytes fmt + length (archived_tables (archive_run run)) * table_ref_bytes fmt) runs)
      = length runs * vec_bytes fmt + length (concat (map run_tables runs)) * table_ref_bytes fmt"
    by (induction runs) (simp_all add: algebra_simps)
  with TreeVersion show ?thesis by (simp add: tree_contents_def tree_tables_def comp_def)
qed

lemma seal_estimated:
  assumes "compact fmt" "length (tree_runs (seal_directory seal)) \<le> TREE_RUNS_MAX"
    and "length (tree_runs (seal_ledger seal)) \<le> TREE_RUNS_MAX"
    and "length (seal_tables seal) \<le> PARTITION_BOOTSTRAP_OBJECTS_MAX_V2"
  shows "seal_bytes fmt (archive_seal seal) \<le> SEAL_ENCODED_BYTES_MAX"
proof -
  let ?runs = "length (tree_runs (seal_directory seal)) + length (tree_runs (seal_ledger seal))"
    and ?tables = "length (seal_tables seal)"
  have "seal_bytes fmt (archive_seal seal) = 40 + tag_bytes fmt + 2 * vec_bytes fmt + ?runs * vec_bytes fmt + ?tables * table_ref_bytes fmt"
    by (simp add: seal_bytes_def archive_seal_def tree_contents_archive seal_tables_def algebra_simps)
  also have "?runs * vec_bytes fmt \<le> (2 * TREE_RUNS_MAX) * 8"
    using assms by (intro mult_mono) (simp_all add: compact_def)
  also have "?tables * table_ref_bytes fmt \<le> PARTITION_BOOTSTRAP_OBJECTS_MAX_V2 * 37"
    using assms by (intro mult_mono) (simp_all add: compact_def archive_sizes)
  finally show ?thesis using assms(1) by (simp add: compact_def bound_defs)
qed

end
