(* ===== verification/Wal_Layout.thy ===== *)
theory Wal_Layout
  imports Archive_Format
begin

text \<open>
  One archive layout with the properties that the theorems ask of \<open>rkyv\<close>: complete fields, one after
  the other, lengths before contents. It shows that a faithful serializer can stay within the archive
  sizes of \<open>Archive_Format\<close>; the layout of \<open>rkyv\<close> itself stays a parameter.
\<close>

section \<open>Prefix codes\<close>

definition prefix_code :: "'x set \<Rightarrow> ('x \<Rightarrow> bytes) \<Rightarrow> bool" where
  "prefix_code X enc \<longleftrightarrow> (\<forall>x\<in>X. \<forall>y\<in>X. \<forall>r s. enc x @ r = enc y @ s \<longrightarrow> x = y \<and> r = s)"

lemma prefix_codeD:
  "prefix_code X enc \<Longrightarrow> x \<in> X \<Longrightarrow> y \<in> X \<Longrightarrow> enc x @ r = enc y @ s \<longleftrightarrow> x = y \<and> r = s"
  unfolding prefix_code_def by blast

lemma prefix_code_fixed:
  assumes "inj_on enc X" "\<And>x. x \<in> X \<Longrightarrow> length (enc x) = n"
  shows "prefix_code X enc"
  using assms unfolding prefix_code_def inj_on_def by auto

primrec digits :: "nat \<Rightarrow> nat \<Rightarrow> bytes" where
  "digits 0 n = []"
| "digits (Suc k) n = char_of (n mod 256) # digits k (n div 256)"

lemma length_digits [simp]: "length (digits k n) = k"
  by (induction k arbitrary: n) auto

lemma digits_inject: "m < 256 ^ k \<Longrightarrow> n < 256 ^ k \<Longrightarrow> digits k m = digits k n \<longleftrightarrow> m = n"
proof (induction k arbitrary: m n)
  case (Suc k)
  have "m div 256 < 256 ^ k" "n div 256 < 256 ^ k"
    using Suc.prems by (auto simp: less_mult_imp_div_less mult.commute)
  moreover have "char_of (m mod 256) = (char_of (n mod 256) :: char) \<longleftrightarrow> m mod 256 = n mod 256"
    by (metis mod_mod_trivial of_char_of)
  ultimately show ?case
    using Suc.IH by (auto, metis div_mult_mod_eq)
qed simp

lemma prefix_code_digits: "prefix_code {..<256 ^ k} (digits k)"
  by (rule prefix_code_fixed [of _ _ k]) (auto simp: inj_on_def digits_inject)

definition counted :: "('x \<Rightarrow> bytes) \<Rightarrow> 'x list \<Rightarrow> bytes" where
  "counted enc xs = digits 4 (length xs) @ concat (map enc xs)"

lemma concat_prefix_code:
  assumes "prefix_code X enc" "length xs = length ys" "set xs \<subseteq> X" "set ys \<subseteq> X"
  shows "concat (map enc xs) @ r = concat (map enc ys) @ s \<longleftrightarrow> xs = ys \<and> r = s"
  using assms(2-) by (induction xs ys rule: list_induct2) (auto simp: prefix_codeD [OF assms(1)])

lemma prefix_code_counted:
  assumes "prefix_code X enc"
  shows "prefix_code {xs. length xs < 4294967296 \<and> set xs \<subseteq> X} (counted enc)"
  unfolding prefix_code_def
proof (intro ballI allI impI)
  fix xs ys r s
  assume xs: "xs \<in> {xs. length xs < 4294967296 \<and> set xs \<subseteq> X}" and ys: "ys \<in> {xs. length xs < 4294967296 \<and> set xs \<subseteq> X}"
    and eq: "counted enc xs @ r = counted enc ys @ s"
  have "length xs < 256 ^ 4" "length ys < 256 ^ 4" using xs ys by simp_all
  with eq have "length xs = length ys" "concat (map enc xs) @ r = concat (map enc ys) @ s"
    using digits_inject [of "length xs" 4 "length ys"] by (simp_all add: counted_def del: digits.simps)
  with concat_prefix_code [OF assms] xs ys show "xs = ys \<and> r = s" by auto
qed

section \<open>The layout of a WAL object\<close>

definition lay_nz :: "nonzero_u64 \<Rightarrow> bytes" where
  "lay_nz n = digits 8 (nz_get n)"

definition lay_str :: "string \<Rightarrow> bytes" where
  "lay_str = counted (\<lambda>c. [c])"

primrec lay_expiry :: "ExpiryArchive \<Rightarrow> bytes" where
  "lay_expiry ExpiryArchiveNone = [CHR ''0'']"
| "lay_expiry (ExpiryArchiveTtl seconds) = CHR ''1'' # digits 8 seconds"
| "lay_expiry (ExpiryArchiveAbsolute n) = CHR ''2'' # digits 16 (unat n)"

primrec lay_lifecycle :: "LifecycleArchive \<Rightarrow> bytes" where
  "lay_lifecycle LifecycleArchiveOpen = [CHR ''0'']"
| "lay_lifecycle LifecycleArchiveClosed = [CHR ''1'']"

primrec lay_fact :: "ArchivedOperationFact \<Rightarrow> bytes" where
  "lay_fact (ArchivedStreamCreated path uid content_type expiry lifecycle) =
     CHR ''0'' # lay_str path @ lay_nz uid @ lay_str content_type @ lay_expiry expiry @ lay_lifecycle lifecycle"
| "lay_fact (ArchivedStreamClosed path uid) = CHR ''1'' # lay_str path @ lay_nz uid"
| "lay_fact (ArchivedStreamDeleted path uid) = CHR ''2'' # lay_str path @ lay_nz uid"

primrec lay_body :: "ArchivedWalBody \<Rightarrow> bytes" where
  "lay_body (ArchivedRun facts) = CHR ''0'' # counted lay_fact facts"
| "lay_body ArchivedFence = [CHR ''1'']"

definition lay_wal :: "ArchivedWalObject \<Rightarrow> bytes" where
  "lay_wal a = octets_list (archived_wal_partition a) @ lay_nz (archived_wal_batch a)
     @ lay_nz (archived_wal_owner a) @ lay_body (archived_wal_body a)"

definition short :: "string set" where
  "short = {s. length s < 4294967296}"

definition ttls :: "ExpiryArchive set" where
  "ttls = {e. \<forall>seconds. e = ExpiryArchiveTtl seconds \<longrightarrow> seconds < 256 ^ 8}"

definition short_facts :: "ArchivedOperationFact set" where
  "short_facts = {op. case op of
     ArchivedStreamCreated path uid content_type expiry lifecycle \<Rightarrow>
       path \<in> short \<and> content_type \<in> short \<and> expiry \<in> ttls
   | ArchivedStreamClosed path uid \<Rightarrow> path \<in> short
   | ArchivedStreamDeleted path uid \<Rightarrow> path \<in> short}"

definition short_wal :: "ArchivedWalObject \<Rightarrow> bool" where
  "short_wal a \<longleftrightarrow> (case archived_wal_body a of
     ArchivedRun facts \<Rightarrow> length facts < 4294967296 \<and> set facts \<subseteq> short_facts | ArchivedFence \<Rightarrow> True)"

definition lay_serialize :: "ArchivedWalObject \<Rightarrow> bytes list \<times> bool" where
  "lay_serialize a = ([lay_wal a], short_wal a)"

definition lay_access :: "bytes \<Rightarrow> ArchivedWalObject option" where
  "lay_access bs = (if \<exists>a. short_wal a \<and> lay_wal a = bs then Some (THE a. short_wal a \<and> lay_wal a = bs) else None)"

lemma code_nz: "prefix_code UNIV lay_nz"
proof -
  have "nz_get n < 256 ^ 8" for n using nz_get_le [of n] by (simp add: u64_max_def)
  then show ?thesis
    by (intro prefix_code_fixed [of _ _ 8]) (auto simp: inj_on_def lay_nz_def digits_inject nz_eq_iff)
qed

lemma code_str: "prefix_code short lay_str"
proof -
  have "prefix_code UNIV (\<lambda>c :: char. [c])" by (simp add: prefix_code_def)
  from prefix_code_counted [OF this] show ?thesis by (simp add: short_def lay_str_def)
qed

lemma code_expiry: "prefix_code ttls lay_expiry"
  unfolding prefix_code_def
proof (intro ballI allI impI)
  fix x y r s
  assume "x \<in> ttls" "y \<in> ttls" "lay_expiry x @ r = lay_expiry y @ s"
  moreover have "m < 256 ^ 8 \<Longrightarrow> n < 256 ^ 8 \<Longrightarrow> digits 8 m = digits 8 n \<longleftrightarrow> m = n" for m n
    using digits_inject .
  moreover have "digits 16 (unat m) = digits 16 (unat n) \<longleftrightarrow> m = n" for m n :: i128
  proof -
    have "unat m < 2 ^ LENGTH(128)" "unat n < 2 ^ LENGTH(128)" by (rule unsigned_less)+
    then show ?thesis using digits_inject [of "unat m" 16 "unat n"] by (simp add: word_unat_eq_iff)
  qed
  ultimately show "x = y \<and> r = s"
    by (cases x; cases y) (auto simp: ttls_def)
qed

lemma code_lifecycle: "prefix_code UNIV lay_lifecycle"
  unfolding prefix_code_def
proof (intro ballI allI impI)
  fix x y r s
  assume "lay_lifecycle x @ r = lay_lifecycle y @ s"
  then show "x = y \<and> r = s" by (cases x; cases y) auto
qed

lemmas layout_codes = prefix_codeD [OF code_nz] prefix_codeD [OF code_str] prefix_codeD [OF code_expiry]
  prefix_codeD [OF code_lifecycle]

lemma code_fact: "prefix_code short_facts lay_fact"
  unfolding prefix_code_def
proof (intro ballI allI impI)
  fix x y r s
  assume "x \<in> short_facts" "y \<in> short_facts" "lay_fact x @ r = lay_fact y @ s"
  then show "x = y \<and> r = s"
    by (cases x; cases y) (auto simp: short_facts_def layout_codes)
qed

lemma lay_wal_inject:
  assumes "short_wal a" "short_wal b" "lay_wal a = lay_wal b"
  shows "a = b"
proof -
  have octets: "length (octets_list q) = 16" for q using octets_list [of q] by simp
  have "archived_wal_partition a = archived_wal_partition b \<and> archived_wal_batch a = archived_wal_batch b
      \<and> archived_wal_owner a = archived_wal_owner b
      \<and> lay_body (archived_wal_body a) = lay_body (archived_wal_body b)"
    using assms(3) by (auto simp: lay_wal_def layout_codes octets octets_list_inject)
  moreover have "lay_body (archived_wal_body a) = lay_body (archived_wal_body b)
      \<Longrightarrow> archived_wal_body a = archived_wal_body b"
    using assms(1,2) prefix_codeD [OF prefix_code_counted [OF code_fact], of _ _ "[]" "[]"]
    by (cases "archived_wal_body a"; cases "archived_wal_body b")
      (auto simp: short_wal_def)
  ultimately show ?thesis by (intro ArchivedWalObject.equality) auto
qed

lemma lay_faithful: "rkyv_faithful lay_serialize lay_access"
proof -
  have "lay_access (lay_wal a) = Some a" if "short_wal a" for a
    using that lay_wal_inject by (auto simp: lay_access_def intro!: the_equality)
  moreover have "lay_wal a \<noteq> []" for a using octets_list [of "archived_wal_partition a"] by (auto simp: lay_wal_def)
  ultimately show ?thesis by (simp add: rkyv_faithful_def lay_serialize_def)
qed

section \<open>Its size\<close>

lemma archive_fact_short: "archive_fact op \<in> short_facts"
proof -
  have "path_as_str p \<in> short" "content_type_as_str ct \<in> short" for p ct
    using path_length [of p] content_type_length [of ct] by (auto simp: short_def bound_defs)
  moreover have "expiry_archive_from e \<in> ttls" for e
  proof (cases e)
    case (SlidingTtl t)
    with nz_get_le [of "ttl_seconds t"] show ?thesis by (simp add: ttls_def u64_max_def del: nz_get_le)
  qed (simp_all add: ttls_def)
  ultimately show ?thesis by (cases op) (simp_all add: short_facts_def)
qed

lemma length_lay_str [simp]: "length (lay_str s) = 4 + length s"
proof -
  have "length (concat (map (\<lambda>c. [c]) s)) = length s" by (induction s) auto
  then show ?thesis by (simp add: lay_str_def counted_def del: digits.simps)
qed

definition lay_format :: ArchiveFormat where
  "lay_format = \<lparr> string_bytes = 8, vec_bytes = 8, tag_bytes = 1 \<rparr>"

lemma lay_compact: "compact lay_format"
  by (simp add: compact_def lay_format_def)

lemma lay_field_sizes:
  "length (lay_nz n) = 8" "length (lay_lifecycle l) = lifecycle_bytes lay_format" "length (lay_expiry x) \<le> expiry_bytes lay_format"
proof -
  show "length (lay_nz n) = 8" by (simp add: lay_nz_def)
  show "length (lay_lifecycle l) = lifecycle_bytes lay_format" by (cases l) (simp_all add: archive_sizes lay_format_def)
  show "length (lay_expiry x) \<le> expiry_bytes lay_format" by (cases x) (simp_all add: archive_sizes lay_format_def)
qed

lemma lay_fact_size: "length (lay_fact a) \<le> fact_bytes lay_format + fact_contents a"
proof (cases a)
  case (ArchivedStreamCreated p u ct e l)
  with lay_field_sizes(3) [of e] show ?thesis
    by (simp add: lay_field_sizes(1,2)) (simp add: archive_sizes lay_format_def)
qed (simp_all add: lay_field_sizes(1) archive_sizes lay_format_def)

lemma lay_sized: "sized (wal_bytes lay_format) (range archive_wal) lay_serialize"
  unfolding sized_def
proof (intro ballI impI)
  fix a
  assume "a \<in> range archive_wal" and small: "wal_bytes lay_format a < 2 ^ 31"
  then obtain object where object: "a = archive_wal object" by blast
  have sizes: "length (octets_list q) = 16" for q using octets_list [of q] by simp
  show "\<exists>chunks. lay_serialize a = (chunks, True) \<and> length (concat chunks) \<le> wal_bytes lay_format a"
  proof (cases "wal_body object")
    case (WalRun facts)
    then have body: "archived_wal_body a = ArchivedRun (map archive_fact facts)" by (simp add: object archive_wal_def)
    have "length (concat (map lay_fact (map archive_fact facts)))
        \<le> sum_list (map (\<lambda>op. fact_bytes lay_format + fact_contents op) (map archive_fact facts))"
      by (induction facts) (auto intro: add_mono lay_fact_size)
    then have "length (lay_wal a) \<le> wal_bytes lay_format a"
      by (simp add: lay_wal_def wal_bytes_def body sizes lay_field_sizes counted_def lay_format_def del: digits.simps)
    moreover have "length facts \<le> wal_bytes lay_format a"
      by (simp add: wal_bytes_def body comp_def fact_bytes_def lay_format_def) (induction facts; simp)
    then have "short_wal a"
      using small archive_fact_short by (auto simp: short_wal_def body)
    ultimately show ?thesis by (simp add: lay_serialize_def)
  next
    case WalFence
    then have "archived_wal_body a = ArchivedFence" by (simp add: object archive_wal_def)
    then show ?thesis
      by (simp add: lay_serialize_def short_wal_def lay_wal_def wal_bytes_def sizes lay_field_sizes lay_format_def)
  qed
qed

end
