(* ===== verification/Memory_Run.thy ===== *)
theory Memory_Run
  imports Driver_Theorems Wal_Layout
begin

text \<open>
  A host over the store in memory, with the WAL layout and a serializer of three Seals, on which two
  bootstraps with a write between them are evaluated for the witnesses.
\<close>

section \<open>The store in memory\<close>

lemma location_inject [simp]:
  "seal_location g = seal_location h \<longleftrightarrow> g = h" "wal_location b = wal_location c \<longleftrightarrow> b = c"
  "seal_location g \<noteq> wal_location b" "wal_location b \<noteq> seal_location g"
proof -
  show "seal_location g = seal_location h \<longleftrightarrow> g = h"
    using seal_namespace.newest_first [of g h] seal_namespace.newest_first [of h g] by (metis less_irrefl neqE)
  show "wal_location b = wal_location c \<longleftrightarrow> b = c"
    using wal_namespace.newest_first [of b c] wal_namespace.newest_first [of c b] by (metis less_irrefl neqE)
qed (simp_all add: seal_location_def wal_location_def)

lemma memory_create_seal:
  assumes "host_backend host = memory_backend" "fmlookup w (seal_location g) = None"
    and "bs \<noteq> []" "length bs \<le> SEAL_ENCODED_BYTES_MAX"
  shows "create_seal host g bs w = Some (Inr Direct, fmupd (seal_location g) bs w)"
  using memory_create [OF seal_location_valid assms(2), of "typed_store_error host" bs]
    put_body_valid [OF assms(3) le_trans [OF assms(4) typed_bounds(1)]] assms(1)
  by (auto simp: create_seal_def seal_key_display)

lemma memory_genesis:
  assumes "host_backend host = memory_backend" "seal_candidate_ok c"
    and "fmlookup w (seal_location (seal_generation (eseal_seal c))) = None"
  shows "store_establish_genesis host (EncodedGenesisSeal c) w
    = Some (Inr GenesisEstablished, fmupd (seal_location (seal_generation (eseal_seal c))) (eseal_bytes c) w)"
  using memory_create_seal [OF assms(1,3)] assms(2)
  by (simp add: store_establish_genesis_def io_try_Some seal_candidate_ok_def)

lemma memory_publish:
  assumes "host_backend host = memory_backend" "seal_candidate_ok c"
    and "fmlookup w (seal_location (seal_generation (eseal_seal c))) = None"
  shows "publish_authority host (EncodedAuthoritySeal c) w
    = Some (Inr Authored, fmupd (seal_location (seal_generation (eseal_seal c))) (eseal_bytes c) w)"
  using memory_create_seal [OF assms(1,3)] assms(2)
  by (simp add: publish_authority_def authority_generation_def authority_seal_def io_try_Some seal_candidate_ok_def)

lemma memory_establish:
  assumes "host_backend host = memory_backend" "wal_candidate_ok c"
    and "fmlookup w (wal_location (ewal_batch c)) = None"
  shows "establish_wal host c w = Some (Inr WalDurable, fmupd (wal_location (ewal_batch c)) (ewal_bytes c) w)"
  using memory_create [OF wal_location_valid assms(3), of "typed_store_error host" "ewal_bytes c"]
    put_body_valid [OF _ le_trans [OF _ typed_bounds(3)], of "ewal_bytes c"] assms(1,2)
  by (auto simp: establish_wal_def create_wal_def wal_key_display io_try_def wal_candidate_ok_def)

lemma memory_read:
  assumes "fmlookup w (key_as_str k) = Some bs" "length bs \<le> nz_get (byte_bound bound)"
  shows "read_object memory_backend k bound w = Some (Inr (Some (RawObject bs (Etag ''e''))), w)"
  using assms nz_get_le [of "byte_bound bound"]
  by (simp add: read_object_def to_store_path_def memory_backend_def consume_bounded_object_def and_then_def
      require_etag_def etag_try_from_def checked_sub_def checked_add_def del: nz_get_le)

lemma memory_read_seal:
  assumes "host_backend host = memory_backend" "fmlookup w (seal_location g) = Some bs"
    and "decode_seal (host_access_seal host) g bs = Inr s"
  shows "read_seal host g w = Some (Inr (Some s), w)"
proof -
  obtain k where k: "object_key (Some (seal_location g)) = Some k" "key_as_str k = seal_location g"
    using object_key_valid [OF seal_location_valid] by blast
  obtain bound where bound: "seal_read_bound = Some bound" "nz_get (byte_bound bound) = SEAL_ENCODED_BYTES_MAX"
    using read_bounds by blast
  have "length bs \<le> SEAL_ENCODED_BYTES_MAX" using assms(3) by (simp add: decode_seal_Inr)
  then have "read_object memory_backend k bound w = Some (Inr (Some (RawObject bs (Etag ''e''))), w)"
    using memory_read [of w k bs bound] assms(2) k(2) bound(2) by simp
  then show ?thesis
    using assms(1,3) by (simp add: read_seal_def seal_key_display k(1) bound(1) io_try_def io_map_err_def)
qed

lemma memory_read_wal:
  assumes "host_backend host = memory_backend" "fmlookup w (wal_location b) = Some bs" "bs \<noteq> []"
    and "length bs \<le> WAL_ENCODED_BYTES_MAX"
    and "decode_wal (host_access_wal host) (host_from_nanosecond host) part b bs = Inr x"
  shows "\<exists>seen. read_wal host part b w = Some (Inr (Some seen), w) \<and> observed_object seen = x"
proof -
  obtain k where k: "object_key (Some (wal_location b)) = Some k" "key_as_str k = wal_location b"
    using object_key_valid [OF wal_location_valid] by blast
  obtain bound where bound: "wal_read_bound = Some bound" "nz_get (byte_bound bound) = WAL_ENCODED_BYTES_MAX"
    using read_bounds by blast
  have "read_object memory_backend k bound w = Some (Inr (Some (RawObject bs (Etag ''e''))), w)"
    using memory_read [of w k bs bound] assms(2,4) k(2) bound(2) by simp
  then show ?thesis
    using assms(1,5) put_body_valid [OF assms(3) le_trans [OF assms(4) typed_bounds(3)]]
    by (simp add: read_wal_def wal_key_display k(1) bound(1) io_try_def io_map_err_def)
qed

text \<open>A listing of valid locations in ascending order never fails.\<close>

lemma list_entries_sorted:
  assumes "sorted_wrt (<) (map key_as_str keys @ ls)" "\<forall>l\<in>set ls. object_key_validate l = Inr ()"
  shows "\<exists>page. list_entries None n keys (map Inr ls) = Inr page"
  using assms
proof (induction ls arbitrary: keys)
  case (Cons l ls)
  have l: "parse_listed_key l = Inr (key_of l)" "key_as_str (key_of l) = l"
    using Cons.prems(2) by (simp_all add: parse_listed_key_def object_key_try_from_def key_of.rep_eq)
  have "sorted_wrt (<) (map key_as_str (keys @ [key_of l]) @ ls)" using Cons.prems(1) l(2) by simp
  moreover have "\<forall>l\<in>set ls. object_key_validate l = Inr ()" using Cons.prems(2) by simp
  ultimately obtain page where "list_entries None n (keys @ [key_of l]) (map Inr ls) = Inr page"
    using Cons.IH by blast
  moreover have "\<not> key_of l \<le> last keys" if "keys \<noteq> []"
    using Cons.prems(1) that by (simp add: sorted_wrt_append less_ObjectKey_def l(2) not_le)
  ultimately show ?case using l(1) by (cases "keys = []") auto
qed auto

definition keyed :: "(string, bytes) fmap \<Rightarrow> bool" where
  "keyed w \<longleftrightarrow> (\<forall>l\<in>fmdom' w. (\<exists>g. l = seal_location g) \<or> (\<exists>b. l = wal_location b))"

lemma keyed_upd [simp]:
  "keyed w \<Longrightarrow> keyed (fmupd (seal_location g) bs w)" "keyed w \<Longrightarrow> keyed (fmupd (wal_location b) bs w)" "keyed fmempty"
  by (auto simp: keyed_def)

lemma keyed_below:
  assumes "keyed w" "l \<in> fmdom' w"
  shows "below (seal_namespace_display SealNamespace) None l \<Longrightarrow> \<exists>g. l = seal_location g"
    and "below (wal_namespace_display WalNamespace) None l \<Longrightarrow> \<exists>b. l = wal_location b"
proof -
  have "\<not> below (seal_namespace_display SealNamespace) None (wal_location b)"
      "\<not> below (wal_namespace_display WalNamespace) None (seal_location g)" for b g
    by (simp_all add: below_def seal_namespace_display_def wal_namespace_display_def spelling_consts
        seal_location_def wal_location_def)
  then show "below (seal_namespace_display SealNamespace) None l \<Longrightarrow> \<exists>g. l = seal_location g"
    and "below (wal_namespace_display WalNamespace) None l \<Longrightarrow> \<exists>b. l = wal_location b"
    using assms unfolding keyed_def by metis+
qed

lemma memory_page:
  assumes "keyed w"
  shows "\<exists>page. list_page memory_backend \<lparr> request_prefix = k, request_start_exclusive = None, request_keys_max = m \<rparr> w
    = Some (Inr page, w)"
proof -
  let ?ls = "sorted_list_of_set {l \<in> fmdom' w. below (key_as_str k) None l}"
  have "finite {l \<in> fmdom' w. below (key_as_str k) None l}" by simp
  then have "\<forall>l\<in>set ?ls. object_key_validate l = Inr ()"
    using assms seal_location_valid wal_location_valid by (auto simp: keyed_def)
  moreover have "sorted_wrt (<) ?ls" by (simp add: strict_sorted_iff)
  ultimately obtain keys truncated where
      "list_entries None (nz_get (keys_bound m)) [] (map Inr ?ls) = Inr (keys, truncated)"
    using list_entries_sorted [of "[]" ?ls "nz_get (keys_bound m)"] by auto
  then show ?thesis by (simp add: list_page_def to_store_path_def memory_backend_def Let_def)
qed

context listed_namespace begin

lemma memory_newest:
  assumes host: "host_backend host = memory_backend" and w: "keyed w"
    and parses: "\<And>l. l \<in> fmdom' w \<Longrightarrow> below prefix None l \<Longrightarrow> \<exists>k. from_str l = Some (Inr k)"
  shows "\<exists>r. do { prefix \<leftarrow> object_key (Some prefix);
          keys_max \<leftarrow> newest_keys_bound;
          io_try (io_map_err (typed_store_error host) (list_page (host_backend host)
              \<lparr> request_prefix = prefix, request_start_exclusive = None, request_keys_max = keys_max \<rparr>))
            (\<lambda>page w.
               case page_keys page of
                 [] \<Rightarrow> Some (Inr None, w)
               | listed # _ \<Rightarrow>
                   do { parsed \<leftarrow> from_str (key_as_str listed);
                        Some (try_ok (map_err (diagnose listed) parsed)
                                (\<lambda>key. Inr (Some (coordinate key))), w) }) w } = Some (Inr r, w)"
proof -
  obtain k where k: "object_key (Some prefix) = Some k" "key_as_str k = prefix"
    using object_key_valid [OF prefix_valid] by blast
  obtain m where m: "newest_keys_bound = Some m"
    by (simp add: newest_keys_bound_def keys_bound_try_from_def nz_new_def u64_max_def adapter_bounds)
  let ?request = "\<lparr> request_prefix = k, request_start_exclusive = None, request_keys_max = m \<rparr>"
  obtain page where page: "list_page memory_backend ?request w = Some (Inr page, w)"
    using memory_page [OF w] by blast
  show ?thesis
  proof (cases "page_keys page")
    case Nil
    with page show ?thesis by (simp add: k(1) m host io_try_def io_map_err_def)
  next
    case (Cons x xs)
    from list_page_sound [OF memory_backend_ok, of ?request w] page Cons k(2)
    have "key_as_str x \<in> fmdom' w" "below prefix None (key_as_str x)" by (auto simp: fmlookup_dom'_iff)
    then obtain key where "from_str (key_as_str x) = Some (Inr key)" using parses by blast
    with page Cons show ?thesis by (simp add: k(1) m host io_try_def io_map_err_def)
  qed
qed

end

lemma memory_newest_generation:
  assumes host: "host_backend host = memory_backend" and w: "keyed w"
  shows "\<exists>r. newest_generation host w = Some (Inr r, w)"
  unfolding newest_generation_def
proof (rule seal_namespace.memory_newest [OF host w])
  fix l assume "l \<in> fmdom' w" "below (seal_namespace_display SealNamespace) None l"
  then obtain g where "l = seal_location g" using keyed_below(1) [OF w] by blast
  then show "\<exists>k. seal_key_from_str l = Some (Inr k)"
    using seal_key.from_str_Inr [of l "SealKey g"] seal_key_display by auto
qed

lemma memory_newest_batch:
  assumes host: "host_backend host = memory_backend" and w: "keyed w"
  shows "\<exists>r. newest_surviving_batch host w = Some (Inr r, w)"
  unfolding newest_surviving_batch_def
proof (rule wal_namespace.memory_newest [OF host w])
  fix l assume "l \<in> fmdom' w" "below (wal_namespace_display WalNamespace) None l"
  then obtain b where "l = wal_location b" using keyed_below(2) [OF w] by blast
  then show "\<exists>k. wal_key_from_str l = Some (Inr k)"
    using wal_key.from_str_Inr [of l "WalKey b"] wal_key_display by auto
qed

text \<open>The newest coordinate is the one that is there and that no other exceeds.\<close>

lemma memory_newest_is:
  assumes host: "host_backend host = memory_backend" and w: "keyed w"
  shows "fmlookup w (seal_location g) \<noteq> None \<Longrightarrow> (\<And>h. fmlookup w (seal_location h) \<noteq> None \<Longrightarrow> h \<le> g) \<Longrightarrow>
      newest_generation host w = Some (Inr (Some g), w)"
    and "(\<And>h. fmlookup w (seal_location h) = None) \<Longrightarrow> newest_generation host w = Some (Inr None, w)"
    and "fmlookup w (wal_location b) \<noteq> None \<Longrightarrow> (\<And>c. fmlookup w (wal_location c) \<noteq> None \<Longrightarrow> c \<le> b) \<Longrightarrow>
      newest_surviving_batch host w = Some (Inr (Some b), w)"
    and "(\<And>c. fmlookup w (wal_location c) = None) \<Longrightarrow> newest_surviving_batch host w = Some (Inr None, w)"
proof -
  have ok: "backend_ok fmlookup grows (host_backend host)" using memory_backend_ok host by simp
  obtain r where r: "newest_generation host w = Some (Inr r, w)" using memory_newest_generation [OF host w] by blast
  with newest_generation_sound [OF ok, of w]
  have sound: "\<forall>g. r = Some g \<longrightarrow> fmlookup w (seal_location g) \<noteq> None
       \<and> (\<forall>h. fmlookup w (seal_location h) \<noteq> None \<longrightarrow> h \<le> g)"
      "r = None \<longrightarrow> (\<forall>h. fmlookup w (seal_location h) = None)" by auto
  show "newest_generation host w = Some (Inr (Some g), w)"
    if "fmlookup w (seal_location g) \<noteq> None" "\<And>h. fmlookup w (seal_location h) \<noteq> None \<Longrightarrow> h \<le> g"
    using r sound that by (cases r) (auto intro: antisym)
  show "newest_generation host w = Some (Inr None, w)" if "\<And>h. fmlookup w (seal_location h) = None"
    using r sound that by (cases r) auto
  obtain s where s: "newest_surviving_batch host w = Some (Inr s, w)" using memory_newest_batch [OF host w] by blast
  with newest_surviving_batch_sound [OF ok, of w]
  have sound: "\<forall>b. s = Some b \<longrightarrow> fmlookup w (wal_location b) \<noteq> None
       \<and> (\<forall>c. fmlookup w (wal_location c) \<noteq> None \<longrightarrow> c \<le> b)"
      "s = None \<longrightarrow> (\<forall>c. fmlookup w (wal_location c) = None)" by auto
  show "newest_surviving_batch host w = Some (Inr (Some b), w)"
    if "fmlookup w (wal_location b) \<noteq> None" "\<And>c. fmlookup w (wal_location c) \<noteq> None \<Longrightarrow> c \<le> b"
    using s sound that by (cases s) (auto intro: antisym)
  show "newest_surviving_batch host w = Some (Inr None, w)" if "\<And>c. fmlookup w (wal_location c) = None"
    using s sound that by (cases s) auto
qed

section \<open>A host\<close>

definition seal_serialize :: "ArchivedSeal \<Rightarrow> bytes list \<times> bool" where
  "seal_serialize a =
     (if a = archive_seal sample_seal then ([''1''], True)
      else if a = archive_seal sample_claimed then ([''2''], True)
      else if a = archive_seal restart_seal then ([''3''], True)
      else ([], False))"

definition seal_access :: "bytes \<Rightarrow> ArchivedSeal option" where
  "seal_access bs =
     (if bs = ''1'' then Some (archive_seal sample_seal)
      else if bs = ''2'' then Some (archive_seal sample_claimed)
      else if bs = ''3'' then Some (archive_seal restart_seal)
      else None)"

definition sample_host :: "(string, bytes) fmap Host" where
  "sample_host = memory_host seal_serialize seal_access lay_serialize lay_access"

lemma sample_host_fields [simp]:
  "host_backend sample_host = memory_backend" "host_access_seal sample_host = seal_access"
  "host_access_wal sample_host = lay_access" "host_from_nanosecond sample_host = Some"
  by (simp_all add: sample_host_def memory_host_def)

lemma sample_host_ok: "host_ok fmlookup grows sample_host"
proof -
  have "rkyv_faithful seal_serialize seal_access"
    by (auto simp: rkyv_faithful_def seal_serialize_def seal_access_def split: if_split_asm)
  then show ?thesis
    using memory_backend_ok lay_faithful
    by (simp add: host_ok_def nanosecond_exact_def sample_host_def memory_host_def)
qed

lemma memory_allocates: "allocates (\<lambda>_ _. True)"
  by (simp add: allocates_def)

lemma sample_host_wal: "wal_encoder_ok (host_wal sample_host)"
  using codec_wal_encoder [OF lay_faithful lay_compact lay_sized memory_allocates]
  by (simp add: host_wal_def sample_host_def memory_host_def)

definition seal_candidate :: "Seal \<Rightarrow> bytes \<Rightarrow> EncodedSeal" where
  "seal_candidate s bs = \<lparr> eseal_seal = s, eseal_bytes = bs \<rparr>"

lemma seal_candidates:
  "encoded_seal_new (host_seal sample_host) sample_seal = Some (Inr (seal_candidate sample_seal ''1''))"
  "encoded_seal_new (host_seal sample_host) sample_claimed = Some (Inr (seal_candidate sample_claimed ''2''))"
  "encoded_seal_new (host_seal sample_host) restart_seal = Some (Inr (seal_candidate restart_seal ''3''))"
proof -
  have gens: "archive_generation (seal_generation sample_seal) \<noteq> archive_generation (seal_generation sample_claimed)"
    "archive_generation (seal_generation sample_seal) \<noteq> archive_generation (seal_generation restart_seal)"
    "archive_generation (seal_generation sample_claimed) \<noteq> archive_generation (seal_generation restart_seal)"
    by (auto simp: sample_seal_fields sample_claimed_fields restart_seal_fields seal_generation_genesis_def
        nz_eq_iff dest!: arg_cong [where f = seal_generation_from_archived])
  then have roots: "archive_seal sample_claimed \<noteq> archive_seal sample_seal" "archive_seal restart_seal \<noteq> archive_seal sample_seal"
    "archive_seal restart_seal \<noteq> archive_seal sample_claimed"
    by (auto simp: archive_seal_def)
  have encodes: "encoded_seal_new (host_seal sample_host) s = Some (Inr (seal_candidate s bs))"
    if "seal_serialize (archive_seal s) = ([bs], True)" "length bs = 1" for s bs
  proof -
    have "length bs \<le> SEAL_ENCODED_BYTES_MAX" using that(2) by (simp add: bound_defs)
    moreover from this have "host_seal sample_host s = Inr bs"
      using that(1) encode_allocates [OF memory_allocates encoded_bounds_below_u64(2),
          of "\<lambda>s. seal_serialize (archive_seal s)" s "[bs]" True]
      by (simp add: host_seal_def sample_host_def memory_host_def encode_seal_def)
    ultimately show ?thesis
      using that(2) by (auto simp: encoded_seal_new_def seal_candidate_def assert_candidate_bytes_def)
  qed
  show "encoded_seal_new (host_seal sample_host) sample_seal = Some (Inr (seal_candidate sample_seal ''1''))"
    "encoded_seal_new (host_seal sample_host) sample_claimed = Some (Inr (seal_candidate sample_claimed ''2''))"
    "encoded_seal_new (host_seal sample_host) restart_seal = Some (Inr (seal_candidate restart_seal ''3''))"
    by (rule encodes; simp add: seal_serialize_def roots)+
qed

lemma seals_decode:
  "decode_seal seal_access seal_generation_genesis ''1'' = Inr sample_seal"
  "decode_seal seal_access (SealGeneration (nz_of 2)) ''2'' = Inr sample_claimed"
  using sample_seal_valid sample_claimed_fields
  by (simp_all add: decode_seal_Inr seal_access_def seal_ok_def sample_seal_fields bound_defs)
    (simp_all add: sample_claimed_def sample_seal_def tree_ok_def tree_empty_def)

text \<open>The WAL objects of the run: their candidates, and that they read back.\<close>

definition wal_candidate :: "WalObject \<Rightarrow> EncodedWal" where
  "wal_candidate x = \<lparr> ewal_partition = wal_partition x, ewal_batch = wal_batch x,
     ewal_bytes = lay_wal (archive_wal x) \<rparr>"

definition small_object :: "WalObject \<Rightarrow> bool" where
  "small_object x \<longleftrightarrow> wal_body x = WalFence \<or> wal_body x = WalRun [sample_fact]"

lemma small_objects: "small_object sample_fence" "small_object sample_run" "small_object restart_fence"
  by (simp_all add: small_object_def sample_fence_def restart_fence_def sample_run_fields)

lemma small_object_encodes:
  assumes "small_object x"
  shows "encoded_wal_new (host_wal sample_host) x = Some (Inr (wal_candidate x))"
    and "decode_wal lay_access Some (wal_partition x) (wal_batch x) (lay_wal (archive_wal x)) = Inr x"
    and "lay_wal (archive_wal x) \<noteq> []" "length (lay_wal (archive_wal x)) \<le> WAL_ENCODED_BYTES_MAX"
proof -
  have octets: "length (octets_list q) = 16" "length (lay_nz n) = 8" for q n
    using octets_list [of q] by (simp_all add: lay_nz_def)
  have "length (lay_fact (archive_fact sample_fact)) \<le> 896"
    using order_trans [OF lay_fact_size fact_estimated [OF lay_compact, of sample_fact]] sample_small by linarith
  then have len: "length (lay_wal (archive_wal x)) \<le> 1000" "lay_wal (archive_wal x) \<noteq> []"
    using assms octets
    by (auto simp: small_object_def lay_wal_def archive_wal_def counted_def simp del: digits.simps archive_partition_list)
  then show "lay_wal (archive_wal x) \<noteq> []" "length (lay_wal (archive_wal x)) \<le> WAL_ENCODED_BYTES_MAX"
    by (simp_all add: bound_defs)
  have "short_wal (archive_wal x)"
    using assms archive_fact_short [of sample_fact] by (auto simp: small_object_def short_wal_def archive_wal_def)
  then have ser: "lay_serialize (archive_wal x) = ([lay_wal (archive_wal x)], True)"
    by (simp add: lay_serialize_def)
  have fits: "length (lay_wal (archive_wal x)) \<le> WAL_ENCODED_BYTES_MAX" using len(1) by (simp add: bound_defs)
  with ser have "host_wal sample_host x = Inr (lay_wal (archive_wal x))"
    using encode_allocates [OF memory_allocates encoded_bounds_below_u64(1),
        of "\<lambda>x. lay_serialize (archive_wal x)" x "[lay_wal (archive_wal x)]" True]
    by (simp add: host_wal_def sample_host_def memory_host_def encode_wal_def)
  then show "encoded_wal_new (host_wal sample_host) x = Some (Inr (wal_candidate x))"
    using len(2) fits by (simp add: encoded_wal_new_def wal_candidate_def assert_candidate_bytes_def)
  have "lay_access (lay_wal (archive_wal x)) = Some (archive_wal x)"
    using ser lay_faithful unfolding rkyv_faithful_def by fastforce
  moreover have "nanosecond_exact Some" by (simp add: nanosecond_exact_def)
  moreover have "wal_body_ok (wal_body x)" "body_representable Some (wal_body x)"
    using assms sample_run_ok by (auto simp: small_object_def sample_run_fields wal_body_ok_def body_representable_def)
  ultimately show "decode_wal lay_access Some (wal_partition x) (wal_batch x) (lay_wal (archive_wal x)) = Inr x"
    using len(1) by (simp add: decode_wal_Inr bound_defs)
qed

section \<open>Two bootstraps and a write\<close>

definition genesis_world :: "(string, bytes) fmap" where
  "genesis_world = fmupd (seal_location seal_generation_genesis) ''1'' fmempty"

definition claimed_world :: "(string, bytes) fmap" where
  "claimed_world = fmupd (seal_location (SealGeneration (nz_of 2))) ''2'' genesis_world"

definition fenced_world :: "(string, bytes) fmap" where
  "fenced_world = fmupd (wal_location (BatchId nz_min)) (lay_wal (archive_wal sample_fence)) claimed_world"

definition written_world :: "(string, bytes) fmap" where
  "written_world = fmupd (wal_location sample_batch) (lay_wal (archive_wal sample_run)) fenced_world"

definition reclaimed_world :: "(string, bytes) fmap" where
  "reclaimed_world = fmupd (seal_location (SealGeneration (nz_of 3))) ''3'' written_world"

definition restarted_world :: "(string, bytes) fmap" where
  "restarted_world = fmupd (wal_location restart_batch) (lay_wal (archive_wal restart_fence)) reclaimed_world"

lemmas worlds = genesis_world_def claimed_world_def fenced_world_def written_world_def reclaimed_world_def
  restarted_world_def

lemma worlds_keyed [simp]:
  "keyed genesis_world" "keyed claimed_world" "keyed fenced_world" "keyed written_world" "keyed reclaimed_world"
  "keyed restarted_world"
  by (simp_all add: worlds)

lemma small_coordinates [simp]:
  "SealGeneration (nz_of 2) \<noteq> seal_generation_genesis" "SealGeneration (nz_of 3) \<noteq> seal_generation_genesis"
  "seal_generation_genesis \<noteq> SealGeneration (nz_of 2)" "seal_generation_genesis \<noteq> SealGeneration (nz_of 3)"
  "nz_of 2 \<noteq> nz_of 3" "nz_of 3 \<noteq> nz_of 2" "nz_min \<noteq> nz_of 2" "nz_min \<noteq> nz_of 3" "nz_of 2 \<noteq> nz_min" "nz_of 3 \<noteq> nz_min"
  by (simp_all add: seal_generation_genesis_def nz_eq_iff)

text \<open>One turn of the loop.\<close>

lemma loop_link:
  assumes "execute_effect sample_host eff w = Some (e, w')"
    and "sample_link (host_seal sample_host) (host_wal sample_host) s e s' st"
  shows "bootstrap_loop sample_host \<lparr> bm_state = Some s \<rparr> (BootEffect eff) w
    = bootstrap_loop sample_host \<lparr> bm_state = Some s' \<rparr> st w'"
  using bootstrap_loop_effect [OF assms(1)] assms(2) by (simp add: sample_link_def)

lemmas effect_evaluation = execute_effect_def completed_def complete_event_def

lemma execute_head:
  "execute_effect sample_host ObserveHead fmempty = Some (HeadObserved None, fmempty)"
  "execute_effect sample_host ObserveHead fenced_world = Some (HeadObserved (Some (SealGeneration (nz_of 2))), fenced_world)"
  "execute_effect sample_host ObserveHead written_world = Some (HeadObserved (Some (SealGeneration (nz_of 2))), written_world)"
  "execute_effect sample_host ObserveHead restarted_world
     = Some (HeadObserved (Some (SealGeneration (nz_of 3))), restarted_world)"
proof -
  have le: "seal_generation_genesis \<le> g" "SealGeneration (nz_of 2) \<le> SealGeneration (nz_of 3)" for g
    using seal_generation_genesis_least by (simp_all add: less_eq_SealGeneration_def)
  note newest = memory_newest_is(1) [OF sample_host_fields(1)]
  have "newest_generation sample_host fenced_world = Some (Inr (Some (SealGeneration (nz_of 2))), fenced_world)"
    "newest_generation sample_host written_world = Some (Inr (Some (SealGeneration (nz_of 2))), written_world)"
    "newest_generation sample_host restarted_world = Some (Inr (Some (SealGeneration (nz_of 3))), restarted_world)"
    by (rule newest; auto simp: worlds le split: if_split_asm)+
  moreover have "newest_generation sample_host fmempty = Some (Inr None, fmempty)"
    by (rule memory_newest_is(2)) simp_all
  ultimately show
    "execute_effect sample_host ObserveHead fmempty = Some (HeadObserved None, fmempty)"
    "execute_effect sample_host ObserveHead fenced_world = Some (HeadObserved (Some (SealGeneration (nz_of 2))), fenced_world)"
    "execute_effect sample_host ObserveHead written_world = Some (HeadObserved (Some (SealGeneration (nz_of 2))), written_world)"
    "execute_effect sample_host ObserveHead restarted_world
       = Some (HeadObserved (Some (SealGeneration (nz_of 3))), restarted_world)"
    by (simp_all add: effect_evaluation)
qed

lemma execute_tail:
  "execute_effect sample_host ObserveWalTail claimed_world = Some (WalTailObserved None, claimed_world)"
  "execute_effect sample_host ObserveWalTail reclaimed_world = Some (WalTailObserved (Some sample_batch), reclaimed_world)"
proof -
  have "BatchId nz_min \<le> sample_batch" by (simp add: less_eq_BatchId_def)
  then have "newest_surviving_batch sample_host reclaimed_world = Some (Inr (Some sample_batch), reclaimed_world)"
    by (intro memory_newest_is(3)) (auto simp: worlds split: if_split_asm)
  moreover have "newest_surviving_batch sample_host claimed_world = Some (Inr None, claimed_world)"
    by (rule memory_newest_is(4)) (simp_all add: worlds)
  ultimately show
    "execute_effect sample_host ObserveWalTail claimed_world = Some (WalTailObserved None, claimed_world)"
    "execute_effect sample_host ObserveWalTail reclaimed_world = Some (WalTailObserved (Some sample_batch), reclaimed_world)"
    by (simp_all add: effect_evaluation)
qed

lemma execute_seals:
  "execute_effect sample_host (EstablishGenesis (EncodedGenesisSeal (seal_candidate sample_seal ''1''))) fmempty
     = Some (GenesisEstablishedEvent GenesisEstablished, genesis_world)"
  "execute_effect sample_host (ReadSeal seal_generation_genesis) genesis_world
     = Some (SealRead (Some sample_seal), genesis_world)"
  "execute_effect sample_host (PublishClaim (EncodedAuthoritySeal (seal_candidate sample_claimed ''2''))) genesis_world
     = Some (ClaimPublished Authored, claimed_world)"
  "execute_effect sample_host (ReadSeal (SealGeneration (nz_of 2))) written_world
     = Some (SealRead (Some sample_claimed), written_world)"
  "execute_effect sample_host (PublishClaim (EncodedAuthoritySeal (seal_candidate restart_seal ''3''))) written_world
     = Some (ClaimPublished Authored, reclaimed_world)"
proof -
  note ok = candidates_ok(1) [OF seal_candidates(1)] candidates_ok(1) [OF seal_candidates(2)]
    candidates_ok(1) [OF seal_candidates(3)]
  note gens = sample_seal_fields(3) sample_claimed_fields(1) restart_seal_fields(3)
  note made = memory_genesis [OF sample_host_fields(1) ok(1), of fmempty]
    memory_publish [OF sample_host_fields(1) ok(2), of genesis_world]
    memory_publish [OF sample_host_fields(1) ok(3), of written_world]
  show
    "execute_effect sample_host (EstablishGenesis (EncodedGenesisSeal (seal_candidate sample_seal ''1''))) fmempty
       = Some (GenesisEstablishedEvent GenesisEstablished, genesis_world)"
    "execute_effect sample_host (PublishClaim (EncodedAuthoritySeal (seal_candidate sample_claimed ''2''))) genesis_world
       = Some (ClaimPublished Authored, claimed_world)"
    "execute_effect sample_host (PublishClaim (EncodedAuthoritySeal (seal_candidate restart_seal ''3''))) written_world
       = Some (ClaimPublished Authored, reclaimed_world)"
    using made by (simp_all add: effect_evaluation seal_candidate_def gens worlds)
  have "read_seal sample_host seal_generation_genesis genesis_world = Some (Inr (Some sample_seal), genesis_world)"
    "read_seal sample_host (SealGeneration (nz_of 2)) written_world = Some (Inr (Some sample_claimed), written_world)"
    by (rule memory_read_seal [where bs = "''1''"], simp_all add: worlds seals_decode)
      (rule memory_read_seal [where bs = "''2''"], simp_all add: seals_decode)
  then show
    "execute_effect sample_host (ReadSeal seal_generation_genesis) genesis_world
       = Some (SealRead (Some sample_seal), genesis_world)"
    "execute_effect sample_host (ReadSeal (SealGeneration (nz_of 2))) written_world
       = Some (SealRead (Some sample_claimed), written_world)"
    by (simp_all add: effect_evaluation)
qed

lemma sample_objects:
  "wal_partition sample_fence = sample_partition" "wal_batch sample_fence = BatchId nz_min"
  "wal_partition sample_run = sample_partition" "wal_batch sample_run = sample_batch"
  "wal_partition restart_fence = sample_partition" "wal_batch restart_fence = restart_batch"
  by (simp_all add: sample_fence_def restart_fence_def sample_run_fields)

lemma establish_small:
  assumes "small_object x" "fmlookup w (wal_location (wal_batch x)) = None"
  shows "establish_wal sample_host (wal_candidate x) w
    = Some (Inr WalDurable, fmupd (wal_location (wal_batch x)) (lay_wal (archive_wal x)) w)"
  using memory_establish [OF sample_host_fields(1) candidates_ok(2) [OF small_object_encodes(1) [OF assms(1)]], of w]
    assms(2)
  by (simp add: wal_candidate_def)

lemma execute_fences:
  "execute_effect sample_host (EstablishFence (wal_candidate sample_fence)) claimed_world
     = Some (FenceEstablished WalDurable, fenced_world)"
  "execute_effect sample_host (EstablishFence (wal_candidate restart_fence)) reclaimed_world
     = Some (FenceEstablished WalDurable, restarted_world)"
  using establish_small [OF small_objects(1), of claimed_world] establish_small [OF small_objects(3), of reclaimed_world]
  by (simp_all add: effect_evaluation sample_objects worlds)

lemma execute_read_small:
  assumes "small_object x" "fmlookup w (wal_location (wal_batch x)) = Some (lay_wal (archive_wal x))"
  shows "execute_effect sample_host (ReadWal (wal_partition x) (wal_batch x)) w = Some (WalRead (Some x), w)"
  using memory_read_wal [OF sample_host_fields(1) assms(2) small_object_encodes(3,4), of "wal_partition x" x]
    small_object_encodes(2) [OF assms(1)] assms(1)
  by (auto simp: effect_evaluation)

lemma execute_reads:
  "execute_effect sample_host (ReadWal sample_partition (BatchId nz_min)) fenced_world
     = Some (WalRead (Some sample_fence), fenced_world)"
  "execute_effect sample_host (ReadWal sample_partition sample_batch) reclaimed_world
     = Some (WalRead (Some sample_run), reclaimed_world)"
  "execute_effect sample_host (ReadWal sample_partition (BatchId nz_min)) restarted_world
     = Some (WalRead (Some sample_fence), restarted_world)"
  "execute_effect sample_host (ReadWal sample_partition sample_batch) restarted_world
     = Some (WalRead (Some sample_run), restarted_world)"
  "execute_effect sample_host (ReadWal sample_partition restart_batch) restarted_world
     = Some (WalRead (Some restart_fence), restarted_world)"
  using execute_read_small [OF small_objects(1)] execute_read_small [OF small_objects(2)]
    execute_read_small [OF small_objects(3)]
  by (simp_all add: sample_objects worlds)

abbreviation sample_draw :: bytes where
  "sample_draw \<equiv> replicate 16 (CHR ''p'')"

lemma bootstrap_starts:
  "bootstrap sample_host sample_draw w
     = bootstrap_loop sample_host \<lparr> bm_state = Some (DiscoveringHead sample_partition) \<rparr> (BootEffect ObserveHead) w"
proof -
  have "mint_partition_id sample_draw = Some sample_partition"
    by (simp add: mint_partition_id_def partition_try_from_def sample_seal_def)
  then show ?thesis
    using sample_discovery(1) [of "host_seal sample_host" "host_wal sample_host" sample_partition]
    by (simp add: bootstrap_def sample_link_def bootstrap_new_def)
qed

lemma first_bootstrap: "bootstrap sample_host sample_draw fmempty = Some (Inr sample_recovery, fenced_world)"
proof -
  note loop = loop_link
  show ?thesis
    unfolding bootstrap_starts
      loop [OF execute_head(1) sample_discovery(2) [OF seal_candidates(1)]]
      loop [OF execute_seals(1) sample_discovery(3)]
      loop [OF execute_seals(2) sample_claim(1) [OF seal_candidates(2)]]
      loop [OF execute_seals(3) sample_claim(2)]
      loop [OF execute_tail(1) sample_takeover(1) [OF small_object_encodes(1) [OF small_objects(1)]]]
      loop [OF execute_fences(1) sample_takeover(2)]
      loop [OF execute_reads(1) sample_takeover(3)]
      loop [OF execute_head(2) sample_takeover(4)]
    by (rule bootstrap_loop_end(1))
qed

lemma second_bootstrap:
  "bootstrap sample_host sample_draw written_world = Some (Inr restart_recovery, restarted_world)"
  unfolding bootstrap_starts
    loop_link [OF execute_head(3) restart_claim(1)]
    loop_link [OF execute_seals(4) restart_claim(2) [OF seal_candidates(3)]]
    loop_link [OF execute_seals(5) restart_claim(3)]
    loop_link [OF execute_tail(2) restart_takeover(1)]
    loop_link [OF execute_reads(2) restart_takeover(2) [OF small_object_encodes(1) [OF small_objects(3)]]]
    loop_link [OF execute_fences(2) restart_takeover(3)]
    loop_link [OF execute_reads(3) restart_replaying(1)]
    loop_link [OF execute_reads(4) restart_replaying(2)]
    loop_link [OF execute_reads(5) restart_replaying(3)]
    loop_link [OF execute_head(4) restart_replaying(4)]
  by (rule bootstrap_loop_end(1))

section \<open>Properties\<close>

text \<open>
  C2. Opening the store always ends. Whatever the object store answers within its contract, and
  whatever other writers do to it meanwhile, the bootstrap loop returns without a panic. When it
  returns a recovery, a run of the bootstrap machine ended in it whose every read came from bytes
  that were in the store; the authored claim's Seal is in the store, no Seal there is newer, and it
  is newer than every Seal that was there when the bootstrap began.
\<close>

theorem bootstrap_always_returns:
  assumes "host_ok contents evolves host" "immutable contents evolves" "seals_permanent contents evolves"
    and "length drawn = 16"
  shows "\<exists>res w'. bootstrap host drawn w = Some (res, w') \<and> evolves w w'
    \<and> (\<forall>r. res = Inr r \<longrightarrow>
         (\<exists>n k seen. boot_run (host_seal host) (host_wal host) n k BootCompleteState seen (Some (BootComplete r))
            \<and> backed host contents evolves seen w')
         \<and> contents w' (seal_location (seal_generation (recovery_seal r))) \<noteq> None
         \<and> (\<forall>g. contents w' (seal_location g) \<noteq> None \<longrightarrow> g \<le> seal_generation (recovery_seal r))
         \<and> (\<forall>g. contents w (seal_location g) \<noteq> None \<longrightarrow> g < seal_generation (recovery_seal r)))"
  using bootstrap_returns [OF assms] unfolding recovered_def .

theorem bootstrap_always_returns_witness:
  "bootstrap sample_host sample_draw written_world = Some (Inr restart_recovery, restarted_world)
   \<and> grows written_world restarted_world
   \<and> fmlookup restarted_world (seal_location (SealGeneration (nz_of 3))) \<noteq> None"
  using bootstrap_always_returns [OF sample_host_ok memory_immutable memory_seals_permanent,
      of sample_draw written_world] second_bootstrap
  by (simp add: restart_recovery_def restart_seal_def)

end
