(* ===== verification/Checkpoint.thy ===== *)
theory Checkpoint
  imports Store_Evidence Bootstrap_Theorems
begin

text \<open>
  Checkpoint preparation, \<open>strom-storage-engine/src/checkpoint/prepare.rs\<close>: the rows of a frozen
  snapshot are cut into tables, each table is encoded and handed to \<open>emit\<close>, and the successor Seal is
  assembled over the fresh and the carried tables. The serializers of the tables and of the Seal, the
  row sizes, the allocator and the difference iterators of \<open>imbl\<close> are fields of a \<open>Preparer\<close>. The
  closure \<open>emit\<close> is an argument over a state of its own. A failed assertion or \<open>expect\<close> is
  \<open>None\<close>.
\<close>

section \<open>The model\<close>

record Preparer =
  prep_serialize_directory :: "DirectorySstArchive \<Rightarrow> bytes list \<times> bool"
  prep_serialize_ledger :: "LedgerSstArchive \<Rightarrow> bytes list \<times> bool"
  prep_directory_row_size :: nat
  prep_ledger_row_size :: nat
  prep_room :: "nat \<Rightarrow> nat \<Rightarrow> bool"
  prep_diff_directory :: directory_diff
  prep_diff_ledger :: ledger_diff
  prep_seal :: seal_encoder

datatype CheckpointContradiction = CheckpointContradiction (contradiction_detail: string)

record ChunkAccounting =
  chunk_tables :: nat
  chunk_bytes :: nat

definition chunk_accounting_default :: ChunkAccounting where
  "chunk_accounting_default = \<lparr> chunk_tables = 0, chunk_bytes = 0 \<rparr>"

text \<open>A call of an \<open>emit\<close> closure: whether to go on, and the closure's next state.\<close>

type_synonym ('a, 's) emit = "'a \<Rightarrow> 's \<Rightarrow> (bool \<times> 's) option"

text \<open>The loop of \<open>for_each_chunk\<close> with its two locals, and what follows it.\<close>

fun chunk_loop ::
  "('row \<Rightarrow> nat) \<Rightarrow> ('row list \<times> nat, 's) emit \<Rightarrow> 'row list \<Rightarrow> 'row list \<Rightarrow> nat \<Rightarrow> 's \<Rightarrow> (bool \<times> 's) option"
where
  "chunk_loop row_bytes emit [] chunk bs s = (if chunk \<noteq> [] then emit (chunk, bs) s else Some (True, s))"
| "chunk_loop row_bytes emit (row # rows) chunk bs s =
     (let additional = row_bytes row in
      do { require (case checked_add SST_ARCHIVE_FIXED_BYTES_MAX additional of
                      None \<Rightarrow> False | Some one_row \<Rightarrow> one_row \<le> SST_TABLE_TARGET_BYTES);
           extended \<leftarrow> checked_add bs additional;
           if chunk \<noteq> [] \<and> extended > SST_TABLE_TARGET_BYTES
           then do { (continue, s) \<leftarrow> emit (chunk, bs) s;
                     if \<not> continue then Some (False, s)
                     else do { bs \<leftarrow> checked_add SST_ARCHIVE_FIXED_BYTES_MAX additional;
                               chunk_loop row_bytes emit rows [row] bs s } }
           else do { bs \<leftarrow> checked_add bs additional;
                     chunk_loop row_bytes emit rows (chunk @ [row]) bs s } })"

definition for_each_chunk ::
  "'row list \<Rightarrow> ('row \<Rightarrow> nat) \<Rightarrow> ('row list \<times> nat, 's) emit \<Rightarrow> 's \<Rightarrow> (bool \<times> 's) option" where
  "for_each_chunk rows row_bytes emit s = chunk_loop row_bytes emit rows [] SST_ARCHIVE_FIXED_BYTES_MAX s"

definition account_chunk :: "('row list \<times> nat, ChunkAccounting) emit" where
  "account_chunk chunk accounting =
     do { tables \<leftarrow> checked_add (chunk_tables accounting) 1;
          bs \<leftarrow> checked_add (chunk_bytes accounting) (snd chunk);
          Some (True, \<lparr> chunk_tables = tables, chunk_bytes = bs \<rparr>) }"

definition account_rows :: "nat list \<Rightarrow> ChunkAccounting option" where
  "account_rows rows = map_option snd (for_each_chunk rows id account_chunk chunk_accounting_default)"

primrec ledger_row_bytes :: "LedgerCell \<Rightarrow> nat" where
  "ledger_row_bytes (CellValue r) = LEDGER_VALUE_ROW_ENCODED_BYTES_MAX"
| "ledger_row_bytes CellDelete = LEDGER_DELETE_ROW_ENCODED_BYTES_MAX"

text \<open>
  The sum of the carried bytes is the \<open>Iterator::sum\<close> of \<open>u64\<close>, which panics on overflow where the
  build checks arithmetic.
\<close>

definition sum_u64 :: "nat list \<Rightarrow> nat option" where
  "sum_u64 ns = fold (\<lambda>n acc. Option.bind acc (\<lambda>a. checked_add a n)) ns (Some 0)"

definition select_delta :: "Seal \<Rightarrow> ChunkAccounting \<Rightarrow> ChunkAccounting \<Rightarrow> bool option" where
  "select_delta source directory ledger =
     (case checked_add (length (tree_runs (seal_directory source))) (of_bool (chunk_tables directory \<noteq> 0)) of
        None \<Rightarrow> Some False
      | Some directory_runs \<Rightarrow>
     (case checked_add (length (tree_runs (seal_ledger source))) (of_bool (chunk_tables ledger \<noteq> 0)) of
        None \<Rightarrow> Some False
      | Some ledger_runs \<Rightarrow>
     (let carried_objects = length (seal_tables source) in
      case checked_add (chunk_tables directory) (chunk_tables ledger) of
        None \<Rightarrow> Some False
      | Some fresh_objects \<Rightarrow>
          do { carried_bytes \<leftarrow> sum_u64 (map (nz_get \<circ> ref_object_bytes) (seal_tables source));
               case checked_add (chunk_bytes directory) (chunk_bytes ledger) of
                 None \<Rightarrow> Some False
               | Some fresh_bytes \<Rightarrow>
                   Some (directory_runs \<le> TREE_RUNS_MAX \<and> ledger_runs \<le> TREE_RUNS_MAX
                     \<and> (case checked_add carried_objects fresh_objects of None \<Rightarrow> False
                        | Some objects \<Rightarrow> objects \<le> PARTITION_BOOTSTRAP_OBJECTS_MAX_V2)
                     \<and> (case checked_add carried_bytes fresh_bytes of None \<Rightarrow> False
                        | Some total_bytes \<Rightarrow> total_bytes \<le> PARTITION_BOOTSTRAP_BYTES_MAX_V2)) })))"

definition can_append_delta :: "Seal \<Rightarrow> ForestDelta \<Rightarrow> bool option" where
  "can_append_delta source delta =
     do { directory \<leftarrow> account_rows (map (\<lambda>_. DIRECTORY_ROW_ENCODED_BYTES_MAX) (delta_directory delta));
          ledger \<leftarrow> account_rows (map (\<lambda>(uid, cell). ledger_row_bytes cell) (delta_ledger delta));
          select_delta source directory ledger }"

definition assert_full_plan :: "ChunkAccounting \<Rightarrow> ChunkAccounting \<Rightarrow> unit option" where
  "assert_full_plan directory ledger =
     do { objects \<leftarrow> checked_add (chunk_tables directory) (chunk_tables ledger);
          require (objects \<le> PARTITION_BOOTSTRAP_OBJECTS_MAX_V2);
          bs \<leftarrow> checked_add (chunk_bytes directory) (chunk_bytes ledger);
          require (bs \<le> PARTITION_BOOTSTRAP_BYTES_MAX_V2) }"

definition plan_checkpoint :: "Seal \<Rightarrow> Forest \<Rightarrow> ForestDelta \<Rightarrow> (ForestDelta \<times> Seal option) option" where
  "plan_checkpoint source snapshot delta =
     do { append \<leftarrow> can_append_delta source delta;
          if append then Some (delta, Some source)
          else do {
            let cells = checkpoint_cells snapshot;
            directory \<leftarrow> account_rows (map (\<lambda>_. DIRECTORY_ROW_ENCODED_BYTES_MAX) (delta_directory cells));
            ledger \<leftarrow> account_rows (map (\<lambda>(uid, cell). ledger_row_bytes cell) (delta_ledger cells));
            assert_full_plan directory ledger;
            Some (cells, None) } }"

text \<open>The ordinal is a \<open>u32\<close>; the returned number is its next value.\<close>

definition u32_max :: nat where
  "u32_max = 2 ^ 32 - 1"

definition next_table_key :: "SealGeneration \<Rightarrow> AttemptId \<Rightarrow> nat \<Rightarrow> StoreKind \<Rightarrow> (TableKey \<times> nat) option" where
  "next_table_key generation attempt ordinal store =
     do { require (ordinal + 1 \<le> u32_max);
          fresh \<leftarrow> expect_ok (fresh_identity_new generation attempt ordinal);
          Some (TableKey (TableObjectId fresh store), ordinal + 1) }"

definition build_manifest :: "TreeVersion option \<Rightarrow> TableRef list \<Rightarrow> TreeVersion option" where
  "build_manifest carried tables =
     do { fresh \<leftarrow> (if tables = [] then Some None
            else map_option Some (expect_ok (sorted_run_try_from tables)));
          runs \<leftarrow> (case (carried, fresh) of
              (Some carried, Some fresh) \<Rightarrow>
                do { checked_add (length (tree_runs carried)) 1; Some (fresh # tree_runs carried) }
            | (Some carried, None) \<Rightarrow> Some (tree_runs carried)
            | (None, Some fresh) \<Rightarrow> Some [fresh]
            | (None, None) \<Rightarrow> Some []);
          expect_ok (tree_version_try_from runs) }"

text \<open>
  The closure of \<open>build_directory_tree\<close> and of \<open>build_ledger_tree\<close>: it draws the next key, encodes
  the chunk, checks the estimate, records the reference and emits. Its state is the ordinal, the
  references so far and the state of \<open>emit\<close>.
\<close>

definition emit_chunk ::
  "(TableKey \<Rightarrow> 'row list \<Rightarrow> (SstEncodeError + EncodedTable) option) \<Rightarrow> SealGeneration \<Rightarrow> AttemptId \<Rightarrow> StoreKind
   \<Rightarrow> (EncodedTable, 's) emit \<Rightarrow> ('row list \<times> nat, nat \<times> TableRef list \<times> 's) emit" where
  "emit_chunk encode_table generation attempt store emit chunk state =
     (let (rows, estimate) = chunk; (ordinal, references, s) = state in
      do { (key, ordinal) \<leftarrow> next_table_key generation attempt ordinal store;
           encoded \<leftarrow> encode_table key rows;
           encoded \<leftarrow> expect_ok encoded;
           require (nz_get (ref_object_bytes (etable_table encoded)) \<le> estimate);
           (continue, s) \<leftarrow> emit encoded s;
           Some (continue, (ordinal, references @ [etable_table encoded], s)) })"

definition build_tree ::
  "(TableKey \<Rightarrow> 'row list \<Rightarrow> (SstEncodeError + EncodedTable) option) \<Rightarrow> ('row \<Rightarrow> nat) \<Rightarrow> StoreKind
   \<Rightarrow> SealGeneration \<Rightarrow> AttemptId \<Rightarrow> nat \<Rightarrow> 'row list \<Rightarrow> TreeVersion option \<Rightarrow> (EncodedTable, 's) emit \<Rightarrow> 's
   \<Rightarrow> (TreeVersion option \<times> nat \<times> 's) option" where
  "build_tree encode_table row_bytes store generation attempt ordinal rows carried emit s =
     do { (finished, ordinal, references, s) \<leftarrow> for_each_chunk rows row_bytes
            (emit_chunk encode_table generation attempt store emit) (ordinal, [], s);
          if finished then do { tree \<leftarrow> build_manifest carried references; Some (Some tree, ordinal, s) }
          else Some (None, ordinal, s) }"

definition build_directory_tree ::
  "Preparer \<Rightarrow> PartitionId \<Rightarrow> SealGeneration \<Rightarrow> AttemptId \<Rightarrow> nat \<Rightarrow> (StreamPath \<times> DirectoryEntry) list
   \<Rightarrow> TreeVersion option \<Rightarrow> (EncodedTable, 's) emit \<Rightarrow> 's \<Rightarrow> (TreeVersion option \<times> nat \<times> 's) option" where
  "build_directory_tree prep part =
     build_tree (encode_directory (prep_serialize_directory prep) (prep_room prep) (prep_directory_row_size prep) part)
       (\<lambda>_. DIRECTORY_ROW_ENCODED_BYTES_MAX) StoreDirectory"

definition build_ledger_tree ::
  "Preparer \<Rightarrow> PartitionId \<Rightarrow> SealGeneration \<Rightarrow> AttemptId \<Rightarrow> nat \<Rightarrow> (StreamUid \<times> LedgerCell) list
   \<Rightarrow> TreeVersion option \<Rightarrow> (EncodedTable, 's) emit \<Rightarrow> 's \<Rightarrow> (TreeVersion option \<times> nat \<times> 's) option" where
  "build_ledger_tree prep part =
     build_tree (encode_ledger (prep_serialize_ledger prep) (prep_room prep) (prep_ledger_row_size prep) part)
       (\<lambda>(uid, cell). ledger_row_bytes cell) StoreLedger"

definition assemble_checkpoint_seal ::
  "Preparer \<Rightarrow> PartitionId \<Rightarrow> SealGeneration \<Rightarrow> BatchId \<Rightarrow> OwnerToken \<Rightarrow> TreeVersion \<Rightarrow> TreeVersion
   \<Rightarrow> (Seal \<times> EncodedAuthoritySeal) option" where
  "assemble_checkpoint_seal prep part generation wcut owner directory ledger =
     do { successor \<leftarrow> expect_ok (seal_new part generation (ReplayThrough wcut owner) directory ledger);
          encoded \<leftarrow> authority_candidate (prep_seal prep) successor;
          encoded \<leftarrow> expect_ok encoded;
          Some (successor, encoded) }"

definition prepare_checkpoint ::
  "Preparer \<Rightarrow> CheckpointInput \<Rightarrow> (EncodedTable, 's) emit \<Rightarrow> 's
   \<Rightarrow> ((CheckpointContradiction + PreparedCheckpoint option) \<times> 's) option" where
  "prepare_checkpoint prep input emit s =
     (let ticket = input_ticket input; source = input_source input; snapshot = input_snapshot input;
          attempt = ticket_attempt ticket; part = seal_partition source in
      case seal_generation_successor (seal_generation source) of
        Inl _ \<Rightarrow> Some (Inl (CheckpointContradiction ''storage coordinate is exhausted''), s)
      | Inr generation \<Rightarrow>
          do { delta \<leftarrow> delta_since (prep_diff_directory prep) (prep_diff_ledger prep) snapshot (input_base input);
               (cells, carried) \<leftarrow> plan_checkpoint source snapshot delta;
               (directory, ordinal, s) \<leftarrow> build_directory_tree prep part generation attempt 0
                  (delta_directory cells) (map_option seal_directory carried) emit s;
               case directory of None \<Rightarrow> Some (Inr None, s)
               | Some directory \<Rightarrow>
                   do { (ledger, ordinal, s) \<leftarrow> build_ledger_tree prep part generation attempt ordinal
                          (delta_ledger cells) (map_option seal_ledger carried) emit s;
                        case ledger of None \<Rightarrow> Some (Inr None, s)
                        | Some ledger \<Rightarrow>
                            do { (successor, encoded) \<leftarrow> assemble_checkpoint_seal prep part generation
                                   (ticket_cut ticket) (owner_from (attempt_owner_claim attempt)) directory ledger;
                                 prepared \<leftarrow> prepared_checkpoint_new ticket source successor snapshot encoded;
                                 Some (Inr (Some prepared), s) } } })"

end
