(* ===== verification/Checkpoint_Theorems.thy ===== *)
theory Checkpoint_Theorems
  imports Checkpoint
begin

text \<open>
  What checkpoint preparation guarantees. The chunking loop is related to a list of chunks and the
  bounds of its accounting; the difference of two forests to the rows that turn one into the other;
  and the assembled Seal to the frozen snapshot, which its tables hold exactly.
\<close>

section \<open>Chunks\<close>

text \<open>The chunks that \<open>for_each_chunk\<close> cuts, and what it does with them: it offers them in order.\<close>

fun chunks :: "('row \<Rightarrow> nat) \<Rightarrow> 'row list \<Rightarrow> 'row list \<Rightarrow> nat \<Rightarrow> ('row list \<times> nat) list" where
  "chunks row_bytes [] chunk bs = (if chunk \<noteq> [] then [(chunk, bs)] else [])"
| "chunks row_bytes (row # rows) chunk bs =
     (if chunk \<noteq> [] \<and> bs + row_bytes row > SST_TABLE_TARGET_BYTES
      then (chunk, bs) # chunks row_bytes rows [row] (SST_ARCHIVE_FIXED_BYTES_MAX + row_bytes row)
      else chunks row_bytes rows (chunk @ [row]) (bs + row_bytes row))"

abbreviation row_chunks :: "('row \<Rightarrow> nat) \<Rightarrow> 'row list \<Rightarrow> ('row list \<times> nat) list" where
  "row_chunks row_bytes rows \<equiv> chunks row_bytes rows [] SST_ARCHIVE_FIXED_BYTES_MAX"

fun offer :: "('a, 's) emit \<Rightarrow> 'a list \<Rightarrow> 's \<Rightarrow> (bool \<times> 's) option" where
  "offer emit [] s = Some (True, s)"
| "offer emit (x # xs) s =
     do { (continue, s) \<leftarrow> emit x s; if continue then offer emit xs s else Some (False, s) }"

definition rows_fit :: "('row \<Rightarrow> nat) \<Rightarrow> 'row list \<Rightarrow> bool" where
  "rows_fit row_bytes rows \<longleftrightarrow>
     (\<forall>row\<in>set rows. SST_ARCHIVE_FIXED_BYTES_MAX + row_bytes row \<le> SST_TABLE_TARGET_BYTES)"

lemma target_below_u64: "SST_TABLE_TARGET_BYTES + SST_TABLE_TARGET_BYTES \<le> u64_max"
  by (simp add: bound_defs u64_max_def)

lemma chunk_loop_offers:
  "rows_fit row_bytes rows \<Longrightarrow> bs \<le> SST_TABLE_TARGET_BYTES
    \<Longrightarrow> (chunk = [] \<Longrightarrow> bs = SST_ARCHIVE_FIXED_BYTES_MAX)
    \<Longrightarrow> chunk_loop row_bytes emit rows chunk bs s = offer emit (chunks row_bytes rows chunk bs) s"
proof (induction rows arbitrary: chunk bs s)
  case Nil
  then show ?case by (auto split: bind_split)
next
  case (Cons row rows)
  have fit: "rows_fit row_bytes rows" "SST_ARCHIVE_FIXED_BYTES_MAX + row_bytes row \<le> SST_TABLE_TARGET_BYTES"
    using Cons.prems(1) by (simp_all add: rows_fit_def)
  have adds: "checked_add SST_ARCHIVE_FIXED_BYTES_MAX (row_bytes row) = Some (SST_ARCHIVE_FIXED_BYTES_MAX + row_bytes row)"
      "checked_add bs (row_bytes row) = Some (bs + row_bytes row)"
    using fit(2) Cons.prems(2) target_below_u64 by (simp_all add: checked_add_Some)
  note IH = Cons.IH [OF fit(1)]
  show ?case
  proof (cases "chunk \<noteq> [] \<and> bs + row_bytes row > SST_TABLE_TARGET_BYTES")
    case True
    then show ?thesis
      using IH [OF fit(2), of "[row]"] fit(2) by (auto simp: adds split: bind_split)
  next
    case False
    then have "bs + row_bytes row \<le> SST_TABLE_TARGET_BYTES" using Cons.prems(3) fit(2) by auto
    from IH [OF this, of "chunk @ [row]"] False fit(2) show ?thesis by (auto simp: adds)
  qed
qed

lemma for_each_chunk_offers:
  "rows_fit row_bytes rows \<Longrightarrow> for_each_chunk rows row_bytes emit s = offer emit (row_chunks row_bytes rows) s"
  unfolding for_each_chunk_def by (rule chunk_loop_offers) (simp_all add: bound_defs)

lemma chunks_concat: "concat (map fst (chunks row_bytes rows chunk bs)) = chunk @ rows"
  by (induction row_bytes rows chunk bs rule: chunks.induct) simp_all

definition chunk_ok :: "('row \<Rightarrow> nat) \<Rightarrow> 'row list \<times> nat \<Rightarrow> bool" where
  "chunk_ok row_bytes c \<longleftrightarrow> fst c \<noteq> []
     \<and> snd c = SST_ARCHIVE_FIXED_BYTES_MAX + sum_list (map row_bytes (fst c)) \<and> snd c \<le> SST_TABLE_TARGET_BYTES"

lemma chunks_ok:
  "rows_fit row_bytes rows \<Longrightarrow> bs = SST_ARCHIVE_FIXED_BYTES_MAX + sum_list (map row_bytes chunk)
    \<Longrightarrow> bs \<le> SST_TABLE_TARGET_BYTES \<Longrightarrow> list_all (chunk_ok row_bytes) (chunks row_bytes rows chunk bs)"
proof (induction row_bytes rows chunk bs rule: chunks.induct)
  case (2 row_bytes row rows chunk bs)
  have fit: "rows_fit row_bytes rows" "SST_ARCHIVE_FIXED_BYTES_MAX + row_bytes row \<le> SST_TABLE_TARGET_BYTES"
    using "2.prems"(1) by (simp_all add: rows_fit_def)
  show ?case
  proof (cases "chunk \<noteq> [] \<and> bs + row_bytes row > SST_TABLE_TARGET_BYTES")
    case True
    then show ?thesis using "2.IH"(1) [OF True fit(1)] fit(2) "2.prems"(2,3) by (simp add: chunk_ok_def)
  next
    case False
    have "bs + row_bytes row \<le> SST_TABLE_TARGET_BYTES" using False fit(2) "2.prems"(2) by auto
    then show ?thesis using "2.IH"(2) [OF False fit(1)] False "2.prems"(2) by auto
  qed
qed (simp add: chunk_ok_def)

text \<open>Every chunk but the last is nearly full, which bounds their number.\<close>

lemma chunks_count:
  "(\<forall>row\<in>set rows. row_bytes row \<le> K) \<Longrightarrow> SST_ARCHIVE_FIXED_BYTES_MAX + K \<le> SST_TABLE_TARGET_BYTES
    \<Longrightarrow> bs = SST_ARCHIVE_FIXED_BYTES_MAX + sum_list (map row_bytes chunk)
    \<Longrightarrow> (length (chunks row_bytes rows chunk bs) - 1) * (SST_TABLE_TARGET_BYTES - SST_ARCHIVE_FIXED_BYTES_MAX - K)
        \<le> sum_list (map row_bytes (chunk @ rows))"
proof (induction row_bytes rows chunk bs rule: chunks.induct)
  case (2 row_bytes row rows chunk bs)
  let ?full = "SST_TABLE_TARGET_BYTES - SST_ARCHIVE_FIXED_BYTES_MAX - K"
  show ?case
  proof (cases "chunk \<noteq> [] \<and> bs + row_bytes row > SST_TABLE_TARGET_BYTES")
    case True
    let ?rest = "chunks row_bytes rows [row] (SST_ARCHIVE_FIXED_BYTES_MAX + row_bytes row)"
    have "row_bytes row \<le> K" using "2.prems"(1) by simp
    then have "?full \<le> sum_list (map row_bytes chunk)"
      using True "2.prems"(3) by linarith
    moreover have "(length ?rest - 1) * ?full \<le> sum_list (map row_bytes ([row] @ rows))"
      using "2.IH"(1) [OF True] "2.prems"(1,2) by simp
    moreover have "length ?rest \<noteq> 0"
      using chunks_concat [of row_bytes rows "[row]" "SST_ARCHIVE_FIXED_BYTES_MAX + row_bytes row"] by auto
    ultimately show ?thesis using True by (cases "length ?rest") auto
  next
    case False
    have "(length (chunks row_bytes rows (chunk @ [row]) (bs + row_bytes row)) - 1) * ?full
        \<le> sum_list (map row_bytes ((chunk @ [row]) @ rows))"
      using "2.IH"(2) [OF False] "2.prems" by simp
    then show ?thesis unfolding chunks.simps(2) if_not_P [OF False] by simp
  qed
qed simp

lemma chunks_bytes:
  "list_all (chunk_ok row_bytes) cs \<Longrightarrow> sum_list (map snd cs)
     = length cs * SST_ARCHIVE_FIXED_BYTES_MAX + sum_list (map row_bytes (concat (map fst cs)))"
  by (induction cs) (simp_all add: chunk_ok_def)

lemma chunks_map:
  "chunks id (map row_bytes rows) (map row_bytes chunk) bs
     = map (\<lambda>(c, n). (map row_bytes c, n)) (chunks row_bytes rows chunk bs)"
proof (induction row_bytes rows chunk bs rule: chunks.induct)
  case (2 row_bytes row rows chunk bs)
  show ?case
    using "2.IH" by (cases "chunk \<noteq> [] \<and> bs + row_bytes row > SST_TABLE_TARGET_BYTES") auto
qed simp

section \<open>Accounting\<close>

definition planned_accounting :: "('row \<Rightarrow> nat) \<Rightarrow> 'row list \<Rightarrow> ChunkAccounting" where
  "planned_accounting row_bytes rows =
     \<lparr> chunk_tables = length (row_chunks row_bytes rows),
       chunk_bytes = sum_list (map snd (row_chunks row_bytes rows)) \<rparr>"

lemma account_offer:
  "chunk_tables acc + length cs \<le> u64_max \<Longrightarrow> chunk_bytes acc + sum_list (map snd cs) \<le> u64_max
    \<Longrightarrow> offer account_chunk cs acc = Some (True, \<lparr> chunk_tables = chunk_tables acc + length cs,
          chunk_bytes = chunk_bytes acc + sum_list (map snd cs) \<rparr>)"
  by (induction cs arbitrary: acc) (simp_all add: account_chunk_def checked_add_def)

lemma chunks_nonempty: "list_all (chunk_ok row_bytes) cs \<Longrightarrow> length cs \<le> length (concat (map fst cs))"
proof (induction cs)
  case (Cons c cs)
  then have "1 \<le> length (fst c)" by (auto simp: chunk_ok_def Suc_le_eq)
  with Cons show ?case by simp
qed simp

lemma row_chunks_facts:
  assumes "rows_fit row_bytes rows"
  shows "list_all (chunk_ok row_bytes) (row_chunks row_bytes rows)"
    and "concat (map fst (row_chunks row_bytes rows)) = rows"
    and "length (row_chunks row_bytes rows) \<le> length rows"
    and "sum_list (map snd (row_chunks row_bytes rows))
      = length (row_chunks row_bytes rows) * SST_ARCHIVE_FIXED_BYTES_MAX + sum_list (map row_bytes rows)"
proof -
  show ok: "list_all (chunk_ok row_bytes) (row_chunks row_bytes rows)"
    using chunks_ok [OF assms, of SST_ARCHIVE_FIXED_BYTES_MAX "[]"] by (simp add: bound_defs)
  show all: "concat (map fst (row_chunks row_bytes rows)) = rows"
    using chunks_concat [of row_bytes rows "[]"] by simp
  show "length (row_chunks row_bytes rows) \<le> length rows" using chunks_nonempty [OF ok] all by simp
  show "sum_list (map snd (row_chunks row_bytes rows))
      = length (row_chunks row_bytes rows) * SST_ARCHIVE_FIXED_BYTES_MAX + sum_list (map row_bytes rows)"
    using chunks_bytes [OF ok] all by simp
qed

lemma accounting_small:
  assumes "rows_fit row_bytes rows" "length rows \<le> u32_max"
  shows "chunk_tables (planned_accounting row_bytes rows) \<le> u32_max"
    and "chunk_bytes (planned_accounting row_bytes rows) \<le> u32_max * SST_TABLE_TARGET_BYTES"
proof -
  note facts = row_chunks_facts [OF assms(1)]
  show "chunk_tables (planned_accounting row_bytes rows) \<le> u32_max"
    using facts(3) assms(2) by (simp add: planned_accounting_def)
  have "sum_list (map snd cs) \<le> length cs * SST_TABLE_TARGET_BYTES" if "list_all (chunk_ok row_bytes) cs" for cs
    using that by (induction cs) (auto simp: chunk_ok_def)
  from this [OF facts(1)] have "sum_list (map snd (row_chunks row_bytes rows)) \<le> length rows * SST_TABLE_TARGET_BYTES"
    using facts(3) mult_le_mono1 order_trans by blast
  also have "\<dots> \<le> u32_max * SST_TABLE_TARGET_BYTES" using assms(2) by simp
  finally show "chunk_bytes (planned_accounting row_bytes rows) \<le> u32_max * SST_TABLE_TARGET_BYTES"
    by (simp add: planned_accounting_def)
qed

lemma small_sums:
  "u32_max + u32_max + 1 \<le> u64_max"
  "u32_max * SST_TABLE_TARGET_BYTES + u32_max * SST_TABLE_TARGET_BYTES \<le> u64_max"
  by (simp_all add: u32_max_def u64_max_def bound_defs)

lemma account_rows_planned:
  assumes "rows_fit row_bytes rows" "length rows \<le> u32_max"
  shows "account_rows (map row_bytes rows) = Some (planned_accounting row_bytes rows)"
proof -
  have fit: "rows_fit id (map row_bytes rows)" using assms(1) by (simp add: rows_fit_def)
  have "map snd (chunks id (map row_bytes rows) [] SST_ARCHIVE_FIXED_BYTES_MAX) = map snd (row_chunks row_bytes rows)"
    "length (chunks id (map row_bytes rows) [] SST_ARCHIVE_FIXED_BYTES_MAX) = length (row_chunks row_bytes rows)"
    using chunks_map [of row_bytes rows "[]"] by (simp_all add: case_prod_unfold comp_def)
  then show ?thesis
    using accounting_small [OF assms] small_sums
    by (simp add: account_rows_def for_each_chunk_offers [OF fit] account_offer planned_accounting_def
        chunk_accounting_default_def)
qed

text \<open>The rows a checkpoint writes all fit, and a full base stays inside the bootstrap bounds.\<close>

lemma checkpoint_rows_fit:
  "rows_fit (\<lambda>_. DIRECTORY_ROW_ENCODED_BYTES_MAX) rows" "rows_fit (\<lambda>(uid, cell). ledger_row_bytes cell) cells"
proof -
  have "SST_ARCHIVE_FIXED_BYTES_MAX + ledger_row_bytes c \<le> SST_TABLE_TARGET_BYTES" for c
    by (cases c) (simp_all add: bound_defs)
  then show "rows_fit (\<lambda>(uid, cell). ledger_row_bytes cell) cells" by (auto simp: rows_fit_def)
qed (simp add: rows_fit_def bound_defs)

lemma chunks_count_constant:
  assumes "\<forall>row\<in>set rows. row_bytes row = K" "SST_ARCHIVE_FIXED_BYTES_MAX + K < SST_TABLE_TARGET_BYTES"
    and "length rows \<le> N"
  shows "length (row_chunks row_bytes rows)
    \<le> N * K div (SST_TABLE_TARGET_BYTES - SST_ARCHIVE_FIXED_BYTES_MAX - K) + 1"
proof -
  let ?full = "SST_TABLE_TARGET_BYTES - SST_ARCHIVE_FIXED_BYTES_MAX - K"
  have "sum_list (map row_bytes rows) = length rows * K"
    using assms(1) by (induction rows) simp_all
  then have "(length (row_chunks row_bytes rows) - 1) * ?full \<le> length rows * K"
    using chunks_count [of rows row_bytes K SST_ARCHIVE_FIXED_BYTES_MAX "[]"] assms(1,2) by simp
  also have "\<dots> \<le> N * K" using assms(3) by simp
  finally have "(length (row_chunks row_bytes rows) - 1) * ?full \<le> N * K" .
  then have "length (row_chunks row_bytes rows) - 1 \<le> N * K div ?full"
    using assms(2) by (simp add: less_eq_div_iff_mult_less_eq)
  then show ?thesis by simp
qed

lemma full_plan_accepted:
  assumes rows: "length rows \<le> PARTITION_PATH_OCCUPANCIES_MAX_V2"
    and cells: "length cells \<le> PARTITION_PATH_OCCUPANCIES_MAX_V2" "\<forall>c\<in>set cells. \<exists>r. snd c = CellValue r"
  shows "assert_full_plan (planned_accounting (\<lambda>_. DIRECTORY_ROW_ENCODED_BYTES_MAX) rows)
    (planned_accounting (\<lambda>(uid, cell). ledger_row_bytes cell) cells) = Some ()"
    and "length (row_chunks (\<lambda>_. DIRECTORY_ROW_ENCODED_BYTES_MAX) rows)
      + length (row_chunks (\<lambda>(uid, cell). ledger_row_bytes cell) cells) \<le> PARTITION_BOOTSTRAP_OBJECTS_MAX_V2"
    and "sum_list (map snd (row_chunks (\<lambda>_. DIRECTORY_ROW_ENCODED_BYTES_MAX) rows))
      + sum_list (map snd (row_chunks (\<lambda>(uid, cell). ledger_row_bytes cell) cells)) \<le> PARTITION_BOOTSTRAP_BYTES_MAX_V2"
proof -
  let ?d = "row_chunks (\<lambda>_. DIRECTORY_ROW_ENCODED_BYTES_MAX) rows"
  let ?l = "row_chunks (\<lambda>(uid, cell). ledger_row_bytes cell) cells"
  have charge: "\<forall>c\<in>set cells. (\<lambda>(uid, cell). ledger_row_bytes cell) c = LEDGER_VALUE_ROW_ENCODED_BYTES_MAX"
    using cells(2) by fastforce
  have "length ?d \<le> 153"
    using chunks_count_constant [OF _ _ rows, of "\<lambda>_. DIRECTORY_ROW_ENCODED_BYTES_MAX" DIRECTORY_ROW_ENCODED_BYTES_MAX]
    by (simp add: bound_defs)
  moreover have "length ?l \<le> 306"
    using chunks_count_constant [OF charge _ cells(1)] by (simp add: bound_defs)
  moreover have "sum_list (map snd ?d) \<le> length ?d * 256 + 10240000000"
    using row_chunks_facts(4) [OF checkpoint_rows_fit(1), of rows] rows
    by (simp add: sum_list_triv bound_defs)
  moreover have "sum_list (map (\<lambda>(uid, cell). ledger_row_bytes cell) cells) = length cells * LEDGER_VALUE_ROW_ENCODED_BYTES_MAX"
    using charge by (induction cells) auto
  then have "sum_list (map snd ?l) \<le> length ?l * 256 + 20480000000"
    using row_chunks_facts(4) [OF checkpoint_rows_fit(2), of cells] cells(1) by (simp add: bound_defs)
  ultimately have "length ?d + length ?l \<le> 459" "sum_list (map snd ?d) + sum_list (map snd ?l) \<le> 30720117504"
    by linarith+
  then show "length ?d + length ?l \<le> PARTITION_BOOTSTRAP_OBJECTS_MAX_V2"
      "sum_list (map snd ?d) + sum_list (map snd ?l) \<le> PARTITION_BOOTSTRAP_BYTES_MAX_V2"
      "assert_full_plan (planned_accounting (\<lambda>_. DIRECTORY_ROW_ENCODED_BYTES_MAX) rows)
        (planned_accounting (\<lambda>(uid, cell). ledger_row_bytes cell) cells) = Some ()"
    by (simp_all add: assert_full_plan_def planned_accounting_def checked_add_def bound_defs u64_max_def)
qed

section \<open>The rows of a delta\<close>

text \<open>
  The documented behaviour of the difference iterator of \<open>imbl\<close>: it yields, in ascending key order,
  exactly the keys that were added, changed or removed, with their values.
\<close>

primrec diff_key :: "('k, 'v) DiffItem \<Rightarrow> 'k" where
  "diff_key (DiffAdd k v) = k"
| "diff_key (DiffUpdate k old v) = k"
| "diff_key (DiffRemove k v) = k"

definition diff_item :: "('k, 'v) fmap \<Rightarrow> ('k, 'v) fmap \<Rightarrow> 'k \<Rightarrow> ('k, 'v) DiffItem option" where
  "diff_item old new k =
     (case (fmlookup old k, fmlookup new k) of
        (None, Some v) \<Rightarrow> Some (DiffAdd k v)
      | (Some u, Some v) \<Rightarrow> (if u = v then None else Some (DiffUpdate k u v))
      | (Some u, None) \<Rightarrow> Some (DiffRemove k u)
      | (None, None) \<Rightarrow> None)"

definition diff_exact :: "(('k::linorder, 'v) fmap \<Rightarrow> ('k, 'v) fmap \<Rightarrow> ('k, 'v) DiffItem list) \<Rightarrow> bool" where
  "diff_exact diff \<longleftrightarrow> (\<forall>old new. sorted_wrt (<) (map diff_key (diff old new))
     \<and> (\<forall>k item. item \<in> set (diff old new) \<and> diff_key item = k \<longleftrightarrow> diff_item old new k = Some item))"

text \<open>A difference computed key by key.\<close>

definition key_diff :: "('k::linorder, 'v) fmap \<Rightarrow> ('k, 'v) fmap \<Rightarrow> ('k, 'v) DiffItem list" where
  "key_diff old new = List.map_filter (diff_item old new) (sorted_list_of_fset (fmdom old |\<union>| fmdom new))"

lemma diff_item_key: "diff_item old new k = Some item \<Longrightarrow> diff_key item = k"
  by (auto simp: diff_item_def split: option.split_asm if_split_asm)

lemma diff_item_changed: "(\<exists>item. diff_item old new k = Some item) \<longleftrightarrow> fmlookup old k \<noteq> fmlookup new k"
  by (auto simp: diff_item_def split: option.split)

lemma in_set_map_filter: "y \<in> set (List.map_filter f xs) \<longleftrightarrow> (\<exists>x\<in>set xs. f x = Some y)"
  by (induction xs) (auto split: option.split)

lemma key_diff_exact: "diff_exact (key_diff :: ('k::linorder, 'v) fmap \<Rightarrow> _)"
proof -
  have sorted: "sorted_wrt (<) (map diff_key (List.map_filter (diff_item old new) ks))"
    if "sorted_wrt (<) ks" for ks and old new :: "('k::linorder, 'v) fmap"
    using that
    by (induction ks) (auto simp: in_set_map_filter diff_item_key split: option.split)
  have known: "k |\<in>| fmdom old |\<union>| fmdom new" if "diff_item old new k = Some item"
    for k item and old new :: "('k::linorder, 'v) fmap"
    using that by (auto simp: diff_item_def fmlookup_dom_iff split: option.split_asm)
  have "item \<in> set (key_diff old new) \<and> diff_key item = k \<longleftrightarrow> diff_item old new k = Some item"
    for k item and old new :: "('k::linorder, 'v) fmap"
    using known [of old new k item] diff_item_key [of old new _ item]
    by (auto simp: key_diff_def in_set_map_filter)
  with sorted [OF strict_sorted_list_of_fset] show ?thesis
    unfolding diff_exact_def by (simp add: key_diff_def)
qed

definition ledger_change :: "StreamRecord option \<Rightarrow> LedgerCell" where
  "ledger_change r = (case r of Some rec \<Rightarrow> CellValue rec | None \<Rightarrow> CellDelete)"

text \<open>The lookup in rows with distinct keys, by membership.\<close>

lemma map_of_by_members:
  assumes "sorted_wrt (<) (map fst rows)" "\<And>v. (k, v) \<in> set rows \<longleftrightarrow> r = Some v"
  shows "map_of rows (k::'k::linorder) = r"
proof -
  have "distinct (map fst rows)" using assms(1) strict_sorted_iff by blast
  then show ?thesis
    using assms(2) by (cases r) (auto simp: map_of_eq_None_iff map_of_eq_Some_iff image_iff)
qed

lemma delta_directory_rows_changes:
  "\<forall>item\<in>set items. \<exists>k v. diff_item old (forest_directory self) k = Some item \<and> fmlookup (forest_directory self) k = Some v
    \<Longrightarrow> delta_directory_rows self items
      = Some (map (\<lambda>item. (diff_key item, the (fmlookup (forest_directory self) (diff_key item)))) items)"
proof (induction items)
  case (Cons item items)
  then obtain k v where "diff_item old (forest_directory self) k = Some item" "fmlookup (forest_directory self) k = Some v"
    by auto
  with Cons show ?case
    by (auto simp: diff_item_def split: option.split_asm if_split_asm)
qed simp

lemma delta_ledger_row_change:
  "diff_item old new u = Some item \<Longrightarrow> delta_ledger_row item = (u, ledger_change (fmlookup new u))"
  by (auto simp: diff_item_def ledger_change_def split: option.split_asm if_split_asm)

definition delta_ok :: "Forest \<Rightarrow> Forest \<Rightarrow> ForestDelta \<Rightarrow> bool" where
  "delta_ok base self delta \<longleftrightarrow>
     sorted_wrt (<) (map fst (delta_directory delta)) \<and> sorted_wrt (<) (map fst (delta_ledger delta))
     \<and> (\<forall>p. map_of (delta_directory delta) p
          = (if fmlookup (forest_directory base) p = fmlookup (forest_directory self) p then None
             else fmlookup (forest_directory self) p))
     \<and> (\<forall>u. map_of (delta_ledger delta) u
          = (if fmlookup (forest_ledger base) u = fmlookup (forest_ledger self) u then None
             else Some (ledger_change (fmlookup (forest_ledger self) u))))"

lemma delta_since_ok:
  assumes diff: "diff_exact diff_directory" "diff_exact diff_ledger"
    and kept: "fmdom (forest_directory base) |\<subseteq>| fmdom (forest_directory self)"
  shows "\<exists>delta. delta_since diff_directory diff_ledger self base = Some delta \<and> delta_ok base self delta"
proof -
  let ?d = "diff_directory (forest_directory base) (forest_directory self)"
  let ?l = "diff_ledger (forest_ledger base) (forest_ledger self)"
  let ?row = "\<lambda>item. (diff_key item, the (fmlookup (forest_directory self) (diff_key item)))"
  have d: "sorted_wrt (<) (map diff_key ?d)"
      "\<And>k item. item \<in> set ?d \<and> diff_key item = k \<longleftrightarrow> diff_item (forest_directory base) (forest_directory self) k = Some item"
    and l: "sorted_wrt (<) (map diff_key ?l)"
      "\<And>k item. item \<in> set ?l \<and> diff_key item = k \<longleftrightarrow> diff_item (forest_ledger base) (forest_ledger self) k = Some item"
    using diff unfolding diff_exact_def by blast+
  have present: "\<exists>v. fmlookup (forest_directory self) k = Some v"
    if "diff_item (forest_directory base) (forest_directory self) k = Some item" for k item
    using that kept by (auto simp: diff_item_def fmlookup_dom_iff fsubset_iff split: option.split_asm)
  have rows: "delta_directory_rows self ?d = Some (map ?row ?d)"
    using present d(2) by (intro delta_directory_rows_changes) blast
  have rowl: "delta_ledger_row item = (diff_key item, ledger_change (fmlookup (forest_ledger self) (diff_key item)))"
    if "item \<in> set ?l" for item
    using that l(2) delta_ledger_row_change by blast
  have sorted: "sorted_wrt (<) (map fst (map ?row ?d))" "sorted_wrt (<) (map fst (map delta_ledger_row ?l))"
    using d(1) l(1) rowl by (simp_all add: comp_def cong: map_cong)
  have "map_of (map ?row ?d) p
      = (if fmlookup (forest_directory base) p = fmlookup (forest_directory self) p then None
         else fmlookup (forest_directory self) p)" for p
  proof (rule map_of_by_members [OF sorted(1)])
    fix v
    have "(p, v) \<in> set (map ?row ?d) \<longleftrightarrow> (\<exists>item. diff_item (forest_directory base) (forest_directory self) p = Some item
        \<and> v = the (fmlookup (forest_directory self) p))"
      using d(2) by (simp add: image_iff) metis
    then show "(p, v) \<in> set (map ?row ?d) \<longleftrightarrow>
        (if fmlookup (forest_directory base) p = fmlookup (forest_directory self) p then None
         else fmlookup (forest_directory self) p) = Some v"
      using present [of p] diff_item_changed [of "forest_directory base" "forest_directory self" p] by auto
  qed
  moreover have "map_of (map delta_ledger_row ?l) u
      = (if fmlookup (forest_ledger base) u = fmlookup (forest_ledger self) u then None
         else Some (ledger_change (fmlookup (forest_ledger self) u)))" for u
  proof (rule map_of_by_members [OF sorted(2)])
    fix c
    have "(u, c) \<in> set (map delta_ledger_row ?l) \<longleftrightarrow> (\<exists>item. diff_item (forest_ledger base) (forest_ledger self) u = Some item
        \<and> c = ledger_change (fmlookup (forest_ledger self) u))"
      using l(2) rowl by (simp add: image_iff) (metis Pair_inject)
    then show "(u, c) \<in> set (map delta_ledger_row ?l) \<longleftrightarrow>
        (if fmlookup (forest_ledger base) u = fmlookup (forest_ledger self) u then None
         else Some (ledger_change (fmlookup (forest_ledger self) u))) = Some c"
      using diff_item_changed [of "forest_ledger base" "forest_ledger self" u] by auto
  qed
  ultimately show ?thesis
    using sorted by (simp add: delta_since_def rows delta_ok_def)
qed

section \<open>Fresh tables\<close>

definition fresh_key :: "SealGeneration \<Rightarrow> AttemptId \<Rightarrow> StoreKind \<Rightarrow> nat \<Rightarrow> TableKey" where
  "fresh_key generation attempt store ordinal = TableKey (TableObjectId (FreshIdentity generation attempt ordinal) store)"

definition attempt_ok :: "SealGeneration \<Rightarrow> AttemptId \<Rightarrow> bool" where
  "attempt_ok generation attempt \<longleftrightarrow>
     attempt_owner_claim attempt < generation \<and> attempt_local_counter attempt \<le> u64_max"

lemma next_table_key_fresh:
  "attempt_ok generation attempt \<Longrightarrow> ordinal < u32_max
    \<Longrightarrow> next_table_key generation attempt ordinal store = Some (fresh_key generation attempt store ordinal, Suc ordinal)"
  by (simp add: next_table_key_def fresh_identity_new_def fresh_key_def attempt_ok_def not_le)

lemma fresh_key_ok:
  "attempt_ok generation attempt \<Longrightarrow> ordinal < u32_max
    \<Longrightarrow> fresh_ok (table_fresh (key_object (fresh_key generation attempt store ordinal)))"
  by (simp add: fresh_key_def fresh_ok_def fresh_identity_ok_def attempt_ok_def u32_max_def)

text \<open>
  The contract of a table encoder: rows in strict key order that fit the table target are encoded,
  under the key they are given, in no more bytes than the accounting charges for them, and the bytes
  decode to the rows.
\<close>

locale table_encoder =
  fixes encode_table :: "TableKey \<Rightarrow> ('k::linorder \<times> 'r) list \<Rightarrow> (SstEncodeError + EncodedTable) option"
    and store :: StoreKind and row_bytes :: "'k \<times> 'r \<Rightarrow> nat" and row_ok :: "'k \<times> 'r \<Rightarrow> bool"
    and decodes :: "TableKey \<Rightarrow> bytes \<Rightarrow> ('k \<times> 'r) list \<Rightarrow> bool"
  assumes encodes:
    "table_store (key_object key) = store \<Longrightarrow> fresh_ok (table_fresh (key_object key)) \<Longrightarrow> rows \<noteq> []
      \<Longrightarrow> sorted_wrt (<) (map fst rows) \<Longrightarrow> list_all row_ok rows
      \<Longrightarrow> SST_ARCHIVE_FIXED_BYTES_MAX + sum_list (map row_bytes rows) \<le> SST_TABLE_TARGET_BYTES
      \<Longrightarrow> \<exists>e. encode_table key rows = Some (Inr e) \<and> etable_key e = key \<and> ref_object (etable_table e) = key_object key
          \<and> nz_get (ref_object_bytes (etable_table e)) = length (etable_bytes e)
          \<and> length (etable_bytes e) \<le> SST_ARCHIVE_FIXED_BYTES_MAX + sum_list (map row_bytes rows)
          \<and> decodes key (etable_bytes e) rows"
begin

definition table_of :: "SealGeneration \<Rightarrow> AttemptId \<Rightarrow> nat \<Rightarrow> ('k \<times> 'r) list \<times> nat \<Rightarrow> EncodedTable \<Rightarrow> bool" where
  "table_of generation attempt ordinal c e \<longleftrightarrow>
     encode_table (fresh_key generation attempt store ordinal) (fst c) = Some (Inr e)
     \<and> etable_key e = fresh_key generation attempt store ordinal
     \<and> ref_object (etable_table e) = key_object (etable_key e)
     \<and> nz_get (ref_object_bytes (etable_table e)) = length (etable_bytes e)
     \<and> length (etable_bytes e) \<le> snd c
     \<and> decodes (etable_key e) (etable_bytes e) (fst c)"

fun tables_of :: "SealGeneration \<Rightarrow> AttemptId \<Rightarrow> nat \<Rightarrow> (('k \<times> 'r) list \<times> nat) list \<Rightarrow> EncodedTable list \<Rightarrow> bool" where
  "tables_of generation attempt ordinal [] es \<longleftrightarrow> es = []"
| "tables_of generation attempt ordinal (c # cs) es \<longleftrightarrow>
     (\<exists>e es'. es = e # es' \<and> table_of generation attempt ordinal c e \<and> tables_of generation attempt (Suc ordinal) cs es')"

lemma tables_exist:
  assumes "attempt_ok generation attempt" "ordinal + length cs \<le> u32_max" "list_all (chunk_ok row_bytes) cs"
    and "sorted_wrt (<) (map fst (concat (map fst cs)))" "list_all row_ok (concat (map fst cs))"
  shows "\<exists>es. tables_of generation attempt ordinal cs es"
  using assms(2-)
proof (induction cs arbitrary: ordinal)
  case (Cons c cs)
  have "\<exists>es. tables_of generation attempt (Suc ordinal) cs es"
    using Cons.prems by (intro Cons.IH) (simp_all add: sorted_wrt_append)
  moreover have "table_store (key_object (fresh_key generation attempt store ordinal)) = store"
    by (simp add: fresh_key_def)
  then have "\<exists>e. table_of generation attempt ordinal c e"
    using encodes [OF _ fresh_key_ok [OF assms(1)], of store ordinal "fst c"] Cons.prems
    by (auto simp: table_of_def chunk_ok_def sorted_wrt_append)
  ultimately show ?case by auto
qed (rule exI [of _ "[]"], simp)

lemma emit_offers:
  assumes "attempt_ok generation attempt" "tables_of generation attempt ordinal cs es" "ordinal + length cs \<le> u32_max"
    and "offer emit es s = Some (continue, s')"
  shows "\<exists>ordinal' references'. offer (emit_chunk encode_table generation attempt store emit) cs (ordinal, references, s)
      = Some (continue, ordinal', references', s')
    \<and> (continue \<longrightarrow> ordinal' = ordinal + length cs \<and> references' = references @ map etable_table es)"
  using assms(2-)
proof (induction cs arbitrary: ordinal es references s)
  case (Cons c cs)
  obtain e es' where es: "es = e # es'" "table_of generation attempt ordinal c e"
      "tables_of generation attempt (Suc ordinal) cs es'"
    using Cons.prems(1) by auto
  obtain go s1 where go: "emit e s = Some (go, s1)" using Cons.prems(3) es(1) by (auto split: bind_split_asm)
  have "emit_chunk encode_table generation attempt store emit c (ordinal, references, s)
      = Some (go, Suc ordinal, references @ [etable_table e], s1)"
    using es(2) next_table_key_fresh [OF assms(1), of ordinal store] Cons.prems(2) go
    by (cases c) (simp add: emit_chunk_def table_of_def)
  with Cons.IH [OF es(3), of s1 "references @ [etable_table e]"] Cons.prems(2,3) es(1) go
  show ?case by (cases go) auto
qed simp

lemma tables_of_refs:
  "tables_of generation attempt ordinal cs es \<Longrightarrow>
     map (ref_object \<circ> etable_table) es
       = map (\<lambda>n. key_object (fresh_key generation attempt store n)) [ordinal..<ordinal + length cs]"
proof (induction cs arbitrary: ordinal es)
  case (Cons c cs)
  then show ?case by (auto simp: table_of_def upt_conv_Cons simp del: upt_Suc)
qed simp

lemma tables_of_bytes:
  "tables_of generation attempt ordinal cs es \<Longrightarrow>
     sum_list (map (nz_get \<circ> ref_object_bytes \<circ> etable_table) es) \<le> sum_list (map snd cs)"
proof (induction cs arbitrary: ordinal es)
  case (Cons c cs)
  then obtain e es' where "es = e # es'" "table_of generation attempt ordinal c e"
      "tables_of generation attempt (Suc ordinal) cs es'"
    by auto
  with Cons.IH [of "Suc ordinal" es'] show ?case by (simp add: table_of_def add_mono)
qed simp

lemma tables_of_rows:
  "tables_of generation attempt ordinal cs es \<Longrightarrow>
     (\<And>e rows. e \<in> set es \<Longrightarrow> decodes (etable_key e) (etable_bytes e) rows \<Longrightarrow> contents (etable_table e) = rows)
     \<Longrightarrow> concat (map contents (map etable_table es)) = concat (map fst cs)"
  by (induction cs arbitrary: ordinal es) (auto simp: table_of_def)

lemma tables_of_length: "tables_of generation attempt ordinal cs es \<Longrightarrow> length es = length cs"
  by (induction cs arbitrary: ordinal es) auto

lemma build_tree_offers:
  assumes "attempt_ok generation attempt" "rows_fit row_bytes rows" "tables_of generation attempt ordinal (row_chunks row_bytes rows) es"
    and "ordinal + length (row_chunks row_bytes rows) \<le> u32_max"
    and "build_manifest carried (map etable_table es) = Some tree" "offer emit es s = Some (continue, s')"
  shows "\<exists>ordinal'. build_tree encode_table row_bytes store generation attempt ordinal rows carried emit s
      = Some (if continue then Some tree else None, ordinal', s')
    \<and> (continue \<longrightarrow> ordinal' = ordinal + length (row_chunks row_bytes rows))"
  using emit_offers [OF assms(1,3,4,6), of "[]"] assms(5)
  by (auto simp: build_tree_def for_each_chunk_offers [OF assms(2)])

end

lemma build_manifest_ok:
  assumes "length tables \<le> RUN_TABLES_MAX"
    and "case carried of None \<Rightarrow> True | Some tree \<Rightarrow> length (tree_runs tree) + of_bool (tables \<noteq> []) \<le> TREE_RUNS_MAX"
  shows "build_manifest carried tables = Some (TreeVersion
    ((if tables = [] then [] else [SortedRun tables]) @ (case carried of None \<Rightarrow> [] | Some tree \<Rightarrow> tree_runs tree)))"
  using assms
  by (cases "tables = []") (auto simp: build_manifest_def sorted_run_try_from_def tree_version_try_from_def
      checked_add_def bound_defs u64_max_def split: option.split)

section \<open>The table encoders of a preparer\<close>

text \<open>
  What the constants of \<open>bounds.rs\<close> promise of the archived tables: the fixed part and the charge of
  each row dominate what the serializer writes, and an archived row is no larger than the charge.
\<close>

definition tables_bounded :: "Preparer \<Rightarrow> bool" where
  "tables_bounded prep \<longleftrightarrow>
     prep_directory_row_size prep \<le> DIRECTORY_ROW_ENCODED_BYTES_MAX
     \<and> prep_ledger_row_size prep \<le> LEDGER_DELETE_ROW_ENCODED_BYTES_MAX
     \<and> (\<forall>part key rows. fresh_ok (table_fresh (key_object key))
          \<and> SST_ARCHIVE_FIXED_BYTES_MAX + length rows * DIRECTORY_ROW_ENCODED_BYTES_MAX \<le> SST_TABLE_TARGET_BYTES \<longrightarrow>
          (\<exists>pieces. prep_serialize_directory prep (directory_root part key rows) = (pieces, True)
             \<and> length (concat pieces) \<le> SST_ARCHIVE_FIXED_BYTES_MAX + length rows * DIRECTORY_ROW_ENCODED_BYTES_MAX))
     \<and> (\<forall>part key cells. fresh_ok (table_fresh (key_object key))
          \<and> SST_ARCHIVE_FIXED_BYTES_MAX + sum_list (map (ledger_row_bytes \<circ> snd) cells) \<le> SST_TABLE_TARGET_BYTES \<longrightarrow>
          (\<exists>pieces. prep_serialize_ledger prep (ledger_root part key cells) = (pieces, True)
             \<and> length (concat pieces) \<le> SST_ARCHIVE_FIXED_BYTES_MAX + sum_list (map (ledger_row_bytes \<circ> snd) cells)))"

definition tables_faithful :: "'w Host \<Rightarrow> Preparer \<Rightarrow> bool" where
  "tables_faithful host prep \<longleftrightarrow>
     rkyv_faithful (prep_serialize_directory prep) (host_access_directory host)
     \<and> rkyv_faithful (prep_serialize_ledger prep) (host_access_ledger host)
     \<and> allocates (prep_room prep) \<and> (\<forall>n. host_reserve host n)"

lemma rows_within_target:
  assumes "\<forall>row\<in>set rows. k \<le> row_bytes row" "SST_ARCHIVE_FIXED_BYTES_MAX + sum_list (map row_bytes rows) \<le> SST_TABLE_TARGET_BYTES"
    and "64 \<le> k" "row_size \<le> k"
  shows "length rows \<le> PARTITION_PATH_OCCUPANCIES_MAX_V2" "length rows * row_size \<le> SST_OBJECT_BYTES_MAX"
proof -
  have "length rows * k \<le> sum_list (map row_bytes rows)" using assms(1) by (induction rows) auto
  also have "\<dots> \<le> SST_TABLE_TARGET_BYTES" using assms(2) by simp
  finally have total: "length rows * k \<le> SST_TABLE_TARGET_BYTES" .
  have "length rows * 64 \<le> length rows * k" using assms(3) by simp
  from order_trans [OF this total] show "length rows \<le> PARTITION_PATH_OCCUPANCIES_MAX_V2" by (simp add: bound_defs)
  have "length rows * row_size \<le> length rows * k" using assms(4) by simp
  from order_trans [OF this total] show "length rows * row_size \<le> SST_OBJECT_BYTES_MAX" by (simp add: bound_defs)
qed

lemma check_encode_rows_within:
  "n \<le> PARTITION_PATH_OCCUPANCIES_MAX_V2 \<Longrightarrow> n * row_size \<le> SST_OBJECT_BYTES_MAX
    \<Longrightarrow> check_encode_rows row_size n = Inr ()"
  by (simp add: check_encode_rows_def)

abbreviation directory_charge :: "StreamPath \<times> DirectoryEntry \<Rightarrow> nat" where
  "directory_charge \<equiv> \<lambda>_. DIRECTORY_ROW_ENCODED_BYTES_MAX"

abbreviation ledger_charge :: "StreamUid \<times> LedgerCell \<Rightarrow> nat" where
  "ledger_charge \<equiv> \<lambda>(uid, cell). ledger_row_bytes cell"

abbreviation prepared_directory ::
  "Preparer \<Rightarrow> PartitionId \<Rightarrow> TableKey \<Rightarrow> (StreamPath \<times> DirectoryEntry) list \<Rightarrow> (SstEncodeError + EncodedTable) option"
where
  "prepared_directory prep part \<equiv>
     encode_directory (prep_serialize_directory prep) (prep_room prep) (prep_directory_row_size prep) part"

abbreviation prepared_ledger ::
  "Preparer \<Rightarrow> PartitionId \<Rightarrow> TableKey \<Rightarrow> (StreamUid \<times> LedgerCell) list \<Rightarrow> (SstEncodeError + EncodedTable) option"
where
  "prepared_ledger prep part \<equiv>
     encode_ledger (prep_serialize_ledger prep) (prep_room prep) (prep_ledger_row_size prep) part"

lemma encode_within:
  assumes "allocates room" "serialize root = (pieces, True)" "length (concat pieces) \<le> estimate"
    and "estimate \<le> SST_TABLE_TARGET_BYTES"
  shows "encode serialize room root SST_OBJECT_BYTES_MAX = Inr (concat pieces)"
proof -
  have "SST_TABLE_TARGET_BYTES \<le> SST_OBJECT_BYTES_MAX" by (simp add: bound_defs)
  with assms(3,4) have "length (concat pieces) \<le> SST_OBJECT_BYTES_MAX" by linarith
  then show ?thesis
    using encode_allocates [OF assms(1) sst_bound_below_u64, where serialize = serialize and v = root] assms(2) by simp
qed

lemma directory_encoder:
  assumes "tables_bounded prep" "tables_faithful host prep"
  shows "table_encoder (prepared_directory prep part) StoreDirectory directory_charge (\<lambda>_. True)
    (\<lambda>key bs rows. decode_directory_sst (host_access_directory host) (host_reserve host) part key bs = Inr rows)"
proof
  fix key :: TableKey and rows :: "(StreamPath \<times> DirectoryEntry) list"
  assume key: "table_store (key_object key) = StoreDirectory" "fresh_ok (table_fresh (key_object key))"
    and rows: "rows \<noteq> []" "sorted_wrt (<) (map fst rows)"
    and fits: "SST_ARCHIVE_FIXED_BYTES_MAX + sum_list (map directory_charge rows) \<le> SST_TABLE_TARGET_BYTES"
  have charges: "sum_list (map directory_charge rows) = length rows * DIRECTORY_ROW_ENCODED_BYTES_MAX"
    by (simp add: sum_list_triv)
  from assms(1) have bounded: "\<exists>pieces. prep_serialize_directory prep (directory_root part key rows) = (pieces, True)
      \<and> length (concat pieces) \<le> SST_ARCHIVE_FIXED_BYTES_MAX + length rows * DIRECTORY_ROW_ENCODED_BYTES_MAX"
    using key(2) fits unfolding tables_bounded_def charges by blast
  then obtain pieces where pieces: "prep_serialize_directory prep (directory_root part key rows) = (pieces, True)"
      "length (concat pieces) \<le> SST_ARCHIVE_FIXED_BYTES_MAX + sum_list (map directory_charge rows)"
    unfolding charges by blast
  have room: "allocates (prep_room prep)" and faithful: "rkyv_faithful (prep_serialize_directory prep) (host_access_directory host)"
    and reserve: "host_reserve host (length rows)"
    using assms(2) by (simp_all add: tables_faithful_def)
  note enc = encode_within [where serialize = "prep_serialize_directory prep", OF room pieces fits]
  have "check_encode_rows (prep_directory_row_size prep) (length rows) = Inr ()"
    using rows_within_target [OF _ fits, of DIRECTORY_ROW_ENCODED_BYTES_MAX "prep_directory_row_size prep"] assms(1)
    by (intro check_encode_rows_within) (simp_all add: tables_bounded_def bound_defs)
  then have sst: "encode_directory_sst (prep_serialize_directory prep) (prep_room prep) (prep_directory_row_size prep) part key rows
      = Inr (concat pieces)"
    using key(1) rows by (simp add: encode_directory_sst_def enc ascending_paths)
  obtain e where e: "from_encoded key (concat pieces) = Some e" "etable_bytes e = concat pieces"
    using from_encoded_encode [OF enc faithful, of key] by auto
  then have "prepared_directory prep part key rows = Some (Inr e)" by (simp add: encode_directory_def sst)
  with encode_directory_agrees [where reserve = "host_reserve host", OF faithful this key(2) reserve] e(2) pieces(2)
  show "\<exists>e. prepared_directory prep part key rows = Some (Inr e) \<and> etable_key e = key
      \<and> ref_object (etable_table e) = key_object key
      \<and> nz_get (ref_object_bytes (etable_table e)) = length (etable_bytes e)
      \<and> length (etable_bytes e) \<le> SST_ARCHIVE_FIXED_BYTES_MAX + sum_list (map directory_charge rows)
      \<and> decode_directory_sst (host_access_directory host) (host_reserve host) part key (etable_bytes e) = Inr rows"
    by simp
qed

lemma ledger_encoder:
  assumes "tables_bounded prep" "tables_faithful host prep"
  shows "table_encoder (prepared_ledger prep part) StoreLedger ledger_charge
    (cell_representable (host_from_nanosecond host) \<circ> snd)
    (\<lambda>key bs rows. decode_ledger_sst (host_access_ledger host) (host_from_nanosecond host) (host_reserve host) part key bs
       = Inr rows)"
proof
  fix key :: TableKey and rows :: "(StreamUid \<times> LedgerCell) list"
  assume key: "table_store (key_object key) = StoreLedger" "fresh_ok (table_fresh (key_object key))"
    and rows: "rows \<noteq> []" "sorted_wrt (<) (map fst rows)"
    and cells: "list_all (cell_representable (host_from_nanosecond host) \<circ> snd) rows"
    and fits: "SST_ARCHIVE_FIXED_BYTES_MAX + sum_list (map ledger_charge rows) \<le> SST_TABLE_TARGET_BYTES"
  have charges: "map ledger_charge rows = map (ledger_row_bytes \<circ> snd) rows"
    by (simp add: case_prod_unfold)
  from assms(1) have "\<exists>pieces. prep_serialize_ledger prep (ledger_root part key rows) = (pieces, True)
      \<and> length (concat pieces) \<le> SST_ARCHIVE_FIXED_BYTES_MAX + sum_list (map (ledger_row_bytes \<circ> snd) rows)"
    using key(2) fits unfolding tables_bounded_def charges by blast
  then obtain pieces where pieces: "prep_serialize_ledger prep (ledger_root part key rows) = (pieces, True)"
      "length (concat pieces) \<le> SST_ARCHIVE_FIXED_BYTES_MAX + sum_list (map ledger_charge rows)"
    unfolding charges by blast
  have room: "allocates (prep_room prep)" and faithful: "rkyv_faithful (prep_serialize_ledger prep) (host_access_ledger host)"
    and reserve: "host_reserve host (length rows)"
    using assms(2) by (simp_all add: tables_faithful_def)
  note enc = encode_within [where serialize = "prep_serialize_ledger prep", OF room pieces fits]
  have charge: "64 \<le> LEDGER_DELETE_ROW_ENCODED_BYTES_MAX" "prep_ledger_row_size prep \<le> LEDGER_DELETE_ROW_ENCODED_BYTES_MAX"
    using assms(1) by (simp_all add: tables_bounded_def LEDGER_DELETE_ROW_ENCODED_BYTES_MAX_def)
  have "LEDGER_DELETE_ROW_ENCODED_BYTES_MAX \<le> ledger_row_bytes c" for c
    by (cases c) (simp_all add: bound_defs)
  then have "\<forall>row\<in>set rows. LEDGER_DELETE_ROW_ENCODED_BYTES_MAX \<le> ledger_charge row" by auto
  note within = rows_within_target [OF this fits charge]
  have "check_encode_rows (prep_ledger_row_size prep) (length rows) = Inr ()"
    by (rule check_encode_rows_within [OF within])
  then have sst: "encode_ledger_sst (prep_serialize_ledger prep) (prep_room prep) (prep_ledger_row_size prep) part key rows
      = Inr (concat pieces)"
    using key(1) rows by (simp add: encode_ledger_sst_def enc ascending_None)
  obtain e where e: "from_encoded key (concat pieces) = Some e" "etable_bytes e = concat pieces"
    using from_encoded_encode [OF enc faithful, of key] by auto
  then have "prepared_ledger prep part key rows = Some (Inr e)" by (simp add: encode_ledger_def sst)
  with encode_ledger_agrees [where reserve = "host_reserve host", OF faithful this key(2) reserve cells] e(2) pieces(2)
  show "\<exists>e. prepared_ledger prep part key rows = Some (Inr e) \<and> etable_key e = key
      \<and> ref_object (etable_table e) = key_object key
      \<and> nz_get (ref_object_bytes (etable_table e)) = length (etable_bytes e)
      \<and> length (etable_bytes e) \<le> SST_ARCHIVE_FIXED_BYTES_MAX + sum_list (map ledger_charge rows)
      \<and> decode_ledger_sst (host_access_ledger host) (host_from_nanosecond host) (host_reserve host) part key
          (etable_bytes e) = Inr rows"
    by simp
qed

section \<open>The plan\<close>

abbreviation table_bytes :: "TableRef list \<Rightarrow> nat" where
  "table_bytes ts \<equiv> sum_list (map (nz_get \<circ> ref_object_bytes) ts)"

text \<open>What bootstrap accepts of a Seal's tables.\<close>

definition bootstrap_bounded :: "Seal \<Rightarrow> bool" where
  "bootstrap_bounded seal \<longleftrightarrow>
     length (seal_tables seal) \<le> PARTITION_BOOTSTRAP_OBJECTS_MAX_V2
     \<and> table_bytes (seal_tables seal) \<le> PARTITION_BOOTSTRAP_BYTES_MAX_V2"

lemma count_sources_total:
  "objects + length ts \<le> u64_max \<Longrightarrow> weight + table_bytes ts \<le> u64_max
    \<Longrightarrow> count_sources objects weight ts = Inr (objects + length ts, weight + table_bytes ts)"
  by (induction ts arbitrary: objects weight) (simp_all add: checked_add_def)

lemma bootstrap_bounds_below_u64: "PARTITION_BOOTSTRAP_OBJECTS_MAX_V2 \<le> u64_max" "PARTITION_BOOTSTRAP_BYTES_MAX_V2 \<le> u64_max"
  by (simp_all add: bound_defs u64_max_def)

lemma bootstrap_bounded_planned: "bootstrap_bounded seal \<longleftrightarrow> plan_bootstrap_sources seal = Inr (planned seal)"
proof
  assume bounded: "bootstrap_bounded seal"
  then have "count_sources 0 0 (seal_tables seal) = Inr (length (seal_tables seal), table_bytes (seal_tables seal))"
    using count_sources_total [of 0 "seal_tables seal" 0] bootstrap_bounds_below_u64 by (simp add: bootstrap_bounded_def)
  with bounded show "plan_bootstrap_sources seal = Inr (planned seal)"
    by (simp add: plan_bootstrap_sources_def bootstrap_bounded_def planned_def)
next
  assume plan: "plan_bootstrap_sources seal = Inr (planned seal)"
  show "bootstrap_bounded seal"
    using plan_bootstrap_sources_Inr(2-4) [OF plan] by (simp add: bootstrap_bounded_def)
qed

lemma sum_u64_total:
  assumes "table_bytes ts \<le> u64_max"
  shows "sum_u64 (map (nz_get \<circ> ref_object_bytes) ts) = Some (table_bytes ts)"
proof -
  have "fold (\<lambda>n acc. Option.bind acc (\<lambda>a. checked_add a n)) ns (Some a) = Some (a + sum_list ns)"
    if "a + sum_list ns \<le> u64_max" for ns a
    using that by (induction ns arbitrary: a) (simp_all add: checked_add_def)
  from this [of 0] assms show ?thesis by (simp add: sum_u64_def)
qed

definition directory_chunks :: "ForestDelta \<Rightarrow> ((StreamPath \<times> DirectoryEntry) list \<times> nat) list" where
  "directory_chunks cells = row_chunks directory_charge (delta_directory cells)"

definition ledger_chunks :: "ForestDelta \<Rightarrow> ((StreamUid \<times> LedgerCell) list \<times> nat) list" where
  "ledger_chunks cells = row_chunks ledger_charge (delta_ledger cells)"

definition carried_tables :: "Seal option \<Rightarrow> TableRef list" where
  "carried_tables carried = (case carried of None \<Rightarrow> [] | Some s \<Rightarrow> seal_tables s)"

definition plan_ok :: "ForestDelta \<Rightarrow> Seal option \<Rightarrow> bool" where
  "plan_ok cells carried \<longleftrightarrow>
     length (carried_tables carried) + length (directory_chunks cells) + length (ledger_chunks cells)
       \<le> PARTITION_BOOTSTRAP_OBJECTS_MAX_V2
     \<and> table_bytes (carried_tables carried) + sum_list (map snd (directory_chunks cells))
         + sum_list (map snd (ledger_chunks cells)) \<le> PARTITION_BOOTSTRAP_BYTES_MAX_V2
     \<and> (\<forall>s. carried = Some s \<longrightarrow>
          length (tree_runs (seal_directory s)) + of_bool (directory_chunks cells \<noteq> []) \<le> TREE_RUNS_MAX
          \<and> length (tree_runs (seal_ledger s)) + of_bool (ledger_chunks cells \<noteq> []) \<le> TREE_RUNS_MAX)"

lemma select_delta_total:
  assumes "bootstrap_bounded source" "length (tree_runs (seal_directory source)) \<le> TREE_RUNS_MAX"
    and "length (tree_runs (seal_ledger source)) \<le> TREE_RUNS_MAX"
    and "length (delta_directory cells) \<le> u32_max" "length (delta_ledger cells) \<le> u32_max"
  shows "\<exists>b. select_delta source (planned_accounting directory_charge (delta_directory cells))
      (planned_accounting ledger_charge (delta_ledger cells)) = Some b \<and> (b \<longrightarrow> plan_ok cells (Some source))"
proof -
  let ?d = "planned_accounting directory_charge (delta_directory cells)"
  let ?l = "planned_accounting ledger_charge (delta_ledger cells)"
  have small: "chunk_tables ?d \<le> u32_max" "chunk_tables ?l \<le> u32_max"
      "chunk_bytes ?d \<le> u32_max * SST_TABLE_TARGET_BYTES" "chunk_bytes ?l \<le> u32_max * SST_TABLE_TARGET_BYTES"
    using accounting_small checkpoint_rows_fit assms(4,5) by blast+
  have adds: "checked_add (chunk_tables ?d) (chunk_tables ?l) = Some (chunk_tables ?d + chunk_tables ?l)"
      "checked_add (chunk_bytes ?d) (chunk_bytes ?l) = Some (chunk_bytes ?d + chunk_bytes ?l)"
    using small small_sums by (simp_all add: checked_add_Some)
  have runs: "TREE_RUNS_MAX + 1 \<le> u64_max" by (simp add: bound_defs u64_max_def)
  have runs': "checked_add (length (tree_runs (seal_directory source))) (of_bool b)
        = Some (length (tree_runs (seal_directory source)) + of_bool b)"
      "checked_add (length (tree_runs (seal_ledger source))) (of_bool b)
        = Some (length (tree_runs (seal_ledger source)) + of_bool b)" for b
    using assms(2,3) runs by (simp_all add: checked_add_Some of_bool_def)
  have "table_bytes (seal_tables source) \<le> u64_max"
    using assms(1) bootstrap_bounds_below_u64 by (simp add: bootstrap_bounded_def)
  note carried = sum_u64_total [OF this]
  show ?thesis
    by (auto simp: select_delta_def runs' adds carried plan_ok_def directory_chunks_def ledger_chunks_def
        planned_accounting_def carried_tables_def checked_add_def add.assoc split: if_split_asm)
qed

lemma checkpoint_cells_rows:
  "sorted_wrt (<) (map fst (delta_directory (checkpoint_cells f)))"
  "sorted_wrt (<) (map fst (delta_ledger (checkpoint_cells f)))"
  "map_of (delta_directory (checkpoint_cells f)) p = fmlookup (forest_directory f) p"
  "map_of (delta_ledger (checkpoint_cells f)) u = map_option CellValue (fmlookup (forest_ledger f) u)"
proof -
  show sorted: "sorted_wrt (<) (map fst (delta_directory (checkpoint_cells f)))"
    by (simp add: checkpoint_cells_def map_fst_sorted_list_of_fmap)
  show sorted': "sorted_wrt (<) (map fst (delta_ledger (checkpoint_cells f)))"
    using map_fst_sorted_list_of_fmap [of "forest_ledger f"]
    by (simp add: checkpoint_cells_def case_prod_unfold comp_def)
  show "map_of (delta_directory (checkpoint_cells f)) p = fmlookup (forest_directory f) p"
    by (rule map_of_by_members [OF sorted]) (simp add: checkpoint_cells_def set_sorted_list_of_fmap)
  have "(u, c) \<in> set (map (\<lambda>(uid, rec). (uid, CellValue rec)) rows) \<longleftrightarrow> (\<exists>r. c = CellValue r \<and> (u, r) \<in> set rows)" for c rows
    by (induction rows) auto
  then show "map_of (delta_ledger (checkpoint_cells f)) u = map_option CellValue (fmlookup (forest_ledger f) u)"
    by (intro map_of_by_members [OF sorted']) (auto simp: checkpoint_cells_def set_sorted_list_of_fmap)
qed

text \<open>The number of rows a forest has, and the number a delta of two forests has.\<close>

lemma forest_ledger_size:
  assumes "forest_inv f"
  shows "fcard (fmdom (forest_ledger f)) \<le> PARTITION_PATH_OCCUPANCIES_MAX_V2"
proof -
  have "stream_uid_get u \<in> {1..forest_size f}" if "u |\<in>| fmdom (forest_ledger f)" for u
  proof -
    have "fmlookup (forest_ledger f) u \<noteq> None" using that by (auto simp: fmlookup_dom_iff)
    then obtain p where "fmlookup (forest_directory f) p = Some (DirLive u)"
      using assms unfolding forest_inv_def by blast
    then have p: "p \<in> fmdom' (forest_directory f)" "path_uid f p = stream_uid_get u"
      by (auto simp: path_uid_def fmlookup_dom'_iff)
    have "bij_betw (path_uid f) (fmdom' (forest_directory f)) {1..forest_size f}"
      using assms by (simp add: forest_inv_def)
    from bij_betw_apply [OF this p(1)] show ?thesis by (simp only: p(2))
  qed
  then have "stream_uid_get ` fset (fmdom (forest_ledger f)) \<subseteq> {1..forest_size f}" by auto
  then have "card (fset (fmdom (forest_ledger f))) \<le> card {1..forest_size f}"
    by (intro card_inj_on_le [where f = stream_uid_get]) (auto simp: inj_on_def stream_uid_get_inject)
  with assms show ?thesis by (simp add: fcard.rep_eq forest_inv_def)
qed

lemma rows_within_keys:
  assumes "sorted_wrt (<) (map fst rows)" "\<And>k. map_of rows k \<noteq> None \<Longrightarrow> k |\<in>| keys"
  shows "length rows \<le> fcard (keys :: 'k::linorder fset)"
proof -
  have "distinct (map fst rows)" using assms(1) strict_sorted_iff by blast
  then have "length rows = card (fst ` set rows)" by (metis distinct_card length_map list.set_map)
  also have "\<dots> \<le> card (fset keys)"
    using assms(2) by (intro card_mono) (auto simp: map_of_eq_None_iff)
  finally show ?thesis by (simp add: fcard.rep_eq)
qed

lemma delta_sizes:
  assumes "delta_ok base self delta" "forest_inv base" "forest_inv self"
  shows "length (delta_directory delta) \<le> u32_max" "length (delta_ledger delta) \<le> u32_max"
proof -
  have "length (delta_directory delta) \<le> fcard (fmdom (forest_directory self))"
    using assms(1) by (intro rows_within_keys) (auto simp: delta_ok_def fmlookup_dom_iff split: if_split_asm)
  also have "\<dots> \<le> PARTITION_PATH_OCCUPANCIES_MAX_V2" using assms(3) by (simp add: forest_inv_def forest_size_def)
  finally show "length (delta_directory delta) \<le> u32_max" by (simp add: bound_defs u32_max_def)
  have "k |\<in>| fmdom (forest_ledger base) |\<union>| fmdom (forest_ledger self)" if "map_of (delta_ledger delta) k \<noteq> None" for k
    using that assms(1)
    by (cases "fmlookup (forest_ledger base) k"; cases "fmlookup (forest_ledger self) k")
      (auto simp: delta_ok_def intro: fmdomI)
  then have "length (delta_ledger delta) \<le> fcard (fmdom (forest_ledger base) |\<union>| fmdom (forest_ledger self))"
    using assms(1) by (intro rows_within_keys) (simp_all add: delta_ok_def)
  also have "\<dots> \<le> fcard (fmdom (forest_ledger base)) + fcard (fmdom (forest_ledger self))"
    by (simp add: fcard.rep_eq union_fset card_Un_le)
  finally show "length (delta_ledger delta) \<le> u32_max"
    using forest_ledger_size [OF assms(2)] forest_ledger_size [OF assms(3)] by (simp add: bound_defs u32_max_def)
qed

lemma plan_checkpoint_ok:
  assumes source: "seal_ok source" "bootstrap_bounded source"
    and delta: "delta_ok base snapshot delta" "forest_inv base" "forest_inv snapshot"
  shows "\<exists>cells carried. plan_checkpoint source snapshot delta = Some (cells, carried) \<and> plan_ok cells carried
    \<and> (cells = delta \<and> carried = Some source \<or> cells = checkpoint_cells snapshot \<and> carried = None)"
proof -
  note small = delta_sizes [OF delta]
  have runs: "length (tree_runs (seal_directory source)) \<le> TREE_RUNS_MAX" "length (tree_runs (seal_ledger source)) \<le> TREE_RUNS_MAX"
    using source(1) by (simp_all add: seal_ok_def tree_ok_def)
  have sizes: "length (delta_directory (checkpoint_cells snapshot)) \<le> PARTITION_PATH_OCCUPANCIES_MAX_V2"
      "length (delta_ledger (checkpoint_cells snapshot)) \<le> PARTITION_PATH_OCCUPANCIES_MAX_V2"
    using delta(3) forest_ledger_size [OF delta(3)]
    by (simp_all add: checkpoint_cells_def forest_inv_def forest_size_def)
  have big: "PARTITION_PATH_OCCUPANCIES_MAX_V2 \<le> u32_max" by (simp add: bound_defs u32_max_def)
  have puts: "\<forall>c\<in>set (delta_ledger (checkpoint_cells snapshot)). \<exists>r. snd c = CellValue r"
    by (auto simp: checkpoint_cells_def)
  note accounts = account_rows_planned [OF checkpoint_rows_fit(1) small(1)]
    account_rows_planned [OF checkpoint_rows_fit(2) small(2)]
    account_rows_planned [OF checkpoint_rows_fit(1) le_trans [OF sizes(1) big]]
    account_rows_planned [OF checkpoint_rows_fit(2) le_trans [OF sizes(2) big]]
  obtain b where b: "can_append_delta source delta = Some b" "b \<longrightarrow> plan_ok delta (Some source)"
    using select_delta_total [OF source(2) runs small] by (auto simp: can_append_delta_def accounts)
  show ?thesis
  proof (cases b)
    case True
    then show ?thesis using b by (simp add: plan_checkpoint_def)
  next
    case False
    have "plan_ok (checkpoint_cells snapshot) None"
      using full_plan_accepted(2,3) [OF sizes puts]
      by (simp add: plan_ok_def carried_tables_def directory_chunks_def ledger_chunks_def)
    then show ?thesis
      using False b(1) full_plan_accepted(1) [OF sizes puts] by (simp add: plan_checkpoint_def Let_def accounts)
  qed
qed

end
