(* ===== verification/Checkpoint_Seal.thy ===== *)
theory Checkpoint_Seal
  imports Checkpoint_Theorems
begin

text \<open>
  The Seal a checkpoint assembles. Its trees put one fresh run in front of the carried runs, or stand
  on the fresh run alone; it is a valid successor inside the bootstrap bounds, and a newest-wins read
  of its tables gives the frozen snapshot.
\<close>

section \<open>Trees with a fresh run\<close>

definition fresh_tree :: "TableRef list \<Rightarrow> SortedRun list \<Rightarrow> TreeVersion" where
  "fresh_tree ts runs = TreeVersion ((if ts = [] then [] else [SortedRun ts]) @ runs)"

definition carried_runs :: "(Seal \<Rightarrow> TreeVersion) \<Rightarrow> Seal option \<Rightarrow> SortedRun list" where
  "carried_runs tree carried = (case carried of None \<Rightarrow> [] | Some s \<Rightarrow> tree_runs (tree s))"

lemma build_manifest_fresh:
  assumes "length ts \<le> RUN_TABLES_MAX" "length (carried_runs tree carried) + of_bool (ts \<noteq> []) \<le> TREE_RUNS_MAX"
  shows "build_manifest (map_option tree carried) ts = Some (fresh_tree ts (carried_runs tree carried))"
  using build_manifest_ok [OF assms(1), of "map_option tree carried"] assms(2)
  by (cases carried) (simp_all add: fresh_tree_def carried_runs_def del: if_split)

lemma fresh_tree_tables: "tree_tables (fresh_tree ts runs) = ts @ concat (map run_tables runs)"
  by (simp add: fresh_tree_def tree_tables_def)

lemma fresh_tree_rows:
  "newest_rows rows (fresh_tree ts runs) = rev (concat (map rows ts)) @ newest_rows rows (TreeVersion runs)"
  by (simp add: fresh_tree_def newest_rows_def)

lemma fresh_tree_ok:
  assumes "length ts \<le> RUN_TABLES_MAX" "list_all table_ref_ok ts" "list_all run_ok runs"
    and "length runs + of_bool (ts \<noteq> []) \<le> TREE_RUNS_MAX"
  shows "tree_ok (fresh_tree ts runs)"
  using assms by (auto simp: fresh_tree_def tree_ok_def run_ok_def)

lemma map_of_fresh:
  assumes "sorted_wrt (<) (map fst xs)"
  shows "map_of (rev xs @ ys) (k::'k::linorder) = (case map_of xs k of None \<Rightarrow> map_of ys k | Some v \<Rightarrow> Some v)"
proof -
  have "distinct (map fst xs)" using assms strict_sorted_iff by blast
  then have "map_of (rev xs) = map_of xs"
    by (intro map_of_eqI) (auto simp: rev_map [symmetric])
  then show ?thesis by (simp add: map_add_def split: option.split)
qed

section \<open>A valid successor\<close>

definition fresh_tables_ok :: "StoreKind \<Rightarrow> SealGeneration \<Rightarrow> TableRef list \<Rightarrow> bool" where
  "fresh_tables_ok store generation ts \<longleftrightarrow>
     (\<forall>t\<in>set ts. table_store (ref_object t) = store \<and> table_ref_ok t
        \<and> fresh_birth_generation (table_fresh (ref_object t)) = generation)
     \<and> distinct (map ref_object ts) \<and> length ts \<le> RUN_TABLES_MAX"

definition successor_seal ::
  "Seal \<Rightarrow> SealGeneration \<Rightarrow> BatchId \<Rightarrow> OwnerToken \<Rightarrow> Seal option \<Rightarrow> TableRef list \<Rightarrow> TableRef list \<Rightarrow> Seal" where
  "successor_seal source generation wcut owner carried dts lts =
     \<lparr> seal_partition = seal_partition source, seal_generation = generation, seal_replay = ReplayThrough wcut owner,
       seal_directory = fresh_tree dts (carried_runs seal_directory carried),
       seal_ledger = fresh_tree lts (carried_runs seal_ledger carried) \<rparr>"

lemma successor_tables_split:
  "seal_tables (successor_seal source generation wcut owner carried dts lts)
     = (dts @ concat (map run_tables (carried_runs seal_directory carried)))
       @ (lts @ concat (map run_tables (carried_runs seal_ledger carried)))"
  "carried_tables carried = concat (map run_tables (carried_runs seal_directory carried))
     @ concat (map run_tables (carried_runs seal_ledger carried))"
  by (simp add: successor_seal_def seal_tables_def fresh_tree_tables)
    (simp add: carried_tables_def carried_runs_def seal_tables_def tree_tables_def split: option.split)

lemma successor_tables:
  "set (seal_tables (successor_seal source generation wcut owner carried dts lts))
     = set dts \<union> set lts \<union> set (carried_tables carried)"
  "length (seal_tables (successor_seal source generation wcut owner carried dts lts))
     = length (carried_tables carried) + length dts + length lts"
  "table_bytes (seal_tables (successor_seal source generation wcut owner carried dts lts))
     = table_bytes (carried_tables carried) + table_bytes dts + table_bytes lts"
  unfolding successor_tables_split by (auto simp del: set_concat)

lemma successor_seal_ok:
  assumes source: "seal_ok source" "seal_generation source < generation" and carried: "carried = None \<or> carried = Some source"
    and fresh: "fresh_tables_ok StoreDirectory generation dts" "fresh_tables_ok StoreLedger generation lts"
    and runs: "length (carried_runs seal_directory carried) + of_bool (dts \<noteq> []) \<le> TREE_RUNS_MAX"
      "length (carried_runs seal_ledger carried) + of_bool (lts \<noteq> []) \<le> TREE_RUNS_MAX"
    and owner: "owner_generation owner < generation"
    and s: "s = successor_seal source generation wcut owner carried dts lts"
  shows "seal_new (seal_partition source) generation (ReplayThrough wcut owner) (seal_directory s) (seal_ledger s) = Inr s"
    and "seal_ok s"
proof -
  define d where "d = concat (map run_tables (carried_runs seal_directory carried))"
  define l where "l = concat (map run_tables (carried_runs seal_ledger carried))"
  have valid: "\<forall>t\<in>set (tree_tables (seal_directory source)). table_fits StoreDirectory (seal_generation source) t"
      "\<forall>t\<in>set (tree_tables (seal_ledger source)). table_fits StoreLedger (seal_generation source) t"
      "distinct (map ref_object (seal_tables source))"
    using source(1) by (simp_all add: seal_ok_def seal_valid_iff)
  have old: "set d \<subseteq> set (tree_tables (seal_directory source))" "set l \<subseteq> set (tree_tables (seal_ledger source))"
      "distinct (map ref_object (d @ l))"
    using carried valid(3) by (auto simp: carried_runs_def tree_tables_def seal_tables_def d_def l_def)
  have fits: "table_fits StoreDirectory generation t" if "t \<in> set dts \<union> set d" for t
    using that old(1) valid(1) fresh(1) table_fits_mono [OF _ less_imp_le [OF source(2)]]
    by (auto simp: fresh_tables_ok_def table_fits_def)
  have fits': "table_fits StoreLedger generation t" if "t \<in> set lts \<union> set l" for t
    using that old(2) valid(2) fresh(2) table_fits_mono [OF _ less_imp_le [OF source(2)]]
    by (auto simp: fresh_tables_ok_def table_fits_def)
  have young: "fresh_birth_generation (table_fresh (ref_object t)) < generation" if "t \<in> set d \<union> set l" for t
    using that old(1,2) valid(1,2) source(2) by (fastforce simp: table_fits_def)
  have new: "fresh_birth_generation (table_fresh (ref_object t)) = generation" if "t \<in> set dts \<union> set lts" for t
    using that fresh by (auto simp: fresh_tables_ok_def)
  have stores: "table_store (ref_object t) = StoreDirectory" if "t \<in> set dts" for t
    using that fresh by (auto simp: fresh_tables_ok_def)
  have stores': "table_store (ref_object t) = StoreLedger" if "t \<in> set lts" for t
    using that fresh by (auto simp: fresh_tables_ok_def)
  have apart: "ref_object ` set dts \<inter> ref_object ` set lts = {}"
      "ref_object ` (set dts \<union> set lts) \<inter> ref_object ` (set d \<union> set l) = {}"
    using stores stores' young new by fastforce+
  have tables: "seal_tables s = (dts @ d) @ (lts @ l)"
    unfolding s d_def l_def by (rule successor_tables_split(1))
  have "distinct (map ref_object dts)" "distinct (map ref_object lts)" using fresh by (simp_all add: fresh_tables_ok_def)
  with old(3) apart have "distinct (map ref_object (seal_tables s))"
    unfolding tables by auto
  moreover have "generation \<noteq> seal_generation_genesis"
    using source(2) seal_generation_genesis_least not_le by blast
  ultimately show made: "seal_new (seal_partition source) generation (ReplayThrough wcut owner) (seal_directory s)
      (seal_ledger s) = Inr s"
    using fits fits' owner
    by (auto simp: seal_new_cases s successor_seal_def fresh_tree_tables simp flip: d_def l_def)
  have "list_all run_ok (carried_runs seal_directory carried)" "list_all run_ok (carried_runs seal_ledger carried)"
    using carried source(1) by (auto simp: carried_runs_def seal_ok_def tree_ok_def)
  then show "seal_ok s"
    using seal_new_valid [OF made] fresh runs
    by (auto simp: seal_ok_def s successor_seal_def fresh_tables_ok_def list_all_iff intro!: fresh_tree_ok)
qed

section \<open>Reading the checkpoint back\<close>

text \<open>The tables of a Seal hold a forest: a newest-wins read of their contents gives exactly it.\<close>

definition materializes :: "(TableRef \<Rightarrow> DecodedTable) \<Rightarrow> Seal \<Rightarrow> Forest \<Rightarrow> bool" where
  "materializes contents seal f \<longleftrightarrow>
     (\<forall>p. forest_resolve f p = map_of (newest_rows (entry_rows \<circ> contents) (seal_directory seal)) p)
     \<and> (\<forall>u. forest_record f u
          = Option.bind (map_of (newest_rows (cell_rows \<circ> contents) (seal_ledger seal)) u) cell_record)"

definition planned_cells :: "Seal \<Rightarrow> Forest \<Rightarrow> Forest \<Rightarrow> ForestDelta \<Rightarrow> Seal option \<Rightarrow> bool" where
  "planned_cells source base snapshot cells carried \<longleftrightarrow>
     delta_ok base snapshot cells \<and> carried = Some source \<or> cells = checkpoint_cells snapshot \<and> carried = None"

lemma planned_cells_sorted:
  assumes "planned_cells source base snapshot cells carried"
  shows "sorted_wrt (<) (map fst (delta_directory cells))" "sorted_wrt (<) (map fst (delta_ledger cells))"
  using assms checkpoint_cells_rows(1,2) by (auto simp: planned_cells_def delta_ok_def)

lemma cell_record_change [simp]: "cell_record (ledger_change r) = r" "cell_record (CellValue v) = Some v"
  by (simp_all add: cell_record_def ledger_change_def split: option.split)

lemma successor_materializes:
  assumes plan: "planned_cells source base snapshot cells carried"
    and old: "materializes contents source base"
    and kept: "fmdom (forest_directory base) |\<subseteq>| fmdom (forest_directory snapshot)"
    and rows: "concat (map (entry_rows \<circ> contents) dts) = delta_directory cells"
      "concat (map (cell_rows \<circ> contents) lts) = delta_ledger cells"
  shows "materializes contents (successor_seal source generation wcut owner carried dts lts) snapshot"
proof -
  have gone: "fmlookup (forest_directory base) p = None" if "fmlookup (forest_directory snapshot) p = None" for p
    using that kept by (meson fmdom_notD fmdom_notI fsubsetD)
  have runs: "newest_rows r (fresh_tree ts (carried_runs tree carried))
      = rev (concat (map r ts)) @ (if carried = None then [] else newest_rows r (tree source))"
    for r :: "TableRef \<Rightarrow> 'r list" and ts tree
    unfolding fresh_tree_rows using plan by (auto simp: planned_cells_def carried_runs_def newest_rows_def)
  have at: "carried = None \<and> cells = checkpoint_cells snapshot
      \<or> carried = Some source \<and> map_of (newest_rows (entry_rows \<circ> contents) (seal_directory source)) p
            = fmlookup (forest_directory base) p
        \<and> map_of (delta_directory cells) p
            = (if fmlookup (forest_directory base) p = fmlookup (forest_directory snapshot) p then None
               else fmlookup (forest_directory snapshot) p)"
    "carried = None \<and> cells = checkpoint_cells snapshot
      \<or> carried = Some source \<and> Option.bind (map_of (newest_rows (cell_rows \<circ> contents) (seal_ledger source)) u) cell_record
            = fmlookup (forest_ledger base) u
        \<and> map_of (delta_ledger cells) u
            = (if fmlookup (forest_ledger base) u = fmlookup (forest_ledger snapshot) u then None
               else Some (ledger_change (fmlookup (forest_ledger snapshot) u)))" for p u
    using plan old
    unfolding planned_cells_def delta_ok_def materializes_def forest_resolve_def forest_record_def by auto
  have "map_of (newest_rows (entry_rows \<circ> contents) (fresh_tree dts (carried_runs seal_directory carried))) p
      = fmlookup (forest_directory snapshot) p" for p
    unfolding runs rows map_of_fresh [OF planned_cells_sorted(1) [OF plan]]
    using at(1) [of p] gone [of p] checkpoint_cells_rows(3) [of snapshot p]
    by (auto split: option.split if_split_asm)
  moreover have "Option.bind (map_of (newest_rows (cell_rows \<circ> contents)
        (fresh_tree lts (carried_runs seal_ledger carried))) u) cell_record = fmlookup (forest_ledger snapshot) u" for u
    unfolding runs rows map_of_fresh [OF planned_cells_sorted(2) [OF plan]]
    using at(2) [of u] checkpoint_cells_rows(4) [of snapshot u]
    by (cases "fmlookup (forest_ledger snapshot) u") (auto split: option.split if_split_asm)
  ultimately show ?thesis
    by (simp add: materializes_def successor_seal_def forest_resolve_def forest_record_def)
qed

end
