(* ===== verification/Checkpoint_Prepare.thy ===== *)
theory Checkpoint_Prepare
  imports Checkpoint_Seal
begin

text \<open>
  The guarantee of \<open>prepare_checkpoint\<close>: it returns without a panic, offers the fresh tables one by
  one and stops at the first refusal, and the Seal it prepares is a valid exact successor whose
  tables hold the frozen snapshot.
\<close>

section \<open>The tables of one tree\<close>

context table_encoder
begin

lemma tables_of_each:
  "tables_of generation attempt ordinal cs es \<Longrightarrow> attempt_ok generation attempt \<Longrightarrow> ordinal + length cs \<le> u32_max
    \<Longrightarrow> list_all (chunk_ok row_bytes) cs \<Longrightarrow> e \<in> set es
    \<Longrightarrow> table_ref_ok (etable_table e) \<and> etable_key e = TableKey (ref_object (etable_table e))
        \<and> length (etable_bytes e) = nz_get (ref_object_bytes (etable_table e))
        \<and> (\<exists>rows. decodes (etable_key e) (etable_bytes e) rows)"
proof (induction cs arbitrary: ordinal es)
  case (Cons c cs)
  then obtain e' es' where es: "es = e' # es'" "table_of generation attempt ordinal c e'"
      "tables_of generation attempt (Suc ordinal) cs es'"
    by auto
  have "length (etable_bytes e') \<le> SST_TABLE_TARGET_BYTES" "SST_TABLE_TARGET_BYTES \<le> SST_OBJECT_BYTES_MAX"
    using es(2) Cons.prems(4) by (auto simp: table_of_def chunk_ok_def bound_defs)
  then have "table_ref_ok (etable_table e')" "etable_key e' = TableKey (ref_object (etable_table e'))"
      "length (etable_bytes e') = nz_get (ref_object_bytes (etable_table e'))"
      "decodes (etable_key e') (etable_bytes e') (fst c)"
    using es(2) fresh_key_ok [OF Cons.prems(2), of ordinal store] Cons.prems(3)
    by (auto simp: table_of_def table_ref_ok_def)
  then show ?case using Cons.IH [OF es(3)] Cons.prems es(1) by auto
qed simp

lemma tables_of_fresh:
  assumes "tables_of generation attempt ordinal cs es" "attempt_ok generation attempt" "ordinal + length cs \<le> u32_max"
    and "list_all (chunk_ok row_bytes) cs" "length cs \<le> RUN_TABLES_MAX"
  shows "fresh_tables_ok store generation (map etable_table es)"
proof -
  note refs = tables_of_refs [OF assms(1)]
  have "ref_object (etable_table e) \<in> (\<lambda>n. key_object (fresh_key generation attempt store n)) ` UNIV" if "e \<in> set es" for e
  proof -
    have "(ref_object \<circ> etable_table) e \<in> set (map (ref_object \<circ> etable_table) es)" using that by simp
    then show ?thesis unfolding refs by auto
  qed
  moreover have "distinct (map ref_object (map etable_table es))"
    using refs by (simp add: distinct_map inj_on_def fresh_key_def)
  ultimately show ?thesis
    using tables_of_each [OF assms(1-4)] tables_of_length [OF assms(1)] assms(5)
    by (fastforce simp: fresh_tables_ok_def fresh_key_def)
qed

end

section \<open>The contract\<close>

definition preparer_ok :: "'w Host \<Rightarrow> Preparer \<Rightarrow> bool" where
  "preparer_ok host prep \<longleftrightarrow>
     tables_bounded prep \<and> tables_faithful host prep
     \<and> diff_exact (prep_diff_directory prep) \<and> diff_exact (prep_diff_ledger prep)
     \<and> (\<forall>s. seal_ok s \<and> bootstrap_bounded s \<longrightarrow>
          (\<exists>bs. prep_seal prep s = Inr bs \<and> bs \<noteq> [] \<and> length bs \<le> SEAL_ENCODED_BYTES_MAX))"

definition forest_representable :: "(i128 \<Rightarrow> i128 option) \<Rightarrow> Forest \<Rightarrow> bool" where
  "forest_representable from_nanosecond f \<longleftrightarrow>
     (\<forall>u r. fmlookup (forest_ledger f) u = Some r \<longrightarrow> expiry_representable from_nanosecond (record_expiry r))"

text \<open>What the writer machine hands to a preparation.\<close>

definition input_ok :: "CheckpointInput \<Rightarrow> bool" where
  "input_ok input \<longleftrightarrow>
     (let ticket = input_ticket input; source = input_source input in
      ticket_source ticket = seal_generation source \<and> seal_ok source \<and> bootstrap_bounded source
      \<and> forest_inv (input_base input) \<and> forest_inv (input_snapshot input)
      \<and> fmdom (forest_directory (input_base input)) |\<subseteq>| fmdom (forest_directory (input_snapshot input))
      \<and> attempt_owner_claim (ticket_attempt ticket) \<le> seal_generation source
      \<and> attempt_local_counter (ticket_attempt ticket) \<le> u64_max
      \<and> (\<forall>c. replay_batch (seal_replay source) = Some c \<longrightarrow> c < ticket_cut ticket))"

lemma planned_cells_representable:
  assumes "planned_cells source base snapshot cells carried" "forest_representable from_nanosecond snapshot"
  shows "list_all (cell_representable from_nanosecond \<circ> snd) (delta_ledger cells)"
proof -
  have "cell_representable from_nanosecond c" if "(u, c) \<in> set (delta_ledger cells)" for u c
  proof -
    have "distinct (map fst (delta_ledger cells))"
      using planned_cells_sorted(2) [OF assms(1)] strict_sorted_iff by blast
    then have "map_of (delta_ledger cells) u = Some c" using that by simp
    then have "c = CellDelete \<or> (\<exists>r. fmlookup (forest_ledger snapshot) u = Some r \<and> c = CellValue r)"
      using assms(1) checkpoint_cells_rows(4) [of snapshot u]
      by (auto simp: planned_cells_def delta_ok_def ledger_change_def split: if_split_asm option.split_asm)
    with assms(2) show ?thesis by (auto simp: cell_representable_def forest_representable_def)
  qed
  then show ?thesis by (auto simp: list_all_iff)
qed

lemma offer_append:
  "offer emit (xs @ ys) s = do { (continue, s) \<leftarrow> offer emit xs s; if continue then offer emit ys s else Some (False, s) }"
  by (induction xs arbitrary: s) (auto split: bind_split)

lemma offer_total: "(\<And>x s. emit x s = Some (send x s)) \<Longrightarrow> \<exists>continue s'. offer emit xs s = Some (continue, s')"
  by (induction xs arbitrary: s) (auto simp: case_prod_unfold)

abbreviation directory_decodes ::
  "'w Host \<Rightarrow> PartitionId \<Rightarrow> TableKey \<Rightarrow> bytes \<Rightarrow> (StreamPath \<times> DirectoryEntry) list \<Rightarrow> bool" where
  "directory_decodes host part \<equiv> \<lambda>key bs rows.
     decode_directory_sst (host_access_directory host) (host_reserve host) part key bs = Inr rows"

abbreviation ledger_decodes ::
  "'w Host \<Rightarrow> PartitionId \<Rightarrow> TableKey \<Rightarrow> bytes \<Rightarrow> (StreamUid \<times> LedgerCell) list \<Rightarrow> bool" where
  "ledger_decodes host part \<equiv> \<lambda>key bs rows.
     decode_ledger_sst (host_access_ledger host) (host_from_nanosecond host) (host_reserve host) part key bs = Inr rows"

abbreviation directory_tables where
  "directory_tables host prep part \<equiv>
     table_encoder.tables_of (prepared_directory prep part) StoreDirectory (directory_decodes host part)"

abbreviation ledger_tables where
  "ledger_tables host prep part \<equiv>
     table_encoder.tables_of (prepared_ledger prep part) StoreLedger (ledger_decodes host part)"

lemma table_rows_read:
  assumes "table_decodes host part t bs d" "decodes = TableKey (ref_object t)"
  shows "directory_decodes host part decodes bs rows \<Longrightarrow> entry_rows d = rows"
    and "ledger_decodes host part decodes bs cells \<Longrightarrow> cell_rows d = cells"
proof -
  have len: "length bs = nz_get (ref_object_bytes t)" using assms(1) by (simp add: table_decodes_def)
  show "entry_rows d = rows" if "directory_decodes host part decodes bs rows"
    using table_decodes_unique [OF assms(1), of "DecodedDirectory rows"] that len assms(2)
    by (simp add: table_decodes_def entry_rows_def)
  show "cell_rows d = cells" if "ledger_decodes host part decodes bs cells"
    using table_decodes_unique [OF assms(1), of "DecodedLedger cells"] that len assms(2)
    by (simp add: table_decodes_def cell_rows_def)
qed

text \<open>The plan of a preparation: its rows, what it carries, and the tables it will offer.\<close>

definition preparation ::
  "'w Host \<Rightarrow> Preparer \<Rightarrow> CheckpointInput \<Rightarrow> SealGeneration \<Rightarrow> ForestDelta \<Rightarrow> Seal option
   \<Rightarrow> EncodedTable list \<Rightarrow> EncodedTable list \<Rightarrow> bool" where
  "preparation host prep input generation cells carried des les \<longleftrightarrow>
     (let part = seal_partition (input_source input); attempt = ticket_attempt (input_ticket input) in
      planned_cells (input_source input) (input_base input) (input_snapshot input) cells carried
      \<and> plan_ok cells carried
      \<and> directory_tables host prep part generation attempt 0 (directory_chunks cells) des
      \<and> ledger_tables host prep part generation attempt (length (directory_chunks cells)) (ledger_chunks cells) les)"

lemma chunk_lists_ok:
  "list_all (chunk_ok directory_charge) (directory_chunks cells)" "concat (map fst (directory_chunks cells)) = delta_directory cells"
  "list_all (chunk_ok ledger_charge) (ledger_chunks cells)" "concat (map fst (ledger_chunks cells)) = delta_ledger cells"
  using row_chunks_facts [OF checkpoint_rows_fit(1), of "delta_directory cells"]
    row_chunks_facts [OF checkpoint_rows_fit(2), of "delta_ledger cells"]
  by (simp_all add: directory_chunks_def ledger_chunks_def)

lemma plan_ordinals:
  "plan_ok cells carried \<Longrightarrow> length (directory_chunks cells) + length (ledger_chunks cells) \<le> u32_max"
  "plan_ok cells carried \<Longrightarrow> length (directory_chunks cells) \<le> RUN_TABLES_MAX"
  "plan_ok cells carried \<Longrightarrow> length (ledger_chunks cells) \<le> RUN_TABLES_MAX"
  by (simp_all add: plan_ok_def bound_defs u32_max_def)

lemma preparation_exists:
  assumes prep: "preparer_ok host prep" and input: "input_ok input"
    and rep: "forest_representable (host_from_nanosecond host) (input_snapshot input)"
    and attempt: "attempt_ok generation (ticket_attempt (input_ticket input))"
  shows "\<exists>delta cells carried des les.
    delta_since (prep_diff_directory prep) (prep_diff_ledger prep) (input_snapshot input) (input_base input) = Some delta
    \<and> plan_checkpoint (input_source input) (input_snapshot input) delta = Some (cells, carried)
    \<and> preparation host prep input generation cells carried des les"
proof -
  let ?part = "seal_partition (input_source input)"
  note contract = prep [unfolded preparer_ok_def] and given = input [unfolded input_ok_def Let_def]
  obtain delta where delta: "delta_since (prep_diff_directory prep) (prep_diff_ledger prep) (input_snapshot input)
      (input_base input) = Some delta" "delta_ok (input_base input) (input_snapshot input) delta"
    using delta_since_ok contract given by blast
  then obtain cells carried where plan: "plan_checkpoint (input_source input) (input_snapshot input) delta = Some (cells, carried)"
      "plan_ok cells carried" "planned_cells (input_source input) (input_base input) (input_snapshot input) cells carried"
    using plan_checkpoint_ok [of "input_source input" "input_base input" "input_snapshot input" delta] given
    by (auto simp: planned_cells_def)
  note enc = directory_encoder [of prep host ?part] ledger_encoder [of prep host ?part]
  have "\<exists>des. directory_tables host prep ?part generation (ticket_attempt (input_ticket input)) 0 (directory_chunks cells) des"
    using contract plan_ordinals(1) [OF plan(2)] planned_cells_sorted(1) [OF plan(3)]
    by (intro table_encoder.tables_exist [OF enc(1) attempt]) (simp_all add: chunk_lists_ok list.pred_True)
  moreover have "\<exists>les. ledger_tables host prep ?part generation (ticket_attempt (input_ticket input))
      (length (directory_chunks cells)) (ledger_chunks cells) les"
    using contract plan_ordinals(1) [OF plan(2)] planned_cells_sorted(2) [OF plan(3)]
      planned_cells_representable [OF plan(3) rep]
    by (intro table_encoder.tables_exist [OF enc(2) attempt]) (simp_all add: chunk_lists_ok)
  ultimately show ?thesis
    using delta(1) plan unfolding preparation_def Let_def by blast
qed

abbreviation prepared_seal ::
  "CheckpointInput \<Rightarrow> SealGeneration \<Rightarrow> Seal option \<Rightarrow> EncodedTable list \<Rightarrow> EncodedTable list \<Rightarrow> Seal" where
  "prepared_seal input generation carried des les \<equiv>
     successor_seal (input_source input) generation (ticket_cut (input_ticket input))
       (owner_from (attempt_owner_claim (ticket_attempt (input_ticket input)))) carried
       (map etable_table des) (map etable_table les)"

lemma preparation_refs:
  assumes prep: "preparer_ok host prep" and plan: "preparation host prep input generation cells carried des les"
    and attempt: "attempt_ok generation (ticket_attempt (input_ticket input))"
  shows "fresh_tables_ok StoreDirectory generation (map etable_table des)"
    and "fresh_tables_ok StoreLedger generation (map etable_table les)"
    and "\<forall>e\<in>set (des @ les). etable_key e = TableKey (ref_object (etable_table e))
      \<and> (\<exists>d. table_decodes host (seal_partition (input_source input)) (etable_table e) (etable_bytes e) d)"
    and "length des = length (directory_chunks cells)" "length les = length (ledger_chunks cells)"
    and "table_bytes (map etable_table des) \<le> sum_list (map snd (directory_chunks cells))"
    and "table_bytes (map etable_table les) \<le> sum_list (map snd (ledger_chunks cells))"
proof -
  let ?part = "seal_partition (input_source input)"
  have enc: "tables_bounded prep" "tables_faithful host prep" using prep by (simp_all add: preparer_ok_def)
  note d = directory_encoder [OF enc, of ?part] and l = ledger_encoder [OF enc, of ?part]
  note made = plan [unfolded preparation_def Let_def]
  have ok: "plan_ok cells carried" using made by blast
  have ord: "0 + length (directory_chunks cells) \<le> u32_max" "length (directory_chunks cells) + length (ledger_chunks cells) \<le> u32_max"
    using plan_ordinals(1) [OF ok] by simp_all
  have des: "directory_tables host prep ?part generation (ticket_attempt (input_ticket input)) 0 (directory_chunks cells) des"
    and les: "ledger_tables host prep ?part generation (ticket_attempt (input_ticket input))
      (length (directory_chunks cells)) (ledger_chunks cells) les"
    using made by blast+
  show "fresh_tables_ok StoreDirectory generation (map etable_table des)"
    by (rule table_encoder.tables_of_fresh [OF d des attempt ord(1) chunk_lists_ok(1) plan_ordinals(2) [OF ok]])
  show "fresh_tables_ok StoreLedger generation (map etable_table les)"
    by (rule table_encoder.tables_of_fresh [OF l les attempt ord(2) chunk_lists_ok(3) plan_ordinals(3) [OF ok]])
  have "\<exists>x. table_decodes host ?part (etable_table e) (etable_bytes e) x" if "e \<in> set des" for e
    using table_encoder.tables_of_each [OF d des attempt ord(1) chunk_lists_ok(1) that]
    by (auto simp: table_decodes_def intro: exI [of _ "DecodedDirectory _"])
  moreover have "\<exists>x. table_decodes host ?part (etable_table e) (etable_bytes e) x" if "e \<in> set les" for e
    using table_encoder.tables_of_each [OF l les attempt ord(2) chunk_lists_ok(3) that]
    by (auto simp: table_decodes_def intro: exI [of _ "DecodedLedger _"])
  ultimately show "\<forall>e\<in>set (des @ les). etable_key e = TableKey (ref_object (etable_table e))
      \<and> (\<exists>d. table_decodes host ?part (etable_table e) (etable_bytes e) d)"
    using table_encoder.tables_of_each [OF d des attempt ord(1) chunk_lists_ok(1)]
      table_encoder.tables_of_each [OF l les attempt ord(2) chunk_lists_ok(3)] by auto
  show "length des = length (directory_chunks cells)" by (rule table_encoder.tables_of_length [OF d des])
  show "length les = length (ledger_chunks cells)" by (rule table_encoder.tables_of_length [OF l les])
  show "table_bytes (map etable_table des) \<le> sum_list (map snd (directory_chunks cells))"
    using table_encoder.tables_of_bytes [OF d des] by (simp add: comp_assoc)
  show "table_bytes (map etable_table les) \<le> sum_list (map snd (ledger_chunks cells))"
    using table_encoder.tables_of_bytes [OF l les] by (simp add: comp_assoc)
qed

lemma preparation_seal:
  assumes prep: "preparer_ok host prep" and input: "input_ok input"
    and plan: "preparation host prep input generation cells carried des les"
    and gen: "seal_generation (input_source input) < generation"
    and attempt: "attempt_ok generation (ticket_attempt (input_ticket input))"
  shows "length (carried_runs seal_directory carried) + of_bool (des \<noteq> []) \<le> TREE_RUNS_MAX"
    and "length (carried_runs seal_ledger carried) + of_bool (les \<noteq> []) \<le> TREE_RUNS_MAX"
    and "seal_new (seal_partition (input_source input)) generation (seal_replay (prepared_seal input generation carried des les))
      (seal_directory (prepared_seal input generation carried des les))
      (seal_ledger (prepared_seal input generation carried des les)) = Inr (prepared_seal input generation carried des les)"
    and "seal_ok (prepared_seal input generation carried des les)"
    and "bootstrap_bounded (prepared_seal input generation carried des les)"
proof -
  note refs = preparation_refs [OF prep plan attempt]
  have made: "planned_cells (input_source input) (input_base input) (input_snapshot input) cells carried" "plan_ok cells carried"
    using plan by (simp_all add: preparation_def Let_def)
  have carried: "carried = None \<or> carried = Some (input_source input)" using made(1) by (auto simp: planned_cells_def)
  have some: "des = [] \<longleftrightarrow> directory_chunks cells = []" "les = [] \<longleftrightarrow> ledger_chunks cells = []"
    using refs(4,5) by auto
  show runs: "length (carried_runs seal_directory carried) + of_bool (des \<noteq> []) \<le> TREE_RUNS_MAX"
      "length (carried_runs seal_ledger carried) + of_bool (les \<noteq> []) \<le> TREE_RUNS_MAX"
    using made(2) by (auto simp: some plan_ok_def carried_runs_def TREE_RUNS_MAX_def split: option.split)
  have source: "seal_ok (input_source input)" using input by (simp add: input_ok_def Let_def)
  have owner: "owner_generation (owner_from (attempt_owner_claim (ticket_attempt (input_ticket input)))) < generation"
    using attempt by (simp add: attempt_ok_def)
  have runs': "length (carried_runs seal_directory carried) + of_bool (map etable_table des \<noteq> []) \<le> TREE_RUNS_MAX"
      "length (carried_runs seal_ledger carried) + of_bool (map etable_table les \<noteq> []) \<le> TREE_RUNS_MAX"
    using runs by simp_all
  note ok = successor_seal_ok [OF source gen carried refs(1,2) runs' owner refl]
  show "seal_new (seal_partition (input_source input)) generation (seal_replay (prepared_seal input generation carried des les))
      (seal_directory (prepared_seal input generation carried des les))
      (seal_ledger (prepared_seal input generation carried des les)) = Inr (prepared_seal input generation carried des les)"
    using ok(1) by (simp add: successor_seal_def)
  show "seal_ok (prepared_seal input generation carried des les)" by (rule ok(2))
  show "bootstrap_bounded (prepared_seal input generation carried des les)"
    unfolding bootstrap_bounded_def successor_tables using made(2) refs(4-7) by (simp add: plan_ok_def)
qed

lemma preparation_trees:
  assumes prep: "preparer_ok host prep" and input: "input_ok input"
    and plan: "preparation host prep input generation cells carried des les"
    and gen: "seal_generation (input_source input) < generation"
    and attempt: "attempt_ok generation (ticket_attempt (input_ticket input))"
  defines "part \<equiv> seal_partition (input_source input)" and "tried \<equiv> ticket_attempt (input_ticket input)"
    and "seal \<equiv> prepared_seal input generation carried des les"
  shows "offer emit des s = Some (continue, s') \<Longrightarrow>
      \<exists>n. build_directory_tree prep part generation tried 0 (delta_directory cells) (map_option seal_directory carried) emit s
        = Some (if continue then Some (seal_directory seal) else None, n, s') \<and> (continue \<longrightarrow> n = length (directory_chunks cells))"
    and "offer emit les s = Some (continue, s') \<Longrightarrow>
      \<exists>n. build_ledger_tree prep part generation tried (length (directory_chunks cells)) (delta_ledger cells)
          (map_option seal_ledger carried) emit s
        = Some (if continue then Some (seal_ledger seal) else None, n, s')"
proof -
  have enc: "tables_bounded prep" "tables_faithful host prep" using prep by (simp_all add: preparer_ok_def)
  note d = directory_encoder [OF enc, of part] and l = ledger_encoder [OF enc, of part]
  have ok: "plan_ok cells carried" and des: "directory_tables host prep part generation tried 0 (directory_chunks cells) des"
    and les: "ledger_tables host prep part generation tried (length (directory_chunks cells)) (ledger_chunks cells) les"
    using plan by (simp_all add: preparation_def Let_def part_def tried_def)
  have ord: "0 + length (directory_chunks cells) \<le> u32_max" "length (directory_chunks cells) + length (ledger_chunks cells) \<le> u32_max"
    using plan_ordinals(1) [OF ok] by simp_all
  note refs = preparation_refs [OF prep plan attempt] and runs = preparation_seal(1,2) [OF prep input plan gen attempt]
  have "build_manifest (map_option seal_directory carried) (map etable_table des) = Some (seal_directory seal)"
      "build_manifest (map_option seal_ledger carried) (map etable_table les) = Some (seal_ledger seal)"
    using build_manifest_fresh [of "map etable_table des" seal_directory carried]
      build_manifest_fresh [of "map etable_table les" seal_ledger carried] refs(4,5) plan_ordinals(2,3) [OF ok] runs
    by (simp_all add: seal_def successor_seal_def)
  note trees = this
  show "\<exists>n. build_directory_tree prep part generation tried 0 (delta_directory cells) (map_option seal_directory carried) emit s
        = Some (if continue then Some (seal_directory seal) else None, n, s') \<and> (continue \<longrightarrow> n = length (directory_chunks cells))"
    if "offer emit des s = Some (continue, s')"
    using table_encoder.build_tree_offers [OF d attempt [folded tried_def] checkpoint_rows_fit(1)
        des [unfolded directory_chunks_def] ord(1) [unfolded directory_chunks_def] trees(1) that]
    by (simp add: build_directory_tree_def directory_chunks_def)
  show "\<exists>n. build_ledger_tree prep part generation tried (length (directory_chunks cells)) (delta_ledger cells)
          (map_option seal_ledger carried) emit s
        = Some (if continue then Some (seal_ledger seal) else None, n, s')"
    if "offer emit les s = Some (continue, s')"
    using table_encoder.build_tree_offers [OF l attempt [folded tried_def] checkpoint_rows_fit(2)
        les [unfolded ledger_chunks_def] ord(2) [unfolded ledger_chunks_def] trees(2) that]
    by (auto simp: build_ledger_tree_def)
qed

definition prepared_checkpoint :: "CheckpointInput \<Rightarrow> Seal \<Rightarrow> bytes \<Rightarrow> PreparedCheckpoint" where
  "prepared_checkpoint input seal bs =
     \<lparr> prepared_source = input_source input, prepared_successor = seal, prepared_snapshot = input_snapshot input,
       prepared_candidate = EncodedAuthoritySeal \<lparr> eseal_seal = seal, eseal_bytes = bs \<rparr> \<rparr>"

lemma preparation_assembles:
  assumes prep: "preparer_ok host prep" and input: "input_ok input"
    and plan: "preparation host prep input generation cells carried des les"
    and gen: "seal_generation_successor (seal_generation (input_source input)) = Inr generation"
    and attempt: "attempt_ok generation (ticket_attempt (input_ticket input))"
  defines "seal \<equiv> prepared_seal input generation carried des les"
  shows "\<exists>bs candidate. assemble_checkpoint_seal prep (seal_partition (input_source input)) generation
        (ticket_cut (input_ticket input)) (owner_from (attempt_owner_claim (ticket_attempt (input_ticket input))))
        (seal_directory seal) (seal_ledger seal) = Some (seal, candidate)
      \<and> prepared_checkpoint_new (input_ticket input) (input_source input) seal (input_snapshot input) candidate
          = Some (prepared_checkpoint input seal bs)"
proof -
  have gen': "seal_generation (input_source input) < generation"
    using gen by (simp add: seal_gen.successor_Inr less_SealGeneration_def)
  note ok = preparation_seal(3-5) [OF prep input plan gen' attempt, folded seal_def]
  obtain bs where bs: "prep_seal prep seal = Inr bs" "bs \<noteq> []" "length bs \<le> SEAL_ENCODED_BYTES_MAX"
    using prep ok(2,3) unfolding preparer_ok_def by blast
  have fields: "seal_replay seal = ReplayThrough (ticket_cut (input_ticket input))
        (owner_from (attempt_owner_claim (ticket_attempt (input_ticket input))))"
      "seal_generation seal = generation" "seal_partition seal = seal_partition (input_source input)"
    by (simp_all add: seal_def successor_seal_def)
  have "generation \<noteq> seal_generation_genesis"
    using gen' seal_generation_genesis_least not_le by blast
  then have "authority_candidate (prep_seal prep) seal = Some (Inr (EncodedAuthoritySeal \<lparr> eseal_seal = seal, eseal_bytes = bs \<rparr>))"
    using bs by (simp add: authority_candidate_def encoded_seal_new_def fields assert_candidate_bytes_def)
  then show ?thesis
    using ok(1) gen input fields
    by (auto simp: assemble_checkpoint_seal_def prepared_checkpoint_new_def prepared_checkpoint_def authority_seal_def
        input_ok_def Let_def split: option.split)
qed

lemma prepare_checkpoint_offers:
  assumes prep: "preparer_ok host prep" and input: "input_ok input"
    and rep: "forest_representable (host_from_nanosecond host) (input_snapshot input)"
    and gen: "seal_generation_successor (seal_generation (input_source input)) = Inr generation"
    and attempt: "attempt_ok generation (ticket_attempt (input_ticket input))"
    and emit: "\<And>table s. emit table s = Some (send table s)"
  shows "\<exists>cells carried des les bs. preparation host prep input generation cells carried des les
    \<and> prepare_checkpoint prep input emit s
      = map_option (\<lambda>(continue, s'). (Inr (if continue
          then Some (prepared_checkpoint input (prepared_seal input generation carried des les) bs) else None), s'))
          (offer emit (des @ les) s)"
proof -
  obtain delta cells carried des les where
    delta: "delta_since (prep_diff_directory prep) (prep_diff_ledger prep) (input_snapshot input) (input_base input) = Some delta"
      "plan_checkpoint (input_source input) (input_snapshot input) delta = Some (cells, carried)"
    and plan: "preparation host prep input generation cells carried des les"
    using preparation_exists [OF prep input rep attempt] by blast
  have gen': "seal_generation (input_source input) < generation"
    using gen by (simp add: seal_gen.successor_Inr less_SealGeneration_def)
  note trees = preparation_trees [OF prep input plan gen' attempt]
  obtain bs candidate where assembled: "assemble_checkpoint_seal prep (seal_partition (input_source input)) generation
        (ticket_cut (input_ticket input)) (owner_from (attempt_owner_claim (ticket_attempt (input_ticket input))))
        (seal_directory (prepared_seal input generation carried des les))
        (seal_ledger (prepared_seal input generation carried des les))
        = Some (prepared_seal input generation carried des les, candidate)"
      "prepared_checkpoint_new (input_ticket input) (input_source input) (prepared_seal input generation carried des les)
        (input_snapshot input) candidate
        = Some (prepared_checkpoint input (prepared_seal input generation carried des les) bs)"
    using preparation_assembles [OF prep input plan gen attempt] by blast
  obtain go s1 where go: "offer emit des s = Some (go, s1)" using offer_total [of emit send, OF emit] by blast
  obtain go' s2 where go': "offer emit les s1 = Some (go', s2)" using offer_total [of emit send, OF emit] by blast
  obtain n where n: "build_directory_tree prep (seal_partition (input_source input)) generation
        (ticket_attempt (input_ticket input)) 0 (delta_directory cells) (map_option seal_directory carried) emit s
      = Some (if go then Some (seal_directory (prepared_seal input generation carried des les)) else None, n, s1)"
      "go \<longrightarrow> n = length (directory_chunks cells)"
    using trees(1) [OF go] by blast
  obtain n' where n': "build_ledger_tree prep (seal_partition (input_source input)) generation
        (ticket_attempt (input_ticket input)) (length (directory_chunks cells)) (delta_ledger cells)
        (map_option seal_ledger carried) emit s1
      = Some (if go' then Some (seal_ledger (prepared_seal input generation carried des les)) else None, n', s2)"
    using trees(2) [OF go'] by blast
  have "prepare_checkpoint prep input emit s
      = map_option (\<lambda>(continue, s'). (Inr (if continue
          then Some (prepared_checkpoint input (prepared_seal input generation carried des les) bs) else None), s'))
          (offer emit (des @ les) s)"
    using n n' by (simp add: prepare_checkpoint_def Let_def gen delta offer_append go go' assembled)
  with plan show ?thesis by blast
qed

lemma preparation_materializes:
  assumes prep: "preparer_ok host prep" and input: "input_ok input"
    and plan: "preparation host prep input generation cells carried des les"
    and attempt: "attempt_ok generation (ticket_attempt (input_ticket input))"
    and old: "materializes contents (input_source input) (input_base input)"
    and stored: "\<forall>e\<in>set (des @ les). table_decodes host (seal_partition (input_source input)) (etable_table e)
        (etable_bytes e) (contents (etable_table e))"
  shows "materializes contents (prepared_seal input generation carried des les) (input_snapshot input)"
proof -
  let ?part = "seal_partition (input_source input)"
  have enc: "tables_bounded prep" "tables_faithful host prep" using prep by (simp_all add: preparer_ok_def)
  have made: "planned_cells (input_source input) (input_base input) (input_snapshot input) cells carried"
    and des: "directory_tables host prep ?part generation (ticket_attempt (input_ticket input)) 0 (directory_chunks cells) des"
    and les: "ledger_tables host prep ?part generation (ticket_attempt (input_ticket input))
      (length (directory_chunks cells)) (ledger_chunks cells) les"
    using plan by (simp_all add: preparation_def Let_def)
  note keys = preparation_refs(3) [OF prep plan attempt]
  have "concat (map (entry_rows \<circ> contents) (map etable_table des)) = concat (map fst (directory_chunks cells))"
    using stored keys table_rows_read(1)
    by (intro table_encoder.tables_of_rows [OF directory_encoder [OF enc] des]) fastforce
  moreover have "concat (map (cell_rows \<circ> contents) (map etable_table les)) = concat (map fst (ledger_chunks cells))"
    using stored keys table_rows_read(2)
    by (intro table_encoder.tables_of_rows [OF ledger_encoder [OF enc] les]) fastforce
  ultimately show ?thesis
    using successor_materializes [OF made old] input by (simp add: chunk_lists_ok input_ok_def Let_def)
qed

section \<open>Property\<close>

text \<open>
  C3. A checkpoint holds exactly the frozen snapshot. For an input of the writer machine and an
  \<open>emit\<close> that does not panic, \<open>prepare_checkpoint\<close> returns: it offers the fresh tables in order and,
  at the first refusal, gives up with no Seal. If all are accepted, the prepared Seal is valid, of the
  exact successor generation, inside the bounds that bootstrap accepts, and names only fresh tables
  and tables of the source. Every offered table decodes; and when the source's tables hold the base
  and the fresh tables hold what was offered, a newest-wins read of the prepared Seal gives the
  snapshot.
\<close>

theorem checkpoint_holds_snapshot:
  assumes "preparer_ok host prep" "input_ok input"
    and "forest_representable (host_from_nanosecond host) (input_snapshot input)"
    and "seal_generation_successor (seal_generation (input_source input)) = Inr generation"
    and "\<And>table s. emit table s = Some (send table s)"
  shows "\<exists>tables prepared accepted s'. offer emit tables s = Some (accepted, s')
     \<and> prepare_checkpoint prep input emit s = Some (Inr (if accepted then Some prepared else None), s')
     \<and> authority_seal (prepared_candidate prepared) = prepared_successor prepared
     \<and> seal_ok (prepared_successor prepared) \<and> seal_generation (prepared_successor prepared) = generation
     \<and> plan_bootstrap_sources (prepared_successor prepared) = Inr (planned (prepared_successor prepared))
     \<and> set (seal_tables (prepared_successor prepared)) \<subseteq> set (seal_tables (input_source input)) \<union> etable_table ` set tables
     \<and> (\<forall>e\<in>set tables. \<exists>d. table_decodes host (seal_partition (input_source input)) (etable_table e) (etable_bytes e) d)
     \<and> (\<forall>contents. materializes contents (input_source input) (input_base input)
          \<and> (\<forall>e\<in>set tables. table_decodes host (seal_partition (input_source input)) (etable_table e) (etable_bytes e)
               (contents (etable_table e)))
          \<longrightarrow> materializes contents (prepared_successor prepared) (input_snapshot input))"
proof -
  have gen: "seal_generation (input_source input) < generation"
    using assms(4) by (simp add: seal_gen.successor_Inr less_SealGeneration_def)
  then have attempt: "attempt_ok generation (ticket_attempt (input_ticket input))"
    using assms(2) by (auto simp: input_ok_def attempt_ok_def Let_def)
  obtain cells carried des les bs where plan: "preparation host prep input generation cells carried des les"
      and result: "prepare_checkpoint prep input emit s
        = map_option (\<lambda>(continue, s'). (Inr (if continue
            then Some (prepared_checkpoint input (prepared_seal input generation carried des les) bs) else None), s'))
            (offer emit (des @ les) s)"
    using prepare_checkpoint_offers [OF assms(1-4) attempt, of emit send s] assms(5) by blast
  obtain accepted s' where offered: "offer emit (des @ les) s = Some (accepted, s')"
    using offer_total [of emit send, OF assms(5)] by blast
  note seal = preparation_seal(4,5) [OF assms(1,2) plan gen attempt]
  have "carried = None \<or> carried = Some (input_source input)"
    using plan by (auto simp: preparation_def Let_def planned_cells_def)
  then have "set (carried_tables carried) \<subseteq> set (seal_tables (input_source input))"
    by (auto simp: carried_tables_def)
  then have tables: "set (seal_tables (prepared_seal input generation carried des les))
      \<subseteq> set (seal_tables (input_source input)) \<union> etable_table ` set (des @ les)"
    unfolding successor_tables(1) by auto
  show ?thesis
    using preparation_materializes [OF assms(1,2) plan attempt] preparation_refs(3) [OF assms(1) plan attempt] seal bootstrap_bounded_planned tables offered result
    by (intro exI [of _ "des @ les"] exI [of _ "prepared_checkpoint input (prepared_seal input generation carried des les) bs"]
        exI [of _ accepted] exI [of _ s'])
      (simp add: prepared_checkpoint_def authority_seal_def successor_seal_def)
qed

end
