(* ===== verification/Codec_Contracts.thy ===== *)
theory Codec_Contracts
  imports Checkpoint_Prepare Archive_Format
begin

text \<open>
  The codecs under the contracts of their callers. The writer machine, the bootstrap machine and
  checkpoint preparation are verified for any encoders that keep \<open>wal_encoder_ok\<close>,
  \<open>boot_encoders_ok\<close> and \<open>preparer_ok\<close>; here the codecs of the source keep them, by the sizes of
  \<open>Archive_Format\<close>.
\<close>

lemma bounded_seal_encodes:
  assumes rkyv: "rkyv_faithful serialize access" and fmt: "compact fmt"
    and layout: "sized (seal_bytes fmt) (range archive_seal) serialize" and room: "allocates room"
    and seal: "seal_ok seal" "bootstrap_bounded seal"
  shows "\<exists>bs. encode_seal serialize room seal = Inr bs \<and> bs \<noteq> [] \<and> length bs \<le> SEAL_ENCODED_BYTES_MAX"
proof -
  have "seal_bytes fmt (archive_seal seal) \<le> SEAL_ENCODED_BYTES_MAX"
    using seal by (intro seal_estimated [OF fmt]) (simp_all add: seal_ok_def tree_ok_def bootstrap_bounded_def)
  from sizedD [OF layout rangeI this] obtain chunks where chunks: "serialize (archive_seal seal) = (chunks, True)"
      "length (concat chunks) \<le> SEAL_ENCODED_BYTES_MAX"
    by (auto simp: SEAL_ENCODED_BYTES_MAX_def)
  then have "encode_seal serialize room seal = Inr (concat chunks)"
    by (simp add: encode_seal_def encode_allocates [OF room encoded_bounds_below_u64(2)])
  with chunks rkyv show ?thesis unfolding rkyv_faithful_def by metis
qed

lemma ledger_estimated:
  assumes "compact fmt"
  shows "ledger_bytes fmt (ledger_root part key cells)
     \<le> SST_ARCHIVE_FIXED_BYTES_MAX + sum_list (map (ledger_row_bytes \<circ> snd) cells)"
proof -
  have "cell_row_bytes fmt + cell_contents (archive_cell cell) \<le> ledger_row_bytes cell" for cell
    using value_row_estimated [OF assms] delete_row_estimated [OF assms]
    by (cases cell) (simp_all add: archive_record_def)
  then have "sum_list (map (\<lambda>row. cell_row_bytes fmt + cell_contents (archive_cell (snd row))) cells)
      \<le> sum_list (map (ledger_row_bytes \<circ> snd) cells)"
    by (intro sum_list_mono) simp
  moreover have "16 + fresh_bytes + vec_bytes fmt \<le> SST_ARCHIVE_FIXED_BYTES_MAX"
    using assms by (simp add: compact_def archive_sizes bound_defs)
  ultimately show ?thesis
    by (simp add: ledger_bytes_def ledger_root_def comp_def case_prod_unfold)
qed

lemma sized_tables_bounded:
  assumes fmt: "compact fmt"
    and "sized (directory_bytes fmt) directory_roots (prep_serialize_directory prep)"
    and "sized (ledger_bytes fmt) ledger_roots (prep_serialize_ledger prep)"
    and "prep_directory_row_size prep = directory_row_bytes fmt" "prep_ledger_row_size prep = cell_row_bytes fmt"
  shows "tables_bounded prep"
proof -
  have target: "SST_TABLE_TARGET_BYTES < 2 ^ 31" by (simp add: bound_defs)
  have "directory_root part key rows \<in> directory_roots" "ledger_root part key cells \<in> ledger_roots" for part key rows cells
    by (auto simp: directory_roots_def ledger_roots_def)
  note roots = this
  have "\<exists>pieces. prep_serialize_directory prep (directory_root part key rows) = (pieces, True)
      \<and> length (concat pieces) \<le> SST_ARCHIVE_FIXED_BYTES_MAX + length rows * DIRECTORY_ROW_ENCODED_BYTES_MAX"
    if "SST_ARCHIVE_FIXED_BYTES_MAX + length rows * DIRECTORY_ROW_ENCODED_BYTES_MAX \<le> SST_TABLE_TARGET_BYTES" for part key rows
    using sizedD [OF assms(2) roots(1) directory_estimated [OF fmt] le_less_trans [OF that target]] .
  moreover have "\<exists>pieces. prep_serialize_ledger prep (ledger_root part key cells) = (pieces, True)
      \<and> length (concat pieces) \<le> SST_ARCHIVE_FIXED_BYTES_MAX + sum_list (map (ledger_row_bytes \<circ> snd) cells)"
    if "SST_ARCHIVE_FIXED_BYTES_MAX + sum_list (map (ledger_row_bytes \<circ> snd) cells) \<le> SST_TABLE_TARGET_BYTES" for part key cells
    using sizedD [OF assms(3) roots(2) ledger_estimated [OF fmt] le_less_trans [OF that target]] .
  moreover have "directory_row_bytes fmt \<le> DIRECTORY_ROW_ENCODED_BYTES_MAX"
    using fmt by (simp add: compact_def archive_sizes bound_defs)
  ultimately show ?thesis
    using delete_row_estimated [OF fmt] assms(4,5) unfolding tables_bounded_def by simp
qed

text \<open>
  C20. The codecs meet the contracts of the machines. Over an allocator that grants every reservation
  and a faithful serializer that completes each archive within the size of its format, \<open>encode_wal\<close>
  never refuses a RUN that the writer's accounting of \<open>estimated_encoded_bytes\<close> admits, \<open>encode_seal\<close>
  never refuses a Seal within the tree and bootstrap limits, and no candidate is empty or over its
  bound.
\<close>

theorem codecs_meet_machine_contracts:
  assumes "compact fmt" "allocates room"
    and "rkyv_faithful serialize_wal access_wal" "sized (wal_bytes fmt) (range archive_wal) serialize_wal"
    and "rkyv_faithful serialize_seal access_seal" "sized (seal_bytes fmt) (range archive_seal) serialize_seal"
  shows "wal_encoder_ok (encode_wal serialize_wal room)
     \<and> boot_encoders_ok (encode_seal serialize_seal room) (encode_wal serialize_wal room)
     \<and> (\<forall>seal. seal_ok seal \<and> bootstrap_bounded seal \<longrightarrow>
          (\<exists>bs. encode_seal serialize_seal room seal = Inr bs \<and> bs \<noteq> [] \<and> length bs \<le> SEAL_ENCODED_BYTES_MAX))"
  using codec_wal_encoder [OF assms(3,1,4,2)] codecs_boot_encoders [OF assms(5,3)]
    bounded_seal_encodes [OF assms(5,1,6,2)] by blast

text \<open>
  C40. The accounting of a checkpoint is sound. With the codecs of the source over faithful
  serializers that complete each archive within the size of its format, an allocator that grants every
  reservation and an exact diff, the charges of \<open>bounds.rs\<close> for the rows of a table cover its archive
  and the Seal of a checkpoint encodes: preparation has the encoders it is verified for.
\<close>

theorem checkpoint_accounting_is_sound:
  assumes "compact fmt" "tables_faithful host prep"
    and "sized (directory_bytes fmt) directory_roots (prep_serialize_directory prep)"
    and "sized (ledger_bytes fmt) ledger_roots (prep_serialize_ledger prep)"
    and "prep_directory_row_size prep = directory_row_bytes fmt" "prep_ledger_row_size prep = cell_row_bytes fmt"
    and "diff_exact (prep_diff_directory prep)" "diff_exact (prep_diff_ledger prep)"
    and "rkyv_faithful serialize_seal access_seal" "sized (seal_bytes fmt) (range archive_seal) serialize_seal"
    and "prep_seal prep = encode_seal serialize_seal (prep_room prep)"
  shows "preparer_ok host prep"
proof -
  have "allocates (prep_room prep)" using assms(2) by (simp add: tables_faithful_def)
  then show ?thesis
    using sized_tables_bounded [OF assms(1,3-6)] bounded_seal_encodes [OF assms(9,1,10)] assms(2,7,8,11)
    by (simp add: preparer_ok_def)
qed

end
