(* ===== verification/Table_Layout.thy ===== *)
theory Table_Layout
  imports Codec_Contracts Memory_Run
begin

text \<open>
  A layout of the table and Seal archives with the properties that the theorems ask of \<open>rkyv\<close>, in the
  style of the layout of WAL objects: complete fields in order, lengths before contents. At this layout
  the codecs keep the contracts of their callers, and a checkpoint of a one-stream forest is prepared.
\<close>

section \<open>Archives read back by their layout\<close>

definition lay_read :: "('a \<Rightarrow> bool) \<Rightarrow> ('a \<Rightarrow> bytes) \<Rightarrow> bytes \<Rightarrow> 'a option" where
  "lay_read ok lay bs = (if \<exists>a. ok a \<and> lay a = bs then Some (THE a. ok a \<and> lay a = bs) else None)"

lemma lay_read_faithful:
  assumes "\<And>a b. ok a \<Longrightarrow> ok b \<Longrightarrow> lay a = lay b \<Longrightarrow> a = b" "\<And>a. lay a \<noteq> []"
  shows "rkyv_faithful (\<lambda>a. ([lay a], ok a)) (lay_read ok lay)"
proof -
  have "lay_read ok lay (lay a) = Some a" if "ok a" for a
    using that assms(1) by (auto simp: lay_read_def intro!: the_equality)
  with assms(2) show ?thesis by (simp add: rkyv_faithful_def)
qed

lemma digits_word:
  fixes v w :: "'l::len word"
  assumes "LENGTH('l) = 8 * k"
  shows "digits k (unat v) = digits k (unat w) \<longleftrightarrow> v = w"
proof -
  have "unat v < 256 ^ k" "unat w < 256 ^ k"
    using unsigned_less [of v] unsigned_less [of w] assms by (simp_all add: power_mult)
  then show ?thesis by (simp add: digits_inject word_unat_eq_iff)
qed

definition lay_fresh :: "ArchivedFreshIdentity \<Rightarrow> bytes" where
  "lay_fresh f = lay_nz (archived_birth_generation f) @ lay_nz (archived_owner_claim (archived_attempt f))
     @ digits 8 (unat (archived_local_counter (archived_attempt f))) @ digits 4 (unat (archived_ordinal f))"

lemma length_lay_fresh: "length (lay_fresh f) = 28"
  by (simp add: lay_fresh_def lay_nz_def)

lemma lay_nz_inject: "lay_nz m = lay_nz n \<longleftrightarrow> m = n"
  using prefix_codeD [OF code_nz, of m n "[]" "[]"] by simp

lemma code_fresh: "prefix_code UNIV lay_fresh"
proof (rule prefix_code_fixed [of _ _ 28])
  show "inj lay_fresh"
  proof (rule injI)
    fix f g
    assume "lay_fresh f = lay_fresh g"
    then show "f = g"
      using digits_word [where 'l = 64 and k = 8] digits_word [where 'l = 32 and k = 4]
      by (cases f; cases g; cases "archived_attempt f"; cases "archived_attempt g")
        (auto simp: lay_fresh_def layout_codes lay_nz_inject simp del: digits.simps)
  qed
qed (rule length_lay_fresh)

text \<open>A table: its partition, its fresh identity, the number of its rows and the rows.\<close>

definition lay_table :: "('r \<Rightarrow> bytes) \<Rightarrow> octets \<Rightarrow> ArchivedFreshIdentity \<Rightarrow> 'r list \<Rightarrow> bytes" where
  "lay_table lay part fresh rows = octets_list part @ lay_fresh fresh @ digits 4 (length rows) @ concat (map lay rows)"

lemma lay_table_inject:
  assumes "prefix_code X lay" "set xs \<subseteq> X" "set ys \<subseteq> X" "length xs < 256 ^ 4" "length ys < 256 ^ 4"
    and "lay_table lay p f xs = lay_table lay q g ys"
  shows "p = q \<and> f = g \<and> xs = ys"
proof -
  have octets: "length (octets_list q) = 16" for q using octets_list [of q] by simp
  have eq: "p = q" "f = g" "digits 4 (length xs) @ concat (map lay xs) = digits 4 (length ys) @ concat (map lay ys)"
    using assms(6) by (auto simp: lay_table_def octets octets_list_inject prefix_codeD [OF code_fresh] simp del: digits.simps)
  then have "length xs = length ys" "concat (map lay xs) @ [] = concat (map lay ys) @ []"
    using digits_inject [OF assms(4,5)] by (auto simp del: digits.simps)
  with concat_prefix_code [OF assms(1) this(1) assms(2,3)] eq show ?thesis by blast
qed

lemma length_lay_table: "length (lay_table lay part fresh rows) = 48 + length (concat (map lay rows))"
  using octets_list [of part] by (simp add: lay_table_def length_lay_fresh del: digits.simps)

section \<open>The two tables\<close>

primrec lay_entry :: "ArchivedDirectoryEntry \<Rightarrow> bytes" where
  "lay_entry (ArchivedLive uid) = CHR ''0'' # lay_nz uid"
| "lay_entry (ArchivedTombstone uid) = CHR ''1'' # lay_nz uid"

primrec lay_row :: "DirectoryRowArchive \<Rightarrow> bytes" where
  "lay_row (DirectoryRowArchive path entry) = lay_str path @ lay_entry entry"

primrec lay_cell :: "ArchivedLedgerCell \<Rightarrow> bytes" where
  "lay_cell (ArchivedValue r) = CHR ''0'' # lay_str (archived_record_content_type r)
     @ lay_expiry (archived_record_expiry r) @ lay_lifecycle (archived_record_lifecycle r)
     @ lay_nz (archived_record_created_at r)"
| "lay_cell ArchivedDelete = [CHR ''1'']"

definition short_rows :: "DirectoryRowArchive set" where
  "short_rows = {row. row_archive_path row \<in> short}"

definition short_cells :: "(nonzero_u64 \<times> ArchivedLedgerCell) set" where
  "short_cells = {(uid, cell). \<forall>r. cell = ArchivedValue r \<longrightarrow>
     archived_record_content_type r \<in> short \<and> archived_record_expiry r \<in> ttls}"

lemma code_row: "prefix_code short_rows lay_row"
  unfolding prefix_code_def
proof (intro ballI allI impI)
  fix x y r s
  assume "x \<in> short_rows" "y \<in> short_rows" "lay_row x @ r = lay_row y @ s"
  then show "x = y \<and> r = s"
    by (cases x; cases y; cases "row_archive_entry x"; cases "row_archive_entry y")
      (auto simp: short_rows_def layout_codes)
qed

lemma code_cell: "prefix_code short_cells (\<lambda>(uid, cell). lay_nz uid @ lay_cell cell)"
  unfolding prefix_code_def
proof (intro ballI allI impI)
  fix x y r s
  assume "x \<in> short_cells" "y \<in> short_cells"
    "(\<lambda>(uid, cell). lay_nz uid @ lay_cell cell) x @ r = (\<lambda>(uid, cell). lay_nz uid @ lay_cell cell) y @ s"
  then show "x = y \<and> r = s"
    by (cases x; cases y; cases "snd x"; cases "snd y")
      (auto simp: short_cells_def layout_codes intro!: ArchivedStreamRecord.equality)
qed

definition short_directory :: "DirectorySstArchive \<Rightarrow> bool" where
  "short_directory root \<longleftrightarrow> set (directory_root_rows root) \<subseteq> short_rows \<and> length (directory_root_rows root) < 256 ^ 4"

definition lay_directory :: "DirectorySstArchive \<Rightarrow> bytes" where
  "lay_directory root = lay_table lay_row (directory_root_partition root) (directory_root_fresh root) (directory_root_rows root)"

definition short_ledger :: "LedgerSstArchive \<Rightarrow> bool" where
  "short_ledger root \<longleftrightarrow> set (ledger_root_rows root) \<subseteq> short_cells \<and> length (ledger_root_rows root) < 256 ^ 4"

definition lay_ledger :: "LedgerSstArchive \<Rightarrow> bytes" where
  "lay_ledger root = lay_table (\<lambda>(uid, cell). lay_nz uid @ lay_cell cell) (ledger_root_partition root)
     (ledger_root_fresh root) (ledger_root_rows root)"

lemma lay_tables_faithful:
  "rkyv_faithful (\<lambda>a. ([lay_directory a], short_directory a)) (lay_read short_directory lay_directory)"
  "rkyv_faithful (\<lambda>a. ([lay_ledger a], short_ledger a)) (lay_read short_ledger lay_ledger)"
proof -
  have "lay_table lay p f rows \<noteq> []" for lay :: "'r \<Rightarrow> bytes" and p f rows
    using length_lay_table [of lay p f rows] by auto
  note nonempty = this
  show "rkyv_faithful (\<lambda>a. ([lay_directory a], short_directory a)) (lay_read short_directory lay_directory)"
  proof (rule lay_read_faithful)
    fix a b
    assume ok: "short_directory a" "short_directory b" "lay_directory a = lay_directory b"
    from lay_table_inject [OF code_row _ _ _ _ ok(3) [unfolded lay_directory_def]] ok(1,2)
    have "directory_root_partition a = directory_root_partition b" "directory_root_fresh a = directory_root_fresh b" "directory_root_rows a = directory_root_rows b"
      unfolding short_directory_def by simp_all
    then show "a = b" by (intro DirectorySstArchive.equality) simp_all
  qed (simp add: lay_directory_def nonempty)
  show "rkyv_faithful (\<lambda>a. ([lay_ledger a], short_ledger a)) (lay_read short_ledger lay_ledger)"
  proof (rule lay_read_faithful)
    fix a b
    assume ok: "short_ledger a" "short_ledger b" "lay_ledger a = lay_ledger b"
    from lay_table_inject [OF code_cell _ _ _ _ ok(3) [unfolded lay_ledger_def]] ok(1,2)
    have "ledger_root_partition a = ledger_root_partition b" "ledger_root_fresh a = ledger_root_fresh b" "ledger_root_rows a = ledger_root_rows b"
      unfolding short_ledger_def by simp_all
    then show "a = b" by (intro LedgerSstArchive.equality) simp_all
  qed (simp add: lay_ledger_def nonempty)
qed

section \<open>Their sizes\<close>

lemma archived_rows_short:
  "directory_row_archive row \<in> short_rows" "(archive_uid uid, archive_cell cell) \<in> short_cells"
proof -
  have "path_as_str p \<in> short" "content_type_as_str ct \<in> short" for p ct
    using path_length [of p] content_type_length [of ct] by (auto simp: short_def bound_defs)
  moreover have "expiry_archive_from e \<in> ttls" for e
  proof (cases e)
    case (SlidingTtl t)
    with nz_get_le [of "ttl_seconds t"] show ?thesis by (simp add: ttls_def u64_max_def del: nz_get_le)
  qed (simp_all add: ttls_def)
  ultimately show "directory_row_archive row \<in> short_rows" "(archive_uid uid, archive_cell cell) \<in> short_cells"
    by (simp_all add: short_rows_def directory_row_archive_def short_cells_def archive_record_def)
      (cases cell; simp add: archive_record_def)
qed

lemma lay_row_size: "length (lay_row row) \<le> directory_row_bytes lay_format + length (row_archive_path row)"
proof (cases row)
  case (DirectoryRowArchive path entry)
  moreover have "length (lay_entry entry) = 9" by (cases entry) (simp_all add: lay_field_sizes(1))
  ultimately show ?thesis by (simp add: archive_sizes lay_format_def)
qed

lemma lay_cell_size: "length (lay_nz uid @ lay_cell cell) \<le> cell_row_bytes lay_format + cell_contents cell"
proof (cases cell)
  case (ArchivedValue r)
  with lay_field_sizes(3) [of "archived_record_expiry r"] show ?thesis
    by (simp add: lay_field_sizes(1,2)) (simp add: archive_sizes lay_format_def)
qed (simp add: lay_field_sizes(1) archive_sizes lay_format_def)

lemma length_concat_rows:
  "(\<And>row. length (lay row) \<le> charge row) \<Longrightarrow> length (concat (map lay rows)) \<le> sum_list (map charge rows)"
  by (induction rows) (auto intro!: add_mono)

lemma lay_table_size:
  "(\<And>row. length (lay row) \<le> charge row)
    \<Longrightarrow> length (lay_table lay part fresh rows) \<le> 16 + fresh_bytes + vec_bytes lay_format + sum_list (map charge rows)"
  using length_concat_rows [of lay charge rows]
  by (simp add: length_lay_table fresh_bytes_def lay_format_def)

lemma rows_counted: "(\<And>row. 0 < charge row) \<Longrightarrow> length rows \<le> sum_list (map (charge :: _ \<Rightarrow> nat) rows)"
proof (induction rows)
  case (Cons row rows)
  from Cons.prems [of row] Cons.IH [OF Cons.prems] show ?case by simp
qed simp

lemma lay_tables_sized:
  "sized (directory_bytes lay_format) directory_roots (\<lambda>a. ([lay_directory a], short_directory a))"
  "sized (ledger_bytes lay_format) ledger_roots (\<lambda>a. ([lay_ledger a], short_ledger a))"
proof -
  have "short_directory a" if "a \<in> directory_roots" "directory_bytes lay_format a < 2 ^ 31" for a
  proof -
    have "length (directory_root_rows a) \<le> directory_bytes lay_format a"
      using rows_counted [of "\<lambda>row. directory_row_bytes lay_format + length (row_archive_path row)" "directory_root_rows a"]
      by (simp add: directory_bytes_def archive_sizes)
    moreover have "set (directory_root_rows a) \<subseteq> short_rows"
      using that(1) archived_rows_short(1) by (auto simp: directory_roots_def directory_root_def)
    ultimately show ?thesis using that(2) by (simp add: short_directory_def)
  qed
  moreover have "length (lay_directory a) \<le> directory_bytes lay_format a" for a
    unfolding lay_directory_def directory_bytes_def by (rule lay_table_size) (rule lay_row_size)
  ultimately show "sized (directory_bytes lay_format) directory_roots (\<lambda>a. ([lay_directory a], short_directory a))"
    by (simp add: sized_def)
  have "short_ledger a" if "a \<in> ledger_roots" "ledger_bytes lay_format a < 2 ^ 31" for a
  proof -
    have "length (ledger_root_rows a) \<le> ledger_bytes lay_format a"
      using rows_counted [of "\<lambda>row. cell_row_bytes lay_format + cell_contents (snd row)" "ledger_root_rows a"]
      by (simp add: ledger_bytes_def archive_sizes)
    moreover have "set (ledger_root_rows a) \<subseteq> short_cells"
      using that(1) archived_rows_short(2) by (auto simp: ledger_roots_def ledger_root_def)
    ultimately show ?thesis using that(2) by (simp add: short_ledger_def)
  qed
  moreover have "length (lay_ledger a) \<le> ledger_bytes lay_format a" for a
    unfolding lay_ledger_def ledger_bytes_def
    by (rule lay_table_size) (simp add: case_prod_unfold lay_cell_size [simplified])
  ultimately show "sized (ledger_bytes lay_format) ledger_roots (\<lambda>a. ([lay_ledger a], short_ledger a))"
    by (simp add: sized_def)
qed

section \<open>Seals\<close>

primrec lay_store :: "StoreKind \<Rightarrow> bytes" where
  "lay_store StoreDirectory = ''d''"
| "lay_store StoreLedger = ''l''"
| "lay_store StoreTally = ''t''"
| "lay_store StoreAnnals = ''a''"

primrec lay_ref :: "ArchivedTableRef \<Rightarrow> bytes" where
  "lay_ref (ArchivedTableRef object object_bytes) =
     lay_fresh (archived_fresh object) @ lay_store (archived_store object) @ lay_nz object_bytes"

primrec lay_replay :: "ArchivedWalReplayPoint \<Rightarrow> bytes" where
  "lay_replay ArchivedGenesis = ''0''"
| "lay_replay (ArchivedThrough batch owner) = CHR ''1'' # lay_nz batch @ lay_nz owner"

definition lay_run :: "ArchivedSortedRun \<Rightarrow> bytes" where
  "lay_run run = counted lay_ref (archived_tables run)"

definition lay_tree :: "ArchivedTreeVersion \<Rightarrow> bytes" where
  "lay_tree tree = counted lay_run (archived_runs tree)"

definition lay_seal :: "ArchivedSeal \<Rightarrow> bytes" where
  "lay_seal a = octets_list (archived_seal_partition a) @ lay_nz (archived_seal_generation a)
     @ lay_replay (archived_seal_replay a) @ lay_tree (archived_seal_directory a) @ lay_tree (archived_seal_ledger a)"

definition short_runs :: "ArchivedSortedRun set" where
  "short_runs = {run. length (archived_tables run) < 4294967296}"

definition short_trees :: "ArchivedTreeVersion set" where
  "short_trees = {tree. length (archived_runs tree) < 4294967296 \<and> set (archived_runs tree) \<subseteq> short_runs}"

definition short_seal :: "ArchivedSeal \<Rightarrow> bool" where
  "short_seal a \<longleftrightarrow> archived_seal_directory a \<in> short_trees \<and> archived_seal_ledger a \<in> short_trees"

lemma code_store: "prefix_code UNIV lay_store"
  unfolding prefix_code_def
proof (intro ballI allI impI)
  fix x y r s
  assume "lay_store x @ r = lay_store y @ s"
  then show "x = y \<and> r = s" by (cases x; cases y) simp_all
qed

lemma code_ref: "prefix_code UNIV lay_ref"
  unfolding prefix_code_def
proof (intro ballI allI impI)
  fix x y r s
  assume "lay_ref x @ r = lay_ref y @ s"
  then show "x = y \<and> r = s"
    by (cases x; cases y; cases "archived_object x"; cases "archived_object y")
      (simp add: prefix_codeD [OF code_fresh] prefix_codeD [OF code_store] prefix_codeD [OF code_nz])
qed

lemma code_replay: "prefix_code UNIV lay_replay"
  unfolding prefix_code_def
proof (intro ballI allI impI)
  fix x y r s
  assume "lay_replay x @ r = lay_replay y @ s"
  then show "x = y \<and> r = s" by (cases x; cases y) (auto simp: layout_codes)
qed

lemma prefix_code_field:
  assumes "prefix_code X enc" "\<And>x y. f x = f y \<Longrightarrow> x = y"
  shows "prefix_code {x. f x \<in> X} (\<lambda>x. enc (f x))"
  unfolding prefix_code_def using assms(2) by (auto simp: prefix_codeD [OF assms(1)])

lemma code_run: "prefix_code short_runs lay_run"
proof -
  have "lay_run = (\<lambda>run. counted lay_ref (archived_tables run))" by (rule ext) (rule lay_run_def)
  with prefix_code_field [OF prefix_code_counted [OF code_ref], of archived_tables] ArchivedSortedRun.expand
  show ?thesis by (simp add: short_runs_def)
qed

lemma code_tree: "prefix_code short_trees lay_tree"
proof -
  have "lay_tree = (\<lambda>tree. counted lay_run (archived_runs tree))" by (rule ext) (rule lay_tree_def)
  with prefix_code_field [OF prefix_code_counted [OF code_run], of archived_runs] ArchivedTreeVersion.expand
  show ?thesis by (simp add: short_trees_def)
qed

lemma lay_seal_faithful: "rkyv_faithful (\<lambda>a. ([lay_seal a], short_seal a)) (lay_read short_seal lay_seal)"
proof (rule lay_read_faithful)
  have octets: "length (octets_list q) = 16" for q using octets_list [of q] by simp
  fix a b
  assume "short_seal a" "short_seal b" "lay_seal a = lay_seal b"
  then show "a = b"
    using prefix_codeD [OF code_tree, of _ _ "[]" "[]"]
    by (intro ArchivedSeal.equality)
      (auto simp: lay_seal_def short_seal_def octets octets_list_inject layout_codes prefix_codeD [OF code_replay]
        prefix_codeD [OF code_tree])
next
  show "lay_seal a \<noteq> []" for a using octets_list [of "archived_seal_partition a"] by (auto simp: lay_seal_def)
qed

lemma lay_tree_size:
  "length (lay_tree tree) \<le> vec_bytes lay_format + tree_contents lay_format tree"
  "tree_contents lay_format tree < 2 ^ 31 \<Longrightarrow> tree \<in> short_trees"
proof -
  let ?charge = "\<lambda>run. vec_bytes lay_format + length (archived_tables run) * table_ref_bytes lay_format"
  have ref: "length (lay_ref t) = table_ref_bytes lay_format" for t
  proof (cases t)
    case (ArchivedTableRef object n)
    moreover have "length (lay_store store) = 1" for store by (cases store) simp_all
    ultimately show ?thesis by (simp add: length_lay_fresh lay_field_sizes(1) archive_sizes lay_format_def)
  qed
  have "length (concat (map lay_ref ts)) = length ts * table_ref_bytes lay_format" for ts
    by (induction ts) (simp_all add: ref)
  then have run: "length (lay_run run) \<le> ?charge run" for run
    by (simp add: lay_run_def counted_def lay_format_def del: digits.simps)
  show "length (lay_tree tree) \<le> vec_bytes lay_format + tree_contents lay_format tree"
    using length_concat_rows [of lay_run ?charge "archived_runs tree", OF run]
    by (simp add: lay_tree_def counted_def tree_contents_def lay_format_def del: digits.simps)
  assume small: "tree_contents lay_format tree < 2 ^ 31"
  have "length (archived_runs tree) \<le> tree_contents lay_format tree"
    unfolding tree_contents_def by (rule rows_counted) (simp add: lay_format_def)
  moreover have "length (archived_tables run) \<le> tree_contents lay_format tree" if "run \<in> set (archived_runs tree)" for run
  proof -
    have "length (archived_tables run) \<le> ?charge run" by (simp add: archive_sizes lay_format_def)
    also have "\<dots> \<le> tree_contents lay_format tree"
      unfolding tree_contents_def using that by (intro member_le_sum_list) auto
    finally show ?thesis .
  qed
  ultimately show "tree \<in> short_trees" using small by (fastforce simp: short_trees_def short_runs_def)
qed

lemma lay_seal_sized: "sized (seal_bytes lay_format) (range archive_seal) (\<lambda>a. ([lay_seal a], short_seal a))"
proof -
  have octets: "length (octets_list q) = 16" for q using octets_list [of q] by simp
  have replay: "length (lay_replay r) \<le> 17" for r by (cases r) (simp_all add: lay_field_sizes(1))
  have "length (lay_seal a) \<le> seal_bytes lay_format a" for a
    using lay_tree_size(1) [of "archived_seal_directory a"] lay_tree_size(1) [of "archived_seal_ledger a"]
      replay [of "archived_seal_replay a"]
    by (simp add: lay_seal_def seal_bytes_def octets lay_field_sizes(1) lay_format_def)
  moreover have "short_seal a" if "seal_bytes lay_format a < 2 ^ 31" for a
    using that by (simp add: short_seal_def seal_bytes_def lay_tree_size(2))
  ultimately show ?thesis by (simp add: sized_def)
qed

section \<open>A preparer and its host\<close>

definition layout_preparer :: Preparer where
  "layout_preparer =
     \<lparr> prep_serialize_directory = (\<lambda>a. ([lay_directory a], short_directory a)),
       prep_serialize_ledger = (\<lambda>a. ([lay_ledger a], short_ledger a)),
       prep_directory_row_size = directory_row_bytes lay_format, prep_ledger_row_size = cell_row_bytes lay_format,
       prep_room = (\<lambda>_ _. True), prep_diff_directory = key_diff, prep_diff_ledger = key_diff,
       prep_seal = encode_seal (\<lambda>a. ([lay_seal a], short_seal a)) (\<lambda>_ _. True) \<rparr>"

definition layout_host :: "(string, bytes) fmap Host" where
  "layout_host = bare_host \<lparr> host_access_directory := lay_read short_directory lay_directory,
     host_access_ledger := lay_read short_ledger lay_ledger \<rparr>"

lemma layout_preparer_tables: "tables_faithful layout_host layout_preparer"
  using lay_tables_faithful
  by (simp add: tables_faithful_def layout_host_def layout_preparer_def bare_host_def memory_host_def allocates_def)

lemma layout_preparer_bounded: "tables_bounded layout_preparer"
  using sized_tables_bounded [OF lay_compact, of layout_preparer] lay_tables_sized by (simp add: layout_preparer_def)

lemma layout_preparer_ok: "preparer_ok layout_host layout_preparer"
proof -
  have "diff_exact (prep_diff_directory layout_preparer)" "diff_exact (prep_diff_ledger layout_preparer)"
    by (simp_all add: layout_preparer_def key_diff_exact)
  moreover have "\<exists>bs. prep_seal layout_preparer s = Inr bs \<and> bs \<noteq> [] \<and> length bs \<le> SEAL_ENCODED_BYTES_MAX"
    if "seal_ok s" "bootstrap_bounded s" for s
    using bounded_seal_encodes [OF lay_seal_faithful lay_compact lay_seal_sized memory_allocates that]
    by (simp add: layout_preparer_def)
  ultimately show ?thesis
    using layout_preparer_bounded layout_preparer_tables by (simp add: preparer_ok_def)
qed

interpretation layout_directory: table_encoder "prepared_directory layout_preparer part" StoreDirectory
  directory_charge "\<lambda>_. True" "directory_decodes layout_host part" for part
  by (rule directory_encoder [OF layout_preparer_bounded layout_preparer_tables])

interpretation layout_ledger: table_encoder "prepared_ledger layout_preparer part" StoreLedger
  ledger_charge "cell_representable (host_from_nanosecond layout_host) \<circ> snd" "ledger_decodes layout_host part" for part
  by (rule ledger_encoder [OF layout_preparer_bounded layout_preparer_tables])

text \<open>The checkpoint of the one-stream forest over an empty Seal, its tables collected in a list.\<close>

definition sample_input :: CheckpointInput where
  "sample_input = \<lparr> input_ticket = CheckpointTicket (SealGeneration (nz_of 2)) sample_batch
       (AttemptId (SealGeneration (nz_of 2)) 0),
     input_source = sample_claimed, input_base = forest_empty, input_snapshot = sample_after \<rparr>"

definition collect_table :: "EncodedTable \<Rightarrow> EncodedTable list \<Rightarrow> bool \<times> EncodedTable list" where
  "collect_table table s = (True, s @ [table])"

lemma collect_offers: "offer (\<lambda>table s. Some (collect_table table s)) tables s = Some (True, s @ tables)"
  by (induction tables arbitrary: s) (simp_all add: collect_table_def)

lemma sample_claimed_empty:
  "seal_directory sample_claimed = tree_empty" "seal_ledger sample_claimed = tree_empty"
  "seal_replay sample_claimed = ReplayGenesis" "seal_tables sample_claimed = []"
  by (simp_all add: sample_claimed_def sample_seal_def seal_tables_def tree_tables_def tree_empty_def)

lemma sample_input_ok: "input_ok sample_input" "forest_representable (host_from_nanosecond layout_host) sample_after"
proof -
  have "forest_inv sample_after"
    using forest_inv_created [OF forest_inv_empty] sample_empty
    by (simp add: sample_after_def forest_resolve_def bound_defs)
  moreover have "seal_ok sample_claimed"
    using sample_claimed_fields(2) by (simp add: seal_ok_def sample_claimed_empty tree_ok_def tree_empty_def bound_defs)
  moreover have "bootstrap_bounded sample_claimed"
    by (simp add: bootstrap_bounded_def sample_claimed_empty)
  ultimately show "input_ok sample_input"
    using forest_inv_empty
    by (simp add: input_ok_def sample_input_def sample_claimed_fields sample_claimed_empty forest_empty_def
        replay_batch_def)
  show "forest_representable (host_from_nanosecond layout_host) sample_after"
    by (simp add: forest_representable_def sample_after_def created_forest_def forest_empty_def expiry_representable_def)
qed

theorem checkpoint_holds_snapshot_witness:
  "\<exists>tables prepared.
     prepare_checkpoint layout_preparer sample_input (\<lambda>table s. Some (collect_table table s)) []
       = Some (Inr (Some prepared), tables)
     \<and> seal_ok (prepared_successor prepared)
     \<and> seal_generation (prepared_successor prepared) = SealGeneration (nz_of 3)"
proof -
  have "seal_generation_successor (seal_generation (input_source sample_input)) = Inr (SealGeneration (nz_of 3))"
    by (simp add: sample_input_def sample_claimed_fields seal_gen.successor_Inr)
  from checkpoint_holds_snapshot [OF layout_preparer_ok sample_input_ok(1) _ this, of _ collect_table "[]"]
  show ?thesis
    using sample_input_ok(2) by (fastforce simp: collect_offers sample_input_def)
qed

section \<open>The contracts at the layout\<close>

text \<open>
  The layout keeps every law at once. A Seal that selects a table and a RUN of one fact are encoded by
  it, as the contracts promise.
\<close>

definition one_table_seal :: Seal where
  "one_table_seal = sample_claimed \<lparr> seal_directory := TreeVersion [SortedRun
     [TableRef (TableObjectId (FreshIdentity (SealGeneration (nz_of 2)) (AttemptId seal_generation_genesis 0) 0) StoreDirectory) nz_min]] \<rparr>"

lemma one_table_seal_ok: "seal_ok one_table_seal" "bootstrap_bounded one_table_seal"
proof -
  have "seal_valid one_table_seal"
    by (simp add: seal_valid_iff one_table_seal_def sample_claimed_fields sample_claimed_empty seal_tables_def tree_tables_def
        table_fits_def tree_empty_def seal_generation_genesis_def nz_eq_iff u64_max_def)
  then show "seal_ok one_table_seal"
    by (simp add: seal_ok_def tree_ok_def run_ok_def table_ref_ok_def fresh_ok_def fresh_identity_ok_def one_table_seal_def
        sample_claimed_empty tree_empty_def bound_defs u64_max_def less_SealGeneration_def seal_generation_genesis_def)
  show "bootstrap_bounded one_table_seal"
    by (simp add: bootstrap_bounded_def one_table_seal_def seal_tables_def tree_tables_def sample_claimed_empty
        tree_empty_def bound_defs)
qed

theorem codecs_meet_machine_contracts_witness:
  "(\<exists>bs. encode_wal lay_serialize (\<lambda>_ _. True) sample_run = Inr bs \<and> bs \<noteq> [] \<and> length bs \<le> WAL_ENCODED_BYTES_MAX)
   \<and> (\<exists>bs. encode_seal (\<lambda>a. ([lay_seal a], short_seal a)) (\<lambda>_ _. True) one_table_seal = Inr bs
        \<and> bs \<noteq> [] \<and> length bs \<le> SEAL_ENCODED_BYTES_MAX)"
proof -
  note contracts = codecs_meet_machine_contracts [OF lay_compact memory_allocates lay_faithful lay_sized
      lay_seal_faithful lay_seal_sized]
  have "wal_body sample_run = WalRun [sample_fact]" by (simp add: sample_run_fields)
  moreover have "length [sample_fact] \<le> WAL_RUN_FACTS_MAX"
      "WAL_RUN_FIXED_ENCODED_BYTES_MAX + sum_list (map estimated_encoded_bytes [sample_fact]) \<le> WAL_ENCODED_BYTES_MAX"
    using sample_small by (simp_all add: bound_defs)
  ultimately have "\<exists>bs. encode_wal lay_serialize (\<lambda>_ _. True) sample_run = Inr bs \<and> bs \<noteq> [] \<and> length bs \<le> WAL_ENCODED_BYTES_MAX"
    using contracts unfolding wal_encoder_ok_def by blast
  with contracts one_table_seal_ok show ?thesis by blast
qed

theorem checkpoint_accounting_is_sound_witness:
  "preparer_ok layout_host layout_preparer
   \<and> (\<exists>bs. prep_seal layout_preparer one_table_seal = Inr bs \<and> length bs \<le> SEAL_ENCODED_BYTES_MAX)"
proof -
  have "preparer_ok layout_host layout_preparer"
    by (rule checkpoint_accounting_is_sound [OF lay_compact layout_preparer_tables _ _ _ _ _ _ lay_seal_faithful lay_seal_sized])
      (simp_all add: layout_preparer_def lay_tables_sized key_diff_exact)
  with one_table_seal_ok show ?thesis unfolding preparer_ok_def by blast
qed

end
