(* ===== verification/Spec2Isabelle.thy ===== *)
theory Spec2Isabelle
  imports Bootstrap_Run Memory_Run Table_Layout
begin

text \<open>
  StromDB: a verification development for the storage core of the crates under \<open>src/crates\<close>.

  \<^bold>\<open>The program.\<close> StromDB keeps durable streams in an object store. One writer owns a partition. It
  claims the partition by creating the next Seal (a manifest of tables with a replay cut), fences the
  previous writer with a FENCE object in the WAL, replays the WAL suffix, and then appends RUN objects.
  Checkpoints write the resident state into tables and publish a successor Seal. Two pure state
  machines, \<open>BootstrapMachine\<close> and \<open>WriterMachine\<close>, decide; interpreters execute their effects on
  typed stores, which rest on an object-store adapter.

  \<^bold>\<open>Conventions.\<close> A panic (a failed assertion, \<open>expect\<close> or \<open>unwrap\<close>) is \<open>None\<close>; a \<open>Result\<close> is a
  sum with the error on the left; \<open>u64\<close> and \<open>usize\<close> are natural numbers below \<open>u64_max\<close> with checked or
  saturating operations written out; \<open>i128\<close> is a word; strings and bytes are lists of characters.
  Operations on the store pass a world along.

  \<^bold>\<open>Theories and sources.\<close>
  \<^item> \<open>Strom_Prelude\<close>, \<open>Rust_Str\<close>: options, results, checked arithmetic, finite maps, \<open>str\<close> functions.
  \<^item> \<open>Coordinates\<close>: \<open>coordinate.rs\<close>, \<open>owner.rs\<close>, \<open>bounds.rs\<close> of \<open>strom-storage-domain\<close>.
  \<^item> \<open>Stream_Domain\<close>: the validated vocabulary of \<open>strom-domain\<close>.
  \<^item> \<open>Storage_Objects\<close>: \<open>partition.rs\<close>, \<open>table.rs\<close>, \<open>directory.rs\<close>, \<open>ledger.rs\<close>, \<open>wal.rs\<close>, \<open>seal.rs\<close>,
    \<open>candidate.rs\<close>.
  \<^item> \<open>Key_Spelling\<close>: \<open>spelling.rs\<close> and the text of partition identities.
  \<^item> \<open>Archive\<close>, \<open>Codecs\<close>, \<open>Codec_Theorems\<close>, \<open>Sst\<close>: \<open>archive.rs\<close>, \<open>archive/adapter.rs\<close>, \<open>wal/codec.rs\<close>,
    \<open>seal/codec.rs\<close>, \<open>sst.rs\<close> and its two tables. \<open>Archive_Format\<close> has the sizes of archived structures
    and that the estimates of \<open>bounds.rs\<close> and \<open>wal/fact.rs\<close> dominate them; \<open>Codec_Contracts\<close> that the
    codecs keep the contracts of the machines; \<open>Wal_Layout\<close> and \<open>Table_Layout\<close> give concrete layouts.
  \<^item> \<open>Suffix\<close>, \<open>Forest\<close>: \<open>suffix.rs\<close>, \<open>forest.rs\<close> of \<open>strom-storage-protocol\<close>, and the reader view of
    \<open>engine.rs\<close>.
  \<^item> \<open>Writer\<close> with \<open>Writer_Invariant\<close>, \<open>Writer_Properties\<close>, \<open>Writer_History\<close>, \<open>Writer_Theorems\<close>: \<open>writer.rs\<close>.
  \<^item> \<open>Bootstrap\<close> with \<open>Bootstrap_Invariant\<close>, \<open>Bootstrap_Recovery\<close>, \<open>Bootstrap_Theorems\<close>: \<open>bootstrap.rs\<close>;
    \<open>Bootstrap_Run\<close> evaluates it on a store with tables and a log, and \<open>Restart\<close> composes both machines.
  \<^item> \<open>Object_Store\<close>: the adapter of \<open>strom-object-store\<close>.
  \<^item> \<open>Typed_Store\<close>, \<open>Store_Evidence\<close>: \<open>store.rs\<close>, \<open>store/seal.rs\<close>, \<open>store/wal.rs\<close>, \<open>store/table.rs\<close> of
    \<open>strom-storage-engine\<close>.
  \<^item> \<open>Bootstrap_Driver\<close>, \<open>Driver_Theorems\<close>, \<open>Memory_Run\<close>: the interpreter \<open>bootstrap.rs\<close> of the engine.
  \<^item> \<open>Checkpoint\<close>, \<open>Checkpoint_Theorems\<close>, \<open>Checkpoint_Seal\<close>, \<open>Checkpoint_Prepare\<close>:
    \<open>checkpoint/prepare.rs\<close>.

  \<^bold>\<open>What is shown.\<close> Neither machine panics on a reachable state and an admissible event. A reply that
  reports a write belongs to a durable RUN, in order; replies are neither lost nor doubled; published
  views are durable. A completed bootstrap recovers the newest-wins merge of the Seal's tables with
  the replayed suffix on top, and hands the writer an idle machine. A restart keeps every durable
  write. The engine's bootstrap loop returns over every store that keeps its promises, and what it
  read was in the store. The evidence of the adapter and of the typed stores is true of the store, and
  a Seal has at most one author. Codecs and spellings round-trip and accept nothing else. A prepared
  checkpoint holds exactly the frozen snapshot. The size estimates by which the writer admits facts
  and a checkpoint cuts tables cover the archives, so that an admitted RUN, a cut table and a Seal
  within the bootstrap limits always encode. A list page has no gaps and its continuation selects
  exactly the rest.

  \<^bold>\<open>Bounds and loops.\<close> A bootstrap run handles at most 5128 events and two for each lost genesis race;
  the bound follows from 1024 tables and a WAL suffix of 1024 coordinates. The interpreter's loop is a
  partial function, where not returning is \<open>None\<close>; that it returns is a theorem, since a genesis race
  is lost at most once when Seals are permanent. Every other loop is a total function.

  \<^bold>\<open>Parameters.\<close> Code that the repository only calls is an argument, and what is relied on is a named
  hypothesis: the serializer and checked access of \<open>rkyv\<close> (\<open>rkyv_faithful\<close>) and the size of its
  archives in the format that the features of \<open>Cargo.toml\<close> select (\<open>compact\<close>, \<open>sized\<close>), the allocator (\<open>allocates\<close>), \<open>jiff\<close> timestamps (\<open>nanosecond_exact\<close>), the
  difference iterator of \<open>imbl\<close> (\<open>diff_exact\<close>), the \<open>object_store\<close> trait (\<open>trait_ok\<close>), the
  lexicographic listings of the selected backends (\<open>lists_in_order\<close>; both together are \<open>backend_ok\<close>),
  other writers of the store (\<open>immutable\<close>, \<open>seals_permanent\<close>), the text of diagnostics and the drawn
  random bytes. Each has a concrete instance: an in-memory store, key-by-key differences, and byte
  layouts. The machines and checkpoint preparation are verified for any encoders that keep
  \<open>wal_encoder_ok\<close>, \<open>boot_encoders_ok\<close> and \<open>preparer_ok\<close>, which \<open>Codec_Contracts\<close> discharges for the
  codecs. Runs of the writer machine assume that its counter of checkpoint attempts stays below
  \<open>u64::MAX\<close>.

  \<^bold>\<open>Not modelled.\<close> The \<open>tokio\<close> shells: the writer's select loop, the channel pipeline around
  preparation and the best-effort collection after a checkpoint (the machine and the store calls they
  make are modelled). The engine facade, the HTTP server, clocks and randomness are glue over the
  operating system and frameworks. Proptest strategies and the fault-injecting store are test support.
  The repositories under \<open>src/reference\<close> are third-party checkouts that no crate builds.
\<close>

section \<open>Crash recovery\<close>

text \<open>
  C1. Durable writes survive a restart. A bootstrap completes, the writer machine built from its
  recovery runs, and a second bootstrap completes under a later claim of the same checkpoint. If
  tables and WAL coordinates are never overwritten, then the second bootstrap fences above the
  writer's durable head, its recovered state is the writer's durable forest with only the objects
  above that head replayed on top, and every path the writer saw occupied durably is still occupied
  by the same stream; a deleted path stays deleted.
\<close>

theorem durable_writes_survive_restart:
  assumes "boot_encoders_ok enc_seal enc_wal" "wal_encoder_ok enc_wal"
    and "boot_run enc_seal enc_wal n\<^sub>1 k\<^sub>1 state\<^sub>1 seen\<^sub>1 (Some (BootComplete r\<^sub>1))"
    and "1 \<le> flush_buffer_bytes" "flush_buffer_bytes \<le> WAL_ENCODED_BYTES_MAX"
    and "from_recovery r\<^sub>1 interval flush_buffer_bytes = Some m\<^sub>0" "writer_run enc_wal m\<^sub>0 m h"
    and "boot_run enc_seal enc_wal n\<^sub>2 k\<^sub>2 state\<^sub>2 seen\<^sub>2 (Some (BootComplete r\<^sub>2))"
    and "reads_from contents wal_at seen\<^sub>1" "reads_from contents wal_at seen\<^sub>2"
    and "holds_log enc_wal wal_at (obs_log h)"
    and "seal_generation (recovery_seal r\<^sub>1) < seal_generation (recovery_seal r\<^sub>2)"
    and "same_checkpoint (recovery_seal r\<^sub>1) (recovery_seal r\<^sub>2)"
  shows "batch_get (wm_durable_batch m) < batch_get (recovery_durable_batch r\<^sub>2)
     \<and> replay (forest_of (wm_durable m)) (wal_log (map wal_at
           [Suc (batch_get (wm_durable_batch m))..<Suc (batch_get (recovery_durable_batch r\<^sub>2))]))
         = Some (Inr (recovery_durable r\<^sub>2))
     \<and> occupancy_kept (forest_of (wm_durable m)) (recovery_durable r\<^sub>2)"
  using restart_keeps_durable [OF assms] .

theorem durable_writes_survive_restart_witness:
  "\<exists>m. writer_run one_byte sample_machine m sample_observed
     \<and> occupancy_kept (forest_of (wm_durable m)) (recovery_durable restart_recovery)
     \<and> forest_resolve (forest_of (wm_durable m)) (path_of ''a'') = Some (DirLive sample_uid)"
proof -
  obtain m where m: "writer_run one_byte sample_machine m sample_observed"
      "wm_durable m = SharedForest 1 sample_after"
    using sample_runs(2) by blast
  let ?wal_at = "\<lambda>n::nat. if n = 1 then sample_fence else if n = 2 then sample_run else restart_fence"
  have reads: "reads_from contents ?wal_at sample_read" "reads_from contents ?wal_at restart_read" for contents
    by (simp_all add: reads_from_def sample_read_def restart_read_def sample_fence_def restart_fence_def
        sample_run_fields)
  have holds: "holds_log one_byte ?wal_at (obs_log sample_observed)"
    by (auto simp: holds_log_def sample_observed_def observed_run_def sample_wal_def encoded_wal_new_def one_byte_def
        assert_candidate_bytes_def sample_run_fields bind_eq_Some_conv split: if_split_asm)
  have "occupancy_kept (forest_of (wm_durable m)) (recovery_durable restart_recovery)"
    using durable_writes_survive_restart [OF sample_encoders one_byte_ok sample_boot_runs(2) _ _
        sample_machine_recovered m(1) restart_run reads holds]
    by (simp add: bound_defs restart_recovery_def restart_seal_def sample_recovery_def
        same_checkpoint_def less_SealGeneration_def)
  with m show ?thesis
    by (auto simp: sample_after_def created_forest_def forest_resolve_def)
qed

end
